(* ===== verification/Prelude.thy ===== *)
theory Prelude
  imports Complex_Main "HOL-Library.AList"
begin

text \<open>
  Shared vocabulary of the development: Python exceptions as values, Python dictionaries as
  association lists in insertion order (the library's \<open>AList.update\<close> keeps the place of an
  existing key and appends a new one, as a dict does), bit tests on flag words, and the generic
  facts on lists that several components use. The collections \<open>res_simps\<close> and \<open>dict_simps\<close>
  gather what the component proofs hand to the simplifier.
\<close>

named_theorems res_simps \<open>evaluation of the result monad\<close>
named_theorems dict_simps \<open>lookups after dictionary updates\<close>

subsection \<open>Exceptions as values\<close>

datatype py_error =
    ValueError string
  | RuntimeError string
  | TypeError string
  | NotImplementedError string
  | KeyError string
  | IndexError string
  | AssertionError string
  | ZeroDivisionError string

type_synonym 'a result = "py_error + 'a"

definition bind_res :: "'a result \<Rightarrow> ('a \<Rightarrow> 'b result) \<Rightarrow> 'b result" where
  "bind_res r f = (case r of Inl e \<Rightarrow> Inl e | Inr x \<Rightarrow> f x)"

lemma bind_res_Inl [res_simps, simp]: "bind_res (Inl e) f = Inl e"
  by (simp add: bind_res_def)

lemma bind_res_Inr [res_simps, simp]: "bind_res (Inr x) f = f x"
  by (simp add: bind_res_def)

lemma bind_res_eq_Inr [res_simps]:
  "bind_res r f = Inr y \<longleftrightarrow> (\<exists>x. r = Inr x \<and> f x = Inr y)"
  by (cases r) auto

lemma bind_resE:
  assumes "bind_res r f = Inr y"
  obtains x where "r = Inr x" "f x = Inr y"
  using assms by (auto simp: bind_res_eq_Inr)

lemma bind_res_eq_Inl [res_simps]:
  "bind_res r f = Inl e \<longleftrightarrow> r = Inl e \<or> (\<exists>x. r = Inr x \<and> f x = Inl e)"
  by (cases r) auto

text \<open>A list comprehension whose element may raise: the first error stops it.\<close>

fun map_res :: "('a \<Rightarrow> 'b result) \<Rightarrow> 'a list \<Rightarrow> 'b list result" where
  "map_res f [] = Inr []"
| "map_res f (x # xs) = bind_res (f x) (\<lambda>y. bind_res (map_res f xs) (\<lambda>ys. Inr (y # ys)))"

lemma map_res_cong [fundef_cong]:
  "xs = ys \<Longrightarrow> (\<And>x. x \<in> set ys \<Longrightarrow> f x = g x) \<Longrightarrow> map_res f xs = map_res g ys"
  by (induction xs arbitrary: ys) auto

lemma map_res_length: "map_res f xs = Inr ys \<Longrightarrow> length ys = length xs"
  by (induction xs arbitrary: ys) (auto simp: bind_res_eq_Inr)

lemma map_res_nth: "map_res f xs = Inr ys \<Longrightarrow> i < length xs \<Longrightarrow> f (xs ! i) = Inr (ys ! i)"
proof (induction xs arbitrary: ys i)
  case Nil
  then show ?case by simp
next
  case (Cons x xs)
  then show ?case by (cases i) (auto simp: bind_res_eq_Inr)
qed

subsection \<open>Dictionaries\<close>

text \<open>Dictionaries in insertion order: \<open>map_of\<close> reads, \<open>AList.update\<close> stores,
  \<open>AList.delete\<close> pops.\<close>

type_synonym ('k, 'v) dict = "('k \<times> 'v) list"

abbreviation dget :: "('k, 'v) dict \<Rightarrow> 'k \<Rightarrow> 'v option" where
  "dget \<equiv> map_of"

abbreviation dput :: "'k \<Rightarrow> 'v \<Rightarrow> ('k, 'v) dict \<Rightarrow> ('k, 'v) dict" where
  "dput \<equiv> AList.update"

abbreviation dpop :: "'k \<Rightarrow> ('k, 'v) dict \<Rightarrow> ('k, 'v) dict" where
  "dpop \<equiv> AList.delete"

definition dkeys :: "('k, 'v) dict \<Rightarrow> 'k list" where
  "dkeys d = map fst d"

definition has_key :: "('k, 'v) dict \<Rightarrow> 'k \<Rightarrow> bool" where
  "has_key d k \<longleftrightarrow> k \<in> set (dkeys d)"

lemma dget_dput [dict_simps, simp]:
  "dget (dput k v d) k' = (if k' = k then Some v else dget d k')"
  by (simp add: update_conv')

lemma dget_dpop [dict_simps, simp]:
  "dget (dpop k d) k' = (if k' = k then None else dget d k')"
  by (simp add: delete_conv')

lemma dget_dkeys: "k \<in> set (dkeys d) \<longleftrightarrow> (\<exists>v. dget d k = Some v)"
  by (simp add: dkeys_def) (metis map_of_eq_None_iff not_Some_eq)

lemma has_key_dget [dict_simps]: "has_key d k \<longleftrightarrow> dget d k \<noteq> None"
  by (auto simp: has_key_def dget_dkeys)

lemma distinct_dput [intro]: "distinct (dkeys d) \<Longrightarrow> distinct (dkeys (dput k v d))"
  by (simp add: dkeys_def distinct_update)

lemma distinct_dpop [intro]: "distinct (dkeys d) \<Longrightarrow> distinct (dkeys (dpop k d))"
  by (simp add: dkeys_def distinct_delete)

lemma set_dkeys_dput [dict_simps]: "set (dkeys (dput k v d)) = insert k (set (dkeys d))"
  by (auto simp: dkeys_def update_keys)

lemma set_dkeys_dpop [dict_simps]: "set (dkeys (dpop k d)) = set (dkeys d) - {k}"
  by (simp add: dkeys_def) (metis delete_keys set_removeAll image_set)

lemma dput_fresh: "dget d k = None \<Longrightarrow> dput k v d = d @ [(k, v)]"
  by (induction d) (auto split: if_splits)

text \<open>The newest entry of a dictionary, \<open>next(reversed(d.values()), None)\<close>.\<close>

definition newest_value :: "('k, 'v) dict \<Rightarrow> 'v option" where
  "newest_value d = (if d = [] then None else Some (snd (last d)))"

lemma newest_value_fresh: "dget d k = None \<Longrightarrow> newest_value (dput k v d) = Some v"
  by (simp add: newest_value_def dput_fresh)

subsection \<open>The environment\<close>

type_synonym env = "string \<Rightarrow> string option"

subsection \<open>Flag words\<close>

text \<open>\<open>w & 2^b\<close> on a nonnegative Python integer, as a truth value.\<close>

definition flag :: "nat \<Rightarrow> int \<Rightarrow> bool" where
  "flag b w \<longleftrightarrow> bit w b"

text \<open>Python's \<open>x or y\<close> on an optional string.\<close>

definition or_str :: "string option \<Rightarrow> string \<Rightarrow> string" where
  "or_str v d = (case v of None \<Rightarrow> d | Some s \<Rightarrow> if s = [] then d else s)"

text \<open>A lookup with a default, \<open>d.get(k, dflt)\<close>.\<close>

definition or_else :: "'a option \<Rightarrow> 'a \<Rightarrow> 'a" where
  "or_else v d = (case v of Some x \<Rightarrow> x | None \<Rightarrow> d)"

lemma or_else_simps [simp]: "or_else (Some x) d = x" "or_else None d = d"
  by (simp_all add: or_else_def)

lemma or_else_the: "v \<noteq> None \<Longrightarrow> or_else v d = the v"
  by auto

subsection \<open>Lists\<close>

text \<open>The last element satisfying a predicate, what a loop that overwrites a variable keeps.\<close>

definition find_last :: "('a \<Rightarrow> bool) \<Rightarrow> 'a list \<Rightarrow> 'a option" where
  "find_last P xs = List.find P (rev xs)"

lemma find_last_Nil [simp]: "find_last P [] = None"
  by (simp add: find_last_def)

lemma find_append: "List.find P (xs @ ys) = (case List.find P xs of None \<Rightarrow> List.find P ys | r \<Rightarrow> r)"
  by (induction xs) auto

lemma find_last_snoc [simp]: "find_last P (xs @ [x]) = (if P x then Some x else find_last P xs)"
  by (simp add: find_last_def)

lemma find_last_Cons:
  "find_last P (x # xs) =
     (case find_last P xs of Some y \<Rightarrow> Some y | None \<Rightarrow> if P x then Some x else None)"
  by (auto simp: find_last_def find_append split: option.splits)

lemma find_SomeD: "List.find P xs = Some x \<Longrightarrow> x \<in> set xs \<and> P x"
  by (induction xs) (auto split: if_splits)

lemma find_last_SomeD: "find_last P xs = Some x \<Longrightarrow> x \<in> set xs \<and> P x"
  by (auto simp: find_last_def dest: find_SomeD)

lemma find_last_None: "find_last P xs = None \<longleftrightarrow> (\<forall>x \<in> set xs. \<not> P x)"
  by (auto simp: find_last_def find_None_iff)

lemma find_last_cong: "(\<And>x. x \<in> set xs \<Longrightarrow> P x = Q x) \<Longrightarrow> find_last P xs = find_last Q xs"
  unfolding find_last_def by (induction xs rule: rev_induct) auto

lemma sorted_list_of_set_mem [simp]: "finite A \<Longrightarrow> x \<in> set (sorted_list_of_set A) \<longleftrightarrow> x \<in> A"
  by simp

end
