(* ===== verification/Py_Text.thy ===== *)
theory Py_Text
  imports Prelude "HOL-Library.Char_ord"
begin

text \<open>
  The operations of Python's \<open>str\<close> the program uses, on characters read as the code points
  0 to 255: \<open>strip\<close>, \<open>lower\<close>, \<open>split\<close>, \<open>join\<close>, \<open>startswith\<close>, \<open>int(text)\<close>, \<open>str(int)\<close> and
  \<open>os.path.join\<close>. The round trip \<open>int(str(n)) = n\<close> is what the store keys and index lines of the
  other theories rely on.
\<close>

definition code_point :: "char \<Rightarrow> nat" where
  "code_point c = of_char c"

lemma code_point_inj [simp]: "code_point a = code_point b \<longleftrightarrow> a = b"
  by (simp add: code_point_def)

subsection \<open>White space and case\<close>

text \<open>\<open>str.isspace\<close> on one character below 256.\<close>

definition is_space :: "char \<Rightarrow> bool" where
  "is_space c = (let n = code_point c in
     9 \<le> n \<and> n \<le> 13 \<or> 28 \<le> n \<and> n \<le> 32 \<or> n = 133 \<or> n = 160)"

definition lstrip :: "string \<Rightarrow> string" where
  "lstrip s = dropWhile is_space s"

definition strip :: "string \<Rightarrow> string" where
  "strip s = rev (lstrip (rev (lstrip s)))"

definition lower_char :: "char \<Rightarrow> char" where
  "lower_char c = (let n = code_point c in
     if 65 \<le> n \<and> n \<le> 90 \<or> 192 \<le> n \<and> n \<le> 222 \<and> n \<noteq> 215 then char_of (n + 32) else c)"

definition lower :: "string \<Rightarrow> string" where
  "lower s = map lower_char s"

definition startswith :: "string \<Rightarrow> string \<Rightarrow> bool" where
  "startswith s p \<longleftrightarrow> take (length p) s = p"

text \<open>\<open>p in s\<close>: a substring test.\<close>

fun contains :: "string \<Rightarrow> string \<Rightarrow> bool" where
  "contains p [] = (p = [])"
| "contains p (c # cs) = (startswith (c # cs) p \<or> contains p cs)"

subsection \<open>split and join\<close>

text \<open>\<open>s.split()\<close>: the maximal runs of characters that are not white space.\<close>

fun words_acc :: "string \<Rightarrow> string \<Rightarrow> string list" where
  "words_acc w [] = (if w = [] then [] else [rev w])"
| "words_acc w (c # cs) =
     (if is_space c then (if w = [] then words_acc [] cs else rev w # words_acc [] cs)
      else words_acc (c # w) cs)"

definition split_ws :: "string \<Rightarrow> string list" where
  "split_ws s = words_acc [] s"

text \<open>\<open>s.split(c)\<close> for a one-character separator.\<close>

fun split_on :: "char \<Rightarrow> string \<Rightarrow> string list" where
  "split_on c [] = [[]]"
| "split_on c (x # xs) =
     (if x = c then [] # split_on c xs
      else case split_on c xs of [] \<Rightarrow> [[x]] | p # ps \<Rightarrow> (x # p) # ps)"

text \<open>\<open>s.split(c, 1)\<close> when \<open>c\<close> occurs in \<open>s\<close>.\<close>

definition split_first :: "char \<Rightarrow> string \<Rightarrow> string \<times> string" where
  "split_first c s = (takeWhile (\<lambda>x. x \<noteq> c) s, tl (dropWhile (\<lambda>x. x \<noteq> c) s))"

fun join :: "string \<Rightarrow> string list \<Rightarrow> string" where
  "join sep [] = []"
| "join sep [x] = x"
| "join sep (x # y # ys) = x @ sep @ join sep (y # ys)"

definition no_space :: "string \<Rightarrow> bool" where
  "no_space s \<longleftrightarrow> (\<forall>c \<in> set s. \<not> is_space c)"

lemma words_acc_append:
  "no_space w \<Longrightarrow> words_acc v (w @ cs) = words_acc (rev w @ v) cs"
  by (induction w arbitrary: v) (auto simp: no_space_def)

lemma is_space_blank [simp]: "is_space CHR '' ''"
  by (simp add: is_space_def code_point_def)

text \<open>Splitting a line joined from words without white space gives the words back.\<close>

lemma split_ws_join:
  assumes "\<forall>w \<in> set ws. no_space w \<and> w \<noteq> []"
  shows "split_ws (join '' '' ws) = ws"
  using assms
proof (induction ws rule: induct_list012)
  case 1
  then show ?case by (simp add: split_ws_def)
next
  case (2 w)
  then show ?case using words_acc_append[of w "[]" "[]"] by (simp add: split_ws_def)
next
  case (3 w v ws)
  then have "words_acc [] (w @ '' '' @ join '' '' (v # ws)) = w # words_acc [] (join '' '' (v # ws))"
    using words_acc_append[of w "[]" "'' '' @ join '' '' (v # ws)"] by simp
  with 3 show ?case by (simp add: split_ws_def)
qed

lemma split_on_not_Nil [simp]: "split_on c s \<noteq> []"
  by (cases s) (auto split: list.splits)

lemma split_first_join:
  "c \<notin> set k \<Longrightarrow> split_first c (k @ c # v) = (k, v)"
  unfolding split_first_def by (induction k) auto

subsection \<open>str(int) and int(text)\<close>

definition digit_char :: "nat \<Rightarrow> char" where
  "digit_char d = char_of (48 + d)"

function (sequential) nat_text :: "nat \<Rightarrow> string" where
  "nat_text n = (if n < 10 then [digit_char n] else nat_text (n div 10) @ [digit_char (n mod 10)])"
  by pat_completeness auto
termination
  by (relation "measure id") auto

declare nat_text.simps [simp del]

definition int_text :: "int \<Rightarrow> string" where
  "int_text i = (if i < 0 then ''-'' @ nat_text (nat (- i)) else nat_text (nat i))"

definition digit_value :: "char \<Rightarrow> nat option" where
  "digit_value c = (let n = code_point c in if 48 \<le> n \<and> n \<le> 57 then Some (n - 48) else None)"

text \<open>
  The digits of a base-ten literal: single underscores may stand between two digits. The flag
  says that the character before was a digit.
\<close>

fun digits_from :: "bool \<Rightarrow> nat \<Rightarrow> string \<Rightarrow> nat option" where
  "digits_from after acc [] = (if after then Some acc else None)"
| "digits_from after acc (c # cs) =
     (case digit_value c of
        Some d \<Rightarrow> digits_from True (10 * acc + d) cs
      | None \<Rightarrow> if c = CHR ''_'' \<and> after then digits_from False acc cs else None)"

text \<open>\<open>int(text)\<close>; \<open>None\<close> is the \<open>ValueError\<close>.\<close>

definition int_of_text :: "string \<Rightarrow> int option" where
  "int_of_text s =
     (case strip s of
        [] \<Rightarrow> None
      | c # cs \<Rightarrow>
          if c = CHR ''-'' then map_option (\<lambda>n. - int n) (digits_from False 0 cs)
          else if c = CHR ''+'' then map_option int (digits_from False 0 cs)
          else map_option int (digits_from False 0 (c # cs)))"

lemma digit_value_digit_char [simp]: "d < 10 \<Longrightarrow> digit_value (digit_char d) = Some d"
  by (simp add: digit_value_def digit_char_def code_point_def Let_def)

lemma digit_char_not_space [simp]: "d < 10 \<Longrightarrow> \<not> is_space (digit_char d)"
  by (simp add: is_space_def digit_char_def code_point_def Let_def)

lemma digit_char_not_sign [simp]:
  "d < 10 \<Longrightarrow> digit_char d \<noteq> CHR ''-''" "d < 10 \<Longrightarrow> digit_char d \<noteq> CHR ''+''"
  by (auto simp: digit_char_def dest!: arg_cong [of _ _ "of_char :: char \<Rightarrow> nat"])

lemma nat_text_not_Nil [simp]: "nat_text n \<noteq> []"
  by (subst nat_text.simps) simp

lemma digits_from_nat_text: "digits_from b 0 (nat_text n @ t) = digits_from True n t"
proof (induction n arbitrary: t rule: nat_text.induct)
  case (1 n)
  show ?case
  proof (cases "n < 10")
    case True
    then show ?thesis by (simp add: nat_text.simps[of n])
  next
    case False
    then have "digits_from b 0 (nat_text n @ t) = digits_from True (n div 10) (digit_char (n mod 10) # t)"
      using "1.IH"[OF False, of "digit_char (n mod 10) # t"] by (simp add: nat_text.simps[of n])
    then show ?thesis by simp
  qed
qed

lemma nat_text_digits: "c \<in> set (nat_text n) \<Longrightarrow> \<exists>d<10. c = digit_char d"
proof (induction n rule: nat_text.induct)
  case (1 n)
  show ?case
  proof (cases "n < 10")
    case True
    with "1.prems" show ?thesis by (auto simp: nat_text.simps[of n])
  next
    case False
    with "1.prems" have "c \<in> set (nat_text (n div 10)) \<or> c = digit_char (n mod 10)"
      by (auto simp: nat_text.simps[of n])
    with "1.IH"[OF False] show ?thesis by (metis mod_less_divisor zero_less_numeral)
  qed
qed

lemma no_space_nat_text [simp]: "no_space (nat_text n)"
  unfolding no_space_def by (metis nat_text_digits digit_char_not_space)

lemma no_space_int_text [simp]: "no_space (int_text i)"
  by (auto simp: int_text_def no_space_def is_space_def code_point_def)
     (metis no_space_def no_space_nat_text is_space_def code_point_def)+

lemma strip_no_space: "no_space s \<Longrightarrow> strip s = s"
proof -
  assume s: "no_space s"
  have "no_space t \<Longrightarrow> lstrip t = t" for t
    by (cases t) (auto simp: lstrip_def no_space_def)
  moreover have "no_space (rev s)" using s by (simp add: no_space_def)
  ultimately show ?thesis using s by (simp add: strip_def)
qed

theorem int_of_text_int_text [simp]: "int_of_text (int_text i) = Some i"
proof -
  have n: "digits_from False 0 (nat_text n) = Some n" for n
    using digits_from_nat_text[of False n "[]"] by simp
  show ?thesis
  proof (cases "i < 0")
    case True
    then show ?thesis
      using n[of "nat (- i)"] strip_no_space[OF no_space_int_text, of i]
      by (simp add: int_of_text_def int_text_def)
  next
    case False
    obtain c cs where t: "nat_text (nat i) = c # cs" by (cases "nat_text (nat i)") auto
    then have "c \<noteq> CHR ''-''" "c \<noteq> CHR ''+''"
      using nat_text_digits[of c "nat i"] by auto
    then show ?thesis
      using n[of "nat i"] strip_no_space[OF no_space_int_text, of i] False t
      by (simp add: int_of_text_def int_text_def)
  qed
qed

lemma int_text_inj [simp]: "int_text a = int_text b \<longleftrightarrow> a = b"
  by (metis int_of_text_int_text option.inject)

lemma int_text_not_Nil [simp]: "int_text i \<noteq> []"
  by (simp add: int_text_def)

subsection \<open>Paths\<close>

text \<open>\<open>os.path.join\<close> of two parts and \<open>os.path.dirname\<close> on a POSIX system.\<close>

definition path_join :: "string \<Rightarrow> string \<Rightarrow> string" where
  "path_join a b =
     (if startswith b ''/'' then b
      else if a = [] \<or> last a = CHR ''/'' then a @ b
      else a @ ''/'' @ b)"

definition dirname :: "string \<Rightarrow> string" where
  "dirname p =
     (let head = rev (dropWhile (\<lambda>c. c \<noteq> CHR ''/'') (rev p))
      in if list_all (\<lambda>c. c = CHR ''/'') head then head
         else rev (dropWhile (\<lambda>c. c = CHR ''/'') (rev head)))"

end
