(* ===== verification/FR_Config.thy ===== *)
theory FR_Config
  imports Py_Text
begin

text \<open>
  The settings of the flight recorder (\<^verbatim>\<open>distributed/flight_recorder.py\<close>, lines 125 to 182):
  environment variables with aliases, integers and truth values with defaults, and the
  durations derived from them. The environment is a function from names to optional values;
  seconds are exact rationals. \<open>config_simps\<close> unfolds every reader.
\<close>

definition DEFAULT_BUFFER_SIZE :: int where
  "DEFAULT_BUFFER_SIZE = 2000"

fun first_set :: "string option list \<Rightarrow> string option" where
  "first_set [] = None"
| "first_set (v # vs) = (case v of Some x \<Rightarrow> Some x | None \<Rightarrow> first_set vs)"

definition int_or :: "string option \<Rightarrow> int \<Rightarrow> int" where
  "int_or value dflt =
     (case value of
        None \<Rightarrow> dflt
      | Some s \<Rightarrow> (case int_of_text s of Some n \<Rightarrow> n | None \<Rightarrow> dflt))"

definition bool_or :: "string option \<Rightarrow> bool \<Rightarrow> bool" where
  "bool_or value dflt =
     (case value of
        None \<Rightarrow> dflt
      | Some s \<Rightarrow> lower (strip s) \<in> {''1'', ''true'', ''y'', ''yes'', ''on''})"

definition buffer_size :: "env \<Rightarrow> int" where
  "buffer_size env =
     (let size = first_set [env ''TORCH_FR_BUFFER_SIZE'', env ''TORCH_NCCL_TRACE_BUFFER_SIZE'']
      in max (int_or size DEFAULT_BUFFER_SIZE) 0)"

definition dump_on_timeout :: "env \<Rightarrow> bool" where
  "dump_on_timeout env = bool_or (env ''TORCH_NCCL_DUMP_ON_TIMEOUT'') True"

definition dump_wait_s :: "env \<Rightarrow> rat" where
  "dump_wait_s env =
     (let wait = int_or (env ''TORCH_NCCL_WAIT_TIMEOUT_DUMP_MILSEC'') 15000
      in of_int (max wait 0) / 1000)"

definition coord_check_s :: "env \<Rightarrow> rat" where
  "coord_check_s env = of_int (max (int_or (env ''TORCH_NCCL_COORD_CHECK_MILSEC'') 1000) 10) / 1000"

definition include_stack_traces :: "env \<Rightarrow> bool" where
  "include_stack_traces env = bool_or (env ''TORCH_INCLUDE_STACK_TRACE'') True"

definition include_only_active :: "env \<Rightarrow> bool" where
  "include_only_active env = bool_or (env ''TORCH_INCLUDE_ONLY_ACTIVE'') False"

text \<open>\<open>home_cache\<close> is what \<open>os.path.expanduser\<close> gives for \<open>~/.cache\<close>.\<close>

definition dump_prefix :: "env \<Rightarrow> string \<Rightarrow> string" where
  "dump_prefix env home_cache =
     (let prefix = first_set [env ''TORCH_FR_DUMP_TEMP_FILE'', env ''TORCH_NCCL_DEBUG_INFO_TEMP_FILE''];
          cache = or_str (env ''XDG_CACHE_HOME'') home_cache
      in case prefix of
           Some (c # cs) \<Rightarrow> c # cs
         | _ \<Rightarrow> path_join (path_join cache ''torch'') ''comm_lib_trace_rank_'')"

lemmas config_simps = buffer_size_def dump_on_timeout_def dump_wait_s_def coord_check_s_def
  include_stack_traces_def include_only_active_def int_or_def bool_or_def

definition MAX_BACKOFF_S :: rat where
  "MAX_BACKOFF_S = 60"

text \<open>Polls of an unanswering store back off at most this far.\<close>

definition poll_backoff_cap :: "env \<Rightarrow> rat" where
  "poll_backoff_cap env = min MAX_BACKOFF_S (dump_wait_s env / 4)"

subsection \<open>Bounds\<close>

lemma first_set_append:
  "first_set (vs @ ws) = (case first_set vs of Some x \<Rightarrow> Some x | None \<Rightarrow> first_set ws)"
  by (induction vs) (auto split: option.splits)

lemma buffer_size_nonneg [simp]: "0 \<le> buffer_size env"
  by (simp add: buffer_size_def)

lemma dump_wait_nonneg [simp]: "0 \<le> dump_wait_s env"
  by (simp add: dump_wait_s_def)

lemma coord_check_pos: "1 / 100 \<le> coord_check_s env"
proof -
  have "(10::rat) \<le> of_int (max (int_or (env ''TORCH_NCCL_COORD_CHECK_MILSEC'') 1000) 10)"
    by (metis max.cobounded2 of_int_le_iff of_int_numeral)
  then show ?thesis by (simp add: coord_check_s_def)
qed

lemma poll_backoff_cap_bounds:
  "0 \<le> poll_backoff_cap env" "poll_backoff_cap env \<le> 60" "4 * poll_backoff_cap env \<le> dump_wait_s env"
  by (auto simp: poll_backoff_cap_def MAX_BACKOFF_S_def)

lemma dump_prefix_not_Nil: "dump_prefix env h \<noteq> []"
  by (auto simp: dump_prefix_def path_join_def Let_def startswith_def split: option.splits list.splits)

end
