(* ===== verification/Py_Float.thy ===== *)
theory Py_Float
  imports Prelude
begin

text \<open>
  The two floating-point steps whose rounding reaches a value the program prints or hands to
  native code: \<open>timedelta.total_seconds()\<close> (an integer number of microseconds divided by a
  million) times a thousand, truncated by \<open>int\<close>. \<open>fl64\<close> is IEEE binary64 rounding to nearest,
  ties to even, for values in the normal range, on exact rationals.
\<close>

definition pow2r :: "int \<Rightarrow> rat" where
  "pow2r e = (if 0 \<le> e then 2 ^ nat e else 1 / 2 ^ nat (- e))"

definition round_half_even :: "rat \<Rightarrow> int" where
  "round_half_even x =
     (let f = \<lfloor>x\<rfloor>; d = x - of_int f
      in if d < 1 / 2 then f else if 1 / 2 < d then f + 1 else if even f then f else f + 1)"

text \<open>The number of binary digits of a nonnegative integer.\<close>

function (sequential) bits_of :: "int \<Rightarrow> int" where
  "bits_of n = (if n \<le> 0 then 0 else 1 + bits_of (n div 2))"
  by pat_completeness auto
termination
  by (relation "measure nat") auto

declare bits_of.simps [simp del]

definition fl64_exp :: "rat \<Rightarrow> int" where
  "fl64_exp x =
     (let (n, d) = quotient_of x;
          k = bits_of n - bits_of d;
          e = k - 53
      in if x / pow2r e < 2 ^ 53 then e else e + 1)"

definition fl64 :: "rat \<Rightarrow> rat" where
  "fl64 x =
     (if x = 0 then 0
      else let e = fl64_exp \<bar>x\<bar> in sgn x * of_int (round_half_even (\<bar>x\<bar> / pow2r e)) * pow2r e)"

definition int_of_float :: "rat \<Rightarrow> int" where
  "int_of_float x = (if 0 \<le> x then \<lfloor>x\<rfloor> else \<lceil>x\<rceil>)"

definition total_seconds :: "int \<Rightarrow> rat" where
  "total_seconds us = fl64 (of_int us / 1000000)"

definition seconds_to_ms :: "rat \<Rightarrow> int" where
  "seconds_to_ms s = int_of_float (fl64 (s * 1000))"

lemma pow2r_pos [simp]: "0 < pow2r e"
  by (simp add: pow2r_def)

lemma pow2r_neg_int: "e \<le> 0 \<Longrightarrow> of_int i / pow2r e = of_int (i * 2 ^ nat (- e))"
  by (auto simp: pow2r_def)

lemma round_half_even_of_int [simp]: "round_half_even (of_int i) = i"
  by (simp add: round_half_even_def)

lemma bits_of_le: "n < 2 ^ k \<Longrightarrow> bits_of n \<le> int k"
proof (induction k arbitrary: n)
  case 0
  then show ?case by (simp add: bits_of.simps)
next
  case (Suc k)
  then have "n div 2 < 2 ^ k" by auto
  then have "bits_of (n div 2) \<le> int k" by (rule Suc.IH)
  then show ?case by (subst bits_of.simps) simp
qed

lemma bits_of_1: "bits_of 1 = 1"
  by (simp add: bits_of.simps)

lemma fl64_exp_int:
  assumes "0 < i" "i < 2 ^ 53"
  shows "fl64_exp (of_int i) \<le> 0"
proof -
  have q: "quotient_of (of_int i) = (i, 1)"
    by (simp add: of_int_rat quotient_of_Fract)
  have "bits_of i \<le> int 53" using assms by (intro bits_of_le)
  then show ?thesis
    by (simp add: fl64_exp_def q Let_def bits_of_1)
qed

lemma fl64_int_pos:
  assumes "0 < i" "i < 2 ^ 53"
  shows "fl64 (of_int i) = of_int i"
proof -
  let ?e = "fl64_exp (of_int i)"
  have e: "?e \<le> 0" using fl64_exp_int[OF assms] .
  have "fl64 (of_int i) = of_int (round_half_even (of_int (i * 2 ^ nat (- ?e)))) * pow2r ?e"
    using assms pow2r_neg_int[OF e, of i] by (simp add: fl64_def Let_def)
  also have "\<dots> = of_int (i * 2 ^ nat (- ?e)) * pow2r ?e"
    by (simp only: round_half_even_of_int)
  also have "\<dots> = of_int i"
    using e by (auto simp: pow2r_def)
  finally show ?thesis .
qed

lemma fl64_nat: "0 \<le> i \<Longrightarrow> i < 2 ^ 53 \<Longrightarrow> fl64 (of_int i) = of_int i"
  by (cases "i = 0") (simp add: fl64_def, simp add: fl64_int_pos)

text \<open>A timeout of whole seconds loses nothing on its way to milliseconds.\<close>

lemma whole_seconds_to_ms:
  assumes "0 \<le> s" "s * 1000 < 2 ^ 53"
  shows "seconds_to_ms (total_seconds (s * 1000000)) = s * 1000"
proof -
  have "total_seconds (s * 1000000) = of_int s"
    using assms fl64_nat[of s] by (simp add: total_seconds_def)
  moreover have "fl64 (of_int s * 1000) = of_int (s * 1000)"
    using assms fl64_nat[of "s * 1000"] by simp
  ultimately have "seconds_to_ms (total_seconds (s * 1000000)) = \<lfloor>rat_of_int (s * 1000)\<rfloor>"
    using assms by (simp add: seconds_to_ms_def int_of_float_def)
  then show ?thesis by (simp only: floor_of_int)
qed

end
