(* ===== verification/FR_Ring.thy ===== *)
theory FR_Ring
  imports FR_Config Py_Float "HOL-Library.Word"
begin

unbundle bit_operations_syntax

text \<open>
  The recording side of the flight recorder (\<^verbatim>\<open>distributed/flight_recorder.py\<close>): the words of a
  ring entry, the eager records indexed by tag, the groups, and the operations \<open>add_group\<close>,
  \<open>retire\<close>, \<open>begin\<close>, \<open>_group\<close>, \<open>peer_ranks\<close>, \<open>entries\<close>, \<open>_record\<close> and \<open>stack\<close>. The locales
  \<open>record_table\<close> and \<open>bounded_table\<close> state what the dump needs of the record table: a lookup
  never returns another call's record, and the newest calls are all still there.
\<close>

subsection \<open>Constants\<close>

definition F_WORDS :: nat where "F_WORDS = 18"
definition F_ID :: nat where "F_ID = 1"
definition F_PG :: nat where "F_PG = 2"
definition F_CSEQ :: nat where "F_CSEQ = 3"
definition F_PSEQ :: nat where "F_PSEQ = 4"
definition F_OPID :: nat where "F_OPID = 5"
definition F_OP :: nat where "F_OP = 6"
definition F_COUNT :: nat where "F_COUNT = 7"
definition F_DTYPE :: nat where "F_DTYPE = 8"
definition F_ROOT :: nat where "F_ROOT = 9"
definition F_FLAGS :: nat where "F_FLAGS = 11"
definition F_CREATED :: nat where "F_CREATED = 12"
definition F_THREAD :: nat where "F_THREAD = 13"
definition F_TAG :: nat where "F_TAG = 14"
definition F_COMM :: nat where "F_COMM = 15"
definition F_DONE :: nat where "F_DONE = 16"
definition F_LINK :: nat where "F_LINK = 17"

lemmas word_index_simps = F_WORDS_def F_ID_def F_PG_def F_CSEQ_def F_PSEQ_def F_OPID_def F_OP_def
  F_COUNT_def F_DTYPE_def F_ROOT_def F_FLAGS_def F_CREATED_def F_THREAD_def F_TAG_def F_COMM_def
  F_DONE_def F_LINK_def

text \<open>The flags \<open>FL_*\<close> are 1, 2, 4, 8 and 16, given here by their bit positions.\<close>

definition FL_P2P :: nat where "FL_P2P = 0"
definition FL_MEMBER :: nat where "FL_MEMBER = 1"
definition FL_END :: nat where "FL_END = 2"
definition FL_UNTRACKED :: nat where "FL_UNTRACKED = 3"
definition FL_FOLDED :: nat where "FL_FOLDED = 4"

lemmas fl_simps = FL_P2P_def FL_MEMBER_def FL_END_def FL_UNTRACKED_def FL_FOLDED_def

definition TAG_MASK :: int where "TAG_MASK = push_bit 40 1 - 1"
definition TAG_MEMBER :: int where "TAG_MEMBER = push_bit 40 1"
definition TAG_FIRST :: int where "TAG_FIRST = push_bit 41 1"
definition TAG_END :: int where "TAG_END = push_bit 42 1"
definition TAG_P2P :: int where "TAG_P2P = push_bit 43 1"

lemmas tag_simps = TAG_MASK_def TAG_MEMBER_def TAG_FIRST_def TAG_END_def TAG_P2P_def

subsection \<open>Data\<close>

text \<open>\<open>torch.dtype\<close>; \<open>OtherDtype\<close> carries the name after \<open>torch.\<close> of any dtype not named here.\<close>

datatype dtype =
    Float32 | Float64 | Float16 | BFloat16 | Int8 | Uint8 | Int16 | Int32 | Int64 | Bool
  | Complex64 | Complex128 | Float8_e4m3fn | Float8_e5m2 | Uint16 | Uint32 | Uint64
  | OtherDtype string

fun dtype_str :: "dtype \<Rightarrow> string" where
  "dtype_str Float32 = ''torch.float32''"
| "dtype_str Float64 = ''torch.float64''"
| "dtype_str Float16 = ''torch.float16''"
| "dtype_str BFloat16 = ''torch.bfloat16''"
| "dtype_str Int8 = ''torch.int8''"
| "dtype_str Uint8 = ''torch.uint8''"
| "dtype_str Int16 = ''torch.int16''"
| "dtype_str Int32 = ''torch.int32''"
| "dtype_str Int64 = ''torch.int64''"
| "dtype_str Bool = ''torch.bool''"
| "dtype_str Complex64 = ''torch.complex64''"
| "dtype_str Complex128 = ''torch.complex128''"
| "dtype_str Float8_e4m3fn = ''torch.float8_e4m3fn''"
| "dtype_str Float8_e5m2 = ''torch.float8_e5m2''"
| "dtype_str Uint16 = ''torch.uint16''"
| "dtype_str Uint32 = ''torch.uint32''"
| "dtype_str Uint64 = ''torch.uint64''"
| "dtype_str (OtherDtype n) = ''torch.'' @ n"

fun DTYPE_NAMES :: "dtype \<Rightarrow> string option" where
  "DTYPE_NAMES Float32 = Some ''Float''"
| "DTYPE_NAMES Float64 = Some ''Double''"
| "DTYPE_NAMES Float16 = Some ''Half''"
| "DTYPE_NAMES BFloat16 = Some ''BFloat16''"
| "DTYPE_NAMES Int8 = Some ''Char''"
| "DTYPE_NAMES Uint8 = Some ''Byte''"
| "DTYPE_NAMES Int16 = Some ''Short''"
| "DTYPE_NAMES Int32 = Some ''Int''"
| "DTYPE_NAMES Int64 = Some ''Long''"
| "DTYPE_NAMES Bool = Some ''Bool''"
| "DTYPE_NAMES Complex64 = Some ''ComplexFloat''"
| "DTYPE_NAMES Complex128 = Some ''ComplexDouble''"
| "DTYPE_NAMES Float8_e4m3fn = Some ''Float8_e4m3fn''"
| "DTYPE_NAMES Float8_e5m2 = Some ''Float8_e5m2''"
| "DTYPE_NAMES _ = None"

definition dtype_names :: "dtype list \<Rightarrow> string list" where
  "dtype_names ds = map (\<lambda>d. or_str (DTYPE_NAMES d) (drop 6 (dtype_str d))) ds"

text \<open>What a record keeps of a tensor, and the stacked buffer of a list collective.\<close>

record shaped =
  sh_shape :: "int list"
  sh_dtype :: dtype

definition flat :: "shaped list \<Rightarrow> shaped result" where
  "flat tensors = (case tensors of
     [] \<Rightarrow> Inl (IndexError ''list index out of range'')
   | t # _ \<Rightarrow> Inr \<lparr>sh_shape = int (length tensors) # sh_shape t, sh_dtype = sh_dtype t\<rparr>)"

text \<open>An eager call; \<open>'tb\<close> is the captured traceback.\<close>

record 'tb fr_record =
  rec_tag :: int
  rec_name :: string
  rec_shapes :: "int list list"
  rec_dtypes :: "dtype list"
  rec_out_shapes :: "int list list"
  rec_out_dtypes :: "dtype list"
  rec_tb :: 'tb

record fr_group =
  g_name :: string
  g_desc :: string
  g_ranks :: "int list"
  g_rank :: int
  g_timeout_ms :: int

record fr_entry =
  e_rid :: int
  e_pg :: int
  e_cseq :: int
  e_pseq :: int
  e_op_id :: int
  e_op :: int
  e_count :: int
  e_dtype :: int
  e_root :: int
  e_flags :: int
  e_created_ns :: int
  e_thread :: int
  e_tag :: int
  e_comm :: int
  e_done_ns :: "int option"
  e_link :: int

text \<open>
  The recorder. \<open>'h\<close> is a weak reference to a live process group; \<open>r_tags\<close> and \<open>r_pg_ids\<close> are
  the next values of the two counters.
\<close>

record ('tb, 'h) recorder =
  r_size :: nat
  r_prefix :: string
  r_comm_lib_version :: string
  r_records :: "'tb fr_record option list"
  r_tags :: int
  r_pg_ids :: int
  r_groups :: "(int, fr_group) dict"
  r_live :: "(int, 'h) dict"

text \<open>
  What \<open>_group\<close> reads of a process group object: \<open>v_ranks\<close> is \<open>None\<close> when
  \<open>get_process_group_ranks\<close> raises, \<open>v_desc\<close> when the attribute is absent, \<open>v_timeout_us\<close> the
  microseconds of the timeout.
\<close>

record group_view =
  v_name :: string
  v_desc :: "string option"
  v_ranks :: "int list option"
  v_size :: nat
  v_rank :: int
  v_timeout_us :: "int option"

subsection \<open>Recording\<close>

definition Recorder :: "nat \<Rightarrow> string \<Rightarrow> ('tb, 'h) recorder" where
  "Recorder sz lib_name =
     \<lparr>r_size = sz, r_prefix = lib_name @ '':'', r_comm_lib_version = '''',
      r_records = replicate (2 * sz) None, r_tags = 1, r_pg_ids = 0, r_groups = [], r_live = []\<rparr>"

definition add_group :: "('tb, 'h) recorder \<Rightarrow> 'h \<Rightarrow> ('tb, 'h) recorder \<times> int" where
  "add_group r grp =
     (let pg_id = r_pg_ids r
      in (r\<lparr>r_pg_ids := pg_id + 1, r_live := dput pg_id grp (r_live r)\<rparr>, pg_id))"

definition rec_after_fork :: "('tb, 'h) recorder \<Rightarrow> ('tb, 'h) recorder" where
  "rec_after_fork r = r\<lparr>r_live := []\<rparr>"

definition group_of_view :: "group_view \<Rightarrow> fr_group" where
  "group_of_view v =
     \<lparr>g_name = v_name v, g_desc = or_str (v_desc v) ''undefined'',
      g_ranks = (case v_ranks v of Some rs \<Rightarrow> rs | None \<Rightarrow> map int [0..<v_size v]),
      g_rank = v_rank v,
      g_timeout_ms = (case v_timeout_us v of Some us \<Rightarrow> seconds_to_ms (total_seconds us) | None \<Rightarrow> 0)\<rparr>"

text \<open>\<open>deref\<close> follows the weak reference: \<open>None\<close> once the group object is gone.\<close>

definition rec_group ::
    "('h \<Rightarrow> group_view option) \<Rightarrow> ('tb, 'h) recorder \<Rightarrow> int \<Rightarrow> ('tb, 'h) recorder \<times> fr_group option" where
  "rec_group deref r pg_id =
     (let r' = (case Option.bind (dget (r_live r) pg_id) deref of
                  Some v \<Rightarrow> r\<lparr>r_groups := dput pg_id (group_of_view v) (r_groups r)\<rparr>
                | None \<Rightarrow> r)
      in (r', dget (r_groups r') pg_id))"

definition retire :: "('h \<Rightarrow> group_view option) \<Rightarrow> ('tb, 'h) recorder \<Rightarrow> int \<Rightarrow> ('tb, 'h) recorder" where
  "retire deref r pg_id =
     (let r' = fst (rec_group deref r pg_id) in r'\<lparr>r_live := dpop pg_id (r_live r')\<rparr>)"

definition records_store :: "'tb fr_record option list \<Rightarrow> 'tb fr_record \<Rightarrow> 'tb fr_record option list" where
  "records_store records rec = records[nat (rec_tag rec mod int (length records)) := Some rec]"

definition records_lookup :: "'tb fr_record option list \<Rightarrow> int \<Rightarrow> 'tb fr_record option" where
  "records_lookup records tag =
     (let r = (if tag \<noteq> 0 then records ! nat (tag mod int (length records)) else None)
      in case r of Some rec \<Rightarrow> (if rec_tag rec = tag then Some rec else None) | None \<Rightarrow> None)"

definition rec_begin ::
    "('tb, 'h) recorder \<Rightarrow> 'tb \<Rightarrow> string \<Rightarrow> shaped list \<Rightarrow> shaped list \<Rightarrow> int \<Rightarrow> ('tb, 'h) recorder \<times> int" where
  "rec_begin r traceback name inputs outputs flags =
     (let tag = r_tags r;
          rec = \<lparr>rec_tag = tag, rec_name = name,
                 rec_shapes = map sh_shape inputs, rec_dtypes = map sh_dtype inputs,
                 rec_out_shapes = map sh_shape outputs, rec_out_dtypes = map sh_dtype outputs,
                 rec_tb = traceback\<rparr>
      in (r\<lparr>r_tags := tag + 1, r_records := records_store (r_records r) rec\<rparr>, tag OR flags))"

definition rec_active :: "('tb, 'h) recorder \<Rightarrow> bool" where
  "rec_active r \<longleftrightarrow> r_live r \<noteq> []"

text \<open>The loop reads a snapshot of the live ids and lets \<open>_group\<close> refresh the kept names.\<close>

definition peer_ranks ::
    "('h \<Rightarrow> group_view option) \<Rightarrow> ('tb, 'h) recorder \<Rightarrow> ('tb, 'h) recorder \<times> int set" where
  "peer_ranks deref r =
     fold (\<lambda>pg_id (r, ranks).
         let (r', g) = rec_group deref r pg_id
         in (r', case g of Some g \<Rightarrow> ranks \<union> set (g_ranks g) | None \<Rightarrow> ranks))
       (dkeys (r_live r)) (r, {})"

subsection \<open>Reading the ring\<close>

definition decode_entry :: "int list \<Rightarrow> fr_entry result" where
  "decode_entry w =
     (if length w < F_WORDS then Inl (IndexError ''list index out of range'')
      else Inr \<lparr>e_rid = w ! F_ID - 1, e_pg = w ! F_PG, e_cseq = w ! F_CSEQ, e_pseq = w ! F_PSEQ,
                e_op_id = w ! F_OPID, e_op = w ! F_OP, e_count = w ! F_COUNT, e_dtype = w ! F_DTYPE,
                e_root = w ! F_ROOT, e_flags = w ! F_FLAGS, e_created_ns = w ! F_CREATED,
                e_thread = w ! F_THREAD, e_tag = w ! F_TAG, e_comm = w ! F_COMM,
                e_done_ns = (if w ! F_DONE = 0 then None else Some (w ! F_DONE)),
                e_link = w ! F_LINK\<rparr>)"

text \<open>
  The buffer \<open>buf\<close> of \<open>size * F_WORDS\<close> words after the native snapshot wrote into it, and the
  number of entries the snapshot returned.
\<close>

definition entries :: "int list \<Rightarrow> nat \<Rightarrow> fr_entry list result" where
  "entries buf n = map_res (\<lambda>i. decode_entry (take F_WORDS (drop (i * F_WORDS) buf))) [0..<n]"

text \<open>The first matching entry with a record decides; entries without one are passed over.\<close>

fun stack_of :: "('tb \<Rightarrow> 'fr list) \<Rightarrow> 'tb fr_record option list \<Rightarrow> int \<Rightarrow> fr_entry list \<Rightarrow> 'fr list" where
  "stack_of symbolize records rid1 [] = []"
| "stack_of symbolize records rid1 (e # es) =
     (if e_rid e + 1 = rid1 then
        (case records_lookup records (e_tag e) of
           Some rec \<Rightarrow> symbolize (rec_tb rec)
         | None \<Rightarrow> stack_of symbolize records rid1 es)
      else stack_of symbolize records rid1 es)"

definition rec_stack ::
    "('tb \<Rightarrow> 'fr list) \<Rightarrow> ('tb, 'h) recorder \<Rightarrow> int list \<Rightarrow> nat \<Rightarrow> int \<Rightarrow> 'fr list result" where
  "rec_stack symbolize r buf n rid1 =
     bind_res (entries buf n) (\<lambda>es. Inr (stack_of symbolize (r_records r) rid1 es))"

text \<open>Frames of this package's adapter and of dynamo's wrapper are dropped from the inside.\<close>

record frame =
  f_filename :: string
  f_line :: int
  f_name :: string

definition symbolize_frames :: "string \<Rightarrow> string \<Rightarrow> frame list \<Rightarrow> frame list" where
  "symbolize_frames own_dir dynamo_dir frames =
     dropWhile (\<lambda>f. startswith (f_filename f) own_dir \<or> contains dynamo_dir (f_filename f)) frames"

subsection \<open>The table of eager records\<close>

text \<open>
  The interface between recording and dumping. A table maps positive tags to records; a store
  may push older records out, but a lookup only ever returns the record stored under that tag.
\<close>

locale record_table =
  fixes lookup :: "'t \<Rightarrow> int \<Rightarrow> 'r option"
    and store :: "'t \<Rightarrow> 'r \<Rightarrow> 't"
    and key :: "'r \<Rightarrow> int"
    and ok :: "'t \<Rightarrow> bool"
  assumes lookup_key: "lookup t k = Some r \<Longrightarrow> key r = k"
    and ok_store: "ok t \<Longrightarrow> ok (store t r)"
    and lookup_store: "ok t \<Longrightarrow> 0 < key r \<Longrightarrow> lookup (store t r) (key r) = Some r"
    and lookup_store_other:
      "ok t \<Longrightarrow> k \<noteq> key r \<Longrightarrow> lookup (store t r) k = Some r' \<Longrightarrow> lookup t k = Some r'"
begin

lemma ok_stores: "ok t \<Longrightarrow> ok (foldl store t rs)"
  by (induction rs arbitrary: t) (auto intro: ok_store)

text \<open>Whatever is found was stored, under that very key.\<close>

lemma lookup_stores:
  assumes "ok t" "\<forall>x \<in> set rs. 0 < key x" "lookup (foldl store t rs) k = Some r"
  shows "lookup t k = Some r \<or> r \<in> set rs \<and> key r = k"
  using assms
proof (induction rs arbitrary: t)
  case Nil
  then show ?case by simp
next
  case (Cons x rs)
  then have "lookup (store t x) k = Some r \<or> r \<in> set rs \<and> key r = k"
    by (simp add: ok_store)
  then show ?case
  proof
    assume l: "lookup (store t x) k = Some r"
    show ?thesis
    proof (cases "k = key x")
      case True
      then show ?thesis
        using l lookup_key[OF l] lookup_store[OF Cons.prems(1), of x] Cons.prems(2) by simp
    next
      case False
      then show ?thesis using l lookup_store_other[OF Cons.prems(1)] by blast
    qed
  qed auto
qed

end

text \<open>A table with room for \<open>cap\<close> consecutive tags.\<close>

locale bounded_table = record_table lookup store key ok
  for lookup :: "'t \<Rightarrow> int \<Rightarrow> 'r option"
    and store :: "'t \<Rightarrow> 'r \<Rightarrow> 't"
    and key :: "'r \<Rightarrow> int"
    and ok :: "'t \<Rightarrow> bool" +
  fixes cap :: "'t \<Rightarrow> int"
  assumes cap_store: "cap (store t r) = cap t"
    and lookup_store_keep:
      "ok t \<Longrightarrow> k < key r \<Longrightarrow> key r - k < cap t \<Longrightarrow> lookup (store t r) k = lookup t k"
begin

lemma lookup_stores_keep:
  assumes "ok t" "\<forall>r \<in> set rs. k < key r \<and> key r - k < cap t"
  shows "lookup (foldl store t rs) k = lookup t k"
  using assms
proof (induction rs arbitrary: t)
  case Nil
  then show ?case by simp
next
  case (Cons x rs)
  then have "lookup (foldl store (store t x) rs) k = lookup (store t x) k"
    by (simp add: ok_store cap_store)
  also have "\<dots> = lookup t k"
    using Cons.prems by (simp add: lookup_store_keep)
  finally show ?case by simp
qed

end

text \<open>The recorder's list of \<open>2 * size\<close> slots is such a table.\<close>

lemma records_length [simp]: "length (records_store t r) = length t"
  by (simp add: records_store_def)

lemma records_lookup_key: "records_lookup t k = Some r \<Longrightarrow> rec_tag r = k"
  by (auto simp: records_lookup_def Let_def split: option.splits if_splits)

lemma slot_in_range: "t \<noteq> [] \<Longrightarrow> nat (k mod int (length t)) < length t"
  by (simp add: nat_less_iff)

lemma records_lookup_store:
  "t \<noteq> [] \<Longrightarrow> 0 < rec_tag r \<Longrightarrow> records_lookup (records_store t r) (rec_tag r) = Some r"
  using slot_in_range[of t "rec_tag r"] by (simp add: records_lookup_def records_store_def)

lemma records_lookup_store_other:
  "t \<noteq> [] \<Longrightarrow> k \<noteq> rec_tag r \<Longrightarrow> records_lookup (records_store t r) k = Some r'
   \<Longrightarrow> records_lookup t k = Some r'"
  using slot_in_range[of t k]
  by (cases "nat (rec_tag r mod int (length t)) = nat (k mod int (length t))")
     (auto simp: records_lookup_def records_store_def Let_def split: if_splits)

text \<open>Two tags less than a table's length apart have different slots.\<close>

lemma slots_differ:
  assumes "k < j" "j - k < n"
  shows "nat (k mod n) \<noteq> nat (j mod n)"
proof
  assume "nat (k mod n) = nat (j mod n)"
  moreover have "0 \<le> k mod n" "0 \<le> j mod n" using assms by auto
  ultimately have "j mod n = k mod n" by (simp add: eq_nat_nat_iff)
  then have "n dvd j - k" by (simp add: mod_eq_dvd_iff)
  then show False using assms zdvd_not_zless[of "j - k" n] by simp
qed

lemma records_lookup_store_keep:
  "t \<noteq> [] \<Longrightarrow> k < rec_tag r \<Longrightarrow> rec_tag r - k < int (length t)
   \<Longrightarrow> records_lookup (records_store t r) k = records_lookup t k"
  using slots_differ[of k "rec_tag r" "int (length t)"]
  by (auto simp: records_lookup_def records_store_def Let_def)

interpretation eager: bounded_table records_lookup records_store rec_tag "\<lambda>t. t \<noteq> []"
    "\<lambda>t. int (length t)"
proof (unfold_locales, goal_cases)
  case (1 t k r)
  then show ?case by (rule records_lookup_key)
next
  case (2 t r)
  then show ?case by (simp add: records_store_def)
next
  case (3 t r)
  then show ?case by (rule records_lookup_store)
next
  case (4 t k r r')
  then show ?case by (rule records_lookup_store_other)
next
  case (5 t r)
  show ?case by simp
next
  case (6 t k r)
  then show ?case by (simp add: records_lookup_store_keep)
qed

subsection \<open>Runs of eager calls\<close>

type_synonym 'tb eager_call = "'tb \<times> string \<times> shaped list \<times> shaped list \<times> int"

definition begin_call :: "('tb, 'h) recorder \<Rightarrow> 'tb eager_call \<Rightarrow> ('tb, 'h) recorder" where
  "begin_call r c = (case c of (tb, name, ins, outs, flags) \<Rightarrow> fst (rec_begin r tb name ins outs flags))"

definition record_of_call :: "int \<Rightarrow> 'tb eager_call \<Rightarrow> 'tb fr_record" where
  "record_of_call tag c = (case c of (tb, name, ins, outs, flags) \<Rightarrow>
     \<lparr>rec_tag = tag, rec_name = name, rec_shapes = map sh_shape ins, rec_dtypes = map sh_dtype ins,
      rec_out_shapes = map sh_shape outs, rec_out_dtypes = map sh_dtype outs, rec_tb = tb\<rparr>)"

lemma rec_tag_of_call [simp]: "rec_tag (record_of_call tag c) = tag"
  by (simp add: record_of_call_def split: prod.split)

text \<open>The recorder's well-formedness: two slots per ring entry, and tags from one.\<close>

definition recorder_ok :: "('tb, 'h) recorder \<Rightarrow> bool" where
  "recorder_ok r \<longleftrightarrow> 0 < r_size r \<and> length (r_records r) = 2 * r_size r \<and> 1 \<le> r_tags r"

lemma recorder_ok_new: "0 < sz \<Longrightarrow> recorder_ok (Recorder sz lib)"
  by (simp add: recorder_ok_def Recorder_def)

lemma recorder_ok_nonempty: "recorder_ok r \<Longrightarrow> r_records r \<noteq> []"
  by (auto simp: recorder_ok_def)

lemma begin_call_fields [simp]:
  "r_tags (begin_call r c) = r_tags r + 1"
  "r_size (begin_call r c) = r_size r"
  "r_live (begin_call r c) = r_live r"
  "r_groups (begin_call r c) = r_groups r"
  "r_records (begin_call r c) = records_store (r_records r) (record_of_call (r_tags r) c)"
  by (auto simp: begin_call_def rec_begin_def record_of_call_def Let_def split: prod.split)

lemma recorder_ok_begin [intro]: "recorder_ok r \<Longrightarrow> recorder_ok (begin_call r c)"
  by (simp add: recorder_ok_def)

text \<open>The records a run of calls stores, and the run as stores into the table.\<close>

fun call_records :: "int \<Rightarrow> 'tb eager_call list \<Rightarrow> 'tb fr_record list" where
  "call_records tag [] = []"
| "call_records tag (c # cs) = record_of_call tag c # call_records (tag + 1) cs"

lemma begin_calls_records:
  "r_records (foldl begin_call r cs) = foldl records_store (r_records r) (call_records (r_tags r) cs)"
  by (induction cs arbitrary: r) auto

lemma call_records_tags:
  "x \<in> set (call_records tag cs) \<Longrightarrow> tag \<le> rec_tag x \<and> rec_tag x < tag + int (length cs)"
proof (induction cs arbitrary: tag)
  case Nil
  then show ?case by simp
next
  case (Cons c cs)
  then show ?case by (fastforce dest: Cons.IH)
qed

lemma recorder_ok_begins: "recorder_ok r \<Longrightarrow> recorder_ok (foldl begin_call r cs)"
  by (induction cs arbitrary: r) auto

text \<open>A call's record survives the next \<open>2 * size - 1\<close> calls.\<close>

lemma begin_survives:
  assumes "recorder_ok r" "length cs < 2 * r_size r"
  shows "records_lookup (r_records (foldl begin_call r (c # cs))) (r_tags r)
         = Some (record_of_call (r_tags r) c)"
proof -
  let ?t = "records_store (r_records r) (record_of_call (r_tags r) c)"
  have nz: "r_records r \<noteq> []" using assms(1) by (rule recorder_ok_nonempty)
  then have ok: "?t \<noteq> []" by (rule eager.ok_store)
  have "r_records (foldl begin_call r (c # cs)) = foldl records_store ?t (call_records (r_tags r + 1) cs)"
    by (simp add: begin_calls_records)
  moreover have "\<forall>x \<in> set (call_records (r_tags r + 1) cs).
      r_tags r < rec_tag x \<and> rec_tag x - r_tags r < int (length ?t)"
    using assms by (auto dest!: call_records_tags simp: recorder_ok_def)
  ultimately have "records_lookup (r_records (foldl begin_call r (c # cs))) (r_tags r)
      = records_lookup ?t (r_tags r)"
    using eager.lookup_stores_keep[OF ok] by simp
  also have "\<dots> = Some (record_of_call (r_tags r) c)"
    using eager.lookup_store[OF nz, of "record_of_call (r_tags r) c"] assms(1)
    by (simp add: recorder_ok_def)
  finally show ?thesis .
qed


text \<open>The word \<open>begin\<close> returns splits back into the tag and the flags.\<close>

lemma tag_word_split:
  assumes "0 \<le> tag" "tag < 2 ^ 40" "flags AND TAG_MASK = 0"
  shows "(tag OR flags) AND TAG_MASK = tag" "(tag OR flags) AND NOT TAG_MASK = flags"
proof -
  have m: "TAG_MASK = mask 40" by (simp add: TAG_MASK_def mask_eq_exp_minus_1 push_bit_eq_mult)
  have t: "tag AND TAG_MASK = tag"
    using assms(1,2) by (simp add: m flip: take_bit_eq_mask) (simp add: take_bit_int_eq_self_iff)
  have "(tag OR flags) AND TAG_MASK = (tag AND TAG_MASK) OR (flags AND TAG_MASK)"
    by (simp add: bit.conj_disj_distrib2)
  then show "(tag OR flags) AND TAG_MASK = tag"
    using t assms(3) by simp
  have "tag AND NOT TAG_MASK = 0"
    by (metis t and.assoc bit.conj_cancel_right and_zero_eq)
  moreover have "flags AND NOT TAG_MASK = flags"
    using assms(3) by (metis bit.conj_disj_distrib bit.disj_cancel_right and.right_neutral or.left_neutral)
  ultimately show "(tag OR flags) AND NOT TAG_MASK = flags"
    by (simp add: bit.conj_disj_distrib2)
qed

subsection \<open>Groups\<close>

definition group_ids_ok :: "('tb, 'h) recorder \<Rightarrow> bool" where
  "group_ids_ok r \<longleftrightarrow>
     (\<forall>pg \<in> set (dkeys (r_live r)) \<union> set (dkeys (r_groups r)). pg < r_pg_ids r)"

lemma add_group_ids: "group_ids_ok r \<Longrightarrow> group_ids_ok (fst (add_group r h))"
  by (auto simp: group_ids_ok_def add_group_def Let_def dict_simps less_imp_le)

lemma add_group_fresh: "group_ids_ok r \<Longrightarrow> dget (r_live r) (snd (add_group r h)) = None"
  by (metis (no_types, lifting) UnCI add_group_def dget_dkeys group_ids_ok_def less_irrefl
      not_None_eq snd_conv Let_def)

lemma rec_group_fields [simp]:
  "r_live (fst (rec_group deref r pg)) = r_live r"
  "r_pg_ids (fst (rec_group deref r pg)) = r_pg_ids r"
  "r_records (fst (rec_group deref r pg)) = r_records r"
  "r_prefix (fst (rec_group deref r pg)) = r_prefix r"
  "r_comm_lib_version (fst (rec_group deref r pg)) = r_comm_lib_version r"
  "r_size (fst (rec_group deref r pg)) = r_size r"
  "r_tags (fst (rec_group deref r pg)) = r_tags r"
  by (auto simp: rec_group_def Let_def split: option.splits)

lemma rec_group_live:
  "dget (r_live r) pg = Some h \<Longrightarrow> deref h = Some v \<Longrightarrow> snd (rec_group deref r pg) = Some (group_of_view v)"
  by (simp add: rec_group_def)

lemma rec_group_gone:
  "dget (r_live r) pg = None \<Longrightarrow> rec_group deref r pg = (r, dget (r_groups r) pg)"
  by (simp add: rec_group_def)

lemma retire_live: "dget (r_live (retire deref r pg)) k = (if k = pg then None else dget (r_live r) k)"
  by (simp add: retire_def Let_def)

lemma rec_group_ids: "group_ids_ok r \<Longrightarrow> group_ids_ok (fst (rec_group deref r pg))"
  by (force simp: group_ids_ok_def rec_group_def Let_def dict_simps dget_dkeys
      split: option.splits Option.bind_splits)

lemma retire_ids: "group_ids_ok r \<Longrightarrow> group_ids_ok (retire deref r pg)"
  using rec_group_ids[of r deref pg] by (auto simp: retire_def group_ids_ok_def Let_def dict_simps)

text \<open>The names of a retired group stay readable for the dumps, whatever becomes of the object.\<close>

lemma retire_keeps_group:
  assumes "dget (r_live r) pg = Some h" "deref h = Some v"
  shows "snd (rec_group deref' (retire deref r pg) pg) = Some (group_of_view v)"
  using assms by (simp add: retire_def rec_group_def Let_def)

subsection \<open>Properties\<close>

lemma call_records_snoc:
  "call_records tag (cs @ [c]) = call_records tag cs @ [record_of_call (tag + int (length cs)) c]"
  by (induction cs arbitrary: tag) (auto simp: algebra_simps)

lemma begin_calls_tags: "r_tags (foldl begin_call r cs) = r_tags r + int (length cs)"
  by (induction cs arbitrary: r) auto

lemma records_lookup_store_same_slot:
  "t \<noteq> [] \<Longrightarrow> k \<noteq> rec_tag r \<Longrightarrow> int (length t) dvd rec_tag r - k
   \<Longrightarrow> records_lookup (records_store t r) k = None"
  using slot_in_range[of t k]
  by (auto simp: records_lookup_def records_store_def Let_def mod_eq_dvd_iff[symmetric] split: option.splits)

lemma records_lookup_store_other_slot:
  "t \<noteq> [] \<Longrightarrow> \<not> int (length t) dvd rec_tag r - k
   \<Longrightarrow> records_lookup (records_store t r) k = records_lookup t k"
proof -
  assume t: "t \<noteq> []" and d: "\<not> int (length t) dvd rec_tag r - k"
  let ?n = "int (length t)"
  have "rec_tag r mod ?n \<noteq> k mod ?n" using d by (simp add: mod_eq_dvd_iff)
  moreover have "0 \<le> rec_tag r mod ?n" "0 \<le> k mod ?n" using t by auto
  ultimately have "nat (rec_tag r mod ?n) \<noteq> nat (k mod ?n)" by (simp add: eq_nat_nat_iff)
  then show ?thesis by (simp add: records_lookup_def records_store_def Let_def)
qed

text \<open>C3: What the table of eager records answers after any run of calls on a new recorder: the
  call of that tag as long as at most \<open>2 * size - 1\<close> calls followed it, and otherwise nothing. No
  lookup ever returns another call's record.\<close>

theorem eager_lookup_exact:
  assumes "0 < sz"
  shows "records_lookup (r_records (foldl begin_call (Recorder sz lib :: ('tb, 'h) recorder) cs)) k =
     (if 1 \<le> k \<and> k \<le> int (length cs) \<and> int (length cs) - k < 2 * int sz
      then Some (record_of_call k (cs ! nat (k - 1))) else None)"
proof (induction cs rule: rev_induct)
  case Nil
  show ?case
    using assms slot_in_range[of "replicate (2 * sz) None" k]
    by (simp add: Recorder_def records_lookup_def Let_def)
next
  case (snoc c cs)
  obtain r :: "('tb, 'h) recorder" where r: "r = foldl begin_call (Recorder sz lib) cs" by blast
  let ?n = "int (length cs)" and ?t = "r_records r"
  let ?x = "record_of_call (?n + 1) c"
  have ok: "recorder_ok r" unfolding r by (rule recorder_ok_begins[OF recorder_ok_new[OF assms]])
  have size: "r_size r = sz"
    unfolding r by (induction cs rule: rev_induct) (simp_all add: Recorder_def)
  have len: "int (length ?t) = 2 * int sz" "?t \<noteq> []"
    using ok size assms by (auto simp: recorder_ok_def)
  have "r_tags r = ?n + 1"
    using begin_calls_tags[of "Recorder sz lib :: ('tb, 'h) recorder" cs] by (simp add: r Recorder_def)
  then have step: "r_records (foldl begin_call (Recorder sz lib :: ('tb, 'h) recorder) (cs @ [c])) = records_store ?t ?x"
    by (simp flip: r)
  consider (newest) "k = ?n + 1" | (slot) "k \<noteq> ?n + 1" "2 * int sz dvd ?n + 1 - k"
    | (other) "\<not> 2 * int sz dvd ?n + 1 - k" by blast
  then show ?case
  proof cases
    case newest
    then have "nat (k - 1) = length cs" by simp
    then show ?thesis
      using newest records_lookup_store[OF len(2), of ?x] assms unfolding step by simp
  next
    case slot
    then have "records_lookup (records_store ?t ?x) k = None"
      using records_lookup_store_same_slot[OF len(2), of k ?x] len(1) by simp
    moreover have "?n + 1 < k \<or> 2 * int sz \<le> ?n + 1 - k"
      using slot zdvd_imp_le[OF slot(2)] by linarith
    ultimately show ?thesis unfolding step by auto
  next
    case other
    then have "records_lookup (records_store ?t ?x) k = records_lookup ?t k"
      using records_lookup_store_other_slot[OF len(2), of ?x k] len(1) by simp
    moreover have "k \<noteq> ?n + 1" "?n + 1 - k \<noteq> 2 * int sz" using other by auto
    ultimately show ?thesis
      using snoc.IH unfolding step r[symmetric] by (auto simp: nth_append)
  qed
qed

definition sample_calls :: "nat eager_call list" where
  "sample_calls = [(1, ''all_reduce'', [], [], 0), (2, ''barrier'', [], [], 0), (3, ''send'', [], [], 0)]"

lemma eager_lookup_exact_witness:
  "records_lookup (r_records (foldl begin_call (Recorder 1 ''nccl'' :: (nat, nat) recorder) sample_calls)) 1 = None \<and>
   records_lookup (r_records (foldl begin_call (Recorder 1 ''nccl'' :: (nat, nat) recorder) sample_calls)) 2
     = Some (record_of_call 2 (2, ''barrier'', [], [], 0))"
  unfolding eager_lookup_exact[OF zero_less_one] by (simp add: sample_calls_def)



text \<open>The group operations of a recorder, each with the weak references as they are at that moment.\<close>

datatype 'h group_op = AddGroup 'h | Retire int | ReadGroup int

fun do_group_op :: "('h \<Rightarrow> group_view option) \<times> 'h group_op \<Rightarrow> ('tb, 'h) recorder \<Rightarrow> ('tb, 'h) recorder" where
  "do_group_op (deref, AddGroup h) r = fst (add_group r h)"
| "do_group_op (deref, Retire pg) r = retire deref r pg"
| "do_group_op (deref, ReadGroup pg) r = fst (rec_group deref r pg)"

definition gone_as :: "int \<Rightarrow> fr_group \<Rightarrow> ('tb, 'h) recorder \<Rightarrow> bool" where
  "gone_as pg g r \<longleftrightarrow> group_ids_ok r \<and> pg < r_pg_ids r \<and> dget (r_live r) pg = None \<and> dget (r_groups r) pg = Some g"

lemma gone_as_read: "gone_as pg g r \<Longrightarrow> gone_as pg g (fst (rec_group deref r k))"
proof -
  assume g: "gone_as pg g r"
  then have "dget (r_groups (fst (rec_group deref r k))) pg = Some g"
    by (auto simp: gone_as_def rec_group_def Let_def split: option.splits Option.bind_splits)
  with g show ?thesis by (simp add: gone_as_def rec_group_ids)
qed

lemma gone_as_op: "gone_as pg g r \<Longrightarrow> gone_as pg g (do_group_op op r)"
proof (cases "(op, r)" rule: do_group_op.cases)
  case (1 deref h r')
  assume g: "gone_as pg g r"
  then show ?thesis
    using 1 add_group_ids[of r h] by (auto simp: gone_as_def add_group_def Let_def)
next
  case (2 deref k r')
  assume g: "gone_as pg g r"
  then have "gone_as pg g (fst (rec_group deref r k))" by (rule gone_as_read)
  then show ?thesis
    using 2 g retire_ids[of r deref k] by (auto simp: gone_as_def retire_def Let_def)
next
  case (3 deref k r')
  assume "gone_as pg g r"
  then show ?thesis using 3 by (simp add: gone_as_read)
qed

lemma gone_as_ops: "gone_as pg g r \<Longrightarrow> gone_as pg g (fold do_group_op ops r)"
  by (induction ops arbitrary: r) (auto intro: gone_as_op)

lemma gone_as_retire:
  assumes "group_ids_ok r" "dget (r_live r) pg = Some h" "deref h = Some v"
  shows "gone_as pg (group_of_view v) (retire deref r pg)"
proof -
  have "pg < r_pg_ids r" using assms(1,2) by (force simp: group_ids_ok_def dget_dkeys)
  moreover have "group_ids_ok (retire deref r pg)" using assms(1) by (rule retire_ids)
  ultimately show ?thesis
    using assms(2,3) by (simp add: gone_as_def retire_live) (simp add: retire_def rec_group_def Let_def)
qed

text \<open>A destroyed group stays readable for every later dump with the names and ranks it had when
  it was retired, whatever groups are added, retired or read afterwards and whatever becomes of the
  object: its id is never given to another group.\<close>

theorem retired_group_stays:
  assumes "group_ids_ok r" "dget (r_live r) pg = Some h" "deref h = Some v"
  shows "snd (rec_group deref' (fold do_group_op ops (retire deref r pg)) pg) = Some (group_of_view v)"
  using gone_as_ops[OF gone_as_retire[of r pg h deref v], of ops] assms by (simp add: gone_as_def rec_group_gone)

definition sample_view :: group_view where
  "sample_view = \<lparr>v_name = ''0'', v_desc = None, v_ranks = Some [0, 1], v_size = 2, v_rank = 1, v_timeout_us = Some 600000000\<rparr>"

lemma retired_group_stays_witness:
  "snd (rec_group (\<lambda>_. None) (fold do_group_op [(\<lambda>_. None, AddGroup (9::nat)), (\<lambda>_. None, Retire 1)]
     (retire (\<lambda>_. Some sample_view) (fst (add_group (Recorder 4 ''nccl'' :: (nat, nat) recorder) 7)) 0)) 0)
   = Some (group_of_view sample_view)"
proof -
  have n: "group_ids_ok (Recorder 4 ''nccl'' :: (nat, nat) recorder)"
    by (simp add: group_ids_ok_def Recorder_def dkeys_def)
  show ?thesis
    by (rule retired_group_stays[of _ _ 7])
       (use add_group_ids[OF n] in \<open>simp_all add: add_group_def Recorder_def\<close>)
qed

end
