(* ===== verification/FR_Dump.thy ===== *)
theory FR_Dump
  imports FR_Ring
begin

text \<open>
  The dump of the flight recorder (\<^verbatim>\<open>Recorder.dump\<close>, \<^verbatim>\<open>_native\<close>, \<^verbatim>\<open>empty_dump\<close>): which groups
  and entries it shows, how it joins ring entries with eager records, and how it infers the
  completion of entries the watchdog could not stamp. The loops are written as the code runs
  them (a backward pass over the entries, a forward pass over the folded ones); \<open>later_stamp\<close>
  is what the backward pass means.
\<close>

definition FR_VERSION :: string where "FR_VERSION = ''2.10''"

definition NATIVE_NAMES :: "int \<Rightarrow> string option" where
  "NATIVE_NAMES op =
     (if op = 1 then Some ''all_reduce'' else if op = 2 then Some ''broadcast''
      else if op = 3 then Some ''reduce'' else if op = 4 then Some ''_all_gather_base''
      else if op = 5 then Some ''_reduce_scatter_base'' else None)"

definition OP_SEND :: int where "OP_SEND = 6"
definition OP_RECV :: int where "OP_RECV = 7"

definition NCCL_DTYPE_NAMES :: "int \<Rightarrow> string option" where
  "NCCL_DTYPE_NAMES d = map_of
     [(0, ''Char''), (1, ''Byte''), (2, ''Int''), (3, ''UInt32''), (4, ''Long''), (5, ''UInt64''),
      (6, ''Half''), (7, ''Float''), (8, ''Double''), (9, ''BFloat16''), (10, ''Float8_e4m3fn''),
      (11, ''Float8_e5m2'')] d"

subsection \<open>Rows of the dump\<close>

record status =
  st_enqueued :: int
  st_started :: int
  st_completed :: int

definition new_status :: status where
  "new_status = \<lparr>st_enqueued = -1, st_started = -1, st_completed = -1\<rparr>"

record 'fr dump_entry =
  d_frames :: "'fr list option"
  d_record_id :: int
  d_pg_id :: int
  d_process_group :: "string \<times> string"
  d_thread_name :: string
  d_thread_id :: string
  d_collective_seq_id :: int
  d_p2p_seq_id :: int
  d_op_id :: int
  d_profiling_name :: string
  d_time_created_ns :: int
  d_input_sizes :: "int list list"
  d_input_dtypes :: "string list"
  d_output_sizes :: "int list list"
  d_output_dtypes :: "string list"
  d_state :: string
  d_time_started :: "int option"
  d_time_completed :: "int option"
  d_retired :: bool
  d_timeout_ms :: int
  d_is_p2p :: bool

record 'fr fr_dump =
  fd_version :: string
  fd_pg_config :: "(string, string \<times> string \<times> int list) dict"
  fd_comm_lib_version :: string
  fd_pg_status :: "(int, status) dict"
  fd_entries :: "'fr dump_entry list option"

subsection \<open>Groups shown\<close>

text \<open>The ids known, live or kept, in increasing order; reading a live one refreshes its names.\<close>

definition known_ids :: "('tb, 'h) recorder \<Rightarrow> int list" where
  "known_ids r = sort (remdups (dkeys (r_live r) @ dkeys (r_groups r)))"

fun read_groups ::
    "('h \<Rightarrow> group_view option) \<Rightarrow> ('tb, 'h) recorder \<Rightarrow> int list \<Rightarrow> ('tb, 'h) recorder \<times> (int, fr_group) dict" where
  "read_groups deref r [] = (r, [])"
| "read_groups deref r (pg # pgs) =
     (let (r1, g) = rec_group deref r pg;
          (r2, gs) = read_groups deref r1 pgs
      in (r2, case g of Some g \<Rightarrow> (pg, g) # gs | None \<Rightarrow> gs))"

text \<open>\<open>newest[name]\<close> is the last id of that name in the order read.\<close>

definition newest_id :: "(int, fr_group) dict \<Rightarrow> string \<Rightarrow> int option" where
  "newest_id gs name = map_option fst (find_last (\<lambda>(pg, g). g_name g = name) gs)"

definition shown_groups :: "(int, fr_group) dict \<Rightarrow> (int, fr_group) dict" where
  "shown_groups gs = filter (\<lambda>(pg, g). newest_id gs (g_name g) = Some pg) gs"

definition shown_entries :: "(int, fr_group) dict \<Rightarrow> fr_entry list \<Rightarrow> fr_entry list" where
  "shown_entries groups es = filter (\<lambda>e. has_key groups (e_pg e)) es"

subsection \<open>Completion\<close>

type_synonym stamps = "int \<times> int \<Rightarrow> int option"

definition e_flag :: "nat \<Rightarrow> fr_entry \<Rightarrow> bool" where
  "e_flag b e = flag b (e_flags e)"

text \<open>The backward loop: the stamps of the entries from here on, and \<open>later\<close> after them.\<close>

fun infer_back :: "fr_entry list \<Rightarrow> int option list \<times> stamps" where
  "infer_back [] = ([], Map.empty)"
| "infer_back (e # es) =
     (let (ds, later) = infer_back es
      in if e_flag FL_MEMBER e \<or> e_comm e = 0 then (e_done_ns e # ds, later)
         else if e_flag FL_UNTRACKED e then
           ((if \<not> e_flag FL_FOLDED e \<or> e_link e = e_rid e + 1
             then later (e_pg e, e_comm e) else e_done_ns e) # ds, later)
         else case e_done_ns e of
           Some t \<Rightarrow> (Some t # ds, later((e_pg e, e_comm e) \<mapsto> t))
         | None \<Rightarrow> (None # ds, later))"

text \<open>\<open>index[rid + 1]\<close>: a dictionary comprehension keeps the last position of a key.\<close>

definition link_index :: "fr_entry list \<Rightarrow> int \<Rightarrow> nat option" where
  "link_index es link = map_option fst (find_last (\<lambda>(i, e). e_rid e + 1 = link) (zip [0..<length es] es))"

text \<open>The forward loop over folded entries, in place.\<close>

fun link_pass :: "(int \<Rightarrow> nat option) \<Rightarrow> nat \<Rightarrow> fr_entry list \<Rightarrow> int option list \<Rightarrow> int option list" where
  "link_pass index i [] done = done"
| "link_pass index i (e # es) done =
     link_pass index (Suc i) es
       (if e_flag FL_FOLDED e \<and> e_link e \<noteq> e_rid e + 1 then
          done[i := (case (if e_link e \<noteq> 0 then index (e_link e) else None) of
                       Some target \<Rightarrow> done ! target
                     | None \<Rightarrow> None)]
        else done)"

definition completions :: "fr_entry list \<Rightarrow> int option list" where
  "completions es = link_pass (link_index es) 0 es (fst (infer_back es))"

subsection \<open>Names and sizes\<close>

definition native_desc :: "fr_entry \<Rightarrow> fr_group \<Rightarrow> string \<times> int list list \<times> int list list" where
  "native_desc e g =
     (if e_op e = OP_SEND then
        (''send '' @ int_text (g_rank g) @ ''->'' @ int_text (e_root e), [[e_count e]], [[e_count e]])
      else if e_op e = OP_RECV then
        (''recv '' @ int_text (g_rank g) @ ''<-'' @ int_text (e_root e), [[e_count e]], [[e_count e]])
      else
        let n_out = (if e_op e = 4 then e_count e * int (length (g_ranks g)) else e_count e);
            n_in = (if e_op e = 5 then e_count e * int (length (g_ranks g)) else e_count e)
        in (or_else (NATIVE_NAMES (e_op e)) ''coalesced'', [[n_in]], [[n_out]]))"

text \<open>The description of one entry: name, input sizes and dtypes, output sizes and dtypes.\<close>

definition describe_entry ::
    "'tb fr_record option \<Rightarrow> fr_entry \<Rightarrow> fr_group
     \<Rightarrow> string \<times> int list list \<times> string list \<times> int list list \<times> string list" where
  "describe_entry record e g =
     (if e_flag FL_END e then
        ((case record of Some rec \<Rightarrow> rec_name rec | None \<Rightarrow> ''coalesced''), [], [], [], [])
      else case record of
        Some rec \<Rightarrow>
          (rec_name rec, rec_shapes rec, dtype_names (rec_dtypes rec),
           rec_out_shapes rec, dtype_names (rec_out_dtypes rec))
      | None \<Rightarrow>
          (case native_desc e g of
             (name, in_sizes, out_sizes) \<Rightarrow>
               let dts = [or_else (NCCL_DTYPE_NAMES (e_dtype e)) (int_text (e_dtype e))]
               in (name, in_sizes, dts, out_sizes, dts)))"

definition dump_row ::
    "bool \<Rightarrow> (int \<Rightarrow> string option) \<Rightarrow> int \<Rightarrow> string \<Rightarrow> 'fr list \<Rightarrow> 'tb fr_record option
     \<Rightarrow> fr_group \<Rightarrow> fr_entry \<Rightarrow> int option \<Rightarrow> 'fr dump_entry" where
  "dump_row stacks threads offset prefix frames record g e done_ns =
     (case describe_entry record e g of
        (name, in_sizes, in_dtypes, out_sizes, out_dtypes) \<Rightarrow>
          \<lparr>d_frames = (if stacks then Some frames else None),
           d_record_id = e_rid e, d_pg_id = e_pg e, d_process_group = (g_name g, g_desc g),
           d_thread_name = or_else (threads (e_thread e)) '''',
           d_thread_id = int_text (e_thread e),
           d_collective_seq_id = e_cseq e, d_p2p_seq_id = e_pseq e, d_op_id = e_op_id e,
           d_profiling_name = prefix @ name,
           d_time_created_ns = e_created_ns e + offset,
           d_input_sizes = in_sizes, d_input_dtypes = in_dtypes,
           d_output_sizes = out_sizes, d_output_dtypes = out_dtypes,
           d_state = (if done_ns \<noteq> None then ''completed'' else ''scheduled''),
           d_time_started = None,
           d_time_completed = map_option (\<lambda>t. t + offset) done_ns,
           d_retired = (done_ns \<noteq> None),
           d_timeout_ms = g_timeout_ms g,
           d_is_p2p = e_flag FL_P2P e\<rparr>)"

definition bump_status :: "fr_entry \<Rightarrow> int option \<Rightarrow> status \<Rightarrow> status" where
  "bump_status e done_ns st =
     (if e_flag FL_P2P e \<or> e_flag FL_MEMBER e then st
      else let st1 = st\<lparr>st_enqueued := e_cseq e\<rparr>
           in if done_ns \<noteq> None then st1\<lparr>st_completed := e_cseq e\<rparr> else st1)"

text \<open>One pass of the output loop: \<open>status.setdefault\<close>, the counters, and the row unless skipped.\<close>

definition dump_step ::
    "bool \<Rightarrow> (fr_entry \<Rightarrow> int option \<Rightarrow> 'row) \<Rightarrow> (int, status) dict \<times> 'row list
     \<Rightarrow> fr_entry \<times> int option \<Rightarrow> (int, status) dict \<times> 'row list" where
  "dump_step only_active row acc x =
     (let (status, out) = acc; (e, done_ns) = x;
          st = or_else (dget status (e_pg e)) new_status;
          status' = dput (e_pg e) (bump_status e done_ns st) status
      in (status', if only_active \<and> done_ns \<noteq> None then out else out @ [row e done_ns]))"

definition records_of :: "'tb fr_record option list \<Rightarrow> fr_entry list \<Rightarrow> (int, 'tb fr_record) dict" where
  "records_of snapshot es =
     foldl (\<lambda>d e. case records_lookup snapshot (e_tag e) of
                    Some rec \<Rightarrow> dput (e_tag e) rec d
                  | None \<Rightarrow> d) [] es"

definition pg_config_of :: "(int, fr_group) dict \<Rightarrow> (string, string \<times> string \<times> int list) dict" where
  "pg_config_of groups =
     foldl (\<lambda>d (pg, g). dput (g_name g) (g_name g, g_desc g, g_ranks g) d) [] groups"

text \<open>
  The dictionary \<open>dump\<close> builds, from the groups read and the ring's entries. \<open>symbolize\<close> gives
  the frames of a list of tracebacks, \<open>threads\<close> the names of the running threads, \<open>offset\<close> the
  difference of the wall and the monotonic clock.
\<close>

definition dump_entries ::
    "('tb list \<Rightarrow> 'fr list list) \<Rightarrow> (int \<Rightarrow> string option) \<Rightarrow> int \<Rightarrow> ('tb, 'h) recorder
     \<Rightarrow> (int, fr_group) dict \<Rightarrow> fr_entry list \<Rightarrow> bool \<Rightarrow> bool \<Rightarrow> bool \<Rightarrow> 'fr fr_dump" where
  "dump_entries symbolize threads offset r all_groups ring include_collectives stacks only_active =
     (let groups = shown_groups all_groups;
          es = shown_entries groups ring;
          records = records_of (r_records r) es;
          frames = (if include_collectives \<and> stacks
                    then zip (dkeys records) (symbolize (map (rec_tb \<circ> snd) records)) else []);
          row = (\<lambda>e done_ns. dump_row stacks threads offset (r_prefix r)
                   (or_else (dget frames (e_tag e)) []) (dget records (e_tag e))
                   (the (dget groups (e_pg e))) e done_ns);
          (status, out) = foldl (dump_step only_active row) ([], []) (zip es (completions es))
      in \<lparr>fd_version = FR_VERSION, fd_pg_config = pg_config_of groups,
          fd_comm_lib_version = r_comm_lib_version r, fd_pg_status = status,
          fd_entries = (if include_collectives then Some out else None)\<rparr>)"

definition rec_dump ::
    "('h \<Rightarrow> group_view option) \<Rightarrow> ('tb list \<Rightarrow> 'fr list list) \<Rightarrow> (int \<Rightarrow> string option) \<Rightarrow> int
     \<Rightarrow> int list \<Rightarrow> nat \<Rightarrow> ('tb, 'h) recorder \<Rightarrow> bool \<Rightarrow> bool \<Rightarrow> bool
     \<Rightarrow> ('tb, 'h) recorder \<times> 'fr fr_dump result" where
  "rec_dump deref symbolize threads offset buf n r include_collectives stacks only_active =
     (let (r', all_groups) = read_groups deref r (known_ids r)
      in (r', bind_res (entries buf n) (\<lambda>ring.
            Inr (dump_entries symbolize threads offset r' all_groups ring
                   include_collectives stacks only_active))))"

definition empty_dump :: "bool \<Rightarrow> 'fr fr_dump" where
  "empty_dump include_collectives =
     \<lparr>fd_version = FR_VERSION, fd_pg_config = [], fd_comm_lib_version = '''', fd_pg_status = [],
      fd_entries = (if include_collectives then Some [] else None)\<rparr>"

end
