(* ===== verification/FR_Dump_Lemmas.thy ===== *)
theory FR_Dump_Lemmas
  imports FR_Dump
begin

text \<open>
  What the dump's loops compute: the backward pass gives every entry the stamp of the first later
  completion on its communicator (\<open>direct_stamp\<close>), the forward pass gives a folded entry the
  completion of the entry it is linked to, the output loop is a filter and a map, the counters
  are those of the last collective, and every row's group is one the dump shows.
\<close>

subsection \<open>The backward pass\<close>

text \<open>An entry the watchdog tracks and stamped speaks for its communicator's stream.\<close>

definition stamped_on :: "int \<Rightarrow> int \<Rightarrow> fr_entry \<Rightarrow> bool" where
  "stamped_on pg comm e \<longleftrightarrow> \<not> e_flag FL_MEMBER e \<and> e_comm e \<noteq> 0 \<and> \<not> e_flag FL_UNTRACKED e
     \<and> e_done_ns e \<noteq> None \<and> e_pg e = pg \<and> e_comm e = comm"

definition later_stamp :: "fr_entry list \<Rightarrow> int \<times> int \<Rightarrow> int option" where
  "later_stamp es = (\<lambda>(pg, comm). Option.bind (List.find (stamped_on pg comm) es) e_done_ns)"

definition takes_later :: "fr_entry \<Rightarrow> bool" where
  "takes_later e \<longleftrightarrow> \<not> e_flag FL_MEMBER e \<and> e_comm e \<noteq> 0 \<and> e_flag FL_UNTRACKED e
     \<and> (\<not> e_flag FL_FOLDED e \<or> e_link e = e_rid e + 1)"

definition direct_stamp :: "fr_entry \<Rightarrow> fr_entry list \<Rightarrow> int option" where
  "direct_stamp e later = (if takes_later e then later_stamp later (e_pg e, e_comm e) else e_done_ns e)"

lemma later_stamp_Nil [simp]: "later_stamp [] = Map.empty"
  by (auto simp: later_stamp_def)

lemma later_stamp_Cons:
  "later_stamp (e # es) =
     (if stamped_on (e_pg e) (e_comm e) e then (later_stamp es)((e_pg e, e_comm e) := e_done_ns e)
      else later_stamp es)"
  by (rule ext) (auto simp: later_stamp_def stamped_on_def split: if_splits)

lemma infer_back_later: "snd (infer_back es) = later_stamp es"
  by (induction es)
     (auto simp: later_stamp_Cons stamped_on_def Let_def split: prod.splits option.splits)

lemma infer_back_length [simp]: "length (fst (infer_back es)) = length es"
  by (induction es) (auto simp: Let_def split: prod.splits option.splits)

lemma infer_back_Cons: "fst (infer_back (e # es)) = direct_stamp e es # fst (infer_back es)"
  using infer_back_later[of es]
  by (auto simp: direct_stamp_def takes_later_def Let_def split: prod.splits option.splits)

lemma infer_back_nth:
  "i < length es \<Longrightarrow> fst (infer_back es) ! i = direct_stamp (es ! i) (drop (Suc i) es)"
proof (induction es arbitrary: i)
  case Nil
  then show ?case by simp
next
  case (Cons e es)
  then show ?case
    by (cases i) (simp_all del: infer_back.simps add: infer_back_Cons)
qed

subsection \<open>The forward pass\<close>

definition follows_link :: "fr_entry \<Rightarrow> bool" where
  "follows_link e \<longleftrightarrow> e_flag FL_FOLDED e \<and> e_link e \<noteq> e_rid e + 1"

text \<open>
  The ring's links: a folded entry points to an entry that is its own representative (the one its
  group's commit stamped), or to none. \<open>flight_recorder.mojo\<close> writes them so.
\<close>

definition links_ok :: "fr_entry list \<Rightarrow> bool" where
  "links_ok es \<longleftrightarrow>
     (\<forall>e \<in> set es. \<forall>t \<in> set es. follows_link e \<longrightarrow> e_link e = e_rid t + 1 \<longrightarrow> \<not> follows_link t)"

definition link_target :: "fr_entry list \<Rightarrow> fr_entry \<Rightarrow> nat option" where
  "link_target es e = (if e_link e \<noteq> 0 then link_index es (e_link e) else None)"

lemma link_pass_length [simp]: "length (link_pass index i es d) = length d"
  by (induction es arbitrary: i d) auto

lemma link_pass_unfold:
  "link_pass (link_index all_es) i (e # es) d =
     link_pass (link_index all_es) (Suc i) es
       (if follows_link e
        then d[i := (case link_target all_es e of Some t \<Rightarrow> d ! t | None \<Rightarrow> None)] else d)"
  by (simp add: follows_link_def link_target_def)

lemma link_pass_below: "j < i \<Longrightarrow> link_pass index i es d ! j = d ! j"
  by (induction es arbitrary: i d) auto

lemma link_index_SomeD:
  "link_index es link = Some j \<Longrightarrow> j < length es \<and> e_rid (es ! j) + 1 = link"
  by (auto simp: link_index_def dest!: find_last_SomeD simp: in_set_zip)

lemma link_pass_nth:
  assumes "length d = i + length es" "j < length d"
    and stable: "\<And>e t. e \<in> set es \<Longrightarrow> follows_link e \<Longrightarrow> link_target all_es e = Some t
        \<Longrightarrow> t < i \<or> t - i < length es \<and> \<not> follows_link (es ! (t - i))"
  shows "link_pass (link_index all_es) i es d ! j =
     (if i \<le> j \<and> follows_link (es ! (j - i))
      then (case link_target all_es (es ! (j - i)) of Some t \<Rightarrow> d ! t | None \<Rightarrow> None) else d ! j)"
  using assms
proof (induction es arbitrary: i d)
  case Nil
  then show ?case by simp
next
  case (Cons e es)
  let ?v = "case link_target all_es e of Some t \<Rightarrow> d ! t | None \<Rightarrow> None"
  let ?d = "if follows_link e then d[i := ?v] else d"
  have len: "length ?d = Suc i + length es" "j < length ?d" using Cons.prems by auto
  have st: "t < Suc i \<or> t - Suc i < length es \<and> \<not> follows_link (es ! (t - Suc i))"
    if x: "x \<in> set es" "follows_link x" "link_target all_es x = Some t" for x t
    using Cons.prems(3)[of x t] x by (cases "t = i") (auto simp: nth_Cons' split: if_splits)
  have ind: "link_pass (link_index all_es) i (e # es) d ! j =
      (if Suc i \<le> j \<and> follows_link (es ! (j - Suc i))
       then (case link_target all_es (es ! (j - Suc i)) of Some t \<Rightarrow> ?d ! t | None \<Rightarrow> None) else ?d ! j)"
    using Cons.IH[OF len st] by (simp only: link_pass_unfold)
  have same: "?d ! t = d ! t" if "x \<in> set es" "follows_link x" "link_target all_es x = Some t" for x t
  proof (cases "t = i")
    case True
    have "t < i \<or> t - i < length (e # es) \<and> \<not> follows_link ((e # es) ! (t - i))"
      using Cons.prems(3)[of x t] that by simp
    then show ?thesis using True by simp
  qed simp
  consider "j < i" | "j = i" | "Suc i \<le> j" by linarith
  then show ?case
  proof cases
    case 3
    then have "es ! (j - Suc i) \<in> set es" using Cons.prems by (intro nth_mem) simp
    with 3 ind same show ?thesis
      by (auto simp: nth_Cons' Suc_diff_Suc split: option.splits)
  qed (use ind Cons.prems in auto)
qed

lemma links_ok_stable:
  assumes "links_ok es" "e \<in> set es" "follows_link e" "link_target es e = Some t"
  shows "t < length es \<and> \<not> follows_link (es ! t)"
proof -
  have "t < length es" "e_link e = e_rid (es ! t) + 1"
    using assms(4) by (auto simp: link_target_def dest: link_index_SomeD split: if_splits)
  with assms show ?thesis unfolding links_ok_def by (metis nth_mem)
qed

text \<open>The meaning of both passes together.\<close>

lemma completions_nth:
  assumes "links_ok es" "i < length es"
  shows "completions es ! i =
     (if follows_link (es ! i)
      then (case link_target es (es ! i) of
              Some t \<Rightarrow> direct_stamp (es ! t) (drop (Suc t) es) | None \<Rightarrow> None)
      else direct_stamp (es ! i) (drop (Suc i) es))"
proof -
  have "completions es ! i =
      (if follows_link (es ! i)
       then (case link_target es (es ! i) of Some t \<Rightarrow> fst (infer_back es) ! t | None \<Rightarrow> None)
       else fst (infer_back es) ! i)"
    unfolding completions_def
    using link_pass_nth[of "fst (infer_back es)" 0 es i es] links_ok_stable[OF assms(1)] assms(2)
    by simp
  moreover have "follows_link (es ! i) \<Longrightarrow> link_target es (es ! i) = Some t \<Longrightarrow> t < length es" for t
    using links_ok_stable[OF assms(1), of "es ! i" t] assms(2) by simp
  ultimately show ?thesis
    using assms(2) by (auto simp: infer_back_nth split: option.splits)
qed

lemma completions_length [simp]: "length (completions es) = length es"
  by (simp add: completions_def)

subsection \<open>The output loop\<close>

lemma dump_step_rows:
  "snd (foldl (dump_step oa row) (st, out) xs) =
     out @ map (\<lambda>(e, d). row e d) (filter (\<lambda>(e, d). \<not> (oa \<and> d \<noteq> None)) xs)"
  by (induction xs arbitrary: st out) (auto simp: dump_step_def Let_def split: if_splits)

lemma dump_step_status:
  "fst (foldl (dump_step oa row) (st, out) xs) = fst (foldl (dump_step False (\<lambda>_ _. ())) (st, []) xs)"
proof -
  have "fst (foldl (dump_step oa row) (st, out) xs) = fst (foldl (dump_step False (\<lambda>_ _. ())) (st, out') xs)"
    for out'
    by (induction xs arbitrary: st out out') (auto simp: dump_step_def Let_def)
  then show ?thesis .
qed

text \<open>The counters of a group are those of its last collective, and of its last completed one.\<close>

definition counts_as_collective :: "int \<Rightarrow> fr_entry \<Rightarrow> bool" where
  "counts_as_collective pg e \<longleftrightarrow> e_pg e = pg \<and> \<not> e_flag FL_P2P e \<and> \<not> e_flag FL_MEMBER e"

definition last_cseq :: "(fr_entry \<times> int option \<Rightarrow> bool) \<Rightarrow> (fr_entry \<times> int option) list \<Rightarrow> int" where
  "last_cseq P xs = (case find_last P xs of Some (e, _) \<Rightarrow> e_cseq e | None \<Rightarrow> -1)"

definition status_of :: "int \<Rightarrow> (fr_entry \<times> int option) list \<Rightarrow> status" where
  "status_of pg xs =
     \<lparr>st_enqueued = last_cseq (\<lambda>(e, d). counts_as_collective pg e) xs, st_started = -1,
      st_completed = last_cseq (\<lambda>(e, d). counts_as_collective pg e \<and> d \<noteq> None) xs\<rparr>"

lemma last_cseq_snoc:
  "last_cseq P (xs @ [x]) = (if P x then e_cseq (fst x) else last_cseq P xs)"
  by (cases x) (simp add: last_cseq_def)

lemma status_of_snoc:
  "status_of pg (xs @ [(e, d)]) =
     (if e_pg e = pg then bump_status e d (status_of pg xs) else status_of pg xs)"
  by (auto simp: status_of_def last_cseq_snoc bump_status_def counts_as_collective_def Let_def)

lemma status_of_none: "\<not> (\<exists>(e, d) \<in> set xs. e_pg e = pg) \<Longrightarrow> status_of pg xs = new_status"
proof -
  assume none: "\<not> (\<exists>(e, d) \<in> set xs. e_pg e = pg)"
  then have "find_last (\<lambda>(e, d). counts_as_collective pg e) xs = None"
    "find_last (\<lambda>(e, d). counts_as_collective pg e \<and> d \<noteq> None) xs = None"
    by (auto simp: find_last_None counts_as_collective_def)
  then show ?thesis by (simp add: status_of_def last_cseq_def new_status_def)
qed

lemma dump_status:
  "dget (fst (foldl (dump_step oa row) ([], []) xs)) pg =
     (if \<exists>(e, d) \<in> set xs. e_pg e = pg then Some (status_of pg xs) else None)"
proof (induction xs arbitrary: pg rule: rev_induct)
  case Nil
  then show ?case by simp
next
  case (snoc x xs)
  obtain e d where x: "x = (e, d)" by (cases x)
  obtain st out where f: "foldl (dump_step oa row) ([], []) xs = (st, out)" by (metis surj_pair)
  have "or_else (dget st (e_pg e)) new_status = status_of (e_pg e) xs"
    using snoc.IH[of "e_pg e"] status_of_none[of xs "e_pg e"] by (simp add: f)
  then have "fst (foldl (dump_step oa row) ([], []) (xs @ [x]))
      = dput (e_pg e) (bump_status e d (status_of (e_pg e) xs)) st"
    by (simp add: f x dump_step_def Let_def)
  then show ?case
    using snoc.IH[of pg] by (simp add: f x status_of_snoc)
qed

subsection \<open>Groups shown\<close>

lemma newest_id_SomeD: "newest_id gs name = Some pg \<Longrightarrow> \<exists>g. (pg, g) \<in> set gs \<and> g_name g = name"
  by (auto simp: newest_id_def dest!: find_last_SomeD)

text \<open>No two groups shown have one name.\<close>

lemma shown_groups_names:
  assumes "distinct (dkeys gs)" "(a, g) \<in> set (shown_groups gs)" "(b, h) \<in> set (shown_groups gs)"
    "g_name g = g_name h"
  shows "a = b \<and> g = h"
proof -
  have "a = b" using assms(2-4) by (auto simp: shown_groups_def)
  moreover have "(a, g) \<in> set gs" "(b, h) \<in> set gs" using assms by (auto simp: shown_groups_def)
  ultimately show ?thesis using assms(1) by (auto simp: dkeys_def dest: eq_key_imp_eq_value)
qed

lemma distinct_shown_groups: "distinct (dkeys gs) \<Longrightarrow> distinct (dkeys (shown_groups gs))"
  by (auto simp: dkeys_def shown_groups_def distinct_map_filter)

lemma pg_config_fold:
  "dget (foldl (\<lambda>d (pg, g). dput (g_name g) (g_name g, g_desc g, g_ranks g) d) d0 gs) name =
     (case find_last (\<lambda>(pg, g). g_name g = name) gs of
        Some (pg, g) \<Rightarrow> Some (g_name g, g_desc g, g_ranks g) | None \<Rightarrow> dget d0 name)"
proof (induction gs rule: rev_induct)
  case Nil
  then show ?case by simp
next
  case (snoc x gs)
  then show ?case by (cases x) (simp split: option.splits)
qed

lemma pg_config_shown:
  assumes "distinct (dkeys gs)" "(pg, g) \<in> set (shown_groups gs)"
  shows "dget (pg_config_of (shown_groups gs)) (g_name g) = Some (g_name g, g_desc g, g_ranks g)"
proof -
  let ?P = "\<lambda>(pg', h). g_name h = g_name g"
  have "find_last ?P (shown_groups gs) \<noteq> None"
    using assms(2) by (auto simp: find_last_None)
  then obtain x where x: "find_last ?P (shown_groups gs) = Some x" by blast
  then have "x \<in> set (shown_groups gs) \<and> ?P x" by (rule find_last_SomeD)
  then have "(fst x, snd x) \<in> set (shown_groups gs)" "g_name (snd x) = g_name g"
    by (simp_all add: case_prod_beta)
  from shown_groups_names[OF assms(1) this(1) assms(2) this(2)] have "x = (pg, g)"
    by (simp add: prod_eq_iff)
  with x show ?thesis by (simp add: pg_config_of_def pg_config_fold)
qed

text \<open>The groups read: distinct ids.\<close>

lemma read_groups_Cons:
  "snd (read_groups deref r (pg # pgs)) =
     (case snd (rec_group deref r pg) of Some g \<Rightarrow> [(pg, g)] | None \<Rightarrow> [])
     @ snd (read_groups deref (fst (rec_group deref r pg)) pgs)"
  "fst (read_groups deref r (pg # pgs)) = fst (read_groups deref (fst (rec_group deref r pg)) pgs)"
  by (auto simp: Let_def split: prod.splits option.splits)

lemma read_groups_keys: "set (dkeys (snd (read_groups deref r pgs))) \<subseteq> set pgs"
proof (induction pgs arbitrary: r)
  case Nil
  then show ?case by (simp add: dkeys_def)
next
  case (Cons pg pgs)
  then show ?case
    unfolding read_groups_Cons dkeys_def by (auto split: option.splits)
qed

lemma read_groups_distinct: "distinct pgs \<Longrightarrow> distinct (dkeys (snd (read_groups deref r pgs)))"
proof (induction pgs arbitrary: r)
  case Nil
  then show ?case by (simp add: dkeys_def)
next
  case (Cons pg pgs)
  have "pg \<notin> set (dkeys (snd (read_groups deref (fst (rec_group deref r pg)) pgs)))"
    using read_groups_keys Cons.prems by fastforce
  then show ?case
    using Cons unfolding read_groups_Cons dkeys_def by (auto split: option.splits)
qed

lemma known_ids_distinct [simp]: "distinct (known_ids r)"
  by (simp add: known_ids_def)

lemma read_groups_fields [simp]:
  "r_records (fst (read_groups deref r pgs)) = r_records r"
  "r_prefix (fst (read_groups deref r pgs)) = r_prefix r"
  "r_live (fst (read_groups deref r pgs)) = r_live r"
  by (induction pgs arbitrary: r) (simp_all add: read_groups_Cons del: read_groups.simps(2))

subsection \<open>The join with the eager records\<close>

lemma records_of_get:
  "dget (records_of snap es) tag =
     (if \<exists>e \<in> set es. e_tag e = tag then records_lookup snap tag else None)"
  unfolding records_of_def
  by (induction es rule: rev_induct) (auto split: option.splits)

lemma records_of_keys: "dkeys (records_of snap es) = map fst (records_of snap es)"
  by (simp add: dkeys_def)

lemma dget_zip_map: "dget (zip (dkeys d) (map f d)) k = map_option (\<lambda>v. f (k, v)) (dget d k)"
  by (induction d) (auto simp: dkeys_def)

lemma dump_step_row_in:
  "x \<in> set (snd (foldl (dump_step oa row) ([], []) (zip es ds))) \<Longrightarrow> \<exists>e d. e \<in> set es \<and> x = row e d"
  by (auto simp: dump_step_rows dest: set_zip_leftD)

lemma dump_step_status_same:
  "fst (foldl (dump_step True row) acc xs) = fst (foldl (dump_step False row) acc xs)"
  using dump_step_status[of True row "fst acc" "snd acc" xs] dump_step_status[of False row "fst acc" "snd acc" xs]
  by simp

lemma dump_entries_row_in:
  fixes r :: "('tb, 'h) recorder"
  assumes "fd_entries (dump_entries symbolize threads offset r gs ring ic stacks oa) = Some rows" "row \<in> set rows"
  shows "\<exists>e d prefix frames (rec :: 'tb fr_record option). e \<in> set (shown_entries (shown_groups gs) ring) \<and>
     row = dump_row stacks threads offset prefix frames rec (the (dget (shown_groups gs) (e_pg e))) e d"
proof -
  let ?es = "shown_entries (shown_groups gs) ring"
  let ?recs = "records_of (r_records r) ?es"
  let ?F = "\<lambda>e. or_else (dget (if ic \<and> stacks then zip (dkeys ?recs) (symbolize (map (rec_tb \<circ> snd) ?recs)) else [])
      (e_tag e)) []"
  let ?R = "\<lambda>e. dget ?recs (e_tag e)"
  have "fd_entries (dump_entries symbolize threads offset r gs ring ic stacks oa) =
     (if ic then Some (snd (foldl (dump_step oa (\<lambda>e d. dump_row stacks threads offset (r_prefix r) (?F e) (?R e)
        (the (dget (shown_groups gs) (e_pg e))) e d)) ([], []) (zip ?es (completions ?es)))) else None)"
    by (simp add: dump_entries_def Let_def case_prod_unfold)
  with assms have "row \<in> set (snd (foldl (dump_step oa (\<lambda>e d. dump_row stacks threads offset (r_prefix r) (?F e) (?R e)
        (the (dget (shown_groups gs) (e_pg e))) e d)) ([], []) (zip ?es (completions ?es))))"
    by (simp split: if_splits)
  from dump_step_row_in[OF this] obtain e d where "e \<in> set ?es"
    "row = dump_row stacks threads offset (r_prefix r) (?F e) (?R e) (the (dget (shown_groups gs) (e_pg e))) e d"
    by (elim exE conjE) (rule that)
  then show ?thesis by (intro exI conjI)
qed

lemma map_cong_filter:
  "(\<And>x. x \<in> set xs \<Longrightarrow> f x = g x) \<Longrightarrow> map f (filter P xs) = map g (filter P xs)"
  by simp

subsection \<open>Sorted ids\<close>

lemma read_groups_sorted: "sorted pgs \<Longrightarrow> sorted (dkeys (snd (read_groups deref r pgs)))"
proof (induction pgs arbitrary: r)
  case Nil
  then show ?case by (simp add: dkeys_def)
next
  case (Cons pg pgs)
  have "\<forall>x \<in> set (dkeys (snd (read_groups deref (fst (rec_group deref r pg)) pgs))). pg \<le> x"
    using read_groups_keys[of deref "fst (rec_group deref r pg)" pgs] Cons.prems by auto
  then show ?case
    using Cons unfolding read_groups_Cons dkeys_def by (auto split: option.splits)
qed

lemma known_ids_sorted [simp]: "sorted (known_ids r)"
  by (simp add: known_ids_def)

lemma find_last_split:
  "find_last P xs = Some x \<Longrightarrow> \<exists>ys zs. xs = ys @ x # zs \<and> P x \<and> (\<forall>z \<in> set zs. \<not> P z)"
proof (induction xs rule: rev_induct)
  case (snoc y xs)
  show ?case
  proof (cases "P y")
    case True
    then show ?thesis using snoc.prems by fastforce
  next
    case False
    then obtain ys zs where "xs = ys @ x # zs" "P x" "\<forall>z \<in> set zs. \<not> P z" using snoc by auto
    then show ?thesis using False by (intro exI[of _ ys] exI[of _ "zs @ [y]"]) auto
  qed
qed simp

text \<open>The newest id of a name is the largest, as the ids are read in increasing order.\<close>

lemma newest_id_max:
  assumes "sorted (dkeys gs)" "newest_id gs name = Some pg" "(pg', g') \<in> set gs" "g_name g' = name"
  shows "pg' \<le> pg"
proof -
  from assms(2) obtain g where "find_last (\<lambda>(pg, g). g_name g = name) gs = Some (pg, g)"
    by (auto simp: newest_id_def)
  from find_last_split[OF this] obtain ys zs where gs: "gs = ys @ (pg, g) # zs"
    and none: "\<forall>(p, g) \<in> set zs. g_name g \<noteq> name" by auto
  have "(pg', g') \<in> set ys \<or> (pg', g') = (pg, g)"
    using assms(3,4) none unfolding gs by auto
  then show ?thesis
    using assms(1) unfolding gs by (auto simp: dkeys_def sorted_append)
qed

subsection \<open>Properties\<close>

text \<open>C2: When the dump calls an entry completed. An entry the watchdog stamped, or that waits for
  nothing, has its own stamp; an entry nobody tracks has the stamp of the first later completion on
  its communicator (work of one stream completes in order); an entry folded into a group has the
  completion of the entry its link names, and none when that entry left the ring. The hypothesis is
  what the native ring writes: a link never names another entry that only follows a link.\<close>

theorem completions_meaning:
  assumes "links_ok es" "i < length es"
  shows "completions es ! i =
     (if follows_link (es ! i)
      then (case link_target es (es ! i) of
              Some t \<Rightarrow> direct_stamp (es ! t) (drop (Suc t) es) | None \<Rightarrow> None)
      else direct_stamp (es ! i) (drop (Suc i) es))"
  using assms by (rule completions_nth)

definition sample_entry :: "int \<Rightarrow> int \<Rightarrow> int option \<Rightarrow> int \<Rightarrow> fr_entry" where
  "sample_entry rid flags stamp link =
     \<lparr>e_rid = rid, e_pg = 0, e_cseq = rid, e_pseq = 0, e_op_id = rid, e_op = 1, e_count = 4, e_dtype = 7,
      e_root = 0, e_flags = flags, e_created_ns = rid, e_thread = 1, e_tag = 0, e_comm = 5,
      e_done_ns = stamp, e_link = link\<rparr>"

definition sample_ring :: "fr_entry list" where
  "sample_ring = [sample_entry 0 24 None 2, sample_entry 1 24 None 2, sample_entry 2 0 (Some 50) 0]"

lemma links_ok_list: "links_ok es \<longleftrightarrow>
    list_all (\<lambda>e. list_all (\<lambda>t. follows_link e \<longrightarrow> e_link e = e_rid t + 1 \<longrightarrow> \<not> follows_link t) es) es"
  by (auto simp: links_ok_def list_all_iff)

lemma completions_meaning_witness:
  "completions sample_ring ! 0 = Some 50 \<and> completions sample_ring ! 1 = Some 50"
proof -
  have l: "links_ok sample_ring" unfolding links_ok_list by code_simp
  have n: "0 < length sample_ring" "1 < length sample_ring" by (simp_all add: sample_ring_def)
  have "completions sample_ring ! 0 = Some 50"
    by (subst completions_meaning[OF l n(1)]) code_simp
  moreover have "completions sample_ring ! 1 = Some 50"
    by (subst completions_meaning[OF l n(2)]) code_simp
  ultimately show ?thesis by simp
qed

text \<open>C8: The rows of a dump, loops and tables unfolded: one row per shown ring entry, in ring order,
  left out when only active ones are asked for and the entry completed; each joined with the eager
  record the table still holds under its tag, with that record's frames when stacks are asked for,
  and with the group the entry names.\<close>

theorem dump_rows_are:
  "fd_entries (dump_entries (map symb) threads offset r gs ring True stacks oa) =
     (let groups = shown_groups gs; es = shown_entries groups ring
      in Some (map (\<lambda>(e, done_ns).
           let record = records_lookup (r_records r) (e_tag e)
           in dump_row stacks threads offset (r_prefix r)
                (case record of Some rec \<Rightarrow> if stacks then symb (rec_tb rec) else [] | None \<Rightarrow> [])
                record (the (dget groups (e_pg e))) e done_ns)
         (filter (\<lambda>(e, done_ns). \<not> (oa \<and> done_ns \<noteq> None)) (zip es (completions es)))))"
proof -
  let ?groups = "shown_groups gs" and ?es = "shown_entries (shown_groups gs) ring"
  let ?recs = "records_of (r_records r) ?es"
  let ?frames = "if stacks then zip (dkeys ?recs) (map symb (map (rec_tb \<circ> snd) ?recs)) else []"
  define frame_of where "frame_of e = or_else (dget ?frames (e_tag e)) []" for e :: fr_entry
  let ?row = "\<lambda>e d. dump_row stacks threads offset (r_prefix r) (frame_of e)
      (dget ?recs (e_tag e)) (the (dget ?groups (e_pg e))) e d"
  have recs: "dget ?recs (e_tag e) = records_lookup (r_records r) (e_tag e)" if "e \<in> set ?es" for e
    using that by (auto simp: records_of_get)
  have frames: "frame_of e =
      (case records_lookup (r_records r) (e_tag e) of Some rec \<Rightarrow> if stacks then symb (rec_tb rec) else []
       | None \<Rightarrow> [])" if "e \<in> set ?es" for e
    using recs[OF that] dget_zip_map[of ?recs "symb \<circ> (rec_tb \<circ> snd)" "e_tag e"]
    unfolding frame_of_def by (cases stacks) (auto simp: o_assoc split: option.splits)
  have "fd_entries (dump_entries (map symb) threads offset r gs ring True stacks oa)
      = Some (snd (foldl (dump_step oa ?row) ([], []) (zip ?es (completions ?es))))"
    by (simp add: dump_entries_def Let_def case_prod_unfold frame_of_def del: map_map)
  also have "\<dots> = Some (map (\<lambda>(e, d). ?row e d)
      (filter (\<lambda>(e, d). \<not> (oa \<and> d \<noteq> None)) (zip ?es (completions ?es))))"
    by (simp add: dump_step_rows)
  also have "map (\<lambda>(e, d). ?row e d) (filter (\<lambda>(e, d). \<not> (oa \<and> d \<noteq> None)) (zip ?es (completions ?es)))
    = map (\<lambda>(e, d). let record = records_lookup (r_records r) (e_tag e)
           in dump_row stacks threads offset (r_prefix r)
                (case record of Some rec \<Rightarrow> if stacks then symb (rec_tb rec) else [] | None \<Rightarrow> [])
                record (the (dget ?groups (e_pg e))) e d)
        (filter (\<lambda>(e, d). \<not> (oa \<and> d \<noteq> None)) (zip ?es (completions ?es)))"
    by (rule map_cong_filter) (auto simp: Let_def recs frames dest!: set_zip_leftD)
  finally show ?thesis by (simp only: Let_def)
qed

text \<open>Asking for active entries only is exactly leaving out the retired rows of the full dump;
  the counters, the groups and everything else stay those of the full dump.\<close>

theorem only_active_is_a_filter:
  "snd (rec_dump deref symbolize threads offset buf n r ic stacks True) =
     map_sum id (\<lambda>d. d\<lparr>fd_entries := map_option (filter (\<lambda>row. \<not> d_retired row)) (fd_entries d)\<rparr>)
       (snd (rec_dump deref symbolize threads offset buf n r ic stacks False))"
proof -
  have retired: "d_retired (dump_row stacks threads offset prefix frames rec g e d) \<longleftrightarrow> d \<noteq> None"
    for prefix frames rec g e d
    by (simp add: dump_row_def case_prod_unfold)
  have e: "dump_entries symbolize threads offset r' gs ring ic stacks True =
      (dump_entries symbolize threads offset r' gs ring ic stacks False)
        \<lparr>fd_entries := map_option (filter (\<lambda>row. \<not> d_retired row))
           (fd_entries (dump_entries symbolize threads offset r' gs ring ic stacks False))\<rparr>"
    for gs ring r'
    unfolding dump_entries_def Let_def case_prod_unfold
    by (simp add: dump_step_rows dump_step_status_same filter_map o_def retired case_prod_unfold)
  show ?thesis
    by (auto simp: rec_dump_def Let_def case_prod_unfold bind_res_def e split: sum.splits)
qed

text \<open>The progress counters of a group are the sequence numbers of its last collective and of its
  last completed one, point-to-point and member entries aside; a group has counters exactly when
  one of its entries is shown, whether or not rows are included.\<close>

theorem dump_counters:
  "dget (fd_pg_status (dump_entries symbolize threads offset r gs ring ic stacks oa)) pg =
     (let es = shown_entries (shown_groups gs) ring
      in if pg \<in> e_pg ` set es then Some (status_of pg (zip es (completions es))) else None)"
proof -
  have z: "(\<exists>(e, d) \<in> set (zip es ds). e_pg e = pg) \<longleftrightarrow> pg \<in> e_pg ` set es" if "length ds = length es"
    for es and ds :: "int option list"
  proof -
    have "e_pg ` set es = e_pg ` fst ` set (zip es ds)"
      by (metis that map_fst_zip set_map)
    then show ?thesis by force
  qed
  show ?thesis
    by (simp add: dump_entries_def Let_def case_prod_unfold dump_status z[unfolded case_prod_unfold])
qed

text \<open>Every row of a dump can be read against the dump's own group table: its group is listed
  under the row's group name with that description and its ranks, and it is the newest group of
  that name the process knew, so a name reused after a destroy never mixes two groups' rows.\<close>

theorem dump_rows_grouped:
  fixes r :: "('tb, 'h) recorder"
  assumes "rec_dump deref symbolize threads offset buf n r ic stacks oa = (r', Inr d)"
    and "fd_entries d = Some rows" "row \<in> set rows"
  shows "\<exists>g. d_process_group row = (g_name g, g_desc g)
    \<and> dget (fd_pg_config d) (g_name g) = Some (g_name g, g_desc g, g_ranks g)
    \<and> (d_pg_id row, g) \<in> set (snd (read_groups deref r (known_ids r)))
    \<and> (\<forall>(pg', g') \<in> set (snd (read_groups deref r (known_ids r))). g_name g' = g_name g \<longrightarrow> pg' \<le> d_pg_id row)"
proof -
  let ?gs = "snd (read_groups deref r (known_ids r))"
  from assms(1) obtain ring where d: "d = dump_entries symbolize threads offset
      (fst (read_groups deref r (known_ids r))) ?gs ring ic stacks oa"
    by (auto simp: rec_dump_def Let_def case_prod_unfold bind_res_eq_Inr)
  have dist: "distinct (dkeys ?gs)" by (simp add: read_groups_distinct)
  from dump_entries_row_in[OF assms(2)[unfolded d] assms(3)] obtain e done_ns prefix frames and rec :: "'tb fr_record option" where e: "e \<in> set (shown_entries (shown_groups ?gs) ring)"
    and row: "row = dump_row stacks threads offset prefix frames rec (the (dget (shown_groups ?gs) (e_pg e))) e done_ns"
    by (elim exE conjE) (rule that)
  from e have "has_key (shown_groups ?gs) (e_pg e)" by (simp add: shown_entries_def)
  then obtain g where g: "dget (shown_groups ?gs) (e_pg e) = Some g" by (auto simp: has_key_dget)
  then have mem: "(e_pg e, g) \<in> set (shown_groups ?gs)" by (rule map_of_SomeD)
  then have newest: "newest_id ?gs (g_name g) = Some (e_pg e)" "(e_pg e, g) \<in> set ?gs"
    by (auto simp: shown_groups_def)
  have pg: "d_pg_id row = e_pg e" "d_process_group row = (g_name g, g_desc g)"
    by (simp_all add: row g dump_row_def case_prod_unfold)
  have cfg: "fd_pg_config d = pg_config_of (shown_groups ?gs)"
    by (simp add: d dump_entries_def Let_def case_prod_unfold)
  show ?thesis
    using pg_config_shown[OF dist mem] newest newest_id_max[OF read_groups_sorted newest(1)]
    by (intro exI[of _ g]) (auto simp: pg cfg)
qed

definition sample_words :: "int list" where
  "sample_words = [0, 1, 0, 3, 0, 3, 1, 8, 7, -1, 0, 0, 900, 77, 1, 5, 950, 0]"

definition sample_recorder :: "(nat, nat) recorder" where
  "sample_recorder = fst (rec_begin (fst (add_group (Recorder 4 ''nccl'') 7)) 42 ''all_reduce''
      [\<lparr>sh_shape = [2, 4], sh_dtype = Float32\<rparr>] [\<lparr>sh_shape = [2, 4], sh_dtype = Float32\<rparr>] 0)"

definition sample_dump :: "nat fr_dump result" where
  "sample_dump = snd (rec_dump (\<lambda>_. Some sample_view) (map (\<lambda>tb. [tb])) (\<lambda>_. None) 10 sample_words 1 sample_recorder
     True True False)"

lemma dump_rows_grouped_witness:
  "\<exists>d row. sample_dump = Inr d \<and> fd_entries d = Some [row] \<and> d_pg_id row = 0
     \<and> dget (fd_pg_config d) (fst (d_process_group row)) = Some (''0'', ''undefined'', [0, 1])"
proof -
  have dump: "(case sample_dump of Inr d \<Rightarrow> map_option length (fd_entries d) = Some 1
      \<and> map_option (map d_pg_id) (fd_entries d) = Some [0]
      \<and> fd_pg_config d = [(''0'', ''0'', ''undefined'', [0, 1])] | Inl _ \<Rightarrow> False)"
    by code_simp
  then obtain d where d: "sample_dump = Inr d" by (auto split: sum.split_asm)
  note dump' = dump[unfolded d sum.case]
  from dump' obtain rows where rows: "fd_entries d = Some rows" "length rows = 1" "map d_pg_id rows = [0]"
    by auto
  then obtain row where row: "fd_entries d = Some [row]" "d_pg_id row = 0"
    by (auto simp: length_Suc_conv)
  have r: "rec_dump (\<lambda>_. Some sample_view) (map (\<lambda>tb. [tb])) (\<lambda>_. None) 10 sample_words 1 sample_recorder
      True True False = (fst (rec_dump (\<lambda>_. Some sample_view) (map (\<lambda>tb. [tb])) (\<lambda>_. None) 10 sample_words 1
        sample_recorder True True False), Inr d)"
    using d unfolding sample_dump_def by (simp add: prod_eq_iff)
  from dump_rows_grouped[OF r row(1), of row] obtain g :: fr_group where
    "d_process_group row = (g_name g, g_desc g)"
    "dget (fd_pg_config d) (g_name g) = Some (g_name g, g_desc g, g_ranks g)"
    unfolding list.set by blast
  then have "dget (fd_pg_config d) (fst (d_process_group row)) = Some (''0'', ''undefined'', [0, 1])"
    using dump' by (auto split: if_splits)
  with d row show ?thesis by blast
qed

end
