(* ===== verification/FR_Json.thy ===== *)
theory FR_Json
  imports FR_Dump "HOL-Library.List_Lexorder"
begin

text \<open>
  \<^verbatim>\<open>as_json\<close>: the dump as the JSON text \<open>_dump_nccl_trace_json\<close> returns, with Python's
  \<open>json.dumps(..., sort_keys=True, separators=(",", ":"))\<close> on strings of code points below 256.
  The lemmas say that the text is printable ASCII, so the \<open>encode\<close> after it cannot fail.
\<close>

datatype json =
    JNull
  | JBool bool
  | JInt int
  | JStr string
  | JList "json list"
  | JObj "(string \<times> json) list"

subsection \<open>The dictionaries of a dump\<close>

definition frame_json :: "frame \<Rightarrow> json" where
  "frame_json f = JObj [(''filename'', JStr (f_filename f)), (''line'', JInt (f_line f)), (''name'', JStr (f_name f))]"

definition sizes_json :: "int list list \<Rightarrow> json" where
  "sizes_json xs = JList (map (\<lambda>x. JList (map JInt x)) xs)"

definition time_json :: "int option \<Rightarrow> json" where
  "time_json t = (case t of Some n \<Rightarrow> JInt n | None \<Rightarrow> JNull)"

text \<open>The items of an entry, in the order the code assigns them.\<close>

definition entry_items :: "frame dump_entry \<Rightarrow> (string \<times> json) list" where
  "entry_items e =
     (case d_frames e of Some fs \<Rightarrow> [(''frames'', JList (map frame_json fs))] | None \<Rightarrow> []) @
     [(''record_id'', JInt (d_record_id e)),
      (''pg_id'', JInt (d_pg_id e)),
      (''process_group'', JList [JStr (fst (d_process_group e)), JStr (snd (d_process_group e))]),
      (''thread_name'', JStr (d_thread_name e)),
      (''thread_id'', JStr (d_thread_id e)),
      (''collective_seq_id'', JInt (d_collective_seq_id e)),
      (''p2p_seq_id'', JInt (d_p2p_seq_id e)),
      (''op_id'', JInt (d_op_id e)),
      (''profiling_name'', JStr (d_profiling_name e)),
      (''time_created_ns'', JInt (d_time_created_ns e)),
      (''input_sizes'', sizes_json (d_input_sizes e)),
      (''input_dtypes'', JList (map JStr (d_input_dtypes e))),
      (''output_sizes'', sizes_json (d_output_sizes e)),
      (''output_dtypes'', JList (map JStr (d_output_dtypes e))),
      (''state'', JStr (d_state e)),
      (''time_discovered_started_ns'', time_json (d_time_started e)),
      (''time_discovered_completed_ns'', time_json (d_time_completed e)),
      (''retired'', JBool (d_retired e)),
      (''timeout_ms'', JInt (d_timeout_ms e)),
      (''is_p2p'', JBool (d_is_p2p e))]"

definition int_list_text :: "int list \<Rightarrow> string" where
  "int_list_text xs = ''['' @ join '', '' (map int_text xs) @ '']''"

definition pg_config_json :: "(string, string \<times> string \<times> int list) dict \<Rightarrow> json" where
  "pg_config_json cfg =
     JObj (map (\<lambda>(k, name, desc, ranks).
        (k, JObj [(''name'', JStr name), (''desc'', JStr desc), (''ranks'', JStr (int_list_text ranks))])) cfg)"

text \<open>The status counters as strings.\<close>

definition status_json :: "(int, status) dict \<Rightarrow> json" where
  "status_json st =
     JObj (map (\<lambda>(pg, s).
        (int_text pg, JObj [(''last_enqueued_collective'', JStr (int_text (st_enqueued s))),
                            (''last_started_collective'', JStr (int_text (st_started s))),
                            (''last_completed_collective'', JStr (int_text (st_completed s)))])) st)"

definition json_entry :: "frame dump_entry \<Rightarrow> json" where
  "json_entry e =
     JObj (map (\<lambda>(k, v). (k, if v = JNull \<and> startswith k ''time_'' then JInt 0 else v))
             (filter (\<lambda>(k, v). k \<noteq> ''frames'') (entry_items e)))"

definition json_tree :: "frame fr_dump \<Rightarrow> json" where
  "json_tree d =
     (let es = map json_entry (or_else (fd_entries d) [])
      in JObj ([(''version'', JStr (fd_version d)),
                (''pg_config'', pg_config_json (fd_pg_config d)),
                (''comm_lib_version'', JStr (fd_comm_lib_version d)),
                (''pg_status'', status_json (fd_pg_status d))]
               @ (if es \<noteq> [] then [(''entries'', JList es)] else [])
               @ [(''nccl_comm_state'', JObj [])]))"

subsection \<open>json.dumps\<close>

definition hex_digit :: "nat \<Rightarrow> char" where
  "hex_digit d = (if d < 10 then char_of (48 + d) else char_of (87 + d))"

definition json_escape_char :: "char \<Rightarrow> string" where
  "json_escape_char c =
     (let n = code_point c in
      if n = 34 then [char_of (92 :: nat), char_of (34 :: nat)]
      else if n = 92 then [char_of (92 :: nat), char_of (92 :: nat)]
      else if n = 10 then char_of (92 :: nat) # ''n''
      else if n = 13 then char_of (92 :: nat) # ''r''
      else if n = 9 then char_of (92 :: nat) # ''t''
      else if n = 12 then char_of (92 :: nat) # ''f''
      else if n = 8 then char_of (92 :: nat) # ''b''
      else if 32 \<le> n \<and> n \<le> 126 then [c]
      else char_of (92 :: nat) # ''u00'' @ [hex_digit (n div 16), hex_digit (n mod 16)])"

definition json_string :: "string \<Rightarrow> string" where
  "json_string s = char_of (34 :: nat) # concat (map json_escape_char s) @ [char_of (34 :: nat)]"

function (sequential) json_dumps :: "json \<Rightarrow> string" where
  "json_dumps JNull = ''null''"
| "json_dumps (JBool b) = (if b then ''true'' else ''false'')"
| "json_dumps (JInt i) = int_text i"
| "json_dumps (JStr s) = json_string s"
| "json_dumps (JList xs) = ''['' @ join '','' (map json_dumps xs) @ '']''"
| "json_dumps (JObj kvs) =
     ''{'' @ join '','' (map (\<lambda>kv. json_string (fst kv) @ '':'' @ json_dumps (snd kv)) (sort_key fst kvs)) @ ''}''"
  by pat_completeness auto
termination
proof (relation "measure size", goal_cases)
  case 1
  then show ?case by simp
next
  case (2 xs x)
  then show ?case by (induction xs) auto
next
  case (3 kvs x)
  then have "x \<in> set kvs" by simp
  then show ?case by (induction kvs) (auto simp: size_prod_simp)
qed

definition as_json :: "frame fr_dump \<Rightarrow> string" where
  "as_json d = json_dumps (json_tree d)"

subsection \<open>The text is printable ASCII\<close>

definition printable :: "string \<Rightarrow> bool" where
  "printable s \<longleftrightarrow> (\<forall>c \<in> set s. 32 \<le> code_point c \<and> code_point c \<le> 126)"

lemma printable_append [simp]: "printable (s @ t) \<longleftrightarrow> printable s \<and> printable t"
  by (auto simp: printable_def)

lemma printable_Cons [simp]:
  "printable (c # s) \<longleftrightarrow> 32 \<le> code_point c \<and> code_point c \<le> 126 \<and> printable s"
  by (auto simp: printable_def)

lemma printable_Nil [simp]: "printable []"
  by (simp add: printable_def)

lemma printable_join: "printable sep \<Longrightarrow> \<forall>x \<in> set xs. printable x \<Longrightarrow> printable (join sep xs)"
  by (induction xs rule: induct_list012) auto

lemma printable_nat_text: "printable (nat_text n)"
  unfolding printable_def
  by (auto dest!: nat_text_digits simp: digit_char_def code_point_def)

lemma printable_int_text [simp]: "printable (int_text i)"
  using printable_nat_text by (simp add: int_text_def code_point_def)

lemma code_point_char_of: "n < 256 \<Longrightarrow> code_point (char_of n) = n"
  by (simp add: code_point_def)

lemma code_point_less: "code_point c < 256"
  by (simp add: code_point_def)

lemma printable_hex_digit: "d < 16 \<Longrightarrow> 32 \<le> code_point (hex_digit d) \<and> code_point (hex_digit d) \<le> 126"
  by (auto simp: hex_digit_def code_point_char_of)

lemma printable_escape: "printable (json_escape_char c)"
proof -
  have "code_point c div 16 < 16" "code_point c mod 16 < 16"
    using code_point_less[of c] by auto
  then show ?thesis
    using printable_hex_digit
    by (simp add: json_escape_char_def Let_def code_point_char_of) (simp add: code_point_def)
qed

lemma printable_json_string [simp]: "printable (json_string s)"
  by (induction s) (auto simp: json_string_def printable_escape code_point_char_of)

lemma printable_json_dumps: "printable (json_dumps j)"
proof (induction j rule: json_dumps.induct)
  case (5 xs)
  then show ?case by (simp add: printable_join code_point_def)
next
  case (6 kvs)
  then have "\<forall>x \<in> set (sort_key fst kvs). printable (json_string (fst x) @ '':'' @ json_dumps (snd x))"
    by (auto simp: code_point_def)
  then show ?case by (simp add: printable_join code_point_def)
qed (simp_all add: code_point_def)

text \<open>An entry loses its frames and nothing else, and no time is null.\<close>

lemma json_entry_keys:
  "json_entry e = JObj kvs \<Longrightarrow> map fst kvs = filter (\<lambda>k. k \<noteq> ''frames'') (map fst (entry_items e))"
  by (auto simp: json_entry_def filter_map case_prod_unfold o_def)

lemma json_entry_no_null:
  "json_entry e = JObj kvs \<Longrightarrow> (k, v) \<in> set kvs \<Longrightarrow> v \<noteq> JNull"
  by (auto simp: json_entry_def entry_items_def time_json_def sizes_json_def startswith_def
      split: option.splits)

text \<open>The keys torch's own JSON dump has for an entry.\<close>

definition json_entry_names :: "string list" where
  "json_entry_names =
     [''record_id'', ''pg_id'', ''process_group'', ''thread_name'', ''thread_id'', ''collective_seq_id'',
      ''p2p_seq_id'', ''op_id'', ''profiling_name'', ''time_created_ns'', ''input_sizes'', ''input_dtypes'',
      ''output_sizes'', ''output_dtypes'', ''state'', ''time_discovered_started_ns'',
      ''time_discovered_completed_ns'', ''retired'', ''timeout_ms'', ''is_p2p'']"

definition json_entry_ok :: "json \<Rightarrow> bool" where
  "json_entry_ok j = (case j of JObj kvs \<Rightarrow> map fst kvs = json_entry_names \<and> JNull \<notin> snd ` set kvs | _ \<Rightarrow> False)"

lemma json_entry_wellformed: "json_entry_ok (json_entry e)"
proof -
  obtain kvs where kvs: "json_entry e = JObj kvs" by (auto simp: json_entry_def)
  have "filter (\<lambda>k. k \<noteq> ''frames'') (map fst (entry_items e)) = json_entry_names"
    by (simp add: entry_items_def json_entry_names_def split: option.split)
  then show ?thesis
    using json_entry_keys[OF kvs] by (auto simp: json_entry_ok_def kvs dest: json_entry_no_null[OF kvs])
qed

subsection \<open>Properties\<close>


end
