(* ===== verification/FR_Generations.thy ===== *)
theory FR_Generations
  imports FR_Config
begin

text \<open>
  The dump generations of one store incarnation (\<^verbatim>\<open>_StoreState\<close>): \<open>claim\<close>, \<open>finish\<close> and \<open>backoff\<close>.
  The locale \<open>dump_ledger\<close> is the contract its two clients (the poller and the incident path of
  the process group) rely on: a claim hands out generations nobody serves or has served, a finish
  settles them. Its lemmas say that over any interleaving of claims and finishes no generation is
  dumped twice. \<open>gens_ok\<close> is the partition invariant of the state.
\<close>

subsection \<open>State\<close>

datatype torch_mark = Seen | Unseen

record store_state =
  ss_nonce :: "string option"
  ss_base :: "int option"
  ss_first :: "int option"
  ss_high :: "int option"
  ss_done :: "int set"
  ss_pending :: "int set"
  ss_failed :: "int set"
  ss_unacked :: "int set"
  ss_torch :: torch_mark
  ss_torch_tried :: bool
  ss_dump_backoff :: rat
  ss_dump_retry_at :: rat
  ss_poll_backoff :: rat
  ss_poll_at :: rat

definition StoreState :: "string option \<Rightarrow> int option \<Rightarrow> bool \<Rightarrow> store_state" where
  "StoreState nonce base torch_seen =
     \<lparr>ss_nonce = nonce, ss_base = base, ss_first = base, ss_high = base,
      ss_done = {}, ss_pending = {}, ss_failed = {}, ss_unacked = {},
      ss_torch = (if torch_seen then Seen else Unseen), ss_torch_tried = False,
      ss_dump_backoff = 0, ss_dump_retry_at = 0, ss_poll_backoff = 0, ss_poll_at = 0\<rparr>"

subsection \<open>Operations\<close>

definition claim_gens :: "rat \<Rightarrow> store_state \<Rightarrow> int \<Rightarrow> store_state \<times> int list" where
  "claim_gens now st up =
     (case ss_base st of
        None \<Rightarrow> (st, [])
      | Some base \<Rightarrow>
          let top = max (or_else (ss_high st) base) base;
              new = {top + 1..up};
              retry = (ss_failed st \<noteq> {} \<and> ss_dump_retry_at st \<le> now);
              gens = (new \<union> (if retry then ss_failed st else {})) - (ss_done st \<union> ss_pending st)
          in (st\<lparr>ss_failed := (if retry then {} else ss_failed st),
                 ss_high := Some (max top up),
                 ss_pending := ss_pending st \<union> gens\<rparr>,
              sorted_list_of_set gens))"

definition dump_backoff :: "env \<Rightarrow> rat \<Rightarrow> bool \<Rightarrow> store_state \<Rightarrow> store_state" where
  "dump_backoff env now ok st =
     (if ok then st\<lparr>ss_dump_backoff := 0\<rparr>
      else let b = min (max (2 * ss_dump_backoff st) (coord_check_s env)) MAX_BACKOFF_S
           in st\<lparr>ss_dump_backoff := b, ss_dump_retry_at := now + b\<rparr>)"

text \<open>
  The loop that moves the base over the generations already done. A Python set is finite; the
  guard makes that explicit, and each round removes one element.
\<close>

function (sequential) advance :: "int \<Rightarrow> int set \<Rightarrow> int \<times> int set" where
  "advance base dn =
     (if finite dn \<and> base + 1 \<in> dn then advance (base + 1) (dn - {base + 1}) else (base, dn))"
  by pat_completeness auto
termination
  by (relation "measure (\<lambda>(b, d). card d)") (auto simp: card_gt_0_iff intro!: diff_less)

declare advance.simps [simp del]

definition finish_gens ::
    "env \<Rightarrow> rat \<Rightarrow> store_state \<Rightarrow> int list \<Rightarrow> bool \<Rightarrow> bool \<Rightarrow> store_state" where
  "finish_gens env now st gens dumped acked =
     (let g = set gens in
      if g = {} then st
      else let st1 = st\<lparr>ss_pending := ss_pending st - g\<rparr> in
      if \<not> dumped then dump_backoff env now False (st1\<lparr>ss_failed := ss_failed st1 \<union> g\<rparr>)
      else
        let st2 = dump_backoff env now True st1;
            st3 = st2\<lparr>ss_failed := ss_failed st2 - g, ss_done := ss_done st2 \<union> g\<rparr>;
            st4 = (case ss_base st3 of
                     None \<Rightarrow> st3
                   | Some b \<Rightarrow> let (b', d') = advance b (ss_done st3)
                               in st3\<lparr>ss_base := Some b', ss_done := d'\<rparr>)
        in if acked then st4 else st4\<lparr>ss_unacked := ss_unacked st4 \<union> g\<rparr>)"

subsection \<open>The invariant\<close>

definition served :: "store_state \<Rightarrow> int set" where
  "served st = (case ss_base st of None \<Rightarrow> {} | Some b \<Rightarrow> {..b} \<union> ss_done st)"

definition gens_ok :: "store_state \<Rightarrow> bool" where
  "gens_ok st \<longleftrightarrow>
     finite (ss_done st) \<and> finite (ss_pending st) \<and> finite (ss_failed st) \<and>
     ss_done st \<inter> ss_pending st = {} \<and> ss_done st \<inter> ss_failed st = {} \<and>
     ss_pending st \<inter> ss_failed st = {} \<and>
     (case (ss_base st, ss_high st) of
        (None, None) \<Rightarrow> ss_done st = {} \<and> ss_pending st = {} \<and> ss_failed st = {}
      | (Some b, Some h) \<Rightarrow> b \<le> h \<and> {b + 1..h} = ss_done st \<union> ss_pending st \<union> ss_failed st
      | _ \<Rightarrow> False)"

lemma gens_ok_new: "gens_ok (StoreState nonce base seen)"
  by (simp add: gens_ok_def StoreState_def split: option.split)

lemma gens_okD:
  assumes "gens_ok st" "ss_base st = Some b"
  obtains h where "ss_high st = Some h" "b \<le> h" "{b + 1..h} = ss_done st \<union> ss_pending st \<union> ss_failed st"
  using assms by (auto simp: gens_ok_def split: option.splits)

lemma gens_ok_no_base: "gens_ok st \<Longrightarrow> ss_base st = None \<Longrightarrow> ss_pending st = {} \<and> ss_done st = {}"
  by (auto simp: gens_ok_def split: option.splits)

subsection \<open>advance\<close>

lemma advance_spec:
  assumes "advance b dn = (b', d')" "finite dn" "dn \<subseteq> {b<..}"
  shows "{..b'} \<union> d' = {..b} \<union> dn \<and> b \<le> b' \<and> d' = dn - {..b'} \<and> {b<..b'} \<subseteq> dn \<and> b' + 1 \<notin> d'"
  using assms
proof (induction b dn arbitrary: b' d' rule: advance.induct)
  case (1 b dn)
  show ?case
  proof (cases "b + 1 \<in> dn")
    case True
    then have "advance (b + 1) (dn - {b + 1}) = (b', d')"
      using "1.prems"(1,2) by (simp add: advance.simps[of b])
    moreover have "dn - {b + 1} \<subseteq> {b + 1<..}" using "1.prems"(3) by auto
    ultimately have "{..b'} \<union> d' = {..b + 1} \<union> (dn - {b + 1}) \<and> b + 1 \<le> b'
        \<and> d' = dn - {b + 1} - {..b'} \<and> {b + 1<..b'} \<subseteq> dn - {b + 1} \<and> b' + 1 \<notin> d'"
      using "1.IH"[of b' d'] "1.prems"(2) True by blast
    then have ih: "{..b'} \<union> d' = {..b + 1} \<union> (dn - {b + 1})" "b + 1 \<le> b'"
      "d' = dn - {b + 1} - {..b'}" "{b + 1<..b'} \<subseteq> dn" "b' + 1 \<notin> d'" by auto
    have "{..b + 1} = insert (b + 1) {..b}" by auto
    then have "{..b'} \<union> d' = {..b} \<union> dn" using ih(1) True by auto
    moreover have "d' = dn - {..b'}" using ih(2,3) by auto
    moreover have "{b<..b'} \<subseteq> dn"
    proof
      fix x
      assume "x \<in> {b<..b'}"
      then have "x = b + 1 \<or> x \<in> {b + 1<..b'}" by auto
      then show "x \<in> dn" using ih(4) True by auto
    qed
    ultimately show ?thesis using ih(2,5) by auto
  next
    case False
    then show ?thesis using "1.prems" by (auto simp: advance.simps[of b])
  qed
qed

subsection \<open>claim and finish keep the invariant\<close>

text \<open>The generations a claim hands out, and what becomes of the state.\<close>

lemma claim_cases:
  assumes "gens_ok st" "ss_base st = Some b" "ss_high st = Some h"
    and "claim_gens now st up = (st', gs)"
  shows "set gs = {h + 1..up} \<union> (ss_failed st - ss_failed st')"
    "ss_failed st' = {} \<or> ss_failed st' = ss_failed st"
    "ss_pending st' = ss_pending st \<union> set gs" "ss_high st' = Some (max h up)"
    "ss_done st' = ss_done st" "ss_base st' = Some b" "sorted gs" "distinct gs"
proof -
  from gens_okD[OF assms(1,2)] assms(3) have bh: "b \<le> h"
    and part: "{b + 1..h} = ss_done st \<union> ss_pending st \<union> ss_failed st" by auto
  have fin: "finite (ss_done st)" "finite (ss_pending st)" "finite (ss_failed st)"
    and dis: "ss_done st \<inter> ss_failed st = {}" "ss_pending st \<inter> ss_failed st = {}"
    using assms(1) by (auto simp: gens_ok_def)
  have "ss_done st \<union> ss_pending st \<subseteq> {b + 1..h}" using part by blast
  then have new: "{h + 1..up} \<inter> (ss_done st \<union> ss_pending st) = {}"
    by (meson atLeastAtMost_iff disjoint_iff linorder_not_less subsetD zless_add1_eq add1_zle_eq)
  note c = assms(4)[unfolded claim_gens_def assms(2) assms(3) Let_def, simplified]
  show "set gs = {h + 1..up} \<union> (ss_failed st - ss_failed st')"
    using c fin dis new bh by (auto simp: max_absorb1 split: if_splits)
  show "ss_failed st' = {} \<or> ss_failed st' = ss_failed st" "ss_pending st' = ss_pending st \<union> set gs"
    "ss_high st' = Some (max h up)" "ss_done st' = ss_done st" "ss_base st' = Some b"
    "sorted gs" "distinct gs"
    using c fin bh assms(2) by (auto simp: max_absorb1 split: if_splits)
qed

lemma claim_ok:
  assumes "gens_ok st" "claim_gens now st up = (st', gs)"
  shows "gens_ok st'"
proof (cases "ss_base st")
  case None
  then show ?thesis using assms by (simp add: claim_gens_def)
next
  case (Some b)
  from gens_okD[OF assms(1) Some] obtain h where h: "ss_high st = Some h" and bh: "b \<le> h"
    and part: "{b + 1..h} = ss_done st \<union> ss_pending st \<union> ss_failed st" by auto
  note c = claim_cases[OF assms(1) Some h assms(2)]
  have fin: "finite (ss_done st)" "finite (ss_pending st)" "finite (ss_failed st)"
    and dis: "ss_done st \<inter> ss_pending st = {}" "ss_done st \<inter> ss_failed st = {}"
      "ss_pending st \<inter> ss_failed st = {}"
    using assms(1) by (auto simp: gens_ok_def)
  have "{b + 1..max h up} = {b + 1..h} \<union> {h + 1..up}" using bh by auto
  moreover have "ss_failed st \<union> set gs = ss_failed st' \<union> set gs" using c(1,2) by auto
  ultimately have "{b + 1..max h up} = ss_done st' \<union> ss_pending st' \<union> ss_failed st'"
    unfolding part c(3,5) using c(1,2) by auto
  moreover have "set gs \<inter> ss_done st' = {}" "set gs \<inter> ss_failed st' = {}"
  proof -
    have sub: "ss_done st \<subseteq> {b + 1..h}" "ss_failed st \<subseteq> {b + 1..h}" using part by auto
    have "{h + 1..up} \<inter> {b + 1..h} = {}" by auto
    with sub have "{h + 1..up} \<inter> ss_done st = {}" "{h + 1..up} \<inter> ss_failed st = {}" by blast+
    then show "set gs \<inter> ss_done st' = {}" "set gs \<inter> ss_failed st' = {}"
      using c(1,2,5) dis by blast+
  qed
  moreover have "finite (ss_failed st')" "ss_failed st' \<subseteq> ss_failed st" using c(2) fin by auto
  ultimately show ?thesis
    using c fin dis bh by (auto simp: gens_ok_def)
qed

lemma claim_fresh:
  assumes "gens_ok st" "claim_gens now st up = (st', gs)"
  shows "set gs \<inter> (served st \<union> ss_pending st) = {}"
proof (cases "ss_base st")
  case None
  then show ?thesis using assms by (simp add: claim_gens_def)
next
  case (Some b)
  from gens_okD[OF assms(1) Some] obtain h where h: "ss_high st = Some h" and bh: "b \<le> h"
    and part: "{b + 1..h} = ss_done st \<union> ss_pending st \<union> ss_failed st" by auto
  have "set gs \<subseteq> {h + 1..up} \<union> ss_failed st"
    using claim_cases(1)[OF assms(1) Some h assms(2)] by auto
  moreover have "ss_done st \<inter> ss_failed st = {}" "ss_pending st \<inter> ss_failed st = {}"
    using assms(1) by (auto simp: gens_ok_def)
  moreover have "ss_failed st \<subseteq> {b + 1..h}" "ss_done st \<union> ss_pending st \<subseteq> {b + 1..h}" using part by auto
  ultimately show ?thesis using bh Some by (fastforce simp: served_def)
qed

lemma claim_pending: "claim_gens now st up = (st', gs) \<Longrightarrow> gens_ok st \<Longrightarrow> ss_pending st' = ss_pending st \<union> set gs"
proof (cases "ss_base st")
  case (Some b)
  assume *: "claim_gens now st up = (st', gs)" "gens_ok st"
  from gens_okD[OF *(2) Some] obtain h where "ss_high st = Some h" by auto
  from claim_cases(3)[OF *(2) Some this *(1)] show ?thesis .
qed (auto simp: claim_gens_def)

lemma claim_served: "claim_gens now st up = (st', gs) \<Longrightarrow> served st' = served st"
  by (auto simp: claim_gens_def served_def Let_def split: option.splits)

text \<open>After a claim with a due retry, every generation up to the one named is served or in flight.\<close>

lemma claim_covers:
  assumes "gens_ok st" "ss_base st = Some b" "ss_dump_retry_at st \<le> now"
    and "claim_gens now st up = (st', gs)" "g \<le> up"
  shows "g \<in> served st \<union> ss_pending st'"
proof -
  from gens_okD[OF assms(1,2)] obtain h where h: "ss_high st = Some h" and bh: "b \<le> h"
    and part: "{b + 1..h} = ss_done st \<union> ss_pending st \<union> ss_failed st" by auto
  note c = claim_cases[OF assms(1,2) h assms(4)]
  have "ss_failed st' = {}"
    using assms(2-4) by (auto simp: claim_gens_def Let_def split: if_splits)
  then have "ss_pending st' = ss_pending st \<union> {h + 1..up} \<union> ss_failed st" using c(1,3) by auto
  moreover consider "g \<le> b" | "g \<in> {b + 1..h}" | "g \<in> {h + 1..up}" using assms(5) by fastforce
  ultimately show ?thesis
    using part assms(2) by cases (auto simp: served_def)
qed


text \<open>Finishing a nonempty set of generations in flight.\<close>

lemma finish_failed_fields:
  assumes "gs \<noteq> []"
  shows "ss_pending (finish_gens env now st gs False acked) = ss_pending st - set gs"
    "ss_failed (finish_gens env now st gs False acked) = ss_failed st \<union> set gs"
    "ss_done (finish_gens env now st gs False acked) = ss_done st"
    "ss_base (finish_gens env now st gs False acked) = ss_base st"
    "ss_high (finish_gens env now st gs False acked) = ss_high st"
  using assms by (simp_all add: finish_gens_def dump_backoff_def Let_def)

lemma finish_dumped_fields:
  assumes "gs \<noteq> []" "ss_base st = Some b" "advance b (ss_done st \<union> set gs) = (b', d')"
  shows "ss_pending (finish_gens env now st gs True acked) = ss_pending st - set gs"
    "ss_failed (finish_gens env now st gs True acked) = ss_failed st - set gs"
    "ss_done (finish_gens env now st gs True acked) = d'"
    "ss_base (finish_gens env now st gs True acked) = Some b'"
    "ss_high (finish_gens env now st gs True acked) = ss_high st"
  using assms by (simp_all add: finish_gens_def dump_backoff_def Let_def)

lemma finish_ok:
  assumes ok: "gens_ok st" and sub: "set gs \<subseteq> ss_pending st"
  shows "gens_ok (finish_gens env now st gs dumped acked)
    \<and> ss_pending (finish_gens env now st gs dumped acked) = ss_pending st - set gs
    \<and> served (finish_gens env now st gs dumped acked) = served st \<union> (if dumped then set gs else {})"
proof (cases "gs = []")
  case True
  then show ?thesis using ok by (simp add: finish_gens_def)
next
  case False
  with ok sub obtain b where b: "ss_base st = Some b"
    using gens_ok_no_base[OF ok] by (cases "ss_base st") auto
  from gens_okD[OF ok b] obtain h where h: "ss_high st = Some h" and bh: "b \<le> h"
    and part: "{b + 1..h} = ss_done st \<union> ss_pending st \<union> ss_failed st" by auto
  have fin: "finite (ss_done st)" "finite (ss_pending st)" "finite (ss_failed st)"
    and dis: "ss_done st \<inter> ss_pending st = {}" "ss_done st \<inter> ss_failed st = {}"
      "ss_pending st \<inter> ss_failed st = {}"
    using ok by (auto simp: gens_ok_def)
  show ?thesis
  proof (cases dumped)
    case False
    note f = finish_failed_fields[OF \<open>gs \<noteq> []\<close>]
    have "{b + 1..h} = ss_done st \<union> (ss_pending st - set gs) \<union> (ss_failed st \<union> set gs)"
      using part sub by blast
    moreover have "ss_done st \<inter> set gs = {}" using sub dis(1) by blast
    ultimately have "gens_ok (finish_gens env now st gs False acked)"
      using fin dis bh b h by (auto simp: gens_ok_def f)
    then show ?thesis using False b by (simp add: f served_def)
  next
    case True
    obtain b' d' where a: "advance b (ss_done st \<union> set gs) = (b', d')" by (metis surj_pair)
    note f = finish_dumped_fields[OF \<open>gs \<noteq> []\<close> b a]
    let ?D = "ss_done st \<union> set gs"
    have D: "?D \<subseteq> {b + 1..h}" using part sub by blast
    then have "?D \<subseteq> {b<..}" by auto
    from advance_spec[OF a _ this] fin have sp: "{..b'} \<union> d' = {..b} \<union> ?D" "b \<le> b'"
      "d' = ?D - {..b'}" "{b<..b'} \<subseteq> ?D" "b' + 1 \<notin> d'" by auto
    have b'h: "b' \<le> h"
    proof (cases "b' = b")
      case False
      then have "b' \<in> {b<..b'}" using sp(2) by simp
      then have "b' \<in> {b + 1..h}" using sp(4) D by blast
      then show ?thesis by simp
    qed (simp add: bh)
    let ?P = "ss_pending st - set gs" and ?F = "ss_failed st - set gs"
    have "?D \<inter> (?P \<union> ?F) = {}" using dis sub by blast
    moreover have all: "{b + 1..h} = ?D \<union> ?P \<union> ?F" using part sub by blast
    moreover have "{b + 1..h} = {b<..b'} \<union> {b' + 1..h}" using sp(2) b'h by auto
    moreover have "{b<..b'} \<inter> {b' + 1..h} = {}" by auto
    moreover have "d' \<subseteq> {b' + 1..h}" "?D = {b<..b'} \<union> d'" using sp D by auto
    moreover have "{b<..b'} \<inter> d' = {}" using sp(3) by auto
    ultimately have "{b' + 1..h} = d' \<union> ?P \<union> ?F" using sp(4) by blast
    moreover have "finite d'" using sp(3) fin by simp
    moreover have "d' \<inter> ?P = {}" "d' \<inter> ?F = {}" using sp(3) dis sub by blast+
    ultimately have "gens_ok (finish_gens env now st gs True acked)"
      using fin dis b'h h by (auto simp: gens_ok_def f)
    moreover have "served (finish_gens env now st gs True acked) = served st \<union> set gs"
      using sp(1) b by (auto simp: served_def f)
    ultimately show ?thesis using True by (simp add: f)
  qed
qed

subsection \<open>The ledger contract\<close>

text \<open>
  A run of claims and finishes, and of steps that \<open>touch\<close> other parts of the state: \<open>out\<close> holds
  the claims not finished yet, \<open>dlog\<close> the generations dumped so far, in order. Several threads may have claims out at once, and finish them in any
  order.
\<close>

inductive ledger_run ::
    "('t \<Rightarrow> 's \<Rightarrow> int \<Rightarrow> 's \<times> int list) \<Rightarrow> ('t \<Rightarrow> 's \<Rightarrow> int list \<Rightarrow> bool \<Rightarrow> bool \<Rightarrow> 's)
     \<Rightarrow> ('s \<Rightarrow> 's \<Rightarrow> bool) \<Rightarrow> 's \<Rightarrow> int list list \<Rightarrow> int list \<Rightarrow> 's \<Rightarrow> bool"
  for claim finish touch s0 where
  start: "ledger_run claim finish touch s0 [] [] s0"
| claims: "ledger_run claim finish touch s0 out dlog s \<Longrightarrow> claim t s n = (s', gs) \<Longrightarrow>
    ledger_run claim finish touch s0 (out @ [gs]) dlog s'"
| finishes: "ledger_run claim finish touch s0 (xs @ gs # ys) dlog s \<Longrightarrow>
    ledger_run claim finish touch s0 (xs @ ys) (if d then dlog @ gs else dlog) (finish t s gs d a)"
| touches: "ledger_run claim finish touch s0 out dlog s \<Longrightarrow> touch s s' \<Longrightarrow>
    ledger_run claim finish touch s0 out dlog s'"

text \<open>
  \<open>'t\<close> is what a step sees of its surroundings (the environment and the clock). Two threads use
  the ledger: each claims, dumps, and finishes what it claimed; their steps interleave freely.
\<close>

locale dump_ledger =
  fixes claim :: "'t \<Rightarrow> 's \<Rightarrow> int \<Rightarrow> 's \<times> int list"
    and finish :: "'t \<Rightarrow> 's \<Rightarrow> int list \<Rightarrow> bool \<Rightarrow> bool \<Rightarrow> 's"
    and taken :: "'s \<Rightarrow> int set"
    and in_flight :: "'s \<Rightarrow> int set"
    and ok :: "'s \<Rightarrow> bool"
    and touch :: "'s \<Rightarrow> 's \<Rightarrow> bool"
  assumes ok_claim: "ok s \<Longrightarrow> claim t s n = (s', gs) \<Longrightarrow> ok s'"
    and claim_new: "ok s \<Longrightarrow> claim t s n = (s', gs) \<Longrightarrow> set gs \<inter> (taken s \<union> in_flight s) = {}"
    and claim_distinct: "claim t s n = (s', gs) \<Longrightarrow> distinct gs"
    and claim_flight: "ok s \<Longrightarrow> claim t s n = (s', gs) \<Longrightarrow> in_flight s' = in_flight s \<union> set gs"
    and claim_taken: "ok s \<Longrightarrow> claim t s n = (s', gs) \<Longrightarrow> taken s' = taken s"
    and ok_finish: "ok s \<Longrightarrow> set gs \<subseteq> in_flight s \<Longrightarrow> ok (finish t s gs d a)"
    and finish_flight:
      "ok s \<Longrightarrow> set gs \<subseteq> in_flight s \<Longrightarrow> in_flight (finish t s gs d a) = in_flight s - set gs"
    and finish_taken:
      "ok s \<Longrightarrow> set gs \<subseteq> in_flight s \<Longrightarrow>
         taken (finish t s gs d a) = taken s \<union> (if d then set gs else {})"
    and touch_same: "touch s s' \<Longrightarrow> (ok s' \<longleftrightarrow> ok s) \<and> taken s' = taken s \<and> in_flight s' = in_flight s"
begin

definition run_inv :: "'s \<Rightarrow> int list list \<Rightarrow> int list \<Rightarrow> 's \<Rightarrow> bool" where
  "run_inv s0 out dlog s \<longleftrightarrow>
     ok s \<and> distinct (concat out) \<and> set (concat out) \<subseteq> in_flight s \<and>
     distinct dlog \<and> set dlog \<inter> taken s0 = {} \<and> taken s = taken s0 \<union> set dlog \<and>
     taken s \<inter> set (concat out) = {}"

lemma run_inv: "ledger_run claim finish touch s0 out dlog s \<Longrightarrow> ok s0 \<Longrightarrow> run_inv s0 out dlog s"
proof (induction rule: ledger_run.induct)
  case start
  then show ?case by (simp add: run_inv_def)
next
  case (claims out dlog s t n s' gs)
  then have i: "run_inv s0 out dlog s" by simp
  then have o: "ok s" by (simp add: run_inv_def)
  note c = claims.hyps(2)
  show ?case
    using i ok_claim[OF o c] claim_new[OF o c] claim_distinct[OF c] claim_flight[OF o c] claim_taken[OF o c]
    unfolding run_inv_def by (simp add: distinct_append) blast
next
  case (finishes xs gs ys dlog s d t a)
  then have i: "run_inv s0 (xs @ gs # ys) dlog s" by simp
  then have o: "ok s" and sub: "set gs \<subseteq> in_flight s" by (auto simp: run_inv_def)
  show ?case
    using i ok_finish[OF o sub] finish_flight[OF o sub] finish_taken[OF o sub]
    by (auto simp: run_inv_def)
next
  case (touches out dlog s s')
  then have "run_inv s0 out dlog s" "ok s' = ok s" "taken s' = taken s" "in_flight s' = in_flight s"
    using touch_same[of s s'] by simp_all
  then show ?case unfolding run_inv_def by metis
qed

text \<open>No generation is dumped twice, and none that was served before the run.\<close>

lemma run_ok: "ledger_run claim finish touch s0 out dlog s \<Longrightarrow> ok s0 \<Longrightarrow> ok s"
  using run_inv by (simp add: run_inv_def)

lemma run_out:
  "ledger_run claim finish touch s0 out dlog s \<Longrightarrow> ok s0 \<Longrightarrow> gs \<in> set out \<Longrightarrow> set gs \<subseteq> in_flight s"
  using run_inv by (fastforce simp: run_inv_def)

lemma dumped_once: "ledger_run claim finish touch s0 out dlog s \<Longrightarrow> ok s0 \<Longrightarrow> distinct dlog \<and> set dlog \<inter> taken s0 = {}"
  using run_inv[of s0 out dlog s] by (simp add: run_inv_def)

end

text \<open>The store state's steps in that shape, and the fields a touch leaves alone.\<close>

definition claim_at :: "env \<times> rat \<Rightarrow> store_state \<Rightarrow> int \<Rightarrow> store_state \<times> int list" where
  "claim_at t st up = claim_gens (snd t) st up"

definition finish_at :: "env \<times> rat \<Rightarrow> store_state \<Rightarrow> int list \<Rightarrow> bool \<Rightarrow> bool \<Rightarrow> store_state" where
  "finish_at t st gs dumped acked = finish_gens (fst t) (snd t) st gs dumped acked"

definition same_gens :: "store_state \<Rightarrow> store_state \<Rightarrow> bool" where
  "same_gens st st' \<longleftrightarrow>
     ss_base st' = ss_base st \<and> ss_high st' = ss_high st \<and> ss_done st' = ss_done st \<and>
     ss_pending st' = ss_pending st \<and> ss_failed st' = ss_failed st"

lemmas at_simps = claim_at_def finish_at_def

interpretation gens: dump_ledger claim_at finish_at served ss_pending gens_ok same_gens
proof (unfold_locales, goal_cases)
  case (1 s t n s' gs)
  then show ?case by (auto simp: at_simps intro: claim_ok)
next
  case (2 s t n s' gs)
  then show ?case using claim_fresh[of s "snd t" n s' gs] by (simp add: at_simps)
next
  case (3 t s n s' gs)
  then show ?case by (auto simp: at_simps claim_gens_def Let_def split: option.splits)
next
  case (4 s t n s' gs)
  then show ?case using claim_pending by (simp add: at_simps)
next
  case (5 s t n s' gs)
  then show ?case using claim_served by (simp add: at_simps)
next
  case (6 s gs t d a)
  then show ?case using finish_ok by (simp add: at_simps)
next
  case (7 s gs t d a)
  then show ?case using finish_ok by (simp add: at_simps)
next
  case (8 s gs t d a)
  then show ?case using finish_ok by (simp add: at_simps)
next
  case (9 s s')
  then show ?case by (simp add: same_gens_def gens_ok_def served_def cong: option.case_cong)
qed

subsection \<open>Backing off\<close>

lemma backoff_steps:
  "ss_dump_backoff (dump_backoff env now False st)
     = min (max (2 * ss_dump_backoff st) (coord_check_s env)) 60"
  by (simp add: dump_backoff_def Let_def MAX_BACKOFF_S_def)

fun failed_dumps :: "env \<Rightarrow> rat list \<Rightarrow> store_state \<Rightarrow> store_state" where
  "failed_dumps env [] st = st"
| "failed_dumps env (now # nows) st = failed_dumps env nows (dump_backoff env now False st)"

lemma failed_dumps_snoc:
  "failed_dumps env (nows @ [now]) st = dump_backoff env now False (failed_dumps env nows st)"
  by (induction nows arbitrary: st) auto

lemma min_max_double:
  fixes c :: rat
  assumes "0 \<le> c" "0 \<le> b" "c \<le> b"
  shows "min (max (2 * min b 60) c) 60 = min (2 * b) 60"
  using assms by (auto simp: min_def max_def)

lemma backoff_after:
  assumes "ss_dump_backoff st = 0" "nows \<noteq> []"
  shows "ss_dump_backoff (failed_dumps env nows st) = min (2 ^ (length nows - 1) * coord_check_s env) 60"
  using assms(2)
proof (induction nows rule: rev_induct)
  case Nil
  then show ?case by simp
next
  case (snoc now nows)
  have c: "0 \<le> coord_check_s env" using coord_check_pos[of env] by linarith
  show ?case
  proof (cases "nows = []")
    case True
    then show ?thesis using c assms(1) by (simp add: backoff_steps max_absorb2)
  next
    case False
    then obtain n where n: "length nows = Suc n" by (cases nows) auto
    have "1 * coord_check_s env \<le> 2 ^ n * coord_check_s env"
      using c by (intro mult_right_mono) simp_all
    then show ?thesis
      using False snoc.IH min_max_double[OF c, of "2 ^ n * coord_check_s env"] c
      by (simp add: failed_dumps_snoc backoff_steps n)
  qed
qed

subsection \<open>Properties\<close>

text \<open>C7: Every generation is accounted for. After any interleaving of claims and finishes by any
  number of threads on a new state, the generations between the base and the highest one seen are
  split into done, in flight and failed ones (no generation is in two of them, none is lost), and
  whatever a thread still holds is in flight.\<close>

theorem generations_partition:
  assumes "ledger_run claim_at finish_at same_gens (StoreState nonce base seen) out dlog st"
  shows "gens_ok st \<and> set (concat out) \<subseteq> ss_pending st"
proof -
  have "gens_ok st" by (rule gens.run_ok[OF assms gens_ok_new])
  moreover have "set gs \<subseteq> ss_pending st" if "gs \<in> set out" for gs
    using gens.run_out[OF assms gens_ok_new that] .
  ultimately show ?thesis by auto
qed

definition no_env :: env where "no_env = (\<lambda>_. None)"

definition sample_claimed :: "store_state \<times> int list" where
  "sample_claimed = claim_at (no_env, 5) (StoreState (Some ''a'') (Some 2) False) 4"

lemma generations_partition_witness:
  "gens_ok (fst sample_claimed) \<and> {3, 4} \<subseteq> ss_pending (fst sample_claimed)"
proof -
  have c: "claim_at (no_env, 5) (StoreState (Some ''a'') (Some 2) False) 4 = (fst sample_claimed, snd sample_claimed)"
    by (simp add: sample_claimed_def)
  have "ledger_run claim_at finish_at same_gens (StoreState (Some ''a'') (Some 2) False)
      ([] @ [snd sample_claimed]) [] (fst sample_claimed)"
    by (rule ledger_run.claims[where t = "(no_env, 5)" and n = 4]) (rule ledger_run.start, rule c)
  from generations_partition[OF this]
  have "gens_ok (fst sample_claimed)" "set (snd sample_claimed) \<subseteq> ss_pending (fst sample_claimed)" by simp_all
  moreover have "set (snd sample_claimed) = {3, 4}"
    by (auto simp: sample_claimed_def claim_at_def claim_gens_def StoreState_def Let_def)
  ultimately show ?thesis by simp
qed

text \<open>A claim leaves nothing behind: on an accounted state that knows its base and whose retry
  time has come, after claiming up to a generation, every generation up to it is served already or
  in flight.\<close>

theorem claim_leaves_nothing:
  assumes "gens_ok st" "ss_base st = Some b" "ss_dump_retry_at st \<le> now"
    and "claim_gens now st up = (st', gs)" "g \<le> up"
  shows "g \<in> served st \<union> ss_pending st'"
  using assms by (rule claim_covers)

lemma claim_leaves_nothing_witness:
  "3 \<in> served (StoreState (Some ''a'') (Some 2) False) \<union> ss_pending (fst sample_claimed)"
proof -
  have e: "claim_gens 5 (StoreState (Some ''a'') (Some 2) False) 4 = (fst sample_claimed, snd sample_claimed)"
    by (simp add: sample_claimed_def claim_at_def)
  show ?thesis
    by (rule claim_leaves_nothing[OF gens_ok_new _ _ e]) (simp_all add: StoreState_def)
qed

text \<open>A dump that keeps failing is retried ever less often, but never gives up: after \<open>n\<close> failures
  in a row the delay is the poll interval doubled \<open>n - 1\<close> times, at most a minute.\<close>

theorem dump_backoff_schedule:
  assumes "ss_dump_backoff st = 0"
  shows "ss_dump_backoff (failed_dumps env (nows @ [now]) st) = min (2 ^ length nows * coord_check_s env) 60
    \<and> ss_dump_retry_at (failed_dumps env (nows @ [now]) st) = now + min (2 ^ length nows * coord_check_s env) 60"
proof -
  have "ss_dump_backoff (failed_dumps env (nows @ [now]) st) = min (2 ^ length nows * coord_check_s env) 60"
    using backoff_after[OF assms, of "nows @ [now]" env] by simp
  moreover have "ss_dump_retry_at (failed_dumps env (nows @ [now]) st)
      = now + ss_dump_backoff (failed_dumps env (nows @ [now]) st)"
    by (simp add: failed_dumps_snoc dump_backoff_def Let_def)
  ultimately show ?thesis by simp
qed

lemma dump_backoff_schedule_witness:
  "ss_dump_backoff (failed_dumps no_env ([1, 2, 4] @ [8]) (StoreState None None False)) = 8"
proof -
  have "coord_check_s no_env = 1" by (simp add: coord_check_s_def no_env_def int_or_def)
  then show ?thesis
    using dump_backoff_schedule[of "StoreState None None False" no_env "[1, 2, 4]" 8]
    by (simp add: StoreState_def)
qed

end
