(* ===== verification/FR_Store.thy ===== *)
theory FR_Store
  imports FR_Config "HOL-Library.Word"
begin

text \<open>
  The dump signal through the c10d store (\<^verbatim>\<open>distributed/flight_recorder.py\<close>): \<open>unprefixed\<close>,
  \<open>store_key\<close>, \<open>signal_dump\<close>, \<open>current_generation\<close>, \<open>signaller\<close>, \<open>ack_dump\<close>,
  \<open>wait_for_dumps\<close> and \<open>incarnation\<close>. The store itself is torch code: its operations are the
  parameter \<open>store_ops\<close>, and \<open>store_laws\<close> is what torch documents of them.
\<close>

definition DUMP_KEY :: string where "DUMP_KEY = ''exception_dump''"
definition GEN_KEY :: string where "GEN_KEY = ''mojo_fr/generation''"
definition ACK_KEY :: string where "ACK_KEY = ''mojo_fr/dumped''"
definition INCARNATION_KEY :: string where "INCARNATION_KEY = ''mojo_fr/incarnation''"

lemmas key_simps = DUMP_KEY_def GEN_KEY_def ACK_KEY_def INCARNATION_KEY_def

subsection \<open>The store as a parameter\<close>

text \<open>\<open>compare_set\<close> is \<open>None\<close> on a store that does not implement it.\<close>

record 's store_ops =
  so_add :: "string \<Rightarrow> int \<Rightarrow> 's \<Rightarrow> 's \<times> int"
  so_set :: "string \<Rightarrow> string \<Rightarrow> 's \<Rightarrow> 's"
  so_check :: "string list \<Rightarrow> 's \<Rightarrow> bool"
  so_get :: "string \<Rightarrow> 's \<Rightarrow> string"
  so_multi_get :: "string list \<Rightarrow> 's \<Rightarrow> string list"
  so_compare_set :: "string \<Rightarrow> string \<Rightarrow> string \<Rightarrow> ('s \<Rightarrow> 's \<times> string) option"

text \<open>A counter key holds a decimal integer; an absent one counts from zero.\<close>

definition counter :: "string option \<Rightarrow> int" where
  "counter v = (case v of None \<Rightarrow> 0 | Some t \<Rightarrow> or_else (int_of_text t) 0)"

definition cas_value :: "string option \<Rightarrow> string \<Rightarrow> string \<Rightarrow> string option \<times> string" where
  "cas_value v expected desired =
     (case v of
        None \<Rightarrow> if expected = '''' then (Some desired, desired) else (None, expected)
      | Some x \<Rightarrow> if x = expected then (Some desired, desired) else (Some x, x))"

text \<open>The documented behaviour, over the values \<open>val\<close> a store state holds.\<close>

definition store_laws :: "'s store_ops \<Rightarrow> ('s \<Rightarrow> string \<Rightarrow> string option) \<Rightarrow> bool" where
  "store_laws ops val \<longleftrightarrow>
     (\<forall>k v s. val (so_set ops k v s) = (val s)(k \<mapsto> v)) \<and>
     (\<forall>ks s. so_check ops ks s \<longleftrightarrow> (\<forall>k \<in> set ks. val s k \<noteq> None)) \<and>
     (\<forall>k s v. val s k = Some v \<longrightarrow> so_get ops k s = v) \<and>
     (\<forall>ks s. (\<forall>k \<in> set ks. val s k \<noteq> None) \<longrightarrow> so_multi_get ops ks s = map (\<lambda>k. the (val s k)) ks) \<and>
     (\<forall>k n s. snd (so_add ops k n s) = counter (val s k) + n \<and>
        val (fst (so_add ops k n s)) = (val s)(k \<mapsto> int_text (counter (val s k) + n))) \<and>
     (\<forall>k a b s f. so_compare_set ops k a b = Some f \<longrightarrow>
        val (fst (f s)) = (val s)(k := fst (cas_value (val s k) a b)) \<and>
        snd (f s) = snd (cas_value (val s k) a b))"

lemma store_laws_set: "store_laws ops val \<Longrightarrow> val (so_set ops k v s) = (val s)(k \<mapsto> v)"
  by (simp add: store_laws_def)

lemma store_laws_check: "store_laws ops val \<Longrightarrow> so_check ops ks s \<longleftrightarrow> (\<forall>k \<in> set ks. val s k \<noteq> None)"
  by (simp add: store_laws_def)

lemma store_laws_get: "store_laws ops val \<Longrightarrow> val s k = Some v \<Longrightarrow> so_get ops k s = v"
  by (simp add: store_laws_def)

lemma store_laws_multi_get:
  "store_laws ops val \<Longrightarrow> \<forall>k \<in> set ks. val s k \<noteq> None \<Longrightarrow> so_multi_get ops ks s = map (\<lambda>k. the (val s k)) ks"
  by (simp add: store_laws_def)

lemma store_laws_add:
  "store_laws ops val \<Longrightarrow> snd (so_add ops k n s) = counter (val s k) + n"
  "store_laws ops val \<Longrightarrow> val (fst (so_add ops k n s)) = (val s)(k \<mapsto> int_text (counter (val s k) + n))"
  by (simp_all add: store_laws_def)

lemma store_laws_cas:
  "store_laws ops val \<Longrightarrow> so_compare_set ops k a b = Some f \<Longrightarrow>
     val (fst (f s)) = (val s)(k := fst (cas_value (val s k) a b))"
  "store_laws ops val \<Longrightarrow> so_compare_set ops k a b = Some f \<Longrightarrow> snd (f s) = snd (cas_value (val s k) a b)"
  by (simp_all add: store_laws_def)

lemmas store_simps = store_laws_set store_laws_check store_laws_get store_laws_add

text \<open>A store with those laws: a finite table, as torch's in-memory store keeps it.\<close>

definition table_store :: "(string, string) dict store_ops" where
  "table_store =
     \<lparr>so_add = (\<lambda>k n s. let m = counter (dget s k) + n in (dput k (int_text m) s, m)),
      so_set = dput,
      so_check = (\<lambda>ks s. list_all (has_key s) ks),
      so_get = (\<lambda>k s. or_else (dget s k) ''''),
      so_multi_get = (\<lambda>ks s. map (\<lambda>k. or_else (dget s k) '''') ks),
      so_compare_set = (\<lambda>k a b. Some (\<lambda>s.
         let (v, r) = cas_value (dget s k) a b
         in (case v of Some x \<Rightarrow> dput k x s | None \<Rightarrow> s, r)))\<rparr>"

lemma table_store_laws: "store_laws table_store dget"
proof -
  have "dget (case fst (cas_value (dget s k) a b) of Some x \<Rightarrow> dput k x s | None \<Rightarrow> s)
      = (dget s)(k := fst (cas_value (dget s k) a b))" for s k a b
    by (rule ext) (auto simp: cas_value_def split: option.splits)
  then show ?thesis
    unfolding store_laws_def table_store_def
    by (intro conjI allI impI)
       (auto simp: Let_def case_prod_unfold list_all_iff has_key_dget update_conv or_else_the)
qed

subsection \<open>Which store\<close>

text \<open>A store object: a \<open>PrefixStore\<close> over another, or a store with its attributes.\<close>

record store_attrs =
  sa_host :: "string option"
  sa_port :: "int option"
  sa_path :: "string option"
  sa_id :: int

datatype store_obj = PrefixStore string store_obj | BaseStore store_attrs

fun unprefixed :: "store_obj \<Rightarrow> store_obj" where
  "unprefixed (PrefixStore p s) = unprefixed s"
| "unprefixed (BaseStore a) = BaseStore a"

datatype store_id = TcpStore string int | FileStore string | ObjectStore int

text \<open>Attributes a \<open>PrefixStore\<close> does not have fall through to the object's identity.\<close>

fun store_key :: "int \<Rightarrow> store_obj \<Rightarrow> store_id" where
  "store_key ident (BaseStore a) =
     (case (sa_host a, sa_port a) of
        (Some h, Some p) \<Rightarrow> TcpStore h p
      | _ \<Rightarrow> (case sa_path a of Some p \<Rightarrow> FileStore p | None \<Rightarrow> ObjectStore (sa_id a)))"
| "store_key ident (PrefixStore p s) = ObjectStore ident"

lemma unprefixed_base: "\<exists>a. unprefixed s = BaseStore a"
  by (induction s) auto

lemma unprefixed_idem [simp]: "unprefixed (unprefixed s) = unprefixed s"
  by (induction s) auto

subsection \<open>Signals\<close>

text \<open>\<open>struct.pack("=i", n)\<close> on a little-endian machine; a value out of range raises.\<close>

definition byte_at :: "int \<Rightarrow> int \<Rightarrow> char" where
  "byte_at unit i = char_of (nat ((i div unit) mod 256))"

definition pack_i32 :: "int \<Rightarrow> string result" where
  "pack_i32 i =
     (if - (2 ^ 31) \<le> i \<and> i < 2 ^ 31 then Inr [byte_at 1 i, byte_at 256 i, byte_at 65536 i, byte_at 16777216 i]
      else Inl (ValueError ''struct.error''))"

definition unpack_i32 :: "string \<Rightarrow> int result" where
  "unpack_i32 b =
     (case b of
        [b0, b1, b2, b3] \<Rightarrow>
          let n = int (code_point b0) + 256 * int (code_point b1) + 65536 * int (code_point b2)
                  + 16777216 * int (code_point b3)
          in Inr (if n < 2 ^ 31 then n else n - 2 ^ 32)
      | _ \<Rightarrow> Inl (ValueError ''struct.error''))"

text \<open>The generation is taken first, then the key torch polls is set.\<close>

definition signal_dump :: "'s store_ops \<Rightarrow> int \<Rightarrow> 's \<Rightarrow> 's \<times> int result" where
  "signal_dump ops rank s =
     (let (s1, gen) = so_add ops GEN_KEY 1 s
      in case pack_i32 rank of
           Inl e \<Rightarrow> (s1, Inl e)
         | Inr b \<Rightarrow> (so_set ops DUMP_KEY b s1, Inr gen))"

definition current_generation :: "'s store_ops \<Rightarrow> 's \<Rightarrow> 's \<times> int" where
  "current_generation ops s = so_add ops GEN_KEY 0 s"

definition signaller :: "'s store_ops \<Rightarrow> 's \<Rightarrow> int result" where
  "signaller ops s = (if \<not> so_check ops [DUMP_KEY] s then Inr (-1) else unpack_i32 (so_get ops DUMP_KEY s))"

definition ack_key :: "int \<Rightarrow> int \<Rightarrow> string" where
  "ack_key gen rank = ACK_KEY @ ''/'' @ int_text gen @ ''/'' @ int_text rank"

definition ack_dump :: "'s store_ops \<Rightarrow> int \<Rightarrow> int list \<Rightarrow> 's \<Rightarrow> 's" where
  "ack_dump ops rank gens s = foldl (\<lambda>s gen. so_set ops (ack_key gen rank) ''1'' s) s gens"

text \<open>
  The wait polls until the deadline: \<open>polls\<close> are the store states seen by the polls before it,
  \<open>final r\<close> the one the last check of rank \<open>r\<close> sees. The result is the ranks without a file.
\<close>

fun wait_for_dumps :: "'s store_ops \<Rightarrow> int list \<Rightarrow> int \<Rightarrow> 's list \<Rightarrow> (int \<Rightarrow> 's) \<Rightarrow> int list" where
  "wait_for_dumps ops ranks gen [] final =
     filter (\<lambda>r. \<not> so_check ops [ack_key gen r] (final r)) ranks"
| "wait_for_dumps ops ranks gen (s # polls) final =
     (if so_check ops (map (ack_key gen) ranks) s then [] else wait_for_dumps ops ranks gen polls final)"

definition incarnation :: "'s store_ops \<Rightarrow> string \<Rightarrow> 's \<Rightarrow> 's \<times> string" where
  "incarnation ops fresh s =
     (case so_compare_set ops INCARNATION_KEY '''' fresh of
        None \<Rightarrow> (s, ''fixed'')
      | Some f \<Rightarrow> f s)"

subsection \<open>Lemmas\<close>

lemma code_point_byte_at: "int (code_point (byte_at unit i)) = (i div unit) mod 256"
proof -
  have "nat ((i div unit) mod 256) < 256" by (simp add: nat_less_iff)
  then show ?thesis by (simp add: byte_at_def code_point_def)
qed

lemma unpack_pack_i32: "pack_i32 i = Inr b \<Longrightarrow> unpack_i32 b = Inr i"
proof -
  assume p: "pack_i32 i = Inr b"
  then have r: "- (2 ^ 31) \<le> i" "i < 2 ^ 31" 
    and b: "b = [byte_at 1 i, byte_at 256 i, byte_at 65536 i, byte_at 16777216 i]"
    by (auto simp: pack_i32_def split: if_splits)
  define n where "n = i mod 256 + 256 * (i div 256 mod 256) + 65536 * (i div 65536 mod 256)
      + 16777216 * (i div 16777216 mod 256)"
  have u: "unpack_i32 b = Inr (if n < 2 ^ 31 then n else n - 2 ^ 32)"
    by (simp only: b unpack_i32_def list.case code_point_byte_at Let_def n_def div_by_1)
  have "n = i mod 4294967296" unfolding n_def
    using zmod_zmult2_eq[of 256 i 256] zmod_zmult2_eq[of 256 i 65536] zmod_zmult2_eq[of 256 i 16777216]
    by simp
  moreover have "i mod 4294967296 = (if 0 \<le> i then i else i + 4294967296)"
  proof (cases "0 \<le> i")
    case True
    then show ?thesis using r by simp
  next
    case False
    then have "(i + 4294967296) mod 4294967296 = i + 4294967296" using r by (intro mod_pos_pos_trivial) auto
    then show ?thesis using False by simp
  qed
  ultimately have n: "n = (if 0 \<le> i then i else i + 4294967296)" by simp
  show ?thesis
    unfolding u n using r by auto
qed

lemma digit_not_slash: "CHR ''/'' \<notin> set (int_text i)"
proof -
  have "CHR ''/'' \<notin> set (nat_text n)" for n
    by (auto dest!: nat_text_digits simp: digit_char_def
        dest!: arg_cong [of _ _ "of_char :: char \<Rightarrow> nat"])
  then show ?thesis by (simp add: int_text_def)
qed

lemma ack_key_inj: "ack_key g r = ack_key g' r' \<longleftrightarrow> g = g' \<and> r = r'"
proof
  assume "ack_key g r = ack_key g' r'"
  then have "int_text g @ CHR ''/'' # int_text r = int_text g' @ CHR ''/'' # int_text r'"
    by (simp add: ack_key_def)
  then have "split_first CHR ''/'' (int_text g @ CHR ''/'' # int_text r)
      = split_first CHR ''/'' (int_text g' @ CHR ''/'' # int_text r')" by simp
  then show "g = g' \<and> r = r'"
    by (simp add: split_first_join digit_not_slash)
qed simp

lemma ack_dump_values:
  assumes "store_laws ops val"
  shows "val (ack_dump ops rank gens s) k =
     (if \<exists>g \<in> set gens. k = ack_key g rank then Some ''1'' else val s k)"
  unfolding ack_dump_def
  by (induction gens arbitrary: s) (auto simp: store_laws_set[OF assms])

lemma current_generation_value:
  "store_laws ops val \<Longrightarrow> snd (current_generation ops s) = counter (val s GEN_KEY)"
  by (simp add: current_generation_def store_laws_add)

lemma counter_int_text [simp]: "counter (Some (int_text n)) = n"
  by (simp add: counter_def)

lemma keys_differ [simp]:
  "ack_key g r \<noteq> DUMP_KEY" "ack_key g r \<noteq> GEN_KEY" "ack_key g r \<noteq> INCARNATION_KEY"
  "DUMP_KEY \<noteq> GEN_KEY" "GEN_KEY \<noteq> DUMP_KEY"
  by (simp_all add: ack_key_def key_simps)

subsection \<open>Properties\<close>

text \<open>What a signal tells every rank. After rank \<open>rank\<close> signalled, any rank that reads the store
  (also after any rank acknowledged any generations) finds that rank as the signaller and the
  signalled generation as the current one, and that generation is one more than the last: two
  signals never share a generation.\<close>

theorem signal_is_seen:
  assumes "store_laws ops val" "signal_dump ops rank s = (s1, Inr gen)"
  shows "gen = snd (current_generation ops s) + 1
    \<and> signaller ops (ack_dump ops other gens s1) = Inr rank
    \<and> snd (current_generation ops (ack_dump ops other gens s1)) = gen"
proof -
  note L = assms(1)
  from assms(2) obtain b where b: "pack_i32 rank = Inr b"
    and s1: "s1 = so_set ops DUMP_KEY b (fst (so_add ops GEN_KEY 1 s))" and gen: "gen = snd (so_add ops GEN_KEY 1 s)"
    by (auto simp: signal_dump_def case_prod_unfold Let_def split: sum.splits)
  let ?s = "ack_dump ops other gens s1"
  have dump: "val ?s DUMP_KEY = Some b" and g: "val ?s GEN_KEY = Some (int_text gen)"
    by (simp_all add: ack_dump_values[OF L] s1 store_laws_set[OF L] store_laws_add[OF L] gen
        eq_commute[of _ "ack_key _ _"])
  have "signaller ops ?s = Inr rank"
    using dump store_laws_get[OF L dump] unpack_pack_i32[OF b]
    by (simp add: signaller_def store_laws_check[OF L])
  moreover have "snd (current_generation ops ?s) = gen"
    by (simp add: current_generation_value[OF L] g)
  ultimately show ?thesis
    by (simp add: current_generation_value[OF L] gen store_laws_add[OF L])
qed

lemma signal_is_seen_witness:
  "let s1 = fst (signal_dump table_store 3 [(GEN_KEY, ''6'')])
   in signaller table_store (ack_dump table_store 1 [7] s1) = Inr 3
      \<and> snd (current_generation table_store (ack_dump table_store 1 [7] s1)) = 7"
proof -
  have "snd (signal_dump table_store 3 [(GEN_KEY, ''6'')]) = Inr 7" by code_simp
  then have "signal_dump table_store 3 [(GEN_KEY, ''6'')] = (fst (signal_dump table_store 3 [(GEN_KEY, ''6'')]), Inr 7)"
    by (simp add: prod_eq_iff)
  from signal_is_seen[OF table_store_laws this, of 1 "[7]"] show ?thesis by (simp add: Let_def)
qed

text \<open>Acknowledgements do not mix: after rank \<open>rank\<close> acknowledged the generations \<open>gens\<close>, the
  acknowledgement of generation \<open>g\<close> by rank \<open>r\<close> is there exactly when it was before or \<open>r\<close> is that
  rank and \<open>g\<close> one of those generations.\<close>

theorem acks_do_not_mix:
  assumes "store_laws ops val"
  shows "so_check ops [ack_key g r] (ack_dump ops rank gens s)
    \<longleftrightarrow> r = rank \<and> g \<in> set gens \<or> so_check ops [ack_key g r] s"
  by (auto simp: store_laws_check[OF assms] ack_dump_values[OF assms] ack_key_inj)

lemma acks_do_not_mix_witness:
  "\<not> so_check table_store [ack_key 1 11] (ack_dump table_store 1 [11] [])"
  unfolding acks_do_not_mix[OF table_store_laws] by (simp add: store_laws_check[OF table_store_laws])

lemma wait_for_dumps_polls:
  "wait_for_dumps ops ranks gen polls final =
     (if list_ex (so_check ops (map (ack_key gen) ranks)) polls then []
      else filter (\<lambda>r. \<not> so_check ops [ack_key gen r] (final r)) ranks)"
  by (induction polls) simp_all

text \<open>Which ranks a wait reports as not having dumped: the ranks whose acknowledgement is missing
  at the end, provided no earlier poll had found all of them. In particular a rank reported has not
  acknowledged the generation, and a wait that ends early reports nobody.\<close>

theorem wait_reports_missing:
  assumes "store_laws ops val"
  shows "wait_for_dumps ops ranks gen polls final =
     (if list_ex (\<lambda>s. list_all (\<lambda>r. val s (ack_key gen r) \<noteq> None) ranks) polls then []
      else filter (\<lambda>r. val (final r) (ack_key gen r) = None) ranks)"
proof -
  have "so_check ops (map (ack_key gen) ranks) = (\<lambda>s. list_all (\<lambda>r. val s (ack_key gen r) \<noteq> None) ranks)"
    by (rule ext) (simp add: store_laws_check[OF assms] list_all_iff)
  moreover have "so_check ops [ack_key gen r] s \<longleftrightarrow> val s (ack_key gen r) \<noteq> None" for r s
    by (simp add: store_laws_check[OF assms])
  ultimately show ?thesis by (simp only: wait_for_dumps_polls not_not)
qed

lemma wait_reports_missing_witness:
  "wait_for_dumps table_store [0, 2] 5 [[]] (\<lambda>_. ack_dump table_store 0 [5] []) = [2]"
  unfolding wait_reports_missing[OF table_store_laws] by (simp add: ack_dump_values[OF table_store_laws] ack_key_inj)

text \<open>One store, one incarnation: the first nonce proposed to a store that has none is what every
  later rank is told, so all ranks that reach one running server agree on the incarnation.\<close>

theorem incarnation_agrees:
  assumes "store_laws ops val" "so_compare_set ops INCARNATION_KEY '''' mine \<noteq> None"
    "so_compare_set ops INCARNATION_KEY '''' yours \<noteq> None" "mine \<noteq> ''''" "val s INCARNATION_KEY = None"
  shows "snd (incarnation ops mine s) = mine
    \<and> snd (incarnation ops yours (ack_dump ops rank gens (fst (incarnation ops mine s)))) = mine"
proof -
  note L = assms(1)
  from assms(2,3) obtain f h where f: "so_compare_set ops INCARNATION_KEY '''' mine = Some f"
    and h: "so_compare_set ops INCARNATION_KEY '''' yours = Some h" by blast
  have first: "snd (f s) = mine" "val (fst (f s)) INCARNATION_KEY = Some mine"
    by (simp_all add: store_laws_cas[OF L f] cas_value_def assms(5))
  have "val (ack_dump ops rank gens (fst (f s))) INCARNATION_KEY = Some mine"
    using first(2) by (auto simp: ack_dump_values[OF L] eq_commute[of _ "ack_key _ _"])
  then have "snd (h (ack_dump ops rank gens (fst (f s)))) = mine"
    using assms(4) by (simp add: store_laws_cas[OF L h] cas_value_def)
  with first(1) show ?thesis by (simp add: incarnation_def f h)
qed

lemma incarnation_agrees_witness:
  "snd (incarnation table_store ''b2'' (ack_dump table_store 0 [] (fst (incarnation table_store ''a1'' [])))) = ''a1''"
  using incarnation_agrees[OF table_store_laws, of "''a1''" "''b2''" "[]" 0 "[]"]
  by (simp add: table_store_def)

end
