(* ===== verification/FR_Poller.thy ===== *)
theory FR_Poller
  imports FR_Generations FR_Store FR_Ring
begin

text \<open>
  The flight recorder's monitor (\<^verbatim>\<open>_Poller\<close>) and the module's entry points: which store states
  the process keeps, how a poll's answer is applied, and the claims other threads make. Store
  states are shared objects (a claim keeps a reference while the poller may replace the state), so
  they live in a heap: \<open>po_heap\<close> maps identities to states, \<open>po_states\<close> an address to the identity
  current there. A poll is split where the code releases the lock (\<open>poll_locked\<close>,
  \<open>poll_unacked\<close>, \<open>poll_done\<close>); \<open>fr_step\<close> interleaves these with every other operation.
\<close>

subsection \<open>State\<close>

record 'st poller =
  po_groups :: "(int, store_id \<times> 'st \<times> int) dict"
  po_states :: "(store_id, nat) dict"
  po_heap :: "(nat, store_state) dict"
  po_next :: nat
  po_pipe :: int
  po_pipe_path :: string

definition Poller :: "'st poller" where
  "Poller = \<lparr>po_groups = [], po_states = [], po_heap = [], po_next = 0, po_pipe = -1, po_pipe_path = ''''\<rparr>"

text \<open>\<open>self.states[key] = st\<close> for a new state object.\<close>

definition put_state :: "store_id \<Rightarrow> store_state \<Rightarrow> 'st poller \<Rightarrow> 'st poller" where
  "put_state key st p =
     p\<lparr>po_states := dput key (po_next p) (po_states p),
       po_heap := dput (po_next p) st (po_heap p), po_next := Suc (po_next p)\<rparr>"

text \<open>A mutation of the object \<open>sid\<close>.\<close>

definition upd_state :: "nat \<Rightarrow> (store_state \<Rightarrow> store_state) \<Rightarrow> 'st poller \<Rightarrow> 'st poller" where
  "upd_state sid f p =
     (case dget (po_heap p) sid of
        None \<Rightarrow> p
      | Some st \<Rightarrow> p\<lparr>po_heap := dput sid (f st) (po_heap p)\<rparr>)"

definition the_state :: "'st poller \<Rightarrow> nat \<Rightarrow> store_state" where
  "the_state p sid = the (dget (po_heap p) sid)"

subsection \<open>attach and detach\<close>

text \<open>\<open>open_fifo\<close> makes and opens the pipe: \<open>None\<close> is the \<open>OSError\<close>.\<close>

definition poller_pipe :: "env \<Rightarrow> (string \<Rightarrow> int option) \<Rightarrow> int \<Rightarrow> 'st poller \<Rightarrow> 'st poller" where
  "poller_pipe env open_fifo rank p =
     (let stem = or_else (env ''TORCH_NCCL_DEBUG_INFO_PIPE_FILE'') '''';
          path = (if stem \<noteq> [] then stem @ int_text rank @ ''.pipe'' else '''')
      in if path = po_pipe_path p then p
         else let p1 = p\<lparr>po_pipe := -1, po_pipe_path := path\<rparr>
              in if path = [] then p1
                 else case open_fifo path of Some fd \<Rightarrow> p1\<lparr>po_pipe := fd\<rparr> | None \<Rightarrow> p1)"

text \<open>
  \<open>answer\<close> is what the store said of its incarnation, generation and dump key, \<open>None\<close> when one
  of the reads raised; it is asked for only where dumps on a timeout are on.
\<close>

definition attach ::
    "env \<Rightarrow> (string \<Rightarrow> int option) \<Rightarrow> (string \<times> int \<times> bool) option \<Rightarrow> int \<Rightarrow> store_id \<Rightarrow> 'st \<Rightarrow> int
     \<Rightarrow> 'st poller \<Rightarrow> 'st poller" where
  "attach env open_fifo answer grp key store rank p =
     (let read = (if dump_on_timeout env then answer else None);
          p1 = (case dget (po_states p) key of
                  None \<Rightarrow>
                    put_state key (case read of Some (n, g, k) \<Rightarrow> StoreState (Some n) (Some g) k
                                   | None \<Rightarrow> StoreState None None False) p
                | Some sid \<Rightarrow>
                    (case read of
                       None \<Rightarrow> p
                     | Some (n, g, k) \<Rightarrow>
                         if ss_nonce (the_state p sid) = None then put_state key (StoreState (Some n) (Some g) k) p
                         else if ss_nonce (the_state p sid) \<noteq> Some n
                         then put_state key (StoreState (Some n) (Some 0) False) p
                         else p))
      in poller_pipe env open_fifo rank (p1\<lparr>po_groups := dput grp (key, store, rank) (po_groups p1)\<rparr>))"

definition detach :: "int \<Rightarrow> 'st poller \<Rightarrow> 'st poller" where
  "detach grp p =
     (case dget (po_groups p) grp of
        None \<Rightarrow> p
      | Some (key, _, _) \<Rightarrow>
          let gs = dpop grp (po_groups p)
          in if list_all (\<lambda>(_, k, _, _). k \<noteq> key) gs
             then p\<lparr>po_groups := gs, po_states := dpop key (po_states p)\<rparr>
             else p\<lparr>po_groups := gs\<rparr>)"

definition poller_after_fork :: "'st poller \<Rightarrow> 'st poller" where
  "poller_after_fork p = p\<lparr>po_groups := [], po_states := []\<rparr>"

text \<open>What one round of \<open>run\<close> polls: the newest group, and its state when dumps are on.\<close>

definition run_target :: "env \<Rightarrow> 'st poller \<Rightarrow> (store_id \<times> 'st \<times> int \<times> nat) option" where
  "run_target env p =
     (case newest_value (po_groups p) of
        None \<Rightarrow> None
      | Some (key, store, rank) \<Rightarrow>
          (case dget (po_states p) key of
             Some sid \<Rightarrow> if dump_on_timeout env then Some (key, store, rank, sid) else None
           | None \<Rightarrow> None))"

subsection \<open>One poll\<close>

text \<open>Whether the poll asks the store at all.\<close>

definition poll_due :: "rat \<Rightarrow> bool \<Rightarrow> store_state \<Rightarrow> bool" where
  "poll_due now stuck st \<longleftrightarrow> \<not> (stuck \<or> now < ss_poll_at st)"

text \<open>What the locked part decides to do once the lock is released.\<close>

record poll_work =
  pw_sid :: nat
  pw_gens :: "int list"
  pw_torch_signal :: bool
  pw_unacked :: "int list"

definition poll_backoff :: "env \<Rightarrow> rat \<Rightarrow> store_state \<Rightarrow> store_state" where
  "poll_backoff env now st =
     (let b = min (max (2 * ss_poll_backoff st) (coord_check_s env)) (poll_backoff_cap env)
      in st\<lparr>ss_poll_backoff := b, ss_poll_at := now + b\<rparr>)"

text \<open>
  A nonce other than the state's: the server restarted, and a new state serves its generations
  from the first.
\<close>

definition poll_restart :: "store_id \<Rightarrow> string \<Rightarrow> nat \<Rightarrow> 'st poller \<Rightarrow> 'st poller \<times> nat" where
  "poll_restart key nonce sid p =
     (if Some nonce \<noteq> ss_nonce (the_state p sid)
      then (put_state key (StoreState (Some nonce) (Some 0) False) p, po_next p)
      else (p, sid))"

text \<open>A generation beyond the first one seen: torch's key is served by the generations.\<close>

definition poll_mark :: "int \<Rightarrow> nat \<Rightarrow> 'st poller \<Rightarrow> 'st poller" where
  "poll_mark gen sid p =
     (if Some gen \<noteq> ss_first (the_state p sid) then upd_state sid (\<lambda>st. st\<lparr>ss_torch := Seen\<rparr>) p else p)"

definition poll_claim :: "rat \<Rightarrow> bool \<Rightarrow> int \<Rightarrow> nat \<Rightarrow> 'st poller \<Rightarrow> 'st poller \<times> poll_work" where
  "poll_claim now key_set gen sid p =
     (let (st', gens) = claim_gens now (the_state p sid) gen
      in (upd_state sid (\<lambda>_. st') p,
          \<lparr>pw_sid = sid, pw_gens = gens,
           pw_torch_signal = (gens = [] \<and> key_set \<and> ss_torch st' = Unseen
             \<and> (\<not> ss_torch_tried st' \<or> ss_dump_retry_at st' \<le> now)),
           pw_unacked = sorted_list_of_set (ss_unacked st')\<rparr>))"

definition poll_locked ::
    "env \<Rightarrow> rat \<Rightarrow> bool \<Rightarrow> (string \<times> bool \<times> int) option \<Rightarrow> store_id \<Rightarrow> nat \<Rightarrow> 'st poller
     \<Rightarrow> 'st poller \<times> poll_work option" where
  "poll_locked env now stuck seen key sid p =
     (if dget (po_states p) key \<noteq> Some sid then (p, None)
      else case seen of
        None \<Rightarrow> (if stuck then p else upd_state sid (poll_backoff env now) p, None)
      | Some (nonce, key_set, gen) \<Rightarrow>
          let p1 = upd_state sid (\<lambda>st. st\<lparr>ss_poll_backoff := 0\<rparr>) p
          in if ss_nonce (the_state p1 sid) = None
             then (put_state key (StoreState (Some nonce) (Some gen) key_set) p1, None)
             else
               let (p2, sid2) = poll_restart key nonce sid p1;
                   (p3, w) = poll_claim now key_set gen sid2 (poll_mark gen sid2 p2)
               in (p3, Some w))"

text \<open>Acknowledging again what an earlier poll could not; \<open>sent\<close> says that it went through.\<close>

definition poll_unacked :: "poll_work \<Rightarrow> bool \<Rightarrow> 'st poller \<Rightarrow> 'st poller" where
  "poll_unacked w sent p =
     (if pw_unacked w \<noteq> [] \<and> sent
      then upd_state (pw_sid w) (\<lambda>st. st\<lparr>ss_unacked := ss_unacked st - set (pw_unacked w)\<rparr>) p
      else p)"

definition poll_done :: "env \<Rightarrow> rat \<Rightarrow> poll_work \<Rightarrow> bool \<Rightarrow> bool \<Rightarrow> 'st poller \<Rightarrow> 'st poller" where
  "poll_done env now w dumped acked p =
     (if pw_gens w \<noteq> [] then
        upd_state (pw_sid w) (\<lambda>st. finish_gens env now st (pw_gens w) dumped (dumped \<and> acked)) p
      else if pw_torch_signal w then
        upd_state (pw_sid w) (\<lambda>st.
          let st1 = st\<lparr>ss_torch_tried := True\<rparr>;
              st2 = (if dumped then st1\<lparr>ss_torch := Seen\<rparr> else st1)
          in dump_backoff env now dumped st2) p
      else p)"

subsection \<open>Claims of other threads\<close>

text \<open>\<open>Claim\<close>: the state's identity, and the generations; \<open>claim\<close> without a state serves all.\<close>

record fr_claim =
  cl_sid :: "nat option"
  cl_gens :: "int list"

definition fr_claim_gens :: "rat \<Rightarrow> store_id \<Rightarrow> int \<Rightarrow> 'st poller option \<Rightarrow> 'st poller option \<times> fr_claim" where
  "fr_claim_gens now key up poller =
     (case poller of
        None \<Rightarrow> (None, \<lparr>cl_sid = None, cl_gens = [up]\<rparr>)
      | Some p \<Rightarrow>
          (case dget (po_states p) key of
             None \<Rightarrow> (Some p, \<lparr>cl_sid = None, cl_gens = [up]\<rparr>)
           | Some sid \<Rightarrow>
               let (st', gens) = claim_gens now (the_state p sid) up
               in (Some (upd_state sid (\<lambda>_. st') p), \<lparr>cl_sid = Some sid, cl_gens = gens\<rparr>)))"

definition fr_finish :: "env \<Rightarrow> rat \<Rightarrow> fr_claim \<Rightarrow> bool \<Rightarrow> bool \<Rightarrow> 'st poller option \<Rightarrow> 'st poller option" where
  "fr_finish env now c dumped acked poller =
     (case (cl_sid c, poller) of
        (Some sid, Some p) \<Rightarrow>
          Some (upd_state sid (\<lambda>st. finish_gens env now st (cl_gens c) dumped acked) p)
      | _ \<Rightarrow> poller)"

subsection \<open>The module\<close>

record ('tb, 'h, 'st) fr_module =
  m_recorder :: "('tb, 'h) recorder option"
  m_poller :: "'st poller option"

definition fr_active :: "('tb, 'h, 'st) fr_module \<Rightarrow> bool" where
  "fr_active m = (case m_recorder m of None \<Rightarrow> False | Some r \<Rightarrow> rec_active r)"

text \<open>\<open>init\<close> is the native initialisation, given the size.\<close>

definition make_recorder ::
    "env \<Rightarrow> (int \<Rightarrow> bool) \<Rightarrow> string \<Rightarrow> ('tb, 'h, 'st) fr_module \<Rightarrow> ('tb, 'h, 'st) fr_module" where
  "make_recorder env init lib_name m =
     (case m_recorder m of
        Some r \<Rightarrow> m
      | None \<Rightarrow>
          let sz = buffer_size env
          in if sz = 0 \<or> \<not> init sz then m
             else m\<lparr>m_recorder := Some (Recorder (nat sz) lib_name)\<rparr>)"

definition attach_poller ::
    "env \<Rightarrow> (string \<Rightarrow> int option) \<Rightarrow> (string \<times> int \<times> bool) option \<Rightarrow> int \<Rightarrow> store_id \<Rightarrow> 'st \<Rightarrow> int
     \<Rightarrow> ('tb, 'h, 'st) fr_module \<Rightarrow> ('tb, 'h, 'st) fr_module" where
  "attach_poller env open_fifo answer grp key store rank m =
     (if \<not> (dump_on_timeout env \<or> or_else (env ''TORCH_NCCL_DEBUG_INFO_PIPE_FILE'') '''' \<noteq> [])
      then m
      else m\<lparr>m_poller := Some (attach env open_fifo answer grp key store rank
                                (or_else (m_poller m) Poller))\<rparr>)"

definition detach_poller :: "int \<Rightarrow> ('tb, 'h, 'st) fr_module \<Rightarrow> ('tb, 'h, 'st) fr_module" where
  "detach_poller grp m = m\<lparr>m_poller := map_option (detach grp) (m_poller m)\<rparr>"

definition fr_after_fork_in_child :: "('tb, 'h, 'st) fr_module \<Rightarrow> ('tb, 'h, 'st) fr_module" where
  "fr_after_fork_in_child m =
     m\<lparr>m_poller := None, m_recorder := map_option rec_after_fork (m_recorder m)\<rparr>"

subsection \<open>Interleavings\<close>

text \<open>
  Every operation of the process on its monitor, in any order and by any thread: \<open>out\<close> holds the
  claims in progress (state identity and generations), \<open>dlog\<close> the generations dumped, with the
  state they were claimed from.
\<close>

inductive fr_step :: "'st poller \<Rightarrow> (nat \<times> int list) list \<Rightarrow> (nat \<times> int) list \<Rightarrow> bool" where
  start: "fr_step Poller [] []"
| attaches: "fr_step p out dlog \<Longrightarrow> fr_step (attach env open_fifo answer grp key store rank p) out dlog"
| detaches: "fr_step p out dlog \<Longrightarrow> fr_step (detach grp p) out dlog"
| poll_idle: "fr_step p out dlog \<Longrightarrow> poll_locked env now stuck seen key sid p = (p', None) \<Longrightarrow>
    fr_step p' out dlog"
| poll_claims: "fr_step p out dlog \<Longrightarrow> poll_locked env now stuck seen key sid p = (p', Some w) \<Longrightarrow>
    fr_step p' (out @ [(pw_sid w, pw_gens w)]) dlog"
| reacks: "fr_step p out dlog \<Longrightarrow> fr_step (poll_unacked w sent p) out dlog"
| poll_ends: "fr_step p (xs @ (pw_sid w, pw_gens w) # ys) dlog \<Longrightarrow>
    fr_step (poll_done env now w dumped acked p) (xs @ ys)
      (if dumped then dlog @ map (Pair (pw_sid w)) (pw_gens w) else dlog)"
| other_claims: "fr_step p out dlog \<Longrightarrow> fr_claim_gens now key up (Some p) = (Some p', c) \<Longrightarrow>
    cl_sid c = Some sid \<Longrightarrow> fr_step p' (out @ [(sid, cl_gens c)]) dlog"
| other_ends: "fr_step p (xs @ (sid, cl_gens c) # ys) dlog \<Longrightarrow> cl_sid c = Some sid \<Longrightarrow>
    fr_finish env now c dumped acked (Some p) = Some p' \<Longrightarrow>
    fr_step p' (xs @ ys) (if dumped then dlog @ map (Pair sid) (cl_gens c) else dlog)"

definition outs_of :: "nat \<Rightarrow> (nat \<times> int list) list \<Rightarrow> int list list" where
  "outs_of sid out = map snd (filter (\<lambda>(s, _). s = sid) out)"

definition log_of :: "nat \<Rightarrow> (nat \<times> int) list \<Rightarrow> int list" where
  "log_of sid dlog = map snd (filter (\<lambda>(s, _). s = sid) dlog)"

lemma outs_of_append [simp]: "outs_of sid (xs @ ys) = outs_of sid xs @ outs_of sid ys"
  by (simp add: outs_of_def)

lemma outs_of_Cons [simp]:
  "outs_of sid ((s, gs) # xs) = (if s = sid then gs # outs_of sid xs else outs_of sid xs)"
  by (simp add: outs_of_def)

lemma outs_of_Nil [simp]: "outs_of sid [] = []"
  by (simp add: outs_of_def)

lemma log_of_append [simp]: "log_of sid (xs @ ys) = log_of sid xs @ log_of sid ys"
  by (simp add: log_of_def)

lemma log_of_Pair [simp]: "log_of sid (map (Pair s) gs) = (if s = sid then gs else [])"
  by (simp add: log_of_def filter_map o_def)

lemma log_of_Nil [simp]: "log_of sid [] = []"
  by (simp add: log_of_def)

text \<open>
  What holds of one state object: it is reached from a fresh one by the ledger's steps, with the
  claims and dumps the process made on it.
\<close>

definition ledger_of :: "store_state \<Rightarrow> int list list \<Rightarrow> int list \<Rightarrow> bool" where
  "ledger_of st outs dl \<longleftrightarrow>
     (\<exists>nonce base seen. ledger_run claim_at finish_at same_gens (StoreState nonce base seen) outs dl st)"

definition fr_inv :: "'st poller \<Rightarrow> (nat \<times> int list) list \<Rightarrow> (nat \<times> int) list \<Rightarrow> bool" where
  "fr_inv p out dlog \<longleftrightarrow>
     (\<forall>sid. case dget (po_heap p) sid of
        None \<Rightarrow> outs_of sid out = [] \<and> log_of sid dlog = []
      | Some st \<Rightarrow> sid < po_next p \<and> ledger_of st (outs_of sid out) (log_of sid dlog)) \<and>
     (\<forall>key sid. dget (po_states p) key = Some sid \<longrightarrow> dget (po_heap p) sid \<noteq> None)"

lemma ledger_new: "ledger_of (StoreState nonce base seen) [] []"
  unfolding ledger_of_def by (blast intro: ledger_run.start)

lemma ledger_touch: "ledger_of st outs dl \<Longrightarrow> same_gens st st' \<Longrightarrow> ledger_of st' outs dl"
  unfolding ledger_of_def by (blast intro: ledger_run.touches)

lemma ledger_claim:
  "ledger_of st outs dl \<Longrightarrow> claim_gens now st up = (st', gs) \<Longrightarrow> ledger_of st' (outs @ [gs]) dl"
  unfolding ledger_of_def using ledger_run.claims[of claim_at finish_at same_gens _ outs dl st "(undefined, now)"]
  by (fastforce simp: at_simps)

lemma ledger_finish:
  "ledger_of st (xs @ gs # ys) dl \<Longrightarrow>
     ledger_of (finish_gens env now st gs d a) (xs @ ys) (if d then dl @ gs else dl)"
  unfolding ledger_of_def
  using ledger_run.finishes[of claim_at finish_at same_gens _ xs gs ys dl st d "(env, now)" a]
  by (fastforce simp: at_simps)

lemma fr_invD:
  assumes "fr_inv p out dlog"
  shows "dget (po_heap p) sid = None \<Longrightarrow> outs_of sid out = [] \<and> log_of sid dlog = []"
    "dget (po_heap p) sid = Some st \<Longrightarrow> sid < po_next p \<and> ledger_of st (outs_of sid out) (log_of sid dlog)"
    "dget (po_states p) key = Some sid \<Longrightarrow> dget (po_heap p) sid \<noteq> None"
  using assms[unfolded fr_inv_def, THEN conjunct1, THEN spec, of sid]
    assms[unfolded fr_inv_def, THEN conjunct2, THEN spec, THEN spec, of key sid]
  by (auto split: option.splits)

lemma fr_invI:
  assumes "\<And>sid. dget (po_heap p) sid = None \<Longrightarrow> outs_of sid out = [] \<and> log_of sid dlog = []"
    and "\<And>sid st. dget (po_heap p) sid = Some st \<Longrightarrow>
       sid < po_next p \<and> ledger_of st (outs_of sid out) (log_of sid dlog)"
    and "\<And>key sid. dget (po_states p) key = Some sid \<Longrightarrow> dget (po_heap p) sid \<noteq> None"
  shows "fr_inv p out dlog"
  using assms unfolding fr_inv_def by (auto split: option.splits)

lemma fr_inv_put_state:
  assumes "fr_inv p out dlog"
  shows "fr_inv (put_state key (StoreState n b k) p) out dlog"
proof (rule fr_invI, goal_cases)
  case (1 sid)
  then show ?case using fr_invD(1)[OF assms] by (simp add: put_state_def split: if_splits)
next
  case (2 sid st)
  have "dget (po_heap p) (po_next p) = None"
    using fr_invD(2)[OF assms, of "po_next p"] by (cases "dget (po_heap p) (po_next p)") auto
  with 2 show ?case
    using fr_invD(1)[OF assms, of "po_next p"] fr_invD(2)[OF assms, of sid st] ledger_new[of n b k]
    by (auto simp: put_state_def split: if_splits)
next
  case (3 key sid)
  then show ?case using fr_invD(3)[OF assms] by (auto simp: put_state_def split: if_splits)
qed

text \<open>One object changes, with its claims and dumps; the others keep theirs.\<close>

lemma fr_inv_object:
  assumes "fr_inv p out dlog" "dget (po_heap p) sid = Some st"
    and "\<And>s. s \<noteq> sid \<Longrightarrow> outs_of s out' = outs_of s out \<and> log_of s dlog' = log_of s dlog"
    and "ledger_of (f st) (outs_of sid out') (log_of sid dlog')"
  shows "fr_inv (upd_state sid f p) out' dlog'"
proof (rule fr_invI, goal_cases)
  case (1 s)
  then have "s \<noteq> sid" "dget (po_heap p) s = None" using assms(2) by (auto simp: upd_state_def split: if_splits)
  then show ?case using fr_invD(1)[OF assms(1)] assms(3) by simp
next
  case (2 s st')
  then show ?case
    using fr_invD(2)[OF assms(1), of s] assms(2-4) by (cases "s = sid") (auto simp: upd_state_def)
next
  case (3 key s)
  then show ?case using fr_invD(3)[OF assms(1), of key s] assms(2) by (auto simp: upd_state_def)
qed

lemma upd_state_None: "dget (po_heap p) sid = None \<Longrightarrow> upd_state sid f p = p"
  by (simp add: upd_state_def)

lemma fr_inv_upd:
  assumes "fr_inv p out dlog" "\<And>st. same_gens st (f st)"
  shows "fr_inv (upd_state sid f p) out dlog"
proof (cases "dget (po_heap p) sid")
  case None
  then show ?thesis using assms(1) by (simp add: upd_state_None)
next
  case (Some st)
  with fr_invD(2)[OF assms(1) Some] show ?thesis
    by (intro fr_inv_object[OF assms(1) Some]) (auto intro: ledger_touch assms(2))
qed

lemma fr_inv_fields:
  assumes "fr_inv p out dlog" "\<And>s. dget (po_heap p') s = dget (po_heap p) s" "po_next p' = po_next p"
    and "\<And>key sid. dget (po_states p') key = Some sid \<Longrightarrow> dget (po_states p) key = Some sid"
  shows "fr_inv p' out dlog"
proof (rule fr_invI, goal_cases)
  case (3 key sid)
  then show ?case using fr_invD(3)[OF assms(1)] assms(2,4) by metis
qed (use fr_invD(1,2)[OF assms(1)] assms(2,3) in simp_all)

lemma fr_inv_attach:
  assumes "fr_inv p out dlog"
  shows "fr_inv (attach env open_fifo answer grp key store rank p) out dlog"
proof -
  have pipe: "fr_inv q out dlog \<Longrightarrow> fr_inv (poller_pipe env open_fifo rank q) out dlog" for q :: "'a poller"
    by (erule fr_inv_fields) (auto simp: poller_pipe_def Let_def split: option.splits if_splits)
  have grp: "fr_inv q out dlog \<Longrightarrow> fr_inv (q\<lparr>po_groups := g\<rparr>) out dlog" for q :: "'a poller" and g
    by (erule fr_inv_fields) auto
  show ?thesis
    unfolding attach_def Let_def using assms
    by (intro pipe grp) (auto split: option.splits intro: fr_inv_put_state)
qed

lemma fr_inv_detach: "fr_inv p out dlog \<Longrightarrow> fr_inv (detach grp p) out dlog"
  by (erule fr_inv_fields)
     (auto simp: detach_def Let_def split: option.splits prod.splits if_splits)

text \<open>A claim on an object and its end.\<close>

lemma fr_inv_claim:
  assumes "fr_inv p out dlog" "dget (po_heap p) sid = Some st" "claim_gens now st up = (st', gs)"
  shows "fr_inv (upd_state sid (\<lambda>_. st') p) (out @ [(sid, gs)]) dlog"
  using fr_inv_object[OF assms(1,2)] fr_invD(2)[OF assms(1,2)] ledger_claim[OF _ assms(3)] by simp

lemma fr_inv_finish:
  assumes "fr_inv p (xs @ (sid, gs) # ys) dlog"
  shows "fr_inv (upd_state sid (\<lambda>st. finish_gens env now st gs d a) p) (xs @ ys)
           (if d then dlog @ map (Pair sid) gs else dlog)"
proof -
  have "dget (po_heap p) sid \<noteq> None" using fr_invD(1)[OF assms, of sid] by auto
  then obtain st where st: "dget (po_heap p) sid = Some st" by blast
  from fr_invD(2)[OF assms st]
  have "ledger_of st (outs_of sid xs @ gs # outs_of sid ys) (log_of sid dlog)" by simp
  from ledger_finish[OF this, of env now d a] show ?thesis
    by (intro fr_inv_object[OF assms st]) auto
qed

lemma same_gens_simps:
  "same_gens st (st\<lparr>ss_poll_backoff := x\<rparr>)" "same_gens st (st\<lparr>ss_torch := t\<rparr>)"
  "same_gens st (st\<lparr>ss_unacked := u\<rparr>)" "same_gens st (poll_backoff env now st)"
  "same_gens st (dump_backoff env now ok (st\<lparr>ss_torch_tried := b\<rparr>))"
  "same_gens st (dump_backoff env now ok (st\<lparr>ss_torch_tried := b, ss_torch := t\<rparr>))"
  by (simp_all add: same_gens_def poll_backoff_def dump_backoff_def Let_def)

lemma upd_state_heap [simp]:
  "dget (po_heap (upd_state sid f p)) s =
     (if s = sid then map_option f (dget (po_heap p) sid) else dget (po_heap p) s)"
  by (auto simp: upd_state_def split: option.splits)

lemma upd_state_fields [simp]:
  "po_states (upd_state sid f p) = po_states p" "po_next (upd_state sid f p) = po_next p"
  "po_groups (upd_state sid f p) = po_groups p"
  by (auto simp: upd_state_def split: option.splits)

lemma put_state_fields [simp]:
  "dget (po_heap (put_state key st p)) s = (if s = po_next p then Some st else dget (po_heap p) s)"
  "dget (po_states (put_state key st p)) k = (if k = key then Some (po_next p) else dget (po_states p) k)"
  "po_groups (put_state key st p) = po_groups p"
  by (auto simp: put_state_def)

lemma fr_inv_restart:
  assumes "fr_inv p out dlog" "dget (po_heap p) sid \<noteq> None" "poll_restart key nonce sid p = (p', sid')"
  shows "fr_inv p' out dlog \<and> dget (po_heap p') sid' \<noteq> None"
  using assms fr_inv_put_state[OF assms(1)] by (auto simp: poll_restart_def split: if_splits)

lemma fr_inv_mark:
  assumes "fr_inv p out dlog" "dget (po_heap p) sid \<noteq> None"
  shows "fr_inv (poll_mark gen sid p) out dlog \<and> dget (po_heap (poll_mark gen sid p)) sid \<noteq> None"
  using assms by (simp add: poll_mark_def fr_inv_upd same_gens_simps)

lemma fr_inv_poll_claim:
  assumes "fr_inv p out dlog" "dget (po_heap p) sid \<noteq> None" "poll_claim now k gen sid p = (p', w)"
  shows "fr_inv p' (out @ [(pw_sid w, pw_gens w)]) dlog"
proof -
  from assms(2) obtain st where st: "dget (po_heap p) sid = Some st" by blast
  obtain st' gs where c: "claim_gens now st gen = (st', gs)" by (metis surj_pair)
  with assms(3) st have "p' = upd_state sid (\<lambda>_. st') p" "pw_sid w = sid" "pw_gens w = gs"
    by (auto simp: poll_claim_def the_state_def)
  then show ?thesis using fr_inv_claim[OF assms(1) st c] by simp
qed

lemma fr_inv_poll:
  assumes inv: "fr_inv p out dlog"
    and step: "poll_locked env now stuck seen key sid p = (p', w)"
  shows "fr_inv p' (case w of None \<Rightarrow> out | Some w \<Rightarrow> out @ [(pw_sid w, pw_gens w)]) dlog"
proof (cases "dget (po_states p) key = Some sid \<and> seen \<noteq> None")
  case False
  then show ?thesis
    using assms
    by (cases seen) (auto simp: poll_locked_def same_gens_simps intro: fr_inv_upd split: if_splits)
next
  case True
  then obtain nonce k gen where seen: "seen = Some (nonce, k, gen)" by auto
  define p1 where "p1 = upd_state sid (\<lambda>st. st\<lparr>ss_poll_backoff := 0\<rparr>) p"
  have i1: "fr_inv p1 out dlog" unfolding p1_def by (rule fr_inv_upd[OF inv]) (simp add: same_gens_simps)
  have h1: "dget (po_heap p1) sid \<noteq> None"
    using fr_invD(3)[OF inv] True by (auto simp: p1_def)
  obtain p2 sid2 where r: "poll_restart key nonce sid p1 = (p2, sid2)" by (metis surj_pair)
  obtain p3 w' where c: "poll_claim now k gen sid2 (poll_mark gen sid2 p2) = (p3, w')" by (metis surj_pair)
  from fr_inv_restart[OF i1 h1 r] fr_inv_mark fr_inv_poll_claim[OF _ _ c]
  have "fr_inv p3 (out @ [(pw_sid w', pw_gens w')]) dlog" by blast
  then show ?thesis
    using step True i1 by (auto simp: poll_locked_def seen r c p1_def[symmetric] Let_def
        intro: fr_inv_put_state split: if_splits)
qed

lemma fr_step_inv: "fr_step p out dlog \<Longrightarrow> fr_inv p out dlog"
proof (induction rule: fr_step.induct)
  case start
  then show ?case by (simp add: fr_inv_def Poller_def)
next
  case (attaches p out dlog env open_fifo answer grp key store rank)
  then show ?case by (simp add: fr_inv_attach)
next
  case (detaches p out dlog grp)
  then show ?case by (simp add: fr_inv_detach)
next
  case (poll_idle p out dlog env now stuck seen key sid p')
  then show ?case using fr_inv_poll by fastforce
next
  case (poll_claims p out dlog env now stuck seen key sid p' w)
  then show ?case using fr_inv_poll by fastforce
next
  case (reacks p out dlog w sent)
  then show ?case by (auto simp: poll_unacked_def same_gens_simps intro: fr_inv_upd)
next
  case (poll_ends p xs w ys dlog env now dumped acked)
  show ?case
  proof (cases "pw_gens w = []")
    case True
    from poll_ends.IH True have "fr_inv p (xs @ (pw_sid w, []) # ys) dlog" by simp
    from fr_inv_finish[OF this, of env now dumped acked]
    have i: "fr_inv (upd_state (pw_sid w) (\<lambda>st. st) p) (xs @ ys) dlog"
      by (auto simp: finish_gens_def split: if_splits)
    have "fr_inv p (xs @ ys) dlog"
      by (rule fr_inv_fields[OF i]) (auto simp: option.map_ident)
    then show ?thesis
      using True by (auto simp: poll_done_def Let_def same_gens_simps intro!: fr_inv_upd)
  next
    case False
    with fr_inv_finish[OF poll_ends.IH, of env now dumped "dumped \<and> acked"] show ?thesis
      by (simp add: poll_done_def)
  qed
next
  case (other_claims p out dlog now key up p' c sid)
  from other_claims.hyps obtain st' gs where *: "dget (po_states p) key = Some sid"
    "claim_gens now (the_state p sid) up = (st', gs)" "p' = upd_state sid (\<lambda>_. st') p" "cl_gens c = gs"
    by (auto simp: fr_claim_gens_def split: option.splits prod.splits)
  from fr_invD(3)[OF other_claims.IH *(1)] obtain st where "dget (po_heap p) sid = Some st" by blast
  with * show ?case
    using fr_inv_claim[OF other_claims.IH, of sid st now up st' gs] by (simp add: the_state_def)
next
  case (other_ends p xs sid c ys dlog env now dumped acked p')
  then show ?case
    using fr_inv_finish[OF other_ends.IH, of env now dumped acked] by (auto simp: fr_finish_def)
qed

subsection \<open>Properties\<close>

definition held :: "(nat \<times> int list) list \<Rightarrow> (nat \<times> int) list" where
  "held out = concat (map (\<lambda>(sid, gs). map (Pair sid) gs) out)"

lemma log_of_held: "log_of sid (held out) = concat (outs_of sid out)"
  by (induction out) (auto simp: held_def)

lemma log_of_Cons [simp]: "log_of sid ((s, g) # xs) = (if s = sid then g # log_of sid xs else log_of sid xs)"
  by (simp add: log_of_def)

lemma log_of_mem: "(s, g) \<in> set xs \<Longrightarrow> g \<in> set (log_of s xs)"
  by (force simp: log_of_def)

lemma distinct_by_state: "(\<And>sid. distinct (log_of sid xs)) \<Longrightarrow> distinct xs"
proof (induction xs)
  case (Cons x xs)
  obtain s g where x: "x = (s, g)" by (cases x)
  have "distinct (log_of sid xs)" for sid using Cons.prems[of sid] by (simp add: x split: if_splits)
  moreover have "g \<notin> set (log_of s xs)" using Cons.prems[of s] by (simp add: x)
  ultimately show ?case using Cons.IH x by (auto dest: log_of_mem)
qed simp

lemma ledger_distinct: "ledger_of st outs dl \<Longrightarrow> distinct (dl @ concat outs)"
proof -
  assume "ledger_of st outs dl"
  then obtain nonce base seen where
    run: "ledger_run claim_at finish_at same_gens (StoreState nonce base seen) outs dl st"
    by (auto simp: ledger_of_def)
  from gens.run_inv[OF run gens_ok_new]
  have "distinct (concat outs)" "distinct dl" "set dl \<inter> set (concat outs) = {}"
    by (auto simp: gens.run_inv_def)
  then show ?thesis by simp
qed

text \<open>C1: No generation is dumped twice. Over every interleaving of the monitor's polls, claims and
  finishes by other threads, groups coming and going and servers restarting, the generations of a
  store state that were dumped and those being dumped are all different.\<close>

theorem no_generation_twice:
  assumes "fr_step p out dlog"
  shows "distinct (dlog @ held out)"
proof (rule distinct_by_state)
  fix sid
  note inv = fr_step_inv[OF assms]
  show "distinct (log_of sid (dlog @ held out))"
  proof (cases "dget (po_heap p) sid")
    case None
    then show ?thesis using fr_invD(1)[OF inv] by (simp add: log_of_held)
  next
    case (Some st)
    then have "ledger_of st (outs_of sid out) (log_of sid dlog)" using fr_invD(2)[OF inv Some] by blast
    from ledger_distinct[OF this] show ?thesis by (simp only: log_of_append log_of_held)
  qed
qed

definition sample_poller :: "nat poller" where
  "sample_poller = attach (\<lambda>_. None) (\<lambda>_. None) (Some (''a'', 2, False)) 0 (FileStore ''f'') 0 1 Poller"

definition sample_poll :: "nat poller \<times> poll_work option" where
  "sample_poll = poll_locked (\<lambda>_. None) 5 False (Some (''b'', True, 2)) (FileStore ''f'') 0 sample_poller"

lemma sample_poller_step: "fr_step sample_poller [] []"
  unfolding sample_poller_def by (rule fr_step.attaches[OF fr_step.start])

lemma sample_poll_work: "map_option pw_gens (snd sample_poll) = Some [1, 2]"
  by (simp add: sample_poll_def sample_poller_def poll_locked_def attach_def dump_on_timeout_def bool_or_def
      Poller_def put_state_def poller_pipe_def the_state_def StoreState_def upd_state_def poll_restart_def
      poll_mark_def poll_claim_def claim_gens_def Let_def or_else_def upto_rec1
      sorted_list_of_set_insert_remove)

lemma no_generation_twice_witness: "distinct ([] @ held [(1, [1, 2])])"
proof -
  obtain w where w: "snd sample_poll = Some w" "pw_gens w = [1, 2]"
    using sample_poll_work by auto
  then have "sample_poll = (fst sample_poll, Some w)" by (simp add: prod_eq_iff)
  from fr_step.poll_claims[OF sample_poller_step this[unfolded sample_poll_def]]
  have "fr_step (fst (poll_locked (\<lambda>_. None) 5 False (Some (''b'', True, 2)) (FileStore ''f'') 0 sample_poller))
      ([] @ [(pw_sid w, pw_gens w)]) []" .
  from no_generation_twice[OF this] show ?thesis by (simp add: held_def w(2))
qed

text \<open>C6: A restarted store server is served from its first generation. When a poll meets a nonce other
  than the one its state knows, it hands out every generation from 1 to the current one, on a new
  state that takes the old one's place; a dump still running for the old server finishes on the old
  state and leaves the new one as it is.\<close>

theorem restart_serves_all:
  assumes "fr_step p out dlog" "dget (po_states p) key = Some sid" "ss_nonce (the_state p sid) = Some old"
    "old \<noteq> nonce"
  shows "\<exists>p' w. poll_locked env now stuck (Some (nonce, key_set, gen)) key sid p = (p', Some w)
    \<and> set (pw_gens w) = {1..gen} \<and> sorted (pw_gens w) \<and> dget (po_states p') key = Some (pw_sid w) \<and> pw_sid w \<noteq> sid
    \<and> (case fr_finish env2 now2 \<lparr>cl_sid = Some sid, cl_gens = gens\<rparr> d a (Some p') of
         Some p'' \<Rightarrow> dget (po_heap p'') (pw_sid w) = dget (po_heap p') (pw_sid w) | None \<Rightarrow> False)"
proof -
  from fr_invD(3)[OF fr_step_inv[OF assms(1)] assms(2)] obtain st where st: "dget (po_heap p) sid = Some st" by blast
  with fr_invD(2)[OF fr_step_inv[OF assms(1)]] have lt: "sid < po_next p" by blast
  have nonce: "ss_nonce st = Some old" using assms(3) st by (simp add: the_state_def)
  define p1 where "p1 = upd_state sid (\<lambda>st. st\<lparr>ss_poll_backoff := 0\<rparr>) p"
  define p2 where "p2 = put_state key (StoreState (Some nonce) (Some 0) False) p1"
  define p3 where "p3 = poll_mark gen (po_next p) p2"
  obtain st' gs where cl: "claim_gens now (the_state p3 (po_next p)) gen = (st', gs)" by (metis surj_pair)
  have state3: "ss_base (the_state p3 (po_next p)) = Some 0" "ss_high (the_state p3 (po_next p)) = Some 0"
    "ss_failed (the_state p3 (po_next p)) = {}" "ss_done (the_state p3 (po_next p)) = {}"
    "ss_pending (the_state p3 (po_next p)) = {}"
    by (simp_all add: p3_def p2_def p1_def poll_mark_def the_state_def StoreState_def)
  have gs: "set gs = {1..gen}" "sorted gs"
    using cl by (auto simp: claim_gens_def state3 Let_def)
  have keys: "dget (po_states p3) key = Some (po_next p)"
    by (simp add: p3_def p2_def p1_def poll_mark_def)
  have same: "ss_nonce (the_state p1 sid) = Some old" "dget (po_states p1) key = Some sid"
    using nonce st assms(2) by (simp_all add: p1_def the_state_def)
  have restart: "poll_restart key nonce sid p1 = (p2, po_next p)"
    using assms(4) same(1) by (simp add: poll_restart_def p2_def) (simp add: p1_def)
  obtain w where w: "poll_claim now key_set gen (po_next p) p3 = (upd_state (po_next p) (\<lambda>_. st') p3, w)"
    "pw_sid w = po_next p" "pw_gens w = gs"
    by (simp add: poll_claim_def cl)
  have "poll_locked env now stuck (Some (nonce, key_set, gen)) key sid p
      = (upd_state (po_next p) (\<lambda>_. st') p3, Some w)"
    using assms(2) same(1) restart w(1) by (simp add: poll_locked_def p1_def[symmetric] p3_def[symmetric] Let_def)
  then show ?thesis
    using lt gs keys w by (simp add: fr_finish_def)
qed

lemma restart_serves_all_witness:
  "case sample_poll of (p', Some w) \<Rightarrow> set (pw_gens w) = {1..2} \<and> dget (po_states p') (FileStore ''f'') = Some (pw_sid w)
   | _ \<Rightarrow> False"
proof -
  have "dget (po_states sample_poller) (FileStore ''f'') = Some 0" "ss_nonce (the_state sample_poller 0) = Some ''a''"
    by (simp_all add: sample_poller_def attach_def dump_on_timeout_def bool_or_def Poller_def put_state_def
        poller_pipe_def the_state_def StoreState_def Let_def or_else_def)
  from restart_serves_all[OF sample_poller_step this, of "''b''" "\<lambda>_. None" 5 False True 2 "\<lambda>_. None" 5 "[]" True True]
  obtain p' w where e: "sample_poll = (p', Some w)" and "set (pw_gens w) = {1..2}"
    "dget (po_states p') (FileStore ''f'') = Some (pw_sid w)"
    unfolding sample_poll_def by auto
  then show ?thesis unfolding e prod.case option.case by simp
qed

lemma poller_pipe_fields:
  "po_groups (poller_pipe env open_fifo rank q) = po_groups q"
  "po_states (poller_pipe env open_fifo rank q) = po_states q"
  by (auto simp: poller_pipe_def Let_def split: option.splits)

lemma attach_fields:
  "po_groups (attach env open_fifo answer grp k store rank p) = dput grp (k, store, rank) (po_groups p)"
  "dget (po_states (attach env open_fifo answer grp k store rank p)) k' \<noteq> None
     \<longleftrightarrow> k' = k \<or> dget (po_states p) k' \<noteq> None"
  by (auto simp: attach_def Let_def poller_pipe_fields split: option.splits)

lemma dput_mem: "(g, v) \<in> set (dput k w d) \<Longrightarrow> v = w \<or> (g, v) \<in> set d"
  by (induction d) (auto split: if_splits)

lemma attached_keys:
  "fr_step p out dlog \<Longrightarrow> (g, key, x) \<in> set (po_groups p) \<Longrightarrow> dget (po_states p) key \<noteq> None"
proof (induction arbitrary: g key x rule: fr_step.induct)
  case start
  then show ?case by (simp add: Poller_def)
next
  case (attaches p out dlog env open_fifo answer grp k store rank)
  then have "key = k \<or> (g, key, x) \<in> set (po_groups p)"
    using dput_mem[of g "(key, x)" grp "(k, store, rank)" "po_groups p"] by (auto simp: attach_fields(1))
  then show ?case unfolding attach_fields(2) using attaches.IH by blast
next
  case (detaches p out dlog grp)
  have sub: "set (dpop grp gs) \<subseteq> set gs" for gs :: "(int, store_id \<times> 'a \<times> int) dict"
    by (induction gs) auto
  from detaches show ?case
    using sub by (fastforce simp: detach_def Let_def list_all_iff split: option.splits if_splits prod.splits)
next
  case (poll_idle p out dlog env now stuck seen k sid p')
  then show ?case
    by (cases x) (auto simp: poll_locked_def Let_def split: option.splits if_splits prod.splits)
next
  case (poll_claims p out dlog env now stuck seen k sid p' w)
  then show ?case
    by (cases x) (auto simp: poll_locked_def poll_restart_def poll_claim_def poll_mark_def Let_def
        split: option.splits if_splits prod.splits)
next
  case (reacks p out dlog w sent)
  then show ?case by (cases x) (auto simp: poll_unacked_def split: if_splits)
next
  case (poll_ends p xs w ys dlog env now dumped acked)
  then show ?case by (cases x) (auto simp: poll_done_def split: if_splits)
next
  case (other_claims p out dlog now k up p' c sid)
  then show ?case by (cases x) (auto simp: fr_claim_gens_def Let_def split: option.splits prod.splits)
next
  case (other_ends p xs sid c ys dlog env now dumped acked p')
  then show ?case by (cases x) (auto simp: fr_finish_def)
qed

text \<open>The monitor keeps polling as long as any group is attached (and dumps on a timeout are on):
  the newest group's store always has a state, whatever groups were attached and detached around it.\<close>

theorem monitor_polls_while_attached:
  assumes "fr_step p out dlog"
  shows "run_target env p \<noteq> None \<longleftrightarrow> po_groups p \<noteq> [] \<and> dump_on_timeout env"
proof (cases "po_groups p = []")
  case True
  then show ?thesis by (simp add: run_target_def newest_value_def)
next
  case False
  then obtain g key s r where l: "last (po_groups p) = (g, key, s, r)" by (metis surj_pair)
  with False have "(g, key, s, r) \<in> set (po_groups p)" by (metis last_in_set)
  from attached_keys[OF assms this] show ?thesis
    using False l by (auto simp: run_target_def newest_value_def split: if_splits)
qed

lemma monitor_polls_while_attached_witness: "run_target (\<lambda>_. None) sample_poller \<noteq> None"
proof -
  have "po_groups sample_poller \<noteq> []"
    by (auto simp: sample_poller_def attach_def dump_on_timeout_def bool_or_def Poller_def put_state_def
        poller_pipe_def Let_def or_else_def)
  then show ?thesis
    unfolding monitor_polls_while_attached[OF sample_poller_step] by (simp add: dump_on_timeout_def bool_or_def)
qed

end
