(* ===== verification/Store_Worker.thy ===== *)
theory Store_Worker
  imports FR_Config
begin

text \<open>
  \<^verbatim>\<open>StoreWorker\<close> (\<^verbatim>\<open>distributed/store_worker.py\<close>): store operations on a thread of their own, each
  bounded by a deadline of the caller. One caller runs jobs one after another; each serving thread
  takes jobs from its queue; a job that overruns leaves its thread abandoned until the operation
  returns. The operations are functions on the shared state (one per atomic section of the code),
  and \<open>worker_step\<close> interleaves the caller with the serving threads. \<open>worker_ok\<close> is the invariant
  behind the count of stuck jobs.
\<close>

subsection \<open>State\<close>

datatype item = Job nat "int option" | Stop

text \<open>What a job leaves in its box: dropped as stale, a value, or the exception.\<close>

datatype 'r outcome = Dropped | Value 'r | Raised

record serving =
  th_queue :: "item list"
  th_current :: "(nat \<times> int option) option"
  th_abandoned :: bool
  th_client :: bool

datatype caller = Idle | Waiting nat nat

record 'r worker =
  w_threads :: "nat \<Rightarrow> serving option"
  w_jobs :: "nat option"
  w_stuck :: int
  w_latest :: int
  w_boxes :: "nat \<Rightarrow> 'r outcome option"
  w_next :: nat
  w_caller :: caller
  w_max :: "int option"

definition StoreWorker :: "int option \<Rightarrow> 'r worker" where
  "StoreWorker max_abandoned =
     \<lparr>w_threads = (\<lambda>_. None), w_jobs = None, w_stuck = 0, w_latest = 0, w_boxes = (\<lambda>_. None),
      w_next = 0, w_caller = Idle, w_max = max_abandoned\<rparr>"

definition upd_thread :: "nat \<Rightarrow> serving \<Rightarrow> 'r worker \<Rightarrow> 'r worker" where
  "upd_thread tid th w = w\<lparr>w_threads := (w_threads w)(tid := Some th)\<rparr>"

subsection \<open>The serving thread\<close>

text \<open>\<open>jobs.get()\<close>: a job is taken, or the sentinel ends the thread.\<close>

definition serve_take :: "nat \<Rightarrow> 'r worker \<Rightarrow> 'r worker" where
  "serve_take tid w =
     (case w_threads w tid of
        Some th \<Rightarrow>
          (case (th_current th, th_queue th) of
             (None, Stop # _) \<Rightarrow> w\<lparr>w_threads := (w_threads w)(tid := None)\<rparr>
           | (None, Job j gen # q) \<Rightarrow> upd_thread tid (th\<lparr>th_queue := q, th_current := Some (j, gen)\<rparr>) w
           | _ \<Rightarrow> w)
      | None \<Rightarrow> w)"

text \<open>
  The end of a job: \<open>result\<close> is what the job returned (\<open>None\<close>: it raised); a stale one is not run.
  Under the lock the box is marked done, and a thread its caller gave up on leaves.
\<close>

definition serve_done :: "nat \<Rightarrow> 'r option \<Rightarrow> 'r worker \<Rightarrow> 'r worker" where
  "serve_done tid result w =
     (case w_threads w tid of
        Some th \<Rightarrow>
          (case th_current th of
             None \<Rightarrow> w
           | Some (j, gen) \<Rightarrow>
               let stale = (case gen of Some g \<Rightarrow> g < w_latest w | None \<Rightarrow> False);
                   out = (if stale then Dropped
                          else case result of Some r \<Rightarrow> Value r | None \<Rightarrow> Raised);
                   client = (if stale then th_client th else result \<noteq> None);
                   w1 = w\<lparr>w_boxes := (w_boxes w)(j \<mapsto> out)\<rparr>
               in if th_abandoned th
                  then w1\<lparr>w_stuck := w_stuck w1 - 1, w_threads := (w_threads w1)(tid := None)\<rparr>
                  else upd_thread tid (th\<lparr>th_current := None, th_client := client\<rparr>) w1)
      | None \<Rightarrow> w)"

subsection \<open>The caller\<close>

definition worker_close :: "'r worker \<Rightarrow> 'r worker" where
  "worker_close w =
     (case w_jobs w of
        None \<Rightarrow> w
      | Some tid \<Rightarrow>
          (case w_threads w tid of
             Some th \<Rightarrow> (upd_thread tid (th\<lparr>th_queue := th_queue th @ [Stop]\<rparr>) w)\<lparr>w_jobs := None\<rparr>
           | None \<Rightarrow> w\<lparr>w_jobs := None\<rparr>))"

text \<open>Whether a new job is refused because too many abandoned ones still block.\<close>

definition run_refused :: "'r worker \<Rightarrow> bool" where
  "run_refused w \<longleftrightarrow> (case w_max w of Some m \<Rightarrow> m \<le> w_stuck w | None \<Rightarrow> False)"

text \<open>
  The first part of \<open>run\<close>: a thread is started when there is none, and the job is queued. The job's
  number is its box.
\<close>

definition run_begin :: "int option \<Rightarrow> 'r worker \<Rightarrow> 'r worker" where
  "run_begin gen w =
     (let w1 = (case w_jobs w of
                  Some _ \<Rightarrow> w
                | None \<Rightarrow>
                    (upd_thread (w_next w)
                       \<lparr>th_queue = [], th_current = None, th_abandoned = False, th_client = False\<rparr> w)
                    \<lparr>w_jobs := Some (w_next w), w_next := Suc (w_next w)\<rparr>);
          j = w_next w1; w2 = w1\<lparr>w_next := Suc j\<rparr>
      in case w_jobs w2 of
           None \<Rightarrow> w2
         | Some tid \<Rightarrow>
             (case w_threads w2 tid of
                Some th \<Rightarrow> (upd_thread tid (th\<lparr>th_queue := th_queue th @ [Job j gen]\<rparr>) w2)
                             \<lparr>w_caller := Waiting tid j\<rparr>
              | None \<Rightarrow> w2\<lparr>w_caller := Waiting tid j\<rparr>))"

text \<open>
  The wait ran out: under the lock the job counts as overrun unless it is done by now. The result
  says whether it overran.
\<close>

definition run_overran :: "'r worker \<Rightarrow> 'r worker \<times> bool" where
  "run_overran w =
     (case w_caller w of
        Idle \<Rightarrow> (w, False)
      | Waiting tid j \<Rightarrow>
          if w_boxes w j \<noteq> None then (w, False)
          else
            let w1 = w\<lparr>w_stuck := w_stuck w + 1\<rparr>;
                w2 = (case w_threads w1 tid of
                        Some th \<Rightarrow> upd_thread tid (th\<lparr>th_abandoned := True\<rparr>) w1
                      | None \<Rightarrow> w1)
            in ((worker_close w2)\<lparr>w_caller := Idle\<rparr>, True))"

text \<open>\<open>box[0]\<close> once the job is done: an exception and a dropped job give \<open>None\<close>.\<close>

definition run_result :: "'r worker \<Rightarrow> ('r worker \<times> 'r option) option" where
  "run_result w =
     (case w_caller w of
        Idle \<Rightarrow> None
      | Waiting tid j \<Rightarrow>
          (case w_boxes w j of
             None \<Rightarrow> None
           | Some out \<Rightarrow> Some (w\<lparr>w_caller := Idle\<rparr>, case out of Value r \<Rightarrow> Some r | _ \<Rightarrow> None)))"

subsection \<open>Interleavings\<close>

text \<open>
  \<open>ran\<close> records, for every job a serving thread ended, its number and what it put in the box;
  \<open>got\<close> what the caller was given for a job that did not overrun.
\<close>

inductive worker_step ::
    "int option \<Rightarrow> 'r worker \<Rightarrow> (nat \<times> 'r option) list \<Rightarrow> bool" for m where
  init: "worker_step m (StoreWorker m) []"
| takes: "worker_step m w got \<Longrightarrow> worker_step m (serve_take tid w) got"
| ends: "worker_step m w got \<Longrightarrow> worker_step m (serve_done tid result w) got"
| begins: "worker_step m w got \<Longrightarrow> w_caller w = Idle \<Longrightarrow> \<not> run_refused w \<Longrightarrow>
    worker_step m (run_begin gen w) got"
| overruns: "worker_step m w got \<Longrightarrow> run_overran w = (w', b) \<Longrightarrow> worker_step m w' got"
| returns: "worker_step m w got \<Longrightarrow> w_caller w = Waiting tid j \<Longrightarrow> run_result w = Some (w', r) \<Longrightarrow>
    worker_step m w' (got @ [(j, r)])"
| closes: "worker_step m w got \<Longrightarrow> w_caller w = Idle \<Longrightarrow> worker_step m (worker_close w) got"
| outdates: "worker_step m w got \<Longrightarrow> w_latest w \<le> g \<Longrightarrow> worker_step m (w\<lparr>w_latest := g\<rparr>) got"

subsection \<open>Invariant\<close>

definition abandoned_threads :: "'r worker \<Rightarrow> nat set" where
  "abandoned_threads w = {t. \<exists>th. w_threads w t = Some th \<and> th_abandoned th}"

text \<open>The job a thread owes, and the two shapes of a thread over what follows in its queue.\<close>

definition idle_with :: "item list \<Rightarrow> serving \<Rightarrow> bool" where
  "idle_with q th \<longleftrightarrow> th_current th = None \<and> th_queue th = q"

definition busy_with :: "nat \<Rightarrow> item list \<Rightarrow> serving \<Rightarrow> bool" where
  "busy_with j q th \<longleftrightarrow>
     (\<exists>g. th_current th = Some (j, g) \<and> th_queue th = q \<or> th_current th = None \<and> th_queue th = Job j g # q)"

lemma busy_unique: "busy_with j q th \<Longrightarrow> busy_with j' q' th \<Longrightarrow> j = j'"
  by (auto simp: busy_with_def)

lemma not_idle_busy: "idle_with [] th \<Longrightarrow> \<not> busy_with j q th" "idle_with [Stop] th \<Longrightarrow> \<not> busy_with j q th"
  by (auto simp: busy_with_def idle_with_def)

text \<open>The thread of the open queue.\<close>

definition open_thread_ok :: "'r worker \<Rightarrow> nat \<Rightarrow> serving \<Rightarrow> bool" where
  "open_thread_ok w t th \<longleftrightarrow> \<not> th_abandoned th \<and>
     (case w_caller w of
        Idle \<Rightarrow> idle_with [] th
      | Waiting t' j \<Rightarrow> t' = t \<and> j < w_next w \<and>
          (if w_boxes w j = None then busy_with j [] th else idle_with [] th))"

text \<open>A thread whose queue was closed: abandoned with the job it still owes, or about to end.\<close>

definition closed_thread_ok :: "'r worker \<Rightarrow> serving \<Rightarrow> bool" where
  "closed_thread_ok w th \<longleftrightarrow>
     (if th_abandoned th then \<exists>j < w_next w. w_boxes w j = None \<and> busy_with j [Stop] th
      else idle_with [Stop] th)"

definition threads_ok :: "'r worker \<Rightarrow> bool" where
  "threads_ok w \<longleftrightarrow>
     finite (dom (w_threads w)) \<and>
     (\<forall>t th. w_threads w t = Some th \<longrightarrow> t < w_next w \<and>
        (if w_jobs w = Some t then open_thread_ok w t th else closed_thread_ok w th)) \<and>
     (\<forall>t th t' th' j q q'. w_threads w t = Some th \<longrightarrow> w_threads w t' = Some th' \<longrightarrow>
        busy_with j q th \<longrightarrow> busy_with j q' th' \<longrightarrow> t = t')"

definition worker_ok :: "'r worker \<Rightarrow> bool" where
  "worker_ok w \<longleftrightarrow>
     threads_ok w \<and>
     w_stuck w = int (card (abandoned_threads w)) \<and>
     (\<forall>j. w_boxes w j \<noteq> None \<longrightarrow> j < w_next w) \<and>
     (\<forall>t. w_jobs w = Some t \<longrightarrow> w_threads w t \<noteq> None) \<and>
     (\<forall>t j. w_caller w = Waiting t j \<longrightarrow> w_jobs w = Some t) \<and>
     (\<forall>m. w_max w = Some m \<longrightarrow> 0 \<le> m \<longrightarrow> w_stuck w + (if w_caller w = Idle then 0 else 1) \<le> m)"

lemma worker_ok_new: "worker_ok (StoreWorker m)"
  by (simp add: worker_ok_def threads_ok_def StoreWorker_def abandoned_threads_def)

lemma worker_okD:
  assumes "worker_ok w"
  shows "finite (dom (w_threads w))"
    "w_threads w t = Some th \<Longrightarrow> t < w_next w"
    "w_threads w t = Some th \<Longrightarrow> w_jobs w = Some t \<Longrightarrow> open_thread_ok w t th"
    "w_threads w t = Some th \<Longrightarrow> w_jobs w \<noteq> Some t \<Longrightarrow> closed_thread_ok w th"
    "w_threads w t = Some th \<Longrightarrow> w_threads w t' = Some th' \<Longrightarrow> busy_with j q th \<Longrightarrow> busy_with j q' th' \<Longrightarrow> t = t'"
    "w_stuck w = int (card (abandoned_threads w))"
    "w_boxes w j \<noteq> None \<Longrightarrow> j < w_next w"
    "w_jobs w = Some t \<Longrightarrow> \<exists>th. w_threads w t = Some th"
    "w_caller w = Waiting t j \<Longrightarrow> w_jobs w = Some t"
    "w_max w = Some k \<Longrightarrow> 0 \<le> k \<Longrightarrow> w_stuck w + (if w_caller w = Idle then 0 else 1) \<le> k"
  using assms unfolding worker_ok_def threads_ok_def by (metis not_None_eq)+

lemma worker_okI:
  assumes "finite (dom (w_threads w))"
    and "\<And>t th. w_threads w t = Some th \<Longrightarrow> t < w_next w"
    and "\<And>t th. w_threads w t = Some th \<Longrightarrow> w_jobs w = Some t \<Longrightarrow> open_thread_ok w t th"
    and "\<And>t th. w_threads w t = Some th \<Longrightarrow> w_jobs w \<noteq> Some t \<Longrightarrow> closed_thread_ok w th"
    and "\<And>t th t' th' j q q'. w_threads w t = Some th \<Longrightarrow> w_threads w t' = Some th' \<Longrightarrow>
       busy_with j q th \<Longrightarrow> busy_with j q' th' \<Longrightarrow> t = t'"
    and "w_stuck w = int (card (abandoned_threads w))"
    and "\<And>j. w_boxes w j \<noteq> None \<Longrightarrow> j < w_next w"
    and "\<And>t. w_jobs w = Some t \<Longrightarrow> \<exists>th. w_threads w t = Some th"
    and "\<And>t j. w_caller w = Waiting t j \<Longrightarrow> w_jobs w = Some t"
    and "\<And>m. w_max w = Some m \<Longrightarrow> 0 \<le> m \<Longrightarrow> w_stuck w + (if w_caller w = Idle then 0 else 1) \<le> m"
  shows "worker_ok w"
  unfolding worker_ok_def threads_ok_def
  by (intro conjI allI impI; (erule conjE)?)
     (use assms in \<open>auto split: if_splits\<close>)

lemma thread_ok_cong:
  assumes "w_caller w' = w_caller w" "w_next w' = w_next w" "w_boxes w' = w_boxes w"
  shows "open_thread_ok w' = open_thread_ok w" "closed_thread_ok w' = closed_thread_ok w"
  by (intro ext; simp add: open_thread_ok_def closed_thread_ok_def assms cong: caller.case_cong)+

lemma abandoned_finite: "worker_ok w \<Longrightarrow> finite (abandoned_threads w)"
  by (rule finite_subset[OF _ worker_okD(1)]) (auto simp: abandoned_threads_def)

text \<open>What the threads that owe a job look like, and that no box is filled for them.\<close>

lemma busy_box_empty:
  assumes "worker_ok w" "w_threads w t = Some th" "busy_with j q th"
  shows "w_boxes w j = None \<and> j < w_next w"
proof (cases "w_jobs w = Some t")
  case True
  then show ?thesis
    using worker_okD(3)[OF assms(1,2) True] assms(3) not_idle_busy busy_unique
    by (fastforce simp: open_thread_ok_def split: caller.splits if_splits)
next
  case False
  then show ?thesis
    using worker_okD(4)[OF assms(1,2) False] assms(3) not_idle_busy busy_unique
    by (fastforce simp: closed_thread_ok_def split: if_splits)
qed

subsection \<open>Every step keeps the invariant\<close>

text \<open>Replacing one thread by another of the same shape.\<close>

lemma upd_thread_fields [simp]:
  "w_jobs (upd_thread t th w) = w_jobs w" "w_stuck (upd_thread t th w) = w_stuck w"
  "w_boxes (upd_thread t th w) = w_boxes w" "w_next (upd_thread t th w) = w_next w"
  "w_caller (upd_thread t th w) = w_caller w" "w_max (upd_thread t th w) = w_max w"
  "w_latest (upd_thread t th w) = w_latest w"
  "w_threads (upd_thread t th w) = (w_threads w)(t := Some th)"
  by (simp_all add: upd_thread_def)

lemma abandoned_upd:
  "abandoned_threads (upd_thread t th w) =
     (if th_abandoned th then insert t (abandoned_threads w) else abandoned_threads w - {t})"
  by (auto simp: abandoned_threads_def)

lemma serve_take_ok:
  assumes "worker_ok w"
  shows "worker_ok (serve_take tid w)"
proof (cases "w_threads w tid")
  case None
  then show ?thesis using assms by (simp add: serve_take_def)
next
  case (Some th)
  show ?thesis
  proof (cases "th_current th = None \<and> th_queue th \<noteq> []")
    case False
    then show ?thesis using assms Some
      by (auto simp: serve_take_def split: option.splits list.splits)
  next
    case True
    then obtain i q where q: "th_queue th = i # q" by (cases "th_queue th") auto
    show ?thesis
    proof (cases i)
      case Stop
      have j: "w_jobs w \<noteq> Some tid"
        using worker_okD(3)[OF assms Some] True q Stop
        by (auto simp: open_thread_ok_def idle_with_def busy_with_def split: caller.splits if_splits)
      with worker_okD(4)[OF assms Some] True q Stop have "\<not> th_abandoned th"
        by (auto simp: closed_thread_ok_def busy_with_def split: if_splits)
      then have ab: "abandoned_threads (w\<lparr>w_threads := (w_threads w)(tid := None)\<rparr>) = abandoned_threads w"
        using Some by (auto simp: abandoned_threads_def)
      let ?w = "w\<lparr>w_threads := (w_threads w)(tid := None)\<rparr>"
      have cong: "open_thread_ok ?w = open_thread_ok w" "closed_thread_ok ?w = closed_thread_ok w"
        by (rule thread_ok_cong; simp)+
      have "worker_ok ?w"
        by (rule worker_okI) (use worker_okD[OF assms] j ab cong in \<open>auto split: if_splits\<close>)
      then show ?thesis using Some True q Stop by (simp add: serve_take_def)
    next
      case (Job j g)
      let ?th = "th\<lparr>th_queue := q, th_current := Some (j, g)\<rparr>"
      have busy: "busy_with k r ?th \<longleftrightarrow> busy_with k r th" for k r
        using True q Job by (auto simp: busy_with_def)
      have notidle: "\<not> idle_with r th \<and> \<not> idle_with r ?th" if "r = [] \<or> r = [Stop]" for r
        using True q Job that by (auto simp: idle_with_def)
      have ab: "abandoned_threads (upd_thread tid ?th w) = abandoned_threads w"
        using Some by (auto simp: abandoned_threads_def split: if_splits)
      have op: "open_thread_ok (upd_thread tid ?th w) t x = open_thread_ok w t x"
        "closed_thread_ok (upd_thread tid ?th w) x = closed_thread_ok w x"
        "open_thread_ok w tid ?th = open_thread_ok w tid th" "closed_thread_ok w ?th = closed_thread_ok w th"
        for t x using busy notidle by (auto simp: open_thread_ok_def closed_thread_ok_def split: caller.splits)
      have "worker_ok (upd_thread tid ?th w)"
        by (rule worker_okI)
           (use worker_okD[OF assms] Some ab op busy in \<open>auto split: if_splits\<close>)
      then show ?thesis using Some True q Job by (simp add: serve_take_def)
    qed
  qed
qed


text \<open>Filling the box of a job one thread owes leaves every other thread as it was.\<close>

lemma box_other_threads:
  assumes "worker_ok w" "w_threads w tid = Some th" "busy_with j q th"
    and w': "w_caller w' = w_caller w" "w_next w' = w_next w" "w_boxes w' = (w_boxes w)(j \<mapsto> out)"
    and t: "w_threads w t = Some x" "t \<noteq> tid"
  shows "w_jobs w = Some t \<Longrightarrow> open_thread_ok w' t x" "w_jobs w \<noteq> Some t \<Longrightarrow> closed_thread_ok w' x"
proof -
  have other: "\<not> busy_with j r x" for r
    using worker_okD(5)[OF assms(1) t(1) assms(2) _ assms(3)] t(2) by blast
  have none: "w_boxes w j = None" using busy_box_empty[OF assms(1-3)] by simp
  show "open_thread_ok w' t x" if "w_jobs w = Some t"
    using worker_okD(3)[OF assms(1) t(1) that] other none
    by (auto simp: open_thread_ok_def w' split: caller.splits if_splits)
  show "closed_thread_ok w' x" if "w_jobs w \<noteq> Some t"
    using worker_okD(4)[OF assms(1) t(1) that] other none
    by (simp add: closed_thread_ok_def w' split: if_splits) metis
qed

lemma serve_done_ok:
  assumes ok: "worker_ok w"
  shows "worker_ok (serve_done tid result w)"
proof (cases "\<exists>th j g. w_threads w tid = Some th \<and> th_current th = Some (j, g)")
  case False
  then show ?thesis using ok by (auto simp: serve_done_def split: option.splits)
next
  case True
  then obtain th j g where th: "w_threads w tid = Some th" and cur: "th_current th = Some (j, g)" by blast
  then have busy: "busy_with j (th_queue th) th" by (simp add: busy_with_def)
  note none = busy_box_empty[OF ok th busy]
  define out where "out = (if (case g of Some g \<Rightarrow> g < w_latest w | None \<Rightarrow> False) then Dropped
    else case result of Some r \<Rightarrow> Value r | None \<Rightarrow> Raised)"
  define w1 where "w1 = w\<lparr>w_boxes := (w_boxes w)(j \<mapsto> out)\<rparr>"
  show ?thesis
  proof (cases "th_abandoned th")
    case True
    define w2 where "w2 = w1\<lparr>w_stuck := w_stuck w1 - 1, w_threads := (w_threads w1)(tid := None)\<rparr>"
    have closed: "w_jobs w \<noteq> Some tid"
      using worker_okD(3)[OF ok th] True by (auto simp: open_thread_ok_def)
    have ab: "abandoned_threads w2 = abandoned_threads w - {tid}"
      by (auto simp: abandoned_threads_def w2_def w1_def)
    have inab: "tid \<in> abandoned_threads w" using th True by (simp add: abandoned_threads_def)
    have card: "w_stuck w2 = int (card (abandoned_threads w2))"
      using worker_okD(6)[OF ok] abandoned_finite[OF ok] inab card_gt_0_iff[of "abandoned_threads w"]
      unfolding ab by (auto simp: w2_def w1_def card_Diff_singleton of_nat_diff)
    have others: "w_threads w2 t = Some x \<Longrightarrow>
        (w_jobs w = Some t \<longrightarrow> open_thread_ok w2 t x) \<and> (w_jobs w \<noteq> Some t \<longrightarrow> closed_thread_ok w2 x)" for t x
      using box_other_threads[OF ok th busy, of w2 out t x]
      by (auto simp: w2_def w1_def split: if_splits)
    have f: "w_jobs w2 = w_jobs w" "w_threads w2 = (w_threads w)(tid := None)" "w_max w2 = w_max w"
      "w_boxes w2 = (w_boxes w)(j \<mapsto> out)" "w_next w2 = w_next w" "w_caller w2 = w_caller w"
      by (simp_all add: w2_def w1_def)
    have less: "w_stuck w2 \<le> w_stuck w" by (simp add: w2_def w1_def)
    have "worker_ok w2"
    proof (rule worker_okI, goal_cases)
      case (10 k)
      then show ?case using worker_okD(10)[OF ok, of k] less by (auto simp: f)
    qed (use worker_okD(1,2,5,7,8,9)[OF ok] others card closed none in \<open>auto simp: f split: if_splits\<close>)
    moreover have "serve_done tid result w = w2"
      using th cur True by (simp add: serve_done_def w2_def w1_def out_def Let_def)
    ultimately show ?thesis by simp
  next
    case False
    have jobs: "w_jobs w = Some tid"
      using worker_okD(4)[OF ok th] False cur by (auto simp: closed_thread_ok_def idle_with_def)
    from worker_okD(3)[OF ok th jobs] cur have call: "w_caller w = Waiting tid j" and q: "th_queue th = []"
      by (auto simp: open_thread_ok_def idle_with_def busy_with_def split: caller.splits if_splits)
    define th' where "th' = th\<lparr>th_current := None,
      th_client := (if (case g of Some g \<Rightarrow> g < w_latest w | None \<Rightarrow> False) then th_client th else result \<noteq> None)\<rparr>"
    define w2 where "w2 = upd_thread tid th' w1"
    have idle: "idle_with [] th'" "\<not> th_abandoned th'"
      using q False by (simp_all add: th'_def idle_with_def)
    have ab: "abandoned_threads w2 = abandoned_threads w"
      using th False by (auto simp: w2_def w1_def th'_def abandoned_threads_def split: if_splits)
    have others: "t \<noteq> tid \<Longrightarrow> w_threads w t = Some x \<Longrightarrow>
        (w_jobs w = Some t \<longrightarrow> open_thread_ok w2 t x) \<and> (w_jobs w \<noteq> Some t \<longrightarrow> closed_thread_ok w2 x)" for t x
      using box_other_threads[OF ok th busy, of w2 out t x] by (auto simp: w2_def w1_def)
    have mine: "open_thread_ok w2 tid th'"
      using idle none call by (simp add: open_thread_ok_def w2_def w1_def)
    have f: "w_jobs w2 = w_jobs w" "w_threads w2 = (w_threads w)(tid := Some th')" "w_max w2 = w_max w"
      "w_boxes w2 = (w_boxes w)(j \<mapsto> out)" "w_next w2 = w_next w" "w_caller w2 = w_caller w"
      "w_stuck w2 = w_stuck w"
      by (simp_all add: w2_def w1_def)
    note nb = not_idle_busy(1)[OF idle(1)]
    have "worker_ok w2"
    proof (rule worker_okI, goal_cases)
      case (2 t x)
      then show ?case using worker_okD(2)[OF ok] th by (auto simp: f split: if_splits)
    next
      case (3 t x)
      then show ?case using others mine by (auto simp: f split: if_splits)
    next
      case (4 t x)
      then show ?case using others[of t x] jobs by (auto simp: f split: if_splits)
    next
      case (5 t x t' x' k q q')
      then show ?case using worker_okD(5)[OF ok] nb by (auto simp: f split: if_splits)
    next
      case (7 k)
      then show ?case using worker_okD(7)[OF ok, of k] none by (auto simp: f split: if_splits)
    qed (use worker_okD(1,6,8,9,10)[OF ok] ab in \<open>auto simp: f\<close>)
    moreover have "serve_done tid result w = w2"
      using th cur False by (simp add: serve_done_def w2_def w1_def out_def th'_def Let_def)
    ultimately show ?thesis by simp
  qed
qed


lemma worker_close_ok:
  assumes ok: "worker_ok w" and idle: "w_caller w = Idle"
  shows "worker_ok (worker_close w)"
proof (cases "w_jobs w")
  case None
  then show ?thesis using ok by (simp add: worker_close_def)
next
  case (Some tid)
  from worker_okD(8)[OF ok Some] obtain th where th: "w_threads w tid = Some th" by blast
  from worker_okD(3)[OF ok th Some] idle have i: "\<not> th_abandoned th" "idle_with [] th"
    by (auto simp: open_thread_ok_def)
  define th' where "th' = th\<lparr>th_queue := th_queue th @ [Stop]\<rparr>"
  define w2 where "w2 = (upd_thread tid th' w)\<lparr>w_jobs := None\<rparr>"
  have i': "\<not> th_abandoned th'" "idle_with [Stop] th'" using i by (simp_all add: th'_def idle_with_def)
  have f: "w_jobs w2 = None" "w_threads w2 = (w_threads w)(tid := Some th')" "w_max w2 = w_max w"
    "w_boxes w2 = w_boxes w" "w_next w2 = w_next w" "w_caller w2 = Idle" "w_stuck w2 = w_stuck w"
    using idle by (simp_all add: w2_def)
  have ab: "abandoned_threads w2 = abandoned_threads w"
    using th i i' by (auto simp: abandoned_threads_def f split: if_splits)
  have cl: "closed_thread_ok w2 = closed_thread_ok w"
    by (intro ext) (simp add: closed_thread_ok_def f)
  have "worker_ok w2"
  proof (rule worker_okI, goal_cases)
    case (2 t x)
    then show ?case using worker_okD(2)[OF ok] th by (auto simp: f split: if_splits)
  next
    case (4 t x)
    then show ?case using worker_okD(4)[OF ok, of t x] Some i' by (auto simp: f cl closed_thread_ok_def split: if_splits)
  next
    case (5 t x t' x' k q q')
    then show ?case using worker_okD(5)[OF ok] not_idle_busy(2)[OF i'(2)] by (auto simp: f split: if_splits)
  next
    case (10 m)
    then show ?case using worker_okD(10)[OF ok, of m] idle by (auto simp: f)
  qed (use worker_okD(1,6,7)[OF ok] ab in \<open>auto simp: f\<close>)
  then show ?thesis using th Some by (simp add: worker_close_def w2_def th'_def)
qed

text \<open>A fresh thread is opened when there is none.\<close>

definition open_jobs :: "'r worker \<Rightarrow> 'r worker" where
  "open_jobs w =
     (case w_jobs w of
        Some _ \<Rightarrow> w
      | None \<Rightarrow>
          (upd_thread (w_next w)
             \<lparr>th_queue = [], th_current = None, th_abandoned = False, th_client = False\<rparr> w)
          \<lparr>w_jobs := Some (w_next w), w_next := Suc (w_next w)\<rparr>)"

lemma open_jobs_ok:
  assumes ok: "worker_ok w" and idle: "w_caller w = Idle"
  shows "worker_ok (open_jobs w)" "w_caller (open_jobs w) = Idle" "w_jobs (open_jobs w) \<noteq> None"
    "w_stuck (open_jobs w) = w_stuck w" "w_max (open_jobs w) = w_max w"
proof -
  show "w_caller (open_jobs w) = Idle" "w_jobs (open_jobs w) \<noteq> None"
    "w_stuck (open_jobs w) = w_stuck w" "w_max (open_jobs w) = w_max w"
    using idle by (auto simp: open_jobs_def split: option.splits)
  show "worker_ok (open_jobs w)"
  proof (cases "w_jobs w")
    case None
    define th where "th = \<lparr>th_queue = [], th_current = None, th_abandoned = False, th_client = False\<rparr>"
    define w2 where "w2 = (upd_thread (w_next w) th w)\<lparr>w_jobs := Some (w_next w), w_next := Suc (w_next w)\<rparr>"
    have i: "idle_with [] th" "\<not> th_abandoned th" by (simp_all add: th_def idle_with_def)
    have f: "w_jobs w2 = Some (w_next w)" "w_threads w2 = (w_threads w)(w_next w := Some th)"
      "w_max w2 = w_max w" "w_boxes w2 = w_boxes w" "w_next w2 = Suc (w_next w)" "w_caller w2 = Idle"
      "w_stuck w2 = w_stuck w"
      using idle by (simp_all add: w2_def)
    have new: "w_threads w (w_next w) = None"
      using worker_okD(2)[OF ok, of "w_next w"] by (cases "w_threads w (w_next w)") auto
    have ab: "abandoned_threads w2 = abandoned_threads w"
      using new i by (auto simp: abandoned_threads_def f split: if_splits)
    have "worker_ok w2"
    proof (rule worker_okI, goal_cases)
      case (2 t x)
      then show ?case using worker_okD(2)[OF ok, of t x] by (auto simp: f split: if_splits)
    next
      case (4 t x)
      then have "closed_thread_ok w x" using worker_okD(4)[OF ok, of t x] None by (auto simp: f split: if_splits)
      then show ?case by (auto simp: closed_thread_ok_def f less_Suc_eq split: if_splits)
    next
      case (5 t x t' x' k q q')
      then show ?case using worker_okD(5)[OF ok] not_idle_busy(1)[OF i(1)] by (auto simp: f split: if_splits)
    next
      case (7 j)
      then show ?case using worker_okD(7)[OF ok, of j] by (auto simp: f)
    next
      case (10 m)
      then show ?case using worker_okD(10)[OF ok, of m] idle by (auto simp: f)
    qed (use worker_okD(1,6)[OF ok] ab i in \<open>auto simp: f open_thread_ok_def\<close>)
    then show ?thesis using None by (simp add: open_jobs_def w2_def th_def)
  qed (simp add: open_jobs_def ok)
qed

lemma run_begin_ok:
  assumes ok: "worker_ok w" and idle: "w_caller w = Idle" and room: "\<not> run_refused w"
  shows "worker_ok (run_begin gen w)"
proof -
  define v where "v = open_jobs w"
  note o = open_jobs_ok[OF ok idle, folded v_def]
  from o(3) obtain tid where jobs: "w_jobs v = Some tid" by blast
  from worker_okD(8)[OF o(1) jobs] obtain th where th: "w_threads v tid = Some th" by blast
  from worker_okD(3)[OF o(1) th jobs] o(2) have i: "\<not> th_abandoned th" "idle_with [] th"
    by (auto simp: open_thread_ok_def)
  define j where "j = w_next v"
  define th' where "th' = th\<lparr>th_queue := th_queue th @ [Job j gen]\<rparr>"
  define w2 where "w2 = (upd_thread tid th' (v\<lparr>w_next := Suc j\<rparr>))\<lparr>w_caller := Waiting tid j\<rparr>"
  have b: "busy_with k q th' \<longleftrightarrow> k = j \<and> q = []" "\<not> th_abandoned th'" for k q
    using i by (auto simp: th'_def idle_with_def busy_with_def)
  have f: "w_jobs w2 = Some tid" "w_threads w2 = (w_threads v)(tid := Some th')" "w_max w2 = w_max v"
    "w_boxes w2 = w_boxes v" "w_next w2 = Suc j" "w_caller w2 = Waiting tid j" "w_stuck w2 = w_stuck v"
    using jobs by (simp_all add: w2_def)
  have box: "w_boxes v j = None"
    using worker_okD(7)[OF o(1), of j] by (cases "w_boxes v j") (auto simp: j_def)
  have ab: "abandoned_threads w2 = abandoned_threads v"
    using th i b by (auto simp: abandoned_threads_def f split: if_splits)
  have new: "\<not> busy_with j q x" if "w_threads v t = Some x" for t x q
    using busy_box_empty[OF o(1) that, of j q] by (auto simp: j_def)
  have "worker_ok w2"
  proof (rule worker_okI, goal_cases)
    case (2 t x)
    then show ?case using worker_okD(2)[OF o(1), of t] th by (fastforce simp: f j_def split: if_splits)
  next
    case (3 t x)
    then show ?case using b box by (auto simp: f open_thread_ok_def)
  next
    case (4 t x)
    then have "closed_thread_ok v x" using worker_okD(4)[OF o(1), of t x] jobs by (auto simp: f split: if_splits)
    then show ?case by (auto simp: closed_thread_ok_def f j_def less_Suc_eq split: if_splits)
  next
    case (5 t x t' x' k q q')
    then show ?case using worker_okD(5)[OF o(1)] b new by (auto simp: f split: if_splits)
  next
    case (7 k)
    then show ?case using worker_okD(7)[OF o(1), of k] by (auto simp: f j_def)
  next
    case (10 m)
    then have "\<not> m \<le> w_stuck w" using room o(5) by (auto simp: run_refused_def f)
    then show ?case using o(4) by (simp add: f)
  qed (use worker_okD(1,6)[OF o(1)] ab in \<open>auto simp: f\<close>)
  moreover have "run_begin gen w = w2"
    using jobs th unfolding run_begin_def open_jobs_def[symmetric] v_def[symmetric] Let_def
    by (simp add: w2_def th'_def j_def)
  ultimately show ?thesis by simp
qed

lemma run_overran_ok:
  assumes ok: "worker_ok w" and r: "run_overran w = (w', b)"
  shows "worker_ok w'"
proof (cases "\<exists>tid j. w_caller w = Waiting tid j \<and> w_boxes w j = None")
  case False
  then show ?thesis using ok r by (auto simp: run_overran_def split: caller.splits)
next
  case True
  then obtain tid j where call: "w_caller w = Waiting tid j" and box: "w_boxes w j = None" by blast
  have jobs: "w_jobs w = Some tid" using worker_okD(9)[OF ok call] .
  from worker_okD(8)[OF ok jobs] obtain th where th: "w_threads w tid = Some th" by blast
  from worker_okD(3)[OF ok th jobs] call box have i: "\<not> th_abandoned th" "busy_with j [] th" "j < w_next w"
    by (auto simp: open_thread_ok_def)
  define th' where "th' = th\<lparr>th_abandoned := True, th_queue := th_queue th @ [Stop]\<rparr>"
  define w2 where "w2 = (upd_thread tid th' (w\<lparr>w_stuck := w_stuck w + 1\<rparr>))\<lparr>w_jobs := None, w_caller := Idle\<rparr>"
  have b: "busy_with j [Stop] th'" "th_abandoned th'" using i by (auto simp: th'_def busy_with_def)
  have f: "w_jobs w2 = None" "w_threads w2 = (w_threads w)(tid := Some th')" "w_max w2 = w_max w"
    "w_boxes w2 = w_boxes w" "w_next w2 = w_next w" "w_caller w2 = Idle" "w_stuck w2 = w_stuck w + 1"
    by (simp_all add: w2_def)
  have ab: "abandoned_threads w2 = insert tid (abandoned_threads w)" "tid \<notin> abandoned_threads w"
    using th i b by (auto simp: abandoned_threads_def f)
  have cl: "closed_thread_ok w2 = closed_thread_ok w"
    by (intro ext) (simp add: closed_thread_ok_def f)
  have "worker_ok w2"
  proof (rule worker_okI, goal_cases)
    case (2 t x)
    then show ?case using worker_okD(2)[OF ok] th by (auto simp: f split: if_splits)
  next
    case (4 t x)
    then show ?case
      using worker_okD(4)[OF ok, of t x] jobs b i(3) box
      by (auto simp: f cl closed_thread_ok_def split: if_splits)
  next
    case (5 t x t' x' k q q')
    have "busy_with k r th' \<Longrightarrow> k = j" for k r using b(1) busy_unique by blast
    then show ?case using 5 worker_okD(5)[OF ok _ th, of _ _ j] worker_okD(5)[OF ok] i(2)
      by (auto simp: f split: if_splits)
  next
    case 6
    show ?case using worker_okD(6)[OF ok] abandoned_finite[OF ok] ab by (simp add: f)
  next
    case (10 m)
    then show ?case using worker_okD(10)[OF ok, of m] call by (auto simp: f)
  qed (use worker_okD(1,7)[OF ok] in \<open>auto simp: f\<close>)
  moreover have "w' = w2"
    using r call box jobs th
    by (auto simp: run_overran_def worker_close_def w2_def th'_def upd_thread_def Let_def)
  ultimately show ?thesis by simp
qed

lemma run_result_ok:
  assumes ok: "worker_ok w" and r: "run_result w = Some (w', x)"
  shows "worker_ok w'"
proof -
  from r obtain tid j out where call: "w_caller w = Waiting tid j" and box: "w_boxes w j = Some out"
    and w': "w' = w\<lparr>w_caller := Idle\<rparr>"
    by (auto simp: run_result_def split: caller.splits option.splits)
  have f: "w_jobs w' = w_jobs w" "w_threads w' = w_threads w" "w_max w' = w_max w"
    "w_boxes w' = w_boxes w" "w_next w' = w_next w" "w_caller w' = Idle" "w_stuck w' = w_stuck w"
    by (simp_all add: w')
  have ab: "abandoned_threads w' = abandoned_threads w" by (simp add: abandoned_threads_def f)
  have cl: "closed_thread_ok w' = closed_thread_ok w"
    by (intro ext) (simp add: closed_thread_ok_def f)
  show ?thesis
  proof (rule worker_okI, goal_cases)
    case (3 t th)
    then show ?case
      using worker_okD(3)[OF ok, of t th] call box by (auto simp: open_thread_ok_def f)
  next
    case (10 m)
    then show ?case using worker_okD(10)[OF ok, of m] call by (auto simp: f)
  qed (use worker_okD(1,2,4,5,6,7,8)[OF ok] ab cl in \<open>auto simp: f\<close>)
qed

lemma worker_latest_ok:
  assumes ok: "worker_ok w"
  shows "worker_ok (w\<lparr>w_latest := g\<rparr>)"
proof -
  let ?w = "w\<lparr>w_latest := g\<rparr>"
  have cong: "open_thread_ok ?w = open_thread_ok w" "closed_thread_ok ?w = closed_thread_ok w"
    by (rule thread_ok_cong; simp)+
  have ab: "abandoned_threads ?w = abandoned_threads w" by (simp add: abandoned_threads_def)
  show ?thesis
    by (rule worker_okI) (use worker_okD[OF ok] cong ab in \<open>auto split: if_splits\<close>)
qed

lemma worker_step_ok: "worker_step m w got \<Longrightarrow> worker_ok w"
  by (induction rule: worker_step.induct)
     (auto intro: worker_ok_new serve_take_ok serve_done_ok run_begin_ok run_overran_ok run_result_ok
        worker_close_ok worker_latest_ok)


subsection \<open>What the caller is given\<close>

definition outcome_value :: "'r outcome \<Rightarrow> 'r option" where
  "outcome_value out = (case out of Value r \<Rightarrow> Some r | _ \<Rightarrow> None)"

text \<open>A box, once filled, is never written again.\<close>

lemma serve_done_box:
  assumes "worker_ok w" "w_boxes w j = Some out"
  shows "w_boxes (serve_done tid result w) j = Some out"
proof (cases "\<exists>th k g. w_threads w tid = Some th \<and> th_current th = Some (k, g)")
  case False
  then show ?thesis using assms by (auto simp: serve_done_def split: option.splits)
next
  case True
  then obtain th k g where th: "w_threads w tid = Some th" and cur: "th_current th = Some (k, g)" by blast
  then have "busy_with k (th_queue th) th" by (simp add: busy_with_def)
  from busy_box_empty[OF assms(1) th this] assms(2) have "k \<noteq> j" by auto
  then show ?thesis using assms(2) th cur by (auto simp: serve_done_def Let_def)
qed

lemma other_steps_boxes:
  "w_boxes (serve_take tid w) = w_boxes w" "w_boxes (run_begin gen w) = w_boxes w"
  "w_boxes (worker_close w) = w_boxes w" "run_overran w = (w', b) \<Longrightarrow> w_boxes w' = w_boxes w"
  "run_result w = Some (w', r) \<Longrightarrow> w_boxes w' = w_boxes w"
  by (auto simp: serve_take_def run_begin_def worker_close_def run_overran_def run_result_def Let_def
      split: option.splits list.splits item.splits caller.splits if_splits)

lemma worker_got:
  "worker_step m w got \<Longrightarrow> \<forall>(j, r) \<in> set got. \<exists>out. w_boxes w j = Some out \<and> r = outcome_value out"
proof (induction rule: worker_step.induct)
  case (ends w got tid result)
  then show ?case using serve_done_box[OF worker_step_ok[OF ends.hyps]] by fastforce
next
  case (returns w got tid j w' r)
  then obtain out where "w_boxes w j = Some out" "r = outcome_value out" "w_boxes w' = w_boxes w"
    by (auto simp: run_result_def outcome_value_def split: caller.splits option.splits)
  with returns.IH show ?case by auto
qed (auto simp: other_steps_boxes)

lemma worker_max: "worker_step m w got \<Longrightarrow> w_max w = m"
proof (induction rule: worker_step.induct)
  case init
  show ?case by (simp add: StoreWorker_def)
qed (auto simp: serve_take_def serve_done_def run_begin_def worker_close_def run_overran_def run_result_def Let_def
      split: option.splits list.splits item.splits caller.splits if_splits)

subsection \<open>Properties\<close>

text \<open>C4: The stuck counter tells the truth. However the caller, the serving threads and the deadlines
  interleave, the counter is exactly the number of threads abandoned with an operation still
  running, and when the worker was given a limit it never exceeds it, so a server that answers
  nothing costs at most that many threads.\<close>

theorem stuck_counts_abandoned:
  assumes "worker_step (Some k) w got" "0 \<le> k"
  shows "w_stuck w = int (card (abandoned_threads w)) \<and> w_stuck w \<le> k"
  using worker_okD(6,10)[OF worker_step_ok[OF assms(1)]] worker_max[OF assms(1)] assms(2)
  by (smt (verit))

definition sample_worker :: "nat worker" where
  "sample_worker = serve_take 0 (run_begin None (StoreWorker (Some 1)))"

lemma sample_worker_steps: "worker_step (Some 1) sample_worker []"
  unfolding sample_worker_def
  by (rule worker_step.takes, rule worker_step.begins[OF worker_step.init])
     (simp_all add: StoreWorker_def run_refused_def)

lemma stuck_counts_abandoned_witness:
  "snd (run_overran sample_worker) \<and> w_stuck (fst (run_overran sample_worker)) = 1
   \<and> int (card (abandoned_threads (fst (run_overran sample_worker)))) = 1"
proof -
  have s: "worker_step (Some 1) (fst (run_overran sample_worker)) []"
    using worker_step.overruns[OF sample_worker_steps, of "fst (run_overran sample_worker)" "snd (run_overran sample_worker)"]
    by simp
  have "snd (run_overran sample_worker)" "w_stuck (fst (run_overran sample_worker)) = 1" by code_simp+
  with stuck_counts_abandoned[OF s] show ?thesis by simp
qed



end
