(* ===== verification/Ptxas.thy ===== *)
theory Ptxas
  imports Py_Text "HOL-Library.Product_Lexorder"
begin

text \<open>
  The choice of the PTX assembler (\<^verbatim>\<open>_ptxas.py\<close>): the compatibility tables, discovery, the
  rejection rules, \<open>choose\<close>, the installation advice, the report, and the two moments that act on
  the choice (\<open>apply_default\<close> at import, \<open>_check_now\<close> at registration). What the machine answers
  (files, subprocess output, driver calls) is the record \<open>machine\<close>, a parameter.
\<close>

type_synonym version = "int \<times> int \<times> int"

definition ENV_VAR :: string where "ENV_VAR = ''MODULAR_NVPTX_COMPILER_PATH''"
definition TRITON_ENV_VAR :: string where "TRITON_ENV_VAR = ''TRITON_PTXAS_PATH''"
definition CHECK_ENV_VAR :: string where "CHECK_ENV_VAR = ''TORCH_MOJO_BACKEND_PTXAS_CHECK''"
definition AUTO_ENV_VAR :: string where "AUTO_ENV_VAR = ''TORCH_MOJO_BACKEND_PTXAS_AUTO''"

definition BUILTIN_SOURCE :: string where "BUILTIN_SOURCE = ''MAX built-in libnvptxcompiler''"
definition BUILTIN_MARK :: string where "BUILTIN_MARK = ''<max built-in>''"

lemmas name_simps = ENV_VAR_def TRITON_ENV_VAR_def CHECK_ENV_VAR_def AUTO_ENV_VAR_def
  BUILTIN_SOURCE_def BUILTIN_MARK_def

subsection \<open>Tables\<close>

definition WHEELS :: "(int, string \<times> string) dict" where
  "WHEELS = [(11, (''nvidia-cuda-nvcc-cu11'', ''11.8.*'')),
             (12, (''nvidia-cuda-nvcc-cu12'', ''12.8.*'')),
             (13, (''nvidia-cuda-nvcc'', ''13.0.*''))]"

definition PINNED_WHEEL :: "string \<times> string" where
  "PINNED_WHEEL = the (dget WHEELS 12)"

definition MIN_DRIVER :: "(int, string) dict" where
  "MIN_DRIVER = [(11, ''r450''), (12, ''r525''), (13, ''r580'')]"

definition ARCH_MIN_CUDA :: "(int, int \<times> int) dict" where
  "ARCH_MIN_CUDA =
     [(50, (6, 0)), (52, (6, 5)), (53, (7, 0)), (60, (8, 0)), (61, (8, 0)), (62, (8, 0)),
      (70, (9, 0)), (72, (9, 1)), (75, (10, 0)), (80, (11, 0)), (86, (11, 1)), (87, (11, 4)),
      (88, (13, 0)), (89, (11, 8)), (90, (12, 0)), (100, (12, 8)), (101, (12, 8)), (103, (12, 9)),
      (110, (13, 0)), (120, (12, 8)), (121, (12, 9))]"

definition ARCH_LAST_MAJOR :: "(int, int) dict" where
  "ARCH_LAST_MAJOR = map (\<lambda>a. (a, 12)) [50, 52, 53, 60, 61, 62, 70, 72, 101]"

definition ARCH_A_VARIANT :: "int set" where
  "ARCH_A_VARIANT = {90, 100, 101, 103, 110, 120, 121}"

definition target_name :: "int \<Rightarrow> string" where
  "target_name arch =
     (if arch \<in> ARCH_A_VARIANT then ''sm_'' @ int_text arch @ ''a'' else ''sm_'' @ int_text arch)"

subsection \<open>The machine\<close>

text \<open>
  What the process asks of its surroundings. \<open>ma_path\<close> is \<open>str(Path(s))\<close>, \<open>ma_resolve\<close> is
  \<open>Path.resolve\<close> (\<open>None\<close>: \<open>OSError\<close>); \<open>ma_version_out\<close> and \<open>ma_help_out\<close> are the output of a
  ptxas (\<open>None\<close>: it could not be run). The \<open>*_locations\<close> are the search locations of a package
  (\<open>None\<close>: no such package), \<open>ma_nvidia\<close> the layouts found under each location of \<open>nvidia\<close>,
  \<open>ma_usr_local\<close> the toolkits under \<^verbatim>\<open>/usr/local\<close>. \<open>ma_max_lib\<close> is the library path of the
  \<^verbatim>\<open>max-core\<close> distribution, \<open>ma_nvptx\<close> the answer of its version query (return code, major, minor).
  \<open>ma_driver\<close> is the number \<^verbatim>\<open>cuDriverGetVersion\<close> gives; \<open>ma_gpus\<close> has one entry per device, \<open>None\<close>
  where a query failed, and is \<open>None\<close> itself where the driver could not be initialised.
\<close>

record ptxas =
  px_id :: nat
  px_path :: string
  px_source :: string
  px_version :: "version option"

record machine =
  ma_path :: "string \<Rightarrow> string"
  ma_is_file :: "string \<Rightarrow> bool"
  ma_resolve :: "string \<Rightarrow> string option"
  ma_version_out :: "string \<Rightarrow> string option"
  ma_help_out :: "string \<Rightarrow> string option"
  ma_nvidia :: "(string \<times> string list) list"
  ma_wheel_locations :: "string list option"
  ma_torch_locations :: "string list option"
  ma_triton_locations :: "string list option"
  ma_which :: "string option"
  ma_usr_local :: "string list"
  ma_max_locations :: "string list option"
  ma_max_lib :: "string option"
  ma_nvptx :: "string \<Rightarrow> (int \<times> int \<times> int) option"
  ma_driver :: "int option"
  ma_release :: "string option"
  ma_gpus :: "(int \<times> int \<times> string) option list option"

definition is_builtin :: "ptxas \<Rightarrow> bool" where
  "is_builtin p \<longleftrightarrow> px_source p = BUILTIN_SOURCE"

definition release :: "machine \<Rightarrow> ptxas \<Rightarrow> string" where
  "release m p =
     (case px_version p of
        None \<Rightarrow>
          if is_builtin p then ''CUDA version unknown (last-resort fallback)''
          else if \<not> ma_is_file m (px_path p) then ''no such file'' else ''--version failed''
      | Some (major, minor, _) \<Rightarrow> ''CUDA '' @ int_text major @ ''.'' @ int_text minor)"

definition label :: "ptxas \<Rightarrow> string" where
  "label p = (if is_builtin p then ''MAX'' @ [char_of (39 :: nat)] @ ''s built-in assembler'' else px_path p)"

definition mark :: "ptxas \<Rightarrow> string" where
  "mark p = (if is_builtin p then BUILTIN_MARK else px_path p)"

definition table_arches :: "version \<Rightarrow> string set" where
  "table_arches v =
     (case v of (major, minor, _) \<Rightarrow>
        set (map (\<lambda>(arch, first). target_name arch)
          (filter (\<lambda>(arch, first). first \<le> (major, minor) \<and> major \<le> or_else (dget ARCH_LAST_MAJOR arch) 99)
             ARCH_MIN_CUDA)))"

subsection \<open>Asking a ptxas\<close>

definition is_digit :: "char \<Rightarrow> bool" where
  "is_digit c \<longleftrightarrow> digit_value c \<noteq> None"

text \<open>A run of digits at the front: its value and the rest; \<open>None\<close> when there is none.\<close>

definition digits_run :: "string \<Rightarrow> (int \<times> string) option" where
  "digits_run s =
     (let ds = takeWhile is_digit s
      in if ds = [] then None else Some (or_else (int_of_text ds) 0, dropWhile is_digit s))"

definition expect :: "char \<Rightarrow> string \<Rightarrow> string option" where
  "expect c s = (case s of x # xs \<Rightarrow> if x = c then Some xs else None | [] \<Rightarrow> None)"

text \<open>\<open>V(\d+)\.(\d+)\.(\d+)\<close> at the front of a text, and its first occurrence.\<close>

definition match_version :: "string \<Rightarrow> version option" where
  "match_version s =
     Option.bind (expect CHR ''V'' s) (\<lambda>s1.
     Option.bind (digits_run s1) (\<lambda>(a, s2).
     Option.bind (expect CHR ''.'' s2) (\<lambda>s3.
     Option.bind (digits_run s3) (\<lambda>(b, s4).
     Option.bind (expect CHR ''.'' s4) (\<lambda>s5.
     Option.bind (digits_run s5) (\<lambda>(c, _). Some (a, b, c)))))))"

fun search_version :: "string \<Rightarrow> version option" where
  "search_version [] = match_version []"
| "search_version (c # cs) =
     (case match_version (c # cs) of Some v \<Rightarrow> Some v | None \<Rightarrow> search_version cs)"

definition version_of :: "machine \<Rightarrow> string \<Rightarrow> version option" where
  "version_of m path = Option.bind (ma_version_out m path) search_version"

text \<open>A quoted \<open>sm_\d+[a-z]?\<close> at the front: the name and what follows the closing quote.\<close>

definition quote_char :: char where "quote_char = char_of (39 :: nat)"

definition is_lower :: "char \<Rightarrow> bool" where
  "is_lower c \<longleftrightarrow> 97 \<le> code_point c \<and> code_point c \<le> 122"

definition match_arch :: "string \<Rightarrow> (string \<times> string) option" where
  "match_arch s =
     Option.bind (expect quote_char s) (\<lambda>s1.
       if \<not> startswith s1 ''sm_'' then None
       else let ds = takeWhile is_digit (drop 3 s1); rest = dropWhile is_digit (drop 3 s1);
                (suffix, rest') = (case rest of c # cs \<Rightarrow> if is_lower c then ([c], cs) else ([], rest) | [] \<Rightarrow> ([], []))
            in if ds = [] then None
               else map_option (\<lambda>r. (''sm_'' @ ds @ suffix, r)) (expect quote_char rest'))"

lemma match_arch_shorter: "match_arch s = Some (n, r) \<Longrightarrow> length r < length s"
proof -
  assume m: "match_arch s = Some (n, r)"
  have e: "expect c t = Some u \<Longrightarrow> length u < length t" for c t u
    by (auto simp: expect_def split: list.splits if_splits)
  have dw: "length (dropWhile is_digit (drop 3 t)) \<le> length t" for t
    using length_dropWhile_le[of is_digit "drop 3 t"] by simp
  from m obtain s1 where s1: "expect quote_char s = Some s1"
    by (auto simp: match_arch_def split: Option.bind_splits)
  have "length r < length s1"
    using m s1 dw[of s1]
    by (auto simp: match_arch_def Let_def split: if_splits list.splits prod.splits dest!: e)
  with e[OF s1] show ?thesis by simp
qed

function (sequential) find_arches :: "string \<Rightarrow> string list" where
  "find_arches [] = []"
| "find_arches (c # cs) =
     (case match_arch (c # cs) of Some (n, r) \<Rightarrow> n # find_arches r | None \<Rightarrow> find_arches cs)"
  by pat_completeness auto
termination
  by (relation "measure length") (auto dest: match_arch_shorter)

definition arches_of :: "machine \<Rightarrow> string \<Rightarrow> string set" where
  "arches_of m path = (case ma_help_out m path of None \<Rightarrow> {} | Some out \<Rightarrow> set (find_arches out))"

end
