(* ===== verification/Ptxas_Choice.thy ===== *)
theory Ptxas_Choice
  imports Ptxas "HOL-Library.List_Lexorder"
begin

text \<open>
  Choosing the PTX assembler (\<^verbatim>\<open>_ptxas.py\<close>, from \<open>_nvidia_wheel_ptxas\<close> on): discovery of every
  candidate, the rejection rules, \<open>choose\<close>, the installation advice, the report, the choice made at
  import (\<open>apply_default\<close>), its revision at registration (\<open>check\<close>) and Triton's setting. The
  process environment is passed explicitly and returned updated.
\<close>

subsection \<open>Discovery\<close>

definition slash :: "string \<Rightarrow> string \<Rightarrow> string" where
  "slash a b = a @ ''/'' @ b"

definition nvidia_wheel_ptxas :: "machine \<Rightarrow> (string \<times> string) list" where
  "nvidia_wheel_ptxas m = concat (map (\<lambda>(location, layouts).
     map (\<lambda>layout. (slash (slash location layout) ''bin/ptxas'',
            if layout = ''cuda_nvcc'' then fst PINNED_WHEEL @ '' wheel''
            else ''nvidia-cuda-nvcc wheel ('' @ layout @ '')''))
       (sort layouts)) (ma_nvidia m))"

text \<open>The first location whose candidate is a file.\<close>

definition first_file :: "machine \<Rightarrow> string \<Rightarrow> string list option \<Rightarrow> string option" where
  "first_file m sub locations =
     (case locations of
        None \<Rightarrow> None
      | Some ls \<Rightarrow> List.find (ma_is_file m) (map (\<lambda>l. slash l sub) ls))"

definition wheel_ptxas :: "machine \<Rightarrow> string option" where
  "wheel_ptxas m = first_file m ''bin/ptxas'' (ma_wheel_locations m)"

definition torch_wheel_ptxas :: "machine \<Rightarrow> string option" where
  "torch_wheel_ptxas m = first_file m ''bin/ptxas'' (ma_torch_locations m)"

definition triton_ptxas :: "machine \<Rightarrow> string option" where
  "triton_ptxas m = first_file m ''backends/nvidia/bin/ptxas'' (ma_triton_locations m)"

definition builtin_version :: "machine \<Rightarrow> string \<Rightarrow> version option" where
  "builtin_version m path =
     (case ma_nvptx m path of
        None \<Rightarrow> None
      | Some (rc, major, minor) \<Rightarrow> if rc \<noteq> 0 \<or> major = 0 then None else Some (major, minor, 0))"

definition builtin_ptxas :: "machine \<Rightarrow> (string \<times> version option) option" where
  "builtin_ptxas m =
     (case ma_max_locations m of
        Some (l # ls) \<Rightarrow>
          (case ma_max_lib m of
             None \<Rightarrow> Some (l, None)
           | Some lib \<Rightarrow> Some (lib, builtin_version m lib))
      | _ \<Rightarrow> None)"

definition system_ptxas :: "machine \<Rightarrow> env \<Rightarrow> (string \<times> string) list" where
  "system_ptxas m env =
     concat (map (\<lambda>var. case env var of
                Some (c # cs) \<Rightarrow> [(slash (c # cs) ''bin/ptxas'', CHR ''$'' # var)]
              | _ \<Rightarrow> []) [''CUDA_HOME'', ''CUDA_PATH''])
     @ (case ma_which m of Some (c # cs) \<Rightarrow> [(c # cs, ''$PATH'')] | _ \<Rightarrow> [])
     @ map (\<lambda>root. (slash root ''bin/ptxas'', ''system CUDA'')) (rev (sort (ma_usr_local m)))"

subsection \<open>The environment's setting\<close>

definition adopt :: "string \<Rightarrow> env \<Rightarrow> env" where
  "adopt path env = env(ENV_VAR \<mapsto> path, AUTO_ENV_VAR \<mapsto> path)"

definition adopt_builtin :: "env \<Rightarrow> env" where
  "adopt_builtin env = env(ENV_VAR := None, AUTO_ENV_VAR \<mapsto> BUILTIN_MARK)"

definition adopt_ptxas :: "ptxas \<Rightarrow> env \<Rightarrow> env" where
  "adopt_ptxas p env = (if is_builtin p then adopt_builtin env else adopt (px_path p) env)"

definition explicit_choice :: "env \<Rightarrow> string option" where
  "explicit_choice env =
     (case env ENV_VAR of
        Some (c # cs) \<Rightarrow> if env AUTO_ENV_VAR = Some (c # cs) then None else Some (c # cs)
      | _ \<Rightarrow> None)"

text \<open>One pass of the loop over what was found: resolved paths seen so far, and the result.\<close>

definition add_candidate ::
    "machine \<Rightarrow> string \<times> string \<Rightarrow> string list \<times> ptxas list \<Rightarrow> string list \<times> ptxas list" where
  "add_candidate m found acc =
     (let (raw, source) = found; (seen, result) = acc; path = ma_path m raw in
      case ma_resolve m path of
        None \<Rightarrow> acc
      | Some resolved \<Rightarrow>
          if resolved \<in> set seen \<or> (\<not> ma_is_file m path \<and> source \<noteq> ENV_VAR) then acc
          else (resolved # seen,
                result @ [\<lparr>px_id = length result, px_path = path, px_source = source,
                           px_version = version_of m path\<rparr>]))"

definition found_paths :: "machine \<Rightarrow> env \<Rightarrow> (string \<times> string) list" where
  "found_paths m env =
     (case explicit_choice env of Some e \<Rightarrow> [(e, ENV_VAR)] | None \<Rightarrow> [])
     @ nvidia_wheel_ptxas m
     @ (case torch_wheel_ptxas m of Some p \<Rightarrow> [(p, ''torch wheel'')] | None \<Rightarrow> [])
     @ (case triton_ptxas m of Some p \<Rightarrow> [(p, ''triton wheel'')] | None \<Rightarrow> [])
     @ system_ptxas m env"

definition candidates :: "machine \<Rightarrow> env \<Rightarrow> ptxas list" where
  "candidates m env =
     (let result = snd (fold (add_candidate m) (found_paths m env) ([], []))
      in case builtin_ptxas m of
           None \<Rightarrow> result
         | Some (path, v) \<Rightarrow>
             result @ [\<lparr>px_id = length result, px_path = ma_path m path, px_source = BUILTIN_SOURCE, px_version = v\<rparr>])"

subsection \<open>The driver\<close>

definition driver_cuda_version :: "machine \<Rightarrow> (int \<times> int) option" where
  "driver_cuda_version m = map_option (\<lambda>v. (v div 10 div 100, v div 10 mod 100)) (ma_driver m)"

text \<open>The answer is remembered once there is one: \<open>cached\<close> is the module's \<open>_arches\<close>.\<close>

definition device_arches :: "machine \<Rightarrow> (int \<times> string) list \<Rightarrow> (int \<times> string) list" where
  "device_arches m cached =
     (if cached \<noteq> [] then cached
      else case ma_gpus m of
        None \<Rightarrow> []
      | Some gpus \<Rightarrow> map (\<lambda>(major, minor, name). (major * 10 + minor, name)) (List.map_filter id gpus))"

subsection \<open>Rejection and choice\<close>

definition rejection :: "machine \<Rightarrow> ptxas \<Rightarrow> (int \<times> int) option \<Rightarrow> int list \<Rightarrow> string option" where
  "rejection m p driver arches =
     (case px_version p of
        None \<Rightarrow> if is_builtin p then None else Some (release m p)
      | Some (major, minor, patch) \<Rightarrow>
          (case (case driver of
                   Some (d1, d2) \<Rightarrow>
                     if d1 < major then
                       Some (''too new for this driver: its cubins need driver ''
                         @ or_else (dget MIN_DRIVER major) (''the CUDA '' @ int_text major @ '' minimum'')
                         @ '' or newer, and this driver supports CUDA '' @ int_text d1 @ ''.'' @ int_text d2)
                     else None
                 | None \<Rightarrow> None) of
             Some why \<Rightarrow> Some why
           | None \<Rightarrow>
               let supported = (if is_builtin p then table_arches (major, minor, patch)
                                else arches_of m (px_path p));
                   missing = filter (\<lambda>t. t \<notin> supported) (remdups (map target_name arches))
               in if supported \<noteq> {} \<and> missing \<noteq> []
                  then Some (''too old for this GPU: cannot target '' @ join '', '' (sort missing))
                  else None))"

definition version_key :: "ptxas \<Rightarrow> version" where
  "version_key p = or_else (px_version p) (-1, -1, -1)"

text \<open>Python's \<open>max\<close> with a key: the first of the largest.\<close>

fun first_max :: "('a \<Rightarrow> 'b::linorder) \<Rightarrow> 'a \<Rightarrow> 'a list \<Rightarrow> 'a" where
  "first_max key best [] = best"
| "first_max key best (x # xs) = first_max key (if key best < key x then x else best) xs"

definition px_choose ::
    "machine \<Rightarrow> (int \<times> int) option \<Rightarrow> int list \<Rightarrow> ptxas list \<Rightarrow> ptxas option \<times> (ptxas \<times> string) list" where
  "px_choose m driver arches found =
     (let usable = filter (\<lambda>p. rejection m p driver arches = None) found;
          rejected = List.map_filter (\<lambda>p. map_option (Pair p) (rejection m p driver arches)) found
      in (case usable of [] \<Rightarrow> None | p # ps \<Rightarrow> Some (first_max version_key p ps), rejected))"

subsection \<open>Advice\<close>

definition needed_cuda :: "int list \<Rightarrow> int \<times> int" where
  "needed_cuda arches = foldl max (0, 0) (map (\<lambda>a. or_else (dget ARCH_MIN_CUDA a) (0, 0)) arches)"

definition arch_ceiling :: "int list \<Rightarrow> int" where
  "arch_ceiling arches =
     (case map (\<lambda>a. or_else (dget ARCH_LAST_MAJOR a) 99) arches of [] \<Rightarrow> 99 | c # cs \<Rightarrow> foldl min c cs)"

text \<open>What the advice comes down to: no release for all GPUs at once, a newer driver, or a wheel.\<close>

datatype wheel_spec = Pinned string | AtLeast "int \<times> int" int

datatype advice = NoCommonRelease | UpdateDriver | InstallWheel string wheel_spec

text \<open>\<open>tuple(int(part) for part in spec.rstrip(".*").split("."))\<close>.\<close>

definition spec_numbers :: "string \<Rightarrow> int list" where
  "spec_numbers spec =
     map (\<lambda>part. or_else (int_of_text part) 0)
       (split_on CHR ''.'' (rev (dropWhile (\<lambda>c. c = CHR ''.'' \<or> c = CHR ''*'') (rev spec))))"

definition advise :: "(int \<times> int) option \<Rightarrow> int list \<Rightarrow> advice" where
  "advise driver arches =
     (case driver of
        None \<Rightarrow> InstallWheel (fst PINNED_WHEEL) (Pinned (snd PINNED_WHEEL))
      | Some (d1, d2) \<Rightarrow>
          let (n1, n2) = needed_cuda arches; ceiling = arch_ceiling arches; major = min d1 ceiling in
          if ceiling < n1 then NoCommonRelease
          else if major < n1 then UpdateDriver
          else let (wheel, spec) = or_else (dget WHEELS major) PINNED_WHEEL
               in InstallWheel wheel
                    (if spec_numbers spec < [n1, n2] then AtLeast (n1, n2) (major + 1) else Pinned spec))"

definition spec_text :: "wheel_spec \<Rightarrow> string" where
  "spec_text s =
     (case s of
        Pinned spec \<Rightarrow> ''=='' @ spec
      | AtLeast (n1, n2) below \<Rightarrow> ''>='' @ int_text n1 @ ''.'' @ int_text n2 @ '',<'' @ int_text below)"

definition quoted :: "string \<Rightarrow> string" where
  "quoted s = char_of (34 :: nat) # s @ [char_of (34 :: nat)]"

definition arch_names :: "int list \<Rightarrow> string" where
  "arch_names arches = join '', '' (map (\<lambda>a. ''sm_'' @ int_text a) (sort (remdups arches)))"

definition apostrophe :: "string \<Rightarrow> string \<Rightarrow> string" where
  "apostrophe a b = a @ char_of (39 :: nat) # b"

definition install_advice :: "(int \<times> int) option \<Rightarrow> int list \<Rightarrow> string list" where
  "install_advice driver arches =
     (let (n1, n2) = needed_cuda arches; names = arch_names arches;
          (d1, d2) = or_else driver (0, 0); n = int_text n1 @ ''.'' @ int_text n2;
          d = int_text d1 @ ''.'' @ int_text d2
      in case advise driver arches of
           NoCommonRelease \<Rightarrow>
             [''no CUDA release targets '' @ names @ '' at once: one needs '' @ n
                @ '', which no longer targets the other.'',
              ''Run on one architecture at a time (CUDA_VISIBLE_DEVICES).'']
         | UpdateDriver \<Rightarrow>
             [names @ '' needs CUDA '' @ n @ '', whose cubins need driver ''
                @ or_else (dget MIN_DRIVER n1) ''a newer one'' @ '' or newer, and this driver supports CUDA ''
                @ d @ ''.'',
              ''Update the NVIDIA driver; no assembler bridges this gap.'']
         | InstallWheel wheel spec \<Rightarrow>
             let w = quoted (wheel @ spec_text spec) in
             (if driver = None then [''pip install '' @ w]
              else [''pip install '' @ w @ ''  (uv add '' @ w @ '')'']
                @ (if min d1 (arch_ceiling arches) < 12
                   then [''Driver '' @ d @ apostrophe '' predates CUDA 12, which MAX'' ''s own ''
                           @ ''runtime may need regardless of the assembler; updating it is the surer fix.'']
                   else [])))"

subsection \<open>Report\<close>

definition reasons_of :: "(ptxas \<times> string) list \<Rightarrow> (nat, string) dict" where
  "reasons_of rejected = map (\<lambda>(p, why). (px_id p, why)) rejected"

definition env_entry :: "ptxas list \<Rightarrow> ptxas option" where
  "env_entry found = List.find (\<lambda>p. px_source p = ENV_VAR) found"

definition in_force :: "ptxas list \<Rightarrow> ptxas option \<Rightarrow> (ptxas \<times> string) list \<Rightarrow> ptxas option" where
  "in_force found chosen rejected =
     (case env_entry found of
        Some p \<Rightarrow> if dget (reasons_of rejected) (px_id p) \<noteq> None then None else Some p
      | None \<Rightarrow> chosen)"

definition row_mark :: "string option \<Rightarrow> ptxas option \<Rightarrow> ptxas option \<Rightarrow> ptxas \<Rightarrow> string" where
  "row_mark why used chosen p =
     (if why \<noteq> None then ''no''
      else if map_option px_id used = Some (px_id p) then ''USED''
      else if used = None \<and> map_option px_id chosen = Some (px_id p) then ''pick''
      else ''ok'')"

definition pad_left :: "nat \<Rightarrow> string \<Rightarrow> string" where
  "pad_left n s = replicate (n - length s) CHR '' '' @ s"

definition report_row ::
    "machine \<Rightarrow> ptxas option \<Rightarrow> ptxas option \<Rightarrow> (nat, string) dict \<Rightarrow> ptxas \<Rightarrow> string list" where
  "report_row m used chosen reasons p =
     (let why = dget reasons (px_id p);
          shown = (if px_version p = None then None else why)
      in [''    ['' @ pad_left 4 (row_mark why used chosen p) @ ''] '' @ px_path p,
          ''           '' @ release m p @ '', from '' @ px_source p
            @ (case shown of Some w \<Rightarrow> if w = [] then [] else '' -- '' @ w | None \<Rightarrow> [])])"

text \<open>\<open>sorted(..., reverse=True)\<close> keeps the order of equal keys.\<close>

definition newest_first :: "ptxas list \<Rightarrow> ptxas list" where
  "newest_first found = rev (sort_key (\<lambda>p. or_else (px_version p) (-1, 0, 0)) (rev found))"

definition driver_line :: "machine \<Rightarrow> (int \<times> int) option \<Rightarrow> string" where
  "driver_line m driver =
     (case driver of
        None \<Rightarrow> ''  driver    no NVIDIA driver on this machine (libcuda.so.1)''
      | Some (d1, d2) \<Rightarrow>
          ''  driver    '' @ (case ma_release m of Some (c # cs) \<Rightarrow> c # cs @ '' '' | _ \<Rightarrow> [])
            @ ''(supports CUDA '' @ int_text d1 @ ''.'' @ int_text d2 @ '')'')"

definition gpu_lines :: "(int \<times> string) list \<Rightarrow> string list" where
  "gpu_lines devices =
     (if devices = [] then [''  gpu       none visible'']
      else map (\<lambda>(i, arch, name). ''  gpu '' @ nat_text i @ ''     '' @ name @ '' (sm_'' @ int_text arch @ '')'')
             (zip [0..<length devices] devices))"

definition report_lines :: "machine \<Rightarrow> (int \<times> int) option \<Rightarrow> (int \<times> string) list \<Rightarrow> ptxas list \<Rightarrow> string list" where
  "report_lines m driver devices found =
     (let arches = map fst devices; (chosen, rejected) = px_choose m driver arches found;
          used = in_force found chosen rejected
      in driver_line m driver # gpu_lines devices @ ['''',
         ''  ptxas found, newest first, use '' @ ENV_VAR @ '' to override the automatic selection'']
         @ (if found = [] then [''    none''] else [])
         @ concat (map (report_row m used chosen (reasons_of rejected)) (newest_first found))
         @ (if chosen = None
            then ['''', ''  fix''] @ map (\<lambda>l. ''    '' @ l) (install_advice driver arches)
                 @ [''    or set '' @ ENV_VAR @ '' to a ptxas of your own.'']
            else []))"

definition newline :: string where "newline = [char_of (10 :: nat)]"

text \<open>Absent arguments are asked for again; \<open>cached\<close> is the remembered device list.\<close>

definition report ::
    "machine \<Rightarrow> env \<Rightarrow> (int \<times> string) list \<Rightarrow> (int \<times> int) option \<Rightarrow> (int \<times> string) list option
     \<Rightarrow> ptxas list option \<Rightarrow> string" where
  "report m env cached driver devices found =
     join newline (report_lines m
       (case driver of Some d \<Rightarrow> Some d | None \<Rightarrow> driver_cuda_version m)
       (case devices of Some ds \<Rightarrow> ds | None \<Rightarrow> device_arches m cached)
       (case found of Some f \<Rightarrow> f | None \<Rightarrow> candidates m env))"

definition diagnose :: "machine \<Rightarrow> env \<Rightarrow> (int \<times> string) list \<Rightarrow> string \<Rightarrow> string" where
  "diagnose m env cached message =
     (if \<not> contains ''ptxas'' message \<and> \<not> contains ENV_VAR message then ''''
      else newline @ newline @ ''The assembler this was built with:'' @ newline @ newline
        @ report m env cached None None None @ newline)"

subsection \<open>At import and at registration\<close>

definition apply_default :: "machine \<Rightarrow> env \<Rightarrow> env" where
  "apply_default m env =
     (if explicit_choice env \<noteq> None then env
      else case driver_cuda_version m of
        None \<Rightarrow> (case wheel_ptxas m of Some w \<Rightarrow> adopt (ma_path m w) env | None \<Rightarrow> env)
      | Some d \<Rightarrow>
          (case fst (px_choose m (Some d) [] (candidates m env)) of
             Some p \<Rightarrow> adopt_ptxas p env
           | None \<Rightarrow> env))"

text \<open>The outcome of a check: nothing, a message traced, a warning, or the refusal.\<close>

datatype check_outcome = Quiet | Traced string | Warned string | Refused string

definition explicit_message ::
    "machine \<Rightarrow> env \<Rightarrow> (int \<times> int) option \<Rightarrow> (int \<times> string) list \<Rightarrow> ptxas list \<Rightarrow> string \<Rightarrow> string
     \<Rightarrow> ptxas option \<Rightarrow> string" where
  "explicit_message m env driver devices found explicit why chosen =
     ENV_VAR @ ''='' @ explicit @ '' cannot be used here: '' @ why @ ''.'' @ newline
     @ (case chosen of
          Some p \<Rightarrow> ''Unset it and '' @ label p @ '' ('' @ release m p @ '') is used instead, ''
            @ (if px_version p = None then ''compatibility is unknown'' else ''which works on this machine'')
            @ ''.'' @ newline
        | None \<Rightarrow> [])
     @ newline @ report m env [] driver (Some devices) (Some found)"

definition check_end :: "env \<Rightarrow> string \<Rightarrow> check_outcome" where
  "check_end env message =
     (let text = message @ newline @ newline @ ''  `torch-mojo-backend ptxas` prints this table at any time.''
      in if env CHECK_ENV_VAR = Some ''0'' then Warned text else Refused text)"

definition check_now :: "machine \<Rightarrow> (int \<times> string) list \<Rightarrow> env \<Rightarrow> env \<times> check_outcome" where
  "check_now m cached env =
     (let driver = driver_cuda_version m; devices = device_arches m cached in
      if driver = None \<or> devices = [] then (env, Quiet)
      else
        let arches = map fst devices; found = candidates m env; current = env_entry found;
            (chosen, rejected) = px_choose m driver arches found
        in case explicit_choice env of
             Some explicit \<Rightarrow>
               (case (case current of Some p \<Rightarrow> rejection m p driver arches | None \<Rightarrow> Some ''no such file'') of
                  None \<Rightarrow> (env, Quiet)
                | Some why \<Rightarrow> (env, check_end env (explicit_message m env driver devices found explicit why chosen)))
           | None \<Rightarrow>
               (case chosen of
                  Some p \<Rightarrow>
                    (adopt_ptxas p env,
                     case env AUTO_ENV_VAR of
                       Some previous \<Rightarrow>
                         if previous \<noteq> mark p then
                           Traced (''ptxas: using '' @ label p @ '' ('' @ release m p @ ''); '' @ previous @ '' ''
                             @ (case List.find (\<lambda>q. mark q = previous) found of
                                  Some q \<Rightarrow> or_else (rejection m q driver arches) ''None''
                                | None \<Rightarrow> ''is gone''))
                         else Quiet
                     | None \<Rightarrow> Quiet)
                | None \<Rightarrow>
                    (env, check_end env
                      (''no usable ptxas: the mojo device assembles its kernels with ptxas, and none of the ones ''
                       @ ''on this machine produces cubins these GPUs and this driver can both run.''
                       @ newline @ newline @ report m env [] driver (Some devices) (Some found)))))"

text \<open>\<open>check\<close>: the flag is set only by a check that got through.\<close>

definition px_check :: "machine \<Rightarrow> (int \<times> string) list \<Rightarrow> bool \<Rightarrow> env \<times> bool \<Rightarrow> (env \<times> bool) \<times> check_outcome" where
  "px_check m cached force st =
     (let (env, checked) = st in
      if checked \<and> \<not> force then (st, Quiet)
      else let (env', out) = check_now m cached env
           in ((env', case out of Refused _ \<Rightarrow> checked | _ \<Rightarrow> True), out))"

definition apply_triton_default :: "machine \<Rightarrow> env \<Rightarrow> env" where
  "apply_triton_default m env =
     (case env ENV_VAR of
        Some (c # cs) \<Rightarrow>
          (case env TRITON_ENV_VAR of
             Some (t # ts) \<Rightarrow>
               if Some (ma_path m (t # ts)) \<noteq> map_option (ma_path m) (torch_wheel_ptxas m) then env
               else env(TRITON_ENV_VAR \<mapsto> c # cs)
           | _ \<Rightarrow> env(TRITON_ENV_VAR \<mapsto> c # cs))
      | _ \<Rightarrow> env)"

subsection \<open>Choosing\<close>

lemma first_max_in: "first_max key b xs \<in> insert b (set xs)"
  by (induction xs arbitrary: b) auto

lemma first_max_best: "key b \<le> key (first_max key b xs) \<and> (\<forall>x \<in> set xs. key x \<le> key (first_max key b xs))"
proof (induction xs arbitrary: b)
  case Nil
  then show ?case by simp
next
  case (Cons x xs)
  show ?case
  proof (cases "key b < key x")
    case True
    then show ?thesis using Cons[of x] by auto
  next
    case False
    then show ?thesis using Cons[of b] by auto
  qed
qed

lemma px_choose_Some:
  assumes "fst (px_choose m driver arches found) = Some p"
  shows "p \<in> set found" "rejection m p driver arches = None"
    "q \<in> set found \<Longrightarrow> rejection m q driver arches = None \<Longrightarrow> version_key q \<le> version_key p"
proof -
  let ?us = "filter (\<lambda>p. rejection m p driver arches = None) found"
  from assms obtain u us where us: "?us = u # us" and p: "p = first_max version_key u us"
    by (auto simp: px_choose_def split: list.splits)
  have "p \<in> set ?us" using first_max_in[of version_key u us] by (simp add: us p)
  then show "p \<in> set found" "rejection m p driver arches = None" by auto
  assume "q \<in> set found" "rejection m q driver arches = None"
  then have "q \<in> set ?us" by simp
  then show "version_key q \<le> version_key p"
    using first_max_best[of version_key u us] by (auto simp: us p)
qed

lemma px_choose_None:
  "fst (px_choose m driver arches found) = None \<longleftrightarrow> list_all (\<lambda>q. rejection m q driver arches \<noteq> None) found"
proof -
  have "fst (px_choose m driver arches found) = None \<longleftrightarrow> filter (\<lambda>p. rejection m p driver arches = None) found = []"
    by (simp add: px_choose_def split: list.split)
  then show ?thesis by (simp add: filter_empty_conv list_all_iff)
qed

text \<open>What a versioned assembler that is not rejected satisfies.\<close>

definition supports :: "machine \<Rightarrow> ptxas \<Rightarrow> string set" where
  "supports m p =
     (case px_version p of
        Some v \<Rightarrow> if is_builtin p then table_arches v else arches_of m (px_path p)
      | None \<Rightarrow> {})"

definition fits :: "machine \<Rightarrow> ptxas \<Rightarrow> (int \<times> int) option \<Rightarrow> int list \<Rightarrow> bool" where
  "fits m p driver arches \<longleftrightarrow>
     (case px_version p of
        None \<Rightarrow> is_builtin p
      | Some (major, minor, patch) \<Rightarrow>
          (case driver of Some (d1, d2) \<Rightarrow> major \<le> d1 | None \<Rightarrow> True)
          \<and> (supports m p = {} \<or> target_name ` set arches \<subseteq> supports m p))"

lemma filter_remdups_Nil: "filter P (remdups xs) = [] \<longleftrightarrow> (\<forall>x \<in> set xs. \<not> P x)"
  by (induction xs) auto

lemma rejection_None: "rejection m p driver arches = None \<longleftrightarrow> fits m p driver arches"
proof (cases "px_version p")
  case None
  then show ?thesis by (simp add: rejection_def fits_def)
next
  case (Some v)
  obtain a b c where v: "v = (a, b, c)" by (cases v)
  show ?thesis
    by (auto simp: rejection_def fits_def supports_def Some v Let_def filter_remdups_Nil split: option.splits prod.splits)
qed

subsection \<open>The setting and its mark\<close>

lemma explicit_choice_simps:
  "explicit_choice (adopt path env) = None" "explicit_choice (adopt_builtin env) = None"
  by (auto simp: explicit_choice_def adopt_def adopt_builtin_def name_simps split: list.split)

lemma explicit_choice_adopt: "explicit_choice (adopt_ptxas p env) = None"
  by (simp add: adopt_ptxas_def explicit_choice_simps)

lemma adopt_other:
  "v \<noteq> ENV_VAR \<Longrightarrow> v \<noteq> AUTO_ENV_VAR \<Longrightarrow> adopt_ptxas p env v = env v"
  by (simp add: adopt_ptxas_def adopt_def adopt_builtin_def)

lemma adopt_values:
  "adopt_ptxas p env AUTO_ENV_VAR = Some (mark p)"
  "adopt_ptxas p env ENV_VAR = (if is_builtin p then None else Some (px_path p))"
  by (simp_all add: adopt_ptxas_def adopt_def adopt_builtin_def mark_def name_simps)

lemma candidates_cong:
  assumes "explicit_choice env' = explicit_choice env" "env' ''CUDA_HOME'' = env ''CUDA_HOME''"
    "env' ''CUDA_PATH'' = env ''CUDA_PATH''"
  shows "candidates m env' = candidates m env"
  using assms by (simp add: candidates_def found_paths_def system_ptxas_def)

lemma candidates_adopt:
  "explicit_choice env = None \<Longrightarrow> candidates m (adopt_ptxas p env) = candidates m env"
  by (rule candidates_cong) (simp_all add: explicit_choice_adopt adopt_other name_simps)

lemma adopt_again: "adopt_ptxas p (adopt_ptxas p env) = adopt_ptxas p env"
  by (auto simp: adopt_ptxas_def adopt_def adopt_builtin_def name_simps)

lemma check_now_cases:
  assumes "driver_cuda_version m \<noteq> None" "device_arches m cached \<noteq> []" "explicit_choice env = None"
  shows "fst (check_now m cached env) =
     (case fst (px_choose m (driver_cuda_version m) (map fst (device_arches m cached)) (candidates m env)) of
        Some p \<Rightarrow> adopt_ptxas p env | None \<Rightarrow> env)"
  using assms by (auto simp: check_now_def Let_def case_prod_unfold split: option.split)

subsection \<open>Advice\<close>

lemma foldl_max_le: "foldl max (a::'a::linorder) xs \<le> v \<longleftrightarrow> a \<le> v \<and> (\<forall>x \<in> set xs. x \<le> v)"
  by (induction xs arbitrary: a) auto

lemma le_foldl_min: "v \<le> foldl min (a::'a::linorder) xs \<longleftrightarrow> v \<le> a \<and> (\<forall>x \<in> set xs. v \<le> x)"
  by (induction xs arbitrary: a) auto

lemma foldl_min_in: "foldl min (a::'a::linorder) xs \<in> insert a (set xs)"
proof (induction xs arbitrary: a)
  case (Cons y xs)
  then show ?case using Cons[of "min a y"] by (auto simp: min_def split: if_splits)
qed simp

text \<open>The releases that target a list of known architectures, in terms of the tables.\<close>

definition known_arches :: "int list \<Rightarrow> bool" where
  "known_arches arches \<longleftrightarrow> list_all (has_key ARCH_MIN_CUDA) arches"

lemma target_names_distinct: "distinct (map target_name (dkeys ARCH_MIN_CUDA))"
  by code_simp

lemma target_name_inj:
  "has_key ARCH_MIN_CUDA a \<Longrightarrow> has_key ARCH_MIN_CUDA b \<Longrightarrow> target_name a = target_name b \<Longrightarrow> a = b"
  using target_names_distinct by (auto simp: has_key_def distinct_map dest: inj_onD)

lemma arch_table_distinct: "distinct (map fst ARCH_MIN_CUDA)"
  by (simp add: ARCH_MIN_CUDA_def)

lemma targets_known:
  assumes "has_key ARCH_MIN_CUDA a"
  shows "target_name a \<in> table_arches (major, minor, patch) \<longleftrightarrow>
     or_else (dget ARCH_MIN_CUDA a) (0, 0) \<le> (major, minor) \<and> major \<le> or_else (dget ARCH_LAST_MAJOR a) 99"
proof -
  obtain first where f: "dget ARCH_MIN_CUDA a = Some first" using assms by (auto simp: has_key_dget)
  have inj: "b = a" if "dget ARCH_MIN_CUDA b = Some g" "target_name a = target_name b" for b g
    using target_name_inj[OF assms, of b] that by (simp add: has_key_dget)
  have mem: "(b, g) \<in> set ARCH_MIN_CUDA \<longleftrightarrow> dget ARCH_MIN_CUDA b = Some g" for b g
    using arch_table_distinct by (simp add: map_of_eq_Some_iff)
  have "target_name a \<in> table_arches (major, minor, patch) \<longleftrightarrow>
      (\<exists>b g. dget ARCH_MIN_CUDA b = Some g \<and> g \<le> (major, minor)
         \<and> major \<le> or_else (dget ARCH_LAST_MAJOR b) 99 \<and> target_name a = target_name b)"
    by (auto simp: table_arches_def mem image_iff)
  also have "\<dots> \<longleftrightarrow> first \<le> (major, minor) \<and> major \<le> or_else (dget ARCH_LAST_MAJOR a) 99"
    using inj f by (metis option.inject)
  finally show ?thesis by (simp add: f)
qed

lemma needed_le:
  "needed_cuda arches \<le> v \<longleftrightarrow> (0, 0) \<le> v \<and> (\<forall>a \<in> set arches. or_else (dget ARCH_MIN_CUDA a) (0, 0) \<le> v)"
  by (auto simp: needed_cuda_def foldl_max_le)

lemma ceiling_ge:
  "arches \<noteq> [] \<Longrightarrow> M \<le> arch_ceiling arches \<longleftrightarrow> (\<forall>a \<in> set arches. M \<le> or_else (dget ARCH_LAST_MAJOR a) 99)"
proof (cases arches)
  case (Cons a as)
  let ?c = "or_else (dget ARCH_LAST_MAJOR a) 99" and ?cs = "map (\<lambda>a. or_else (dget ARCH_LAST_MAJOR a) 99) as"
  have "arch_ceiling arches = foldl min ?c ?cs" by (simp add: arch_ceiling_def Cons)
  then show ?thesis
    by (auto simp: Cons le_foldl_min)
qed simp

lemma targets_all:
  assumes "known_arches arches" "arches \<noteq> []" "0 \<le> major" "0 \<le> minor"
  shows "target_name ` set arches \<subseteq> table_arches (major, minor, patch) \<longleftrightarrow>
     needed_cuda arches \<le> (major, minor) \<and> major \<le> arch_ceiling arches"
proof -
  have "(0, 0) \<le> (major, minor)" using assms(3,4) by simp
  moreover have "target_name ` set arches \<subseteq> table_arches (major, minor, patch) \<longleftrightarrow>
      (\<forall>a \<in> set arches. or_else (dget ARCH_MIN_CUDA a) (0, 0) \<le> (major, minor)
         \<and> major \<le> or_else (dget ARCH_LAST_MAJOR a) 99)"
    using assms(1) by (auto simp: known_arches_def list_all_iff targets_known)
  ultimately show ?thesis
    using ceiling_ge[OF assms(2), of major] by (auto simp: needed_le)
qed

text \<open>The releases a wheel specification allows.\<close>

definition spec_allows :: "wheel_spec \<Rightarrow> version \<Rightarrow> bool" where
  "spec_allows s v =
     (case (s, v) of
        (Pinned spec, (major, minor, _)) \<Rightarrow> [major, minor] = spec_numbers spec
      | (AtLeast n below, (major, minor, _)) \<Rightarrow> n \<le> (major, minor) \<and> major < below)"

lemma wheel_numbers:
  "dget WHEELS 11 = Some (''nvidia-cuda-nvcc-cu11'', ''11.8.*'')"
  "dget WHEELS 12 = Some (''nvidia-cuda-nvcc-cu12'', ''12.8.*'')"
  "dget WHEELS 13 = Some (''nvidia-cuda-nvcc'', ''13.0.*'')"
  "spec_numbers ''11.8.*'' = [11, 8]" "spec_numbers ''12.8.*'' = [12, 8]" "spec_numbers ''13.0.*'' = [13, 0]"
  by (simp add: WHEELS_def, simp add: WHEELS_def, simp add: WHEELS_def) code_simp+

lemma wheel_of_major:
  assumes "11 \<le> major" "major \<le> 13" "dget WHEELS major = Some (wheel, spec)"
  shows "\<exists>minor. spec_numbers spec = [major, minor] \<and> 0 \<le> minor"
proof -
  from assms(1,2) consider "major = 11" | "major = 12" | "major = 13" by linarith
  then show ?thesis using assms(3) by cases (auto simp: wheel_numbers)
qed

lemma ceiling_values: "arch_ceiling arches = 12 \<or> arch_ceiling arches = 99"
proof (cases arches)
  case Nil
  then show ?thesis by (simp add: arch_ceiling_def)
next
  case (Cons a as)
  have v: "or_else (dget ARCH_LAST_MAJOR b) 99 = 12 \<or> or_else (dget ARCH_LAST_MAJOR b) 99 = (99 :: int)" for b
    by (simp add: ARCH_LAST_MAJOR_def)
  have "arch_ceiling arches = foldl min (or_else (dget ARCH_LAST_MAJOR a) 99)
      (map (\<lambda>a. or_else (dget ARCH_LAST_MAJOR a) 99) as)"
    by (simp add: arch_ceiling_def Cons)
  moreover have "\<forall>x \<in> insert (or_else (dget ARCH_LAST_MAJOR a) 99) (set (map (\<lambda>a. or_else (dget ARCH_LAST_MAJOR a) 99) as)).
      x = 12 \<or> x = (99 :: int)"
    using v by simp
  ultimately show ?thesis
    using foldl_min_in[of "or_else (dget ARCH_LAST_MAJOR a) 99" "map (\<lambda>a. or_else (dget ARCH_LAST_MAJOR a) 99) as"]
    by metis
qed

subsection \<open>Properties\<close>


text \<open>A working setting of the user's is never touched: with an explicit choice in the
  environment, neither the import nor the check at registration changes any variable, and a
  Triton assembler set to anything but torch's own default stands.\<close>

theorem user_setting_stands:
  assumes "explicit_choice env = Some e"
  shows "apply_default m env = env \<and> fst (check_now m cached env) = env
    \<and> (case env TRITON_ENV_VAR of
         Some t \<Rightarrow> t = [] \<or> Some (ma_path m t) = map_option (ma_path m) (torch_wheel_ptxas m)
                   \<or> apply_triton_default m env = env
       | None \<Rightarrow> True)"
  using assms
  by (auto simp: apply_default_def check_now_def apply_triton_default_def Let_def case_prod_unfold
      split: option.splits list.splits)

definition bare_machine :: machine where
  "bare_machine =
     \<lparr>ma_path = id, ma_is_file = (\<lambda>p. p = ''/a/ptxas'' \<or> p = ''/b/ptxas''), ma_resolve = Some,
      ma_version_out = (\<lambda>p. if p = ''/a/ptxas'' then Some ''release 12.4, V12.4.131''
                            else if p = ''/b/ptxas'' then Some ''V12.8.93'' else None),
      ma_help_out = (\<lambda>_. None), ma_nvidia = [], ma_wheel_locations = None, ma_torch_locations = None,
      ma_triton_locations = None, ma_which = Some ''/b/ptxas'', ma_usr_local = [], ma_max_locations = None,
      ma_max_lib = None, ma_nvptx = (\<lambda>_. None), ma_driver = Some 12080, ma_release = None,
      ma_gpus = Some [Some (9, 0, ''H100'')]\<rparr>"

lemma user_setting_stands_witness:
  "apply_default bare_machine [ENV_VAR \<mapsto> ''/a/ptxas''] = [ENV_VAR \<mapsto> ''/a/ptxas'']"
proof -
  have "explicit_choice [ENV_VAR \<mapsto> ''/a/ptxas''] = Some ''/a/ptxas''"
    by (simp add: explicit_choice_def name_simps)
  from user_setting_stands[OF this, of bare_machine "[]"] show ?thesis by blast
qed

text \<open>An inherited automatic choice settles: checking again in the environment a check left (as a
  child process does) changes nothing and, when the first check had picked an assembler itself,
  has nothing to say.\<close>

theorem check_is_stable:
  "fst (check_now m cached (fst (check_now m cached env))) = fst (check_now m cached env)
   \<and> (case (explicit_choice env,
            fst (px_choose m (driver_cuda_version m) (map fst (device_arches m cached)) (candidates m env))) of
        (None, Some p) \<Rightarrow> snd (check_now m cached (fst (check_now m cached env))) = Quiet
      | _ \<Rightarrow> True)"
proof (cases "driver_cuda_version m = None \<or> device_arches m cached = []")
  case True
  then show ?thesis by (auto simp: check_now_def split: option.split)
next
  case False
  then have d: "driver_cuda_version m \<noteq> None" "device_arches m cached \<noteq> []" by auto
  show ?thesis
  proof (cases "explicit_choice env")
    case (Some e)
    then have "fst (check_now m cached env) = env"
      by (auto simp: check_now_def Let_def case_prod_unfold split: option.splits)
    then show ?thesis by (simp add: Some)
  next
    case None
    let ?c = "fst (px_choose m (driver_cuda_version m) (map fst (device_arches m cached)) (candidates m env))"
    show ?thesis
    proof (cases ?c)
      case None
      then show ?thesis
        using check_now_cases[OF d \<open>explicit_choice env = None\<close>] \<open>explicit_choice env = None\<close> by simp
    next
      case (Some p)
      let ?env = "adopt_ptxas p env"
      have env: "fst (check_now m cached env) = ?env"
        using check_now_cases[OF d None] Some by simp
      have again: "explicit_choice ?env = None" "candidates m ?env = candidates m env"
        by (simp_all add: explicit_choice_adopt candidates_adopt[OF None])
      have "fst (check_now m cached ?env) = ?env"
        using check_now_cases[OF d again(1)] Some by (simp add: again adopt_again)
      moreover have "snd (check_now m cached ?env) = Quiet"
        using d Some by (auto simp: check_now_def Let_def case_prod_unfold again adopt_values)
      ultimately show ?thesis by (simp add: env None Some)
    qed
  qed
qed

text \<open>A wheel the advice names works: on a driver for CUDA 11 to 13 and GPUs the tables know, every
  release the specification allows loads on the driver and targets all of the GPUs.\<close>

theorem advised_wheel_works:
  assumes "advise (Some (d1, d2)) arches = InstallWheel wheel spec" "11 \<le> d1" "d1 \<le> 13"
    and "known_arches arches" "arches \<noteq> []" "spec_allows spec (major, minor, patch)" "0 \<le> major" "0 \<le> minor"
  shows "major \<le> d1 \<and> target_name ` set arches \<subseteq> table_arches (major, minor, patch)"
proof -
  obtain n1 n2 where n: "needed_cuda arches = (n1, n2)" by (cases "needed_cuda arches")
  let ?major = "min d1 (arch_ceiling arches)"
  from assms(2,3) ceiling_values[of arches] have m: "11 \<le> ?major" "?major \<le> 13" by auto
  then obtain w s where w: "dget WHEELS ?major = Some (w, s)"
    by (smt (verit) wheel_numbers(1-3))
  obtain p where p: "spec_numbers s = [?major, p]" "0 \<le> p" using wheel_of_major[OF m w] by blast
  have spec: "n1 \<le> ?major" "spec = (if [?major, p] < [n1, n2] then AtLeast (n1, n2) (?major + 1) else Pinned s)"
    using assms(1) by (auto simp: advise_def n Let_def w p split: if_splits)
  have "(n1, n2) \<le> (major, minor) \<and> major \<le> ?major"
    using assms(6) spec p by (auto simp: spec_allows_def p(1) split: if_splits)
  then show ?thesis
    using targets_all[OF assms(4,5,7,8), of patch] by (simp add: n)
qed

lemma advised_wheel_works_witness:
  "12 \<le> (12::int) \<and> target_name ` set [120, 70] \<subseteq> table_arches (12, 8, 93)"
proof -
  have a: "advise (Some (12, 8)) [120, 70] = InstallWheel ''nvidia-cuda-nvcc-cu12'' (Pinned ''12.8.*'')" by code_simp
  have k: "known_arches [120, 70]" by code_simp
  have s: "spec_allows (Pinned ''12.8.*'') (12, 8, 93)" by (simp add: spec_allows_def wheel_numbers)
  show ?thesis by (rule advised_wheel_works[OF a _ _ k _ s]) simp_all
qed

text \<open>When the advice says that no assembler can help, none can: no release that loads on the
  driver targets all of the GPUs, and where it says that no release targets them at once, none of
  any driver does.\<close>

theorem hopeless_advice_is_right:
  assumes "known_arches arches" "arches \<noteq> []" "0 \<le> major" "0 \<le> minor"
    and "target_name ` set arches \<subseteq> table_arches (major, minor, patch)"
  shows "advise (Some (d1, d2)) arches \<noteq> NoCommonRelease
    \<and> (major \<le> d1 \<longrightarrow> advise (Some (d1, d2)) arches \<noteq> UpdateDriver)"
proof -
  obtain n1 n2 where n: "needed_cuda arches = (n1, n2)" by (cases "needed_cuda arches")
  from targets_all[OF assms(1-4), of patch] assms(5) n have "(n1, n2) \<le> (major, minor)" "major \<le> arch_ceiling arches"
    by auto
  then show ?thesis by (auto simp: advise_def n Let_def split: if_splits prod.splits)
qed

lemma hopeless_advice_is_right_witness: "advise (Some (12, 8)) [120, 70] \<noteq> UpdateDriver"
proof -
  have t: "target_name ` set [120, 70] \<subseteq> table_arches (12, 8, 93)" by code_simp
  have k: "known_arches [120, 70]" by code_simp
  from hopeless_advice_is_right[OF k _ _ _ t, of 12 8] show ?thesis by simp
qed

text \<open>Below CUDA 11 the advice falls back to a wheel that this very driver rejects.\<close>

lemma advice_for_old_driver_rejected:
  "advise (Some (10, 2)) [70] = InstallWheel ''nvidia-cuda-nvcc-cu12'' (Pinned ''12.8.*'')
   \<and> \<not> fits m \<lparr>px_id = 0, px_path = p, px_source = s, px_version = Some (12, 8, patch)\<rparr> (Some (10, 2)) [70]"
proof -
  have "advise (Some (10, 2)) [70] = InstallWheel ''nvidia-cuda-nvcc-cu12'' (Pinned ''12.8.*'')" by code_simp
  then show ?thesis by (simp add: fits_def)
qed

lemma add_candidate_source:
  assumes "p \<in> set (snd (fold (add_candidate m) xs acc))"
  shows "p \<in> set (snd acc) \<or> (\<exists>raw. (raw, px_source p) \<in> set xs \<and> px_path p = ma_path m raw)"
  using assms
proof (induction xs arbitrary: acc)
  case Nil
  then show ?case by simp
next
  case (Cons x xs)
  have step: "p \<in> set (snd (add_candidate m x acc)) \<Longrightarrow>
      p \<in> set (snd acc) \<or> (fst x, px_source p) = x \<and> px_path p = ma_path m (fst x)"
    by (cases x) (auto simp: add_candidate_def Let_def case_prod_unfold split: option.splits if_splits)
  from Cons.IH[of "add_candidate m x acc"] Cons.prems step show ?case by fastforce
qed

lemma env_source:
  assumes "p \<in> set (candidates m env)" "px_source p = ENV_VAR"
  shows "\<exists>e. explicit_choice env = Some e \<and> px_path p = ma_path m e"
proof -
  have "p \<in> set (snd (fold (add_candidate m) (found_paths m env) ([], [])))"
    using assms by (auto simp: candidates_def Let_def name_simps split: option.splits)
  from add_candidate_source[OF this] obtain raw where "(raw, ENV_VAR) \<in> set (found_paths m env)"
    "px_path p = ma_path m raw" using assms(2) by auto
  then show ?thesis
    by (auto simp: found_paths_def nvidia_wheel_ptxas_def system_ptxas_def name_simps PINNED_WHEEL_def WHEELS_def
        split: option.splits list.splits if_splits dest: sym)
qed

lemma explicit_value: "explicit_choice env = Some e \<Longrightarrow> env ENV_VAR = Some e"
  by (auto simp: explicit_choice_def split: option.splits list.splits if_splits)

text \<open>When the check at registration lets the process go on (silently or with a trace line), the
  assembler the environment then names is one found on the machine that loads on the driver and
  targets the GPUs; where the variable is absent, MAX's own compiler is the one that fits.\<close>

theorem passed_check_fits:
  assumes "driver_cuda_version m = Some d" "device_arches m cached \<noteq> []"
    and "check_now m cached env = (env', out)" "case out of Quiet \<Rightarrow> True | Traced t \<Rightarrow> True | _ \<Rightarrow> False"
  shows "\<exists>p. p \<in> set (candidates m env) \<and> fits m p (Some d) (map fst (device_arches m cached))
    \<and> (if is_builtin p then env' ENV_VAR = None
       else (\<exists>e. env' ENV_VAR = Some e \<and> (e = px_path p \<or> ma_path m e = px_path p)))"
proof (cases "explicit_choice env")
  case (Some e)
  let ?found = "candidates m env" and ?arches = "map fst (device_arches m cached)"
  let ?why = "case env_entry ?found of Some p \<Rightarrow> rejection m p (Some d) ?arches | None \<Rightarrow> Some ''no such file''"
  have eq: "check_now m cached env = (case ?why of None \<Rightarrow> (env, Quiet)
      | Some why \<Rightarrow> (env, check_end env (explicit_message m env (Some d) (device_arches m cached) ?found e why
          (fst (px_choose m (Some d) ?arches ?found)))))"
    using assms(1,2) Some by (simp add: check_now_def Let_def case_prod_unfold)
  have w: "?why = None"
    using assms(3,4) unfolding eq by (cases ?why) (auto simp: check_end_def Let_def split: if_splits)
  then obtain p where p: "env_entry ?found = Some p" "rejection m p (Some d) ?arches = None"
    by (cases "env_entry ?found") auto
  have env: "env' = env" using assms(3) unfolding eq w by simp
  from find_SomeD[of "\<lambda>p. px_source p = ENV_VAR" ?found p] p(1)
  have mem: "p \<in> set ?found" "px_source p = ENV_VAR" by (simp_all add: env_entry_def)
  from env_source[OF this] Some have "px_path p = ma_path m e" by simp
  then show ?thesis
    using mem p(2) explicit_value[OF Some] env
    by (intro exI[of _ p]) (simp add: rejection_None is_builtin_def name_simps)
next
  case None
  let ?found = "candidates m env" and ?arches = "map fst (device_arches m cached)"
  have e: "env' = fst (check_now m cached env)" using assms(3) by simp
  have d: "driver_cuda_version m \<noteq> None" using assms(1) by simp
  show ?thesis
  proof (cases "fst (px_choose m (Some d) ?arches ?found)")
    case None
    then have "False"
      using assms \<open>explicit_choice env = None\<close>
      by (auto simp: check_now_def check_end_def Let_def case_prod_unfold split: if_splits)
    then show ?thesis ..
  next
    case (Some p)
    then have "env' = adopt_ptxas p env"
      using check_now_cases[OF d assms(2) None] assms(1) e by simp
    then show ?thesis
      using px_choose_Some(1,2)[OF Some] by (auto simp: rejection_None adopt_values)
  qed
qed

lemma passed_check_fits_witness:
  "\<exists>p. p \<in> set (candidates bare_machine Map.empty) \<and> fits bare_machine p (Some (12, 8)) [90]
    \<and> (if is_builtin p then fst (check_now bare_machine [] Map.empty) ENV_VAR = None
       else (\<exists>e. fst (check_now bare_machine [] Map.empty) ENV_VAR = Some e \<and> (e = px_path p \<or> ma_path bare_machine e = px_path p)))"
proof -
  have d: "driver_cuda_version bare_machine = Some (12, 8)" and g: "device_arches bare_machine [] = [(90, ''H100'')]"
    by (simp_all add: driver_cuda_version_def device_arches_def bare_machine_def map_filter_def)
  have out: "snd (check_now bare_machine [] Map.empty) = Quiet" by code_simp
  have c: "check_now bare_machine [] Map.empty = (fst (check_now bare_machine [] Map.empty), Quiet)"
    using out by (simp add: prod_eq_iff)
  have n: "device_arches bare_machine [] \<noteq> []" by (simp add: g)
  show ?thesis using passed_check_fits[OF d n c] unfolding g by simp
qed

end
