(* ===== verification/PG_Desync.thy ===== *)
theory PG_Desync
  imports FR_Ring
begin

text \<open>
  The tables of the process group and its desync report (\<^verbatim>\<open>distributed/process_group.py\<close>, lines 56 to
  400): NCCL data types and reduction operations, the watchdog's action, the machine line of an
  incident, and the comparison of the incidents of all ranks. \<open>verdict_of\<close> is one pass of the
  loop of \<open>_desync_lines\<close>; an unreadable number raises, as \<open>int\<close> does.
\<close>

subsection \<open>NCCL data types and reductions\<close>

definition NCCL_INT8 :: int where "NCCL_INT8 = 0"
definition NCCL_UINT8 :: int where "NCCL_UINT8 = 1"
definition NCCL_INT32 :: int where "NCCL_INT32 = 2"
definition NCCL_UINT32 :: int where "NCCL_UINT32 = 3"
definition NCCL_INT64 :: int where "NCCL_INT64 = 4"
definition NCCL_UINT64 :: int where "NCCL_UINT64 = 5"
definition NCCL_FLOAT16 :: int where "NCCL_FLOAT16 = 6"
definition NCCL_FLOAT32 :: int where "NCCL_FLOAT32 = 7"
definition NCCL_FLOAT64 :: int where "NCCL_FLOAT64 = 8"
definition NCCL_BFLOAT16 :: int where "NCCL_BFLOAT16 = 9"
definition NCCL_SUM :: int where "NCCL_SUM = 0"
definition NCCL_PROD :: int where "NCCL_PROD = 1"
definition NCCL_MAX :: int where "NCCL_MAX = 2"
definition NCCL_MIN :: int where "NCCL_MIN = 3"
definition NCCL_AVG :: int where "NCCL_AVG = 4"

lemmas nccl_simps = NCCL_INT8_def NCCL_UINT8_def NCCL_INT32_def NCCL_UINT32_def NCCL_INT64_def
  NCCL_UINT64_def NCCL_FLOAT16_def NCCL_FLOAT32_def NCCL_FLOAT64_def NCCL_BFLOAT16_def
  NCCL_SUM_def NCCL_PROD_def NCCL_MAX_def NCCL_MIN_def NCCL_AVG_def

fun NCCL_DTYPE_OF :: "dtype \<Rightarrow> int option" where
  "NCCL_DTYPE_OF Int8 = Some NCCL_INT8"
| "NCCL_DTYPE_OF Uint8 = Some NCCL_UINT8"
| "NCCL_DTYPE_OF Bool = Some NCCL_UINT8"
| "NCCL_DTYPE_OF Int32 = Some NCCL_INT32"
| "NCCL_DTYPE_OF Uint32 = Some NCCL_UINT32"
| "NCCL_DTYPE_OF Int64 = Some NCCL_INT64"
| "NCCL_DTYPE_OF Uint64 = Some NCCL_UINT64"
| "NCCL_DTYPE_OF Float16 = Some NCCL_FLOAT16"
| "NCCL_DTYPE_OF Float32 = Some NCCL_FLOAT32"
| "NCCL_DTYPE_OF Float64 = Some NCCL_FLOAT64"
| "NCCL_DTYPE_OF BFloat16 = Some NCCL_BFLOAT16"
| "NCCL_DTYPE_OF _ = None"

definition nccl_dtype :: "dtype \<Rightarrow> int result" where
  "nccl_dtype d =
     (case NCCL_DTYPE_OF d of
        Some n \<Rightarrow> Inr n
      | None \<Rightarrow> Inl (TypeError (''dtype '' @ dtype_str d @ '' is not supported by the mojo NCCL/RCCL backend'')))"

text \<open>\<open>RedOther\<close> stands for every \<open>ReduceOp\<close> without a case of its own; \<open>show_op\<close> is how torch prints one.\<close>

datatype red_op = RedSum | RedProduct | RedMax | RedMin | RedAvg | RedOther string

definition nccl_red_op :: "(red_op \<Rightarrow> string) \<Rightarrow> red_op \<Rightarrow> dtype \<Rightarrow> int result" where
  "nccl_red_op show_op op d =
     (if d = Bool then
        if op = RedSum \<or> op = RedMax then Inr NCCL_MAX
        else if op = RedProduct \<or> op = RedMin then Inr NCCL_MIN
        else Inl (TypeError (''ReduceOp '' @ show_op op @ '' is not supported for bool tensors''))
      else case op of
          RedSum \<Rightarrow> Inr NCCL_SUM
        | RedProduct \<Rightarrow> Inr NCCL_PROD
        | RedMax \<Rightarrow> Inr NCCL_MAX
        | RedMin \<Rightarrow> Inr NCCL_MIN
        | RedAvg \<Rightarrow> Inr NCCL_AVG
        | RedOther _ \<Rightarrow>
            Inl (NotImplementedError (''ReduceOp '' @ show_op op @ '' is not supported by the mojo NCCL/RCCL backend'')))"

subsection \<open>The watchdog's action\<close>

definition WATCHDOG_ACTIONS :: "(string, int) dict" where
  "WATCHDOG_ACTIONS = [(''off'', 0), (''0'', 0), (''report'', 1), (''abort'', 2)]"

definition py_quote :: "string \<Rightarrow> string" where
  "py_quote s = char_of (39 :: nat) # s @ [char_of (39 :: nat)]"

text \<open>The quoted value is the plain one; \<open>repr\<close> also escapes quotes and control characters.\<close>

definition watchdog_action :: "env \<Rightarrow> int result" where
  "watchdog_action env =
     (let value = lower (strip (or_else (env ''TORCH_MOJO_BACKEND_PG_WATCHDOG'') ''abort''))
      in case dget WATCHDOG_ACTIONS value of
           Some a \<Rightarrow> Inr a
         | None \<Rightarrow> Inl (ValueError (''TORCH_MOJO_BACKEND_PG_WATCHDOG='' @ py_quote value
             @ '': expected abort, report or off'')))"

subsection \<open>Incident lines\<close>

type_synonym report = "(string, string) dict"

definition parse_report :: "string \<Rightarrow> report" where
  "parse_report line =
     foldl (\<lambda>d item. case split_first CHR ''='' item of (k, v) \<Rightarrow> dput k v d) []
       (filter (contains ''='') (split_ws line))"

definition REDOP_NAMES :: "(string, string) dict" where
  "REDOP_NAMES = [(''0'', ''sum''), (''1'', ''prod''), (''2'', ''max''), (''3'', ''min''), (''4'', ''avg'')]"

text \<open>\<open>f"{d.get(k)}"\<close>, and \<open>int(d.get(k, dflt))\<close>.\<close>

definition shown_field :: "report \<Rightarrow> string \<Rightarrow> string" where
  "shown_field r k = or_else (dget r k) ''None''"

definition py_int :: "string \<Rightarrow> int result" where
  "py_int s =
     (case int_of_text s of
        Some n \<Rightarrow> Inr n
      | None \<Rightarrow> Inl (ValueError (''invalid literal for int() with base 10: '' @ py_quote s)))"

definition int_field :: "report \<Rightarrow> string \<Rightarrow> string \<Rightarrow> int result" where
  "int_field r k dflt = py_int (or_else (dget r k) dflt)"

definition int_key :: "report \<Rightarrow> string \<Rightarrow> int result" where
  "int_key r k = (case dget r k of Some v \<Rightarrow> py_int v | None \<Rightarrow> Inl (KeyError k))"

definition describe_op :: "report \<Rightarrow> string" where
  "describe_op r =
     (let text = shown_field r ''op'' @ '' '' @ shown_field r ''count'' @ '' x '' @ shown_field r ''dtype'';
          root = or_else (dget r ''root'') ''-1'';
          peer = (or_else (dget r ''op'') '''' \<in> {''send'', ''recv'', ''send/recv''});
          text1 = (if root \<noteq> ''-1'' then text @ '' '' @ (if peer then ''peer'' else ''root'') @ '' '' @ root else text);
          redop = or_else (dget r ''redop'') ''-1''
      in if redop \<noteq> ''-1'' then text1 @ '' '' @ or_else (dget REDOP_NAMES redop) (''redop '' @ redop) else text1)"

definition describe :: "report \<Rightarrow> string result" where
  "describe r =
     (let wher = dget r ''where'' in
      if wher = Some ''host'' then Inr (shown_field r ''op'' @ '' call blocked on the host'')
      else if wher = Some ''error'' then Inr ''a device error''
      else if wher = Some ''async'' then
        Inr (''an asynchronous library error (ncclResult_t '' @ shown_field r ''code'' @ '')'')
      else bind_res (int_field r ''nops'' ''1'') (\<lambda>nops.
        Inr (if 1 < nops then describe_op r @ '' ('' @ or_else (dget r ''nops'') '''' @ '' calls in one NCCL group)''
             else describe_op r)))"

definition ranks_text :: "int list \<Rightarrow> string" where
  "ranks_text ranks =
     join '', '' (map int_text (take 16 ranks))
     @ (if 16 < length ranks then '' and '' @ nat_text (length ranks - 16) @ '' more'' else [])"

definition COLLECTIVE_OPS :: "string set" where
  "COLLECTIVE_OPS = {''allreduce'', ''broadcast'', ''reduce'', ''allgather'', ''reduce_scatter''}"

definition pick :: "report list \<Rightarrow> report \<Rightarrow> report" where
  "pick records mine =
     (case List.find (\<lambda>r. dget r ''tid'' = dget mine ''tid'') records of Some r \<Rightarrow> r | None \<Rightarrow> hd records)"

definition comparable :: "report \<Rightarrow> bool" where
  "comparable r \<longleftrightarrow>
     dget r ''where'' = Some ''device'' \<and> (case dget r ''op'' of Some op \<Rightarrow> op \<in> COLLECTIVE_OPS | None \<Rightarrow> False)
     \<and> or_else (dget r ''cpos'') ''0'' \<noteq> ''0''"

subsection \<open>The desync report\<close>

text \<open>What the loop concludes of one rank; the text is the line it prints.\<close>

datatype verdict = Missing | Same | NotCompared string | Regrouped string | Diverged string

definition rank_line :: "int \<Rightarrow> string \<Rightarrow> string \<Rightarrow> string \<Rightarrow> string" where
  "rank_line r wher text rest = ''  rank '' @ int_text r @ '': waiting in '' @ wher @ '' '' @ text @ rest"

definition overlap :: "int \<times> int \<Rightarrow> int \<times> int \<Rightarrow> bool" where
  "overlap a b \<longleftrightarrow> fst a \<le> snd b \<and> fst b \<le> snd a"

definition compare_reports :: "int \<Rightarrow> report \<Rightarrow> report \<Rightarrow> int \<Rightarrow> int \<times> int \<Rightarrow> verdict result" where
  "compare_reports r mine rep cpos my_span =
     bind_res (int_key rep ''cpos'') (\<lambda>c.
     bind_res (int_field rep ''nops'' ''1'') (\<lambda>nops.
       let span = (c, c + nops - 1) in
       if span = my_span \<and> dget rep ''fp'' = dget mine ''fp'' then Inr Same
       else bind_res (describe rep) (\<lambda>text.
         if span \<noteq> my_span \<and> overlap span my_span then
           Inr (Regrouped (rank_line r (''collective #'' @ int_text c) text '' (not compared: grouped differently)''))
         else Inr (Diverged (rank_line r (''collective #'' @ int_text c) text
           (''  <-- '' @ (if span = my_span then ''the same position, different arguments''
                        else if c < cpos then ''behind'' else ''ahead'')))))))"

definition verdict_of ::
    "report \<Rightarrow> int \<Rightarrow> int \<times> int \<Rightarrow> (int, report list) dict \<Rightarrow> int \<Rightarrow> verdict result" where
  "verdict_of mine cpos my_span reports r =
     (case or_else (dget reports r) [] of
        [] \<Rightarrow> Inr Missing
      | recs \<Rightarrow>
          let rep = pick recs mine in
          bind_res (int_field rep ''seq'' ''0'') (\<lambda>k.
            if \<not> (comparable rep \<and> comparable mine) then
              bind_res (describe rep) (\<lambda>text.
                Inr (NotCompared (rank_line r (''#'' @ int_text k) text
                  '' (not compared: point-to-point, a mixed group or not a device wait)'')))
            else compare_reports r mine rep cpos my_span))"

definition verdict_line :: "verdict \<Rightarrow> string list" where
  "verdict_line v = (case v of NotCompared l \<Rightarrow> [l] | Regrouped l \<Rightarrow> [l] | Diverged l \<Rightarrow> [l] | _ \<Rightarrow> [])"

definition ranks_with :: "(verdict \<Rightarrow> bool) \<Rightarrow> verdict list \<Rightarrow> int list" where
  "ranks_with P vs = map (int \<circ> fst) (filter (\<lambda>(i, v). P v) (zip [0..<length vs] vs))"

definition is_diverged :: "verdict \<Rightarrow> bool" where
  "is_diverged v = (case v of Diverged _ \<Rightarrow> True | _ \<Rightarrow> False)"

definition no_report_text :: "int list \<Rightarrow> string" where
  "no_report_text missing =
     ''  no report: ranks '' @ ranks_text missing @ ''. Their watchdog did not fire: ''
     @ ''usually they never issued this collective or are blocked outside ''
     @ ''a GPU collective of this group (on the host, in another process ''
     @ ''group, or exited); a rank whose report could not be sent looks ''
     @ ''the same. Look there first; `py-spy dump --pid <pid>` shows where a process is.''"

definition inconclusive_text :: string where
  "inconclusive_text =
     ''  Inconclusive: every rank that reported is waiting where this one ''
     @ ''is, or in work that does not compare across ranks. Either it is ''
     @ ''stuck itself (a peer GPU or link failure), or the ranks diverged ''
     @ ''in a way the arguments do not show.''"

definition closing_lines :: "verdict list \<Rightarrow> string list" where
  "closing_lines vs =
     (let same = ranks_with (\<lambda>v. v = Same) vs; missing = ranks_with (\<lambda>v. v = Missing) vs;
          diverged = ranks_with is_diverged vs
      in (if same \<noteq> [] then [''  waiting in this same collective: ranks '' @ ranks_text same] else [])
       @ (if missing \<noteq> [] then [no_report_text missing] else [])
       @ (if diverged \<noteq> []
          then [''  The ranks marked above issued a different collective, or a ''
                @ ''different number of them, before this one.''] else [])
       @ (if missing = [] \<and> diverged = [] then [inconclusive_text] else []))"

definition desync_verdicts :: "report \<Rightarrow> (int, report list) dict \<Rightarrow> nat \<Rightarrow> verdict list result" where
  "desync_verdicts mine reports world =
     bind_res (int_field mine ''cpos'' ''0'') (\<lambda>cpos.
     bind_res (int_field mine ''nops'' ''1'') (\<lambda>nops.
       map_res (verdict_of mine cpos (cpos, cpos + nops - 1) reports) (map int [0..<world])))"

definition desync_lines :: "report \<Rightarrow> (int, report list) dict \<Rightarrow> nat \<Rightarrow> string list result" where
  "desync_lines mine reports world =
     bind_res (int_key mine ''seq'') (\<lambda>seq.
     bind_res (int_field mine ''cpos'' ''0'') (\<lambda>cpos.
     bind_res (int_field mine ''nops'' ''1'') (\<lambda>nops.
     bind_res (describe mine) (\<lambda>text.
     bind_res (desync_verdicts mine reports world) (\<lambda>vs.
       Inr ((''desync report for #'' @ int_text seq
             @ (if comparable mine then '' (collective #'' @ int_text cpos @ '')'' else [])
             @ '' ('' @ text @ ''), from the ranks whose watchdog fired:'')
            # concat (map verdict_line vs) @ closing_lines vs))))))"

subsection \<open>Lemmas\<close>

lemma py_int_text [simp]: "py_int (int_text n) = Inr n"
  by (simp add: py_int_def)

lemma verdicts_length:
  "desync_verdicts mine reports world = Inr vs \<Longrightarrow> length vs = world"
  by (auto simp: desync_verdicts_def bind_res_eq_Inr dest: map_res_length)

lemma verdicts_nth:
  assumes "desync_verdicts mine reports world = Inr vs" "r < world"
  shows "\<exists>cpos nops. int_field mine ''cpos'' ''0'' = Inr cpos \<and> int_field mine ''nops'' ''1'' = Inr nops
    \<and> verdict_of mine cpos (cpos, cpos + nops - 1) reports (int r) = Inr (vs ! r)"
proof -
  from assms(1) obtain cpos nops where c: "int_field mine ''cpos'' ''0'' = Inr cpos"
    "int_field mine ''nops'' ''1'' = Inr nops"
    "map_res (verdict_of mine cpos (cpos, cpos + nops - 1) reports) (map int [0..<world]) = Inr vs"
    by (auto simp: desync_verdicts_def bind_res_eq_Inr)
  from map_res_nth[OF c(3), of r] assms(2) c(1,2) show ?thesis by auto
qed

lemma ranks_with_mem: "r \<in> set (ranks_with P vs) \<longleftrightarrow> 0 \<le> r \<and> nat r < length vs \<and> P (vs ! nat r)"
  by (force simp: ranks_with_def in_set_zip image_iff)

text \<open>A rank's own incident compares equal to itself.\<close>

lemma own_verdict:
  assumes "desync_verdicts mine reports world = Inr vs" "r < world" "dget reports (int r) = Some [mine]"
    "comparable mine"
  shows "vs ! r = Same"
proof -
  from verdicts_nth[OF assms(1,2)] obtain cpos nops where c: "int_field mine ''cpos'' ''0'' = Inr cpos"
    "int_field mine ''nops'' ''1'' = Inr nops"
    and v: "verdict_of mine cpos (cpos, cpos + nops - 1) reports (int r) = Inr (vs ! r)" by blast
  have pick: "pick [mine] mine = mine" by (simp add: pick_def)
  obtain t where t: "dget mine ''cpos'' = Some t"
    using assms(4) by (cases "dget mine ''cpos''") (auto simp: comparable_def)
  then have key: "int_key mine ''cpos'' = Inr cpos" using c(1) by (simp add: int_field_def int_key_def)
  show ?thesis
    using v assms(3,4)
    by (auto simp: verdict_of_def pick compare_reports_def key c(2) bind_res_eq_Inr Let_def)
qed


datatype verdict_class = CMissing | CSame | CNotCompared | CRegrouped | CDiverged

fun class_of :: "verdict \<Rightarrow> verdict_class" where
  "class_of Missing = CMissing"
| "class_of Same = CSame"
| "class_of (NotCompared _) = CNotCompared"
| "class_of (Regrouped _) = CRegrouped"
| "class_of (Diverged _) = CDiverged"

lemma compare_class:
  assumes "compare_reports r mine rep cpos my_span = Inr v"
    and "int_key rep ''cpos'' = Inr c" "int_field rep ''nops'' ''1'' = Inr n"
  shows "class_of v =
     (if (c, c + n - 1) = my_span \<and> dget rep ''fp'' = dget mine ''fp'' then CSame
      else if (c, c + n - 1) \<noteq> my_span \<and> overlap (c, c + n - 1) my_span then CRegrouped
      else CDiverged)"
  using assms by (auto simp: compare_reports_def bind_res_eq_Inr Let_def split: if_splits)

lemma overlap_sym: "overlap a b \<longleftrightarrow> overlap b a"
  by (auto simp: overlap_def)

subsection \<open>Properties\<close>


definition sample_report :: "int \<Rightarrow> string \<Rightarrow> report" where
  "sample_report cpos fp =
     [(''seq'', ''7''), (''cpos'', int_text cpos), (''nops'', ''1''), (''fp'', fp), (''where'', ''device''), (''op'', ''allreduce'')]"

lemma sample_report_fields:
  "int_key (sample_report c fp) ''cpos'' = Inr c" "int_field (sample_report c fp) ''nops'' ''1'' = Inr 1"
proof -
  show "int_key (sample_report c fp) ''cpos'' = Inr c" by (simp add: sample_report_def int_key_def)
  have "py_int ''1'' = Inr 1" by code_simp
  then show "int_field (sample_report c fp) ''nops'' ''1'' = Inr 1" by (simp add: sample_report_def int_field_def)
qed


text \<open>A desync report misses nobody. Every rank of the group gets exactly one verdict; the ranks
  listed as waiting in the same collective, those without a report, and those with a line of their
  own are all the ranks, each once; and the reporting rank itself is always in the first list when
  its incident compares. The report calls itself inconclusive exactly when no rank is missing or
  diverged.\<close>

theorem desync_covers_ranks:
  assumes "desync_verdicts mine reports world = Inr vs"
  shows "set (ranks_with (\<lambda>v. v = Same) vs) \<union> set (ranks_with (\<lambda>v. v = Missing) vs)
      \<union> set (ranks_with (\<lambda>v. verdict_line v \<noteq> []) vs) = {0..<int world}
    \<and> length (ranks_with (\<lambda>v. v = Same) vs) + length (ranks_with (\<lambda>v. v = Missing) vs)
      + length (concat (map verdict_line vs)) = world
    \<and> (\<forall>me < world. comparable mine \<longrightarrow> dget reports (int me) = Some [mine] \<longrightarrow>
         int me \<in> set (ranks_with (\<lambda>v. v = Same) vs))
    \<and> (inconclusive_text \<in> set (closing_lines vs) \<longleftrightarrow>
         ranks_with (\<lambda>v. v = Missing) vs = [] \<and> ranks_with is_diverged vs = [])"
proof -
  have len: "length vs = world" using verdicts_length[OF assms] .
  have kinds: "verdict_line v = [] \<longleftrightarrow> v = Same \<or> v = Missing" for v
    by (cases v) (auto simp: verdict_line_def)
  have "length (ranks_with P vs) = length (filter P vs)" for P
  proof -
    have "map snd (filter (\<lambda>(i, v). P v) (zip [0..<length vs] vs)) = filter P vs"
      using filter_map[of P snd "zip [0..<length vs] vs"] by (simp add: case_prod_unfold o_def)
    then show ?thesis by (simp add: ranks_with_def) (metis length_map)
  qed
  moreover have "length (filter (\<lambda>v. v = Same) xs) + length (filter (\<lambda>v. v = Missing) xs)
      + length (concat (map verdict_line xs)) = length xs" for xs
    by (induction xs) (auto simp: verdict_line_def split: verdict.split)
  ultimately have "length (ranks_with (\<lambda>v. v = Same) vs) + length (ranks_with (\<lambda>v. v = Missing) vs)
      + length (concat (map verdict_line vs)) = world"
    using len by simp
  moreover have "set (ranks_with (\<lambda>v. v = Same) vs) \<union> set (ranks_with (\<lambda>v. v = Missing) vs)
      \<union> set (ranks_with (\<lambda>v. verdict_line v \<noteq> []) vs) = {0..<int world}"
  proof (rule set_eqI)
    fix x
    have "x \<in> {0..<int world} \<longleftrightarrow> 0 \<le> x \<and> nat x < length vs" using len by (auto simp: nat_less_iff)
    then show "x \<in> set (ranks_with (\<lambda>v. v = Same) vs) \<union> set (ranks_with (\<lambda>v. v = Missing) vs)
      \<union> set (ranks_with (\<lambda>v. verdict_line v \<noteq> []) vs) \<longleftrightarrow> x \<in> {0..<int world}"
      unfolding Un_iff ranks_with_mem kinds by blast
  qed
  moreover have "int me \<in> set (ranks_with (\<lambda>v. v = Same) vs)"
    if "me < world" "comparable mine" "dget reports (int me) = Some [mine]" for me
    using own_verdict[OF assms that(1,3,2)] that(1) len by (simp add: ranks_with_mem)
  moreover have "inconclusive_text \<in> set (closing_lines vs) \<longleftrightarrow>
      ranks_with (\<lambda>v. v = Missing) vs = [] \<and> ranks_with is_diverged vs = []"
    by (auto simp: closing_lines_def inconclusive_text_def no_report_text_def Let_def)
  ultimately show ?thesis by blast
qed

lemma desync_covers_ranks_witness:
  "\<exists>vs. desync_verdicts (sample_report 3 ''x'') [(0, [sample_report 3 ''x''])] 2 = Inr vs
     \<and> 0 \<in> set (ranks_with (\<lambda>v. v = Same) vs) \<and> 1 \<in> set (ranks_with (\<lambda>v. v = Missing) vs)"
proof -
  have c: "comparable (sample_report 3 ''x'')" by code_simp
  have v: "desync_verdicts (sample_report 3 ''x'') [(0, [sample_report 3 ''x''])] 2 = Inr [Same, Missing]" by code_simp
  from desync_covers_ranks[OF v] c have "0 \<in> set (ranks_with (\<lambda>v. v = Same) [Same, Missing])"
    by (auto dest: spec[of _ 0])
  moreover have "1 \<in> set (ranks_with (\<lambda>v. v = Missing) [Same, Missing])" by (simp add: ranks_with_mem)
  ultimately show ?thesis using v by blast
qed

end
