(* ===== verification/PG_Reporter.thy ===== *)
theory PG_Reporter
  imports PG_Desync FR_Poller Store_Worker
begin

text \<open>
  The thread behind the desync report (\<^verbatim>\<open>distributed/process_group.py\<close>, \<open>_set_index\<close> to
  \<open>_fr_wait_for_peers\<close>): the per-rank index in the store and its compare-and-set loop, the
  collection of all ranks' incidents, the framing of the watchdog's lines, and what an incident
  does to the flight recorder's generations. The store is the parameter of \<open>FR_Store\<close>; other
  clients act between two operations, as the functions \<open>others\<close> say.
\<close>

definition DESYNC_KEY :: string where "DESYNC_KEY = ''mojo_watchdog''"
definition DESYNC_WAIT_S :: rat where "DESYNC_WAIT_S = 10"

definition index_key :: "int \<Rightarrow> string" where
  "index_key rank = DESYNC_KEY @ ''/'' @ int_text rank"

subsection \<open>The index\<close>

definition index_text :: "int \<Rightarrow> string list \<Rightarrow> string" where
  "index_text gen names = join '' '' (int_text gen # names)"

text \<open>\<open>int(current.split()[0]) >= gen\<close> for a nonempty index.\<close>

definition index_newer :: "string \<Rightarrow> int \<Rightarrow> bool result" where
  "index_newer current gen =
     (if current = [] then Inr False
      else case split_ws current of
        [] \<Rightarrow> Inl (IndexError ''list index out of range'')
      | w # _ \<Rightarrow> bind_res (py_int w) (\<lambda>g. Inr (gen \<le> g)))"

text \<open>\<open>others i\<close> is what the other clients do before this call's \<open>i\<close>-th store operation.\<close>

fun set_index_loop ::
    "'s store_ops \<Rightarrow> (nat \<Rightarrow> 's \<Rightarrow> 's) \<Rightarrow> string \<Rightarrow> int \<Rightarrow> string \<Rightarrow> nat \<Rightarrow> nat \<Rightarrow> 's \<Rightarrow> 's \<times> bool result" where
  "set_index_loop ops others key gen new 0 i s = (s, Inr False)"
| "set_index_loop ops others key gen new (Suc n) i s =
     (let s1 = others i s;
          (s2, current) = (if so_check ops [key] s1
                           then (let t = others (i + 1) s1 in (t, so_get ops key t)) else (s1, []))
      in case index_newer current gen of
           Inl e \<Rightarrow> (s2, Inl e)
         | Inr True \<Rightarrow> (s2, Inr True)
         | Inr False \<Rightarrow>
             (let s3 = others (i + 2) s2
              in case so_compare_set ops key current new of
                   None \<Rightarrow> (s3, Inl (NotImplementedError ''compare_set''))
                 | Some f \<Rightarrow>
                     (let (s4, v) = f s3
                      in if v = new then (s4, Inr True)
                         else set_index_loop ops others key gen new n (i + 3) s4)))"

definition set_index ::
    "'s store_ops \<Rightarrow> (nat \<Rightarrow> 's \<Rightarrow> 's) \<Rightarrow> int \<Rightarrow> int \<Rightarrow> string list \<Rightarrow> 's \<Rightarrow> 's \<times> bool result" where
  "set_index ops others rank gen names s =
     set_index_loop ops others (index_key rank) gen (index_text gen names) 8 0 s"

subsection \<open>Collecting\<close>

definition all_listed :: "'s store_ops \<Rightarrow> nat \<Rightarrow> 's \<Rightarrow> bool" where
  "all_listed ops world s \<longleftrightarrow>
     (let index = map (\<lambda>r. index_key (int r)) [0..<world]
      in so_check ops index s \<and> list_all (\<lambda>v. 1 < length (split_ws v)) (so_multi_get ops index s))"

text \<open>
  The wait before the reads ends at the first poll that finds every rank listed; \<open>polls\<close> are the
  states seen. The reads then see \<open>sp\<close> (which ranks have an index), \<open>sn\<close> (the names) and \<open>sl\<close>
  (the lines).
\<close>

fun collect_wait :: "'s store_ops \<Rightarrow> nat \<Rightarrow> 's list \<Rightarrow> nat" where
  "collect_wait ops world [] = 0"
| "collect_wait ops world (s # polls) = (if all_listed ops world s then 0 else Suc (collect_wait ops world polls))"

definition listed_names :: "'s store_ops \<Rightarrow> int list \<Rightarrow> 's \<Rightarrow> (int \<times> string) list" where
  "listed_names ops present s =
     concat (map (\<lambda>(r, v). map (Pair r) (tl (split_ws v)))
       (zip present (if present = [] then [] else so_multi_get ops (map index_key present) s)))"

definition collect :: "'s store_ops \<Rightarrow> nat \<Rightarrow> 's \<Rightarrow> 's \<Rightarrow> 's \<Rightarrow> (int, report list) dict" where
  "collect ops world sp sn sl =
     (let present = filter (\<lambda>r. so_check ops [index_key r] sp) (map int [0..<world]);
          listed = listed_names ops present sn;
          lines = (if listed = [] then [] else so_multi_get ops (map snd listed) sl)
      in map (\<lambda>r. (r, map (\<lambda>((q, n), v). parse_report v) (filter (\<lambda>((q, n), v). q = r) (zip listed lines)))) present)"

subsection \<open>The reporter\<close>

record reporter =
  rp_pending :: string
  rp_published :: "(string, string) dict"
  rp_gen :: int
  rp_acks :: "int list"

definition new_reporter :: reporter where
  "new_reporter = \<lparr>rp_pending = [], rp_published = [], rp_gen = 0, rp_acks = []\<rparr>"

definition newline_char :: char where "newline_char = char_of (10 :: nat)"

text \<open>One read: the complete lines, and the new remainder.\<close>

definition take_lines :: "string \<Rightarrow> string \<Rightarrow> string list \<times> string" where
  "take_lines pending chunk =
     (let parts = split_on newline_char (pending @ chunk) in (butlast parts, last parts))"

definition next_gen :: "int \<Rightarrow> reporter \<Rightarrow> reporter" where
  "next_gen time_ns rp = rp\<lparr>rp_gen := max (rp_gen rp + 1) time_ns\<rparr>"

definition record_name :: "int \<Rightarrow> string \<Rightarrow> report \<Rightarrow> string" where
  "record_name rank incarnation_id mine =
     DESYNC_KEY @ ''/'' @ int_text rank @ ''/'' @ incarnation_id @ ''/'' @ shown_field mine ''id''"

text \<open>
  One line. \<open>time_ns\<close> is the clock when a generation is taken; the result also says which index, if
  any, is written (its generation and names). An incident is always acknowledged with its byte.
\<close>

definition handle_line ::
    "int \<Rightarrow> string \<Rightarrow> int \<Rightarrow> string \<Rightarrow> reporter \<Rightarrow> (reporter \<times> (int \<times> string list) option) result" where
  "handle_line rank incarnation_id time_ns raw rp =
     (let line = strip raw; inc_fields = parse_report line in
      if startswith line ''resolved'' then
        let tid = or_else (dget inc_fields ''tid'') [] in
        if has_key (rp_published rp) tid then
          let rp1 = next_gen time_ns (rp\<lparr>rp_published := dpop tid (rp_published rp)\<rparr>)
          in Inr (rp1, Some (rp_gen rp1, map snd (rp_published rp1)))
        else Inr (rp, None)
      else
        let rp1 = next_gen time_ns rp;
            rp2 = rp1\<lparr>rp_published := dput (or_else (dget inc_fields ''tid'') ''0'')
                        (record_name rank incarnation_id inc_fields) (rp_published rp1)\<rparr>
        in bind_res (int_field inc_fields ''id'' ''0'') (\<lambda>n.
             Inr (rp2\<lparr>rp_acks := rp_acks rp2 @ [n mod 255 + 1]\<rparr>,
                  Some (rp_gen rp2, map snd (rp_published rp2)))))"

fun handle_lines ::
    "int \<Rightarrow> string \<Rightarrow> (nat \<Rightarrow> int) \<Rightarrow> nat \<Rightarrow> string list \<Rightarrow> reporter \<Rightarrow> (reporter \<times> (int \<times> string list) list) result" where
  "handle_lines rank inc clock i [] rp = Inr (rp, [])"
| "handle_lines rank inc clock i (l # ls) rp =
     bind_res (handle_line rank inc (clock i) l rp) (\<lambda>(rp1, w).
     bind_res (handle_lines rank inc clock (Suc i) ls rp1) (\<lambda>(rp2, ws).
       Inr (rp2, (case w of Some x \<Rightarrow> [x] | None \<Rightarrow> []) @ ws)))"

text \<open>The lines of a sequence of reads, as the loop cuts them.\<close>

fun read_lines :: "string \<Rightarrow> string list \<Rightarrow> string list \<times> string" where
  "read_lines pending [] = ([], pending)"
| "read_lines pending (chunk # chunks) =
     (let (ls, p) = take_lines pending chunk; (ls', p') = read_lines p chunks in (ls @ ls', p'))"

text \<open>The end of the pipe: the index is emptied when incidents are still listed.\<close>

definition reporter_end :: "int \<Rightarrow> reporter \<Rightarrow> reporter \<times> (int \<times> string list) option" where
  "reporter_end time_ns rp =
     (if rp_published rp = [] then (rp, None)
      else let rp1 = next_gen time_ns (rp\<lparr>rp_published := []\<rparr>) in (rp1, Some (rp_gen rp1, [])))"

text \<open>How long one incident may wait for the others.\<close>

definition report_wait_s :: "report \<Rightarrow> rat \<Rightarrow> rat" where
  "report_wait_s mine wait_s = (if dget mine ''exit'' = Some ''1'' then min wait_s 1 else wait_s)"

subsection \<open>An incident and the flight recorder\<close>

definition global_rank :: "int option \<Rightarrow> int \<Rightarrow> int" where
  "global_rank initialized_rank rank = or_else initialized_rank rank"

text \<open>
  \<open>signalled\<close> is the generation the store gave (\<open>None\<close>: it did not answer), \<open>dumped\<close> whether the file
  was written, \<open>ack_sent\<close> whether the acknowledgement got through. The result: the poller, the
  generations acknowledged, and the generation to wait for.
\<close>

definition fr_incident ::
    "env \<Rightarrow> rat \<Rightarrow> rat \<Rightarrow> store_id \<Rightarrow> int option \<Rightarrow> bool \<Rightarrow> bool \<Rightarrow> 'st poller option
     \<Rightarrow> 'st poller option \<times> int list \<times> int" where
  "fr_incident env now1 now2 key signalled dumped ack_sent poller =
     (let gen = or_else signalled 0 in
      if gen = 0 then (poller, [], 0)
      else
        let (poller1, claimed) = fr_claim_gens now1 key gen poller;
            mine = (if dumped then sorted_list_of_set (set (cl_gens claimed) \<union> {gen}) else []);
            acked = (dumped \<and> ack_sent)
        in (fr_finish env now2 claimed dumped acked poller1, mine, gen))"

text \<open>The ranks waited for, and for how long; nothing without a generation or a recorder.\<close>

definition fr_wait_plan ::
    "env \<Rightarrow> ('h \<Rightarrow> group_view option) \<Rightarrow> ('tb, 'h) recorder option \<Rightarrow> report \<Rightarrow> int \<Rightarrow> (int list \<times> rat) option" where
  "fr_wait_plan env deref rec incident gen =
     (case rec of
        None \<Rightarrow> None
      | Some r \<Rightarrow>
          if gen = 0 then None
          else Some (sorted_list_of_set (snd (peer_ranks deref r)),
                     if dget incident ''exit'' = Some ''1'' then 1 / 2 else dump_wait_s env))"

subsection \<open>Lemmas\<close>

definition index_gen :: "string option \<Rightarrow> int" where
  "index_gen v = (case v of None \<Rightarrow> -1 | Some t \<Rightarrow>
     (case split_ws t of [] \<Rightarrow> -1 | w # _ \<Rightarrow> or_else (int_of_text w) (-1)))"

lemma split_ws_Nil [simp]: "split_ws [] = []"
  by (simp add: split_ws_def)

lemma index_text_gen:
  assumes "list_all (\<lambda>n. no_space n \<and> n \<noteq> []) names"
  shows "index_gen (Some (index_text gen names)) = gen"
    "split_ws (index_text gen names) = int_text gen # names" "index_text gen names \<noteq> []"
proof -
  show s: "split_ws (index_text gen names) = int_text gen # names"
    unfolding index_text_def using assms by (intro split_ws_join) (auto simp: list_all_iff)
  then show "index_gen (Some (index_text gen names)) = gen" by (simp add: index_gen_def)
  from s show "index_text gen names \<noteq> []" by auto
qed

lemma index_newer_False:
  "index_newer current gen = Inr False \<Longrightarrow> 0 \<le> gen \<Longrightarrow> index_gen (Some current) < gen"
  by (auto simp: index_newer_def index_gen_def py_int_def bind_res_eq_Inr split: if_splits list.splits option.splits)

lemma index_newer_True:
  "index_newer current gen = Inr True \<Longrightarrow> gen \<le> index_gen (Some current)"
  by (auto simp: index_newer_def index_gen_def py_int_def bind_res_eq_Inr split: if_splits list.splits option.splits)

text \<open>The other clients only ever move this index forward, as every writer of it goes through \<open>set_index\<close>.\<close>

definition forward :: "('s \<Rightarrow> string \<Rightarrow> string option) \<Rightarrow> string \<Rightarrow> (nat \<Rightarrow> 's \<Rightarrow> 's) \<Rightarrow> bool" where
  "forward val key others \<longleftrightarrow> (\<forall>i s. index_gen (val s key) \<le> index_gen (val (others i s) key)
     \<and> (val s key \<noteq> None \<longrightarrow> val (others i s) key \<noteq> None))"

lemma set_index_loop_forward:
  assumes L: "store_laws ops val" and F: "forward val key others" and new: "index_gen (Some new) = gen" "new \<noteq> []"
    and gen: "0 \<le> gen"
    and run: "set_index_loop ops others key gen new n i s = (s', r)"
  shows "index_gen (val s key) \<le> index_gen (val s' key) \<and> (r = Inr True \<longrightarrow> gen \<le> index_gen (val s' key))"
  using run
proof (induction n arbitrary: i s)
  case 0
  then show ?case by auto
next
  case (Suc n)
  have fw: "index_gen (val s key) \<le> index_gen (val (others j s) key)"
    "val s key \<noteq> None \<Longrightarrow> val (others j s) key \<noteq> None" for j s
    using F by (simp_all add: forward_def)
  define s1 where "s1 = others i s"
  define s2 where "s2 = (if so_check ops [key] s1 then others (i + 1) s1 else s1)"
  define current where "current = (if so_check ops [key] s1 then so_get ops key s2 else [])"
  have g2: "index_gen (val s key) \<le> index_gen (val s2 key)"
    using fw(1)[of s i] fw(1)[of s1 "i + 1"] by (auto simp: s2_def s1_def)
  have cur: "current = [] \<and> val s1 key = None \<or> val s2 key = Some current"
  proof (cases "so_check ops [key] s1")
    case True
    then have "val s1 key \<noteq> None" by (simp add: store_laws_check[OF L])
    then have "val s2 key \<noteq> None" using fw(2)[of s1 "i + 1"] True by (simp add: s2_def)
    then show ?thesis using True store_laws_get[OF L] by (auto simp: current_def)
  next
    case False
    then show ?thesis by (auto simp: current_def store_laws_check[OF L])
  qed
  note step = Suc.prems[unfolded set_index_loop.simps(2) Let_def, folded s1_def]
  have pair: "(if so_check ops [key] s1 then (others (i + 1) s1, so_get ops key (others (i + 1) s1)) else (s1, []))
      = (s2, current)" by (simp add: s2_def current_def)
  note step' = step[unfolded pair prod.case]
  show ?case
  proof (cases "index_newer current gen")
    case (Inl e)
    then show ?thesis using step' g2 by auto
  next
    case (Inr b)
    show ?thesis
    proof (cases b)
      case True
      then have "current \<noteq> []" using Inr by (auto simp: index_newer_def)
      then have "val s2 key = Some current" using cur by simp
      then show ?thesis using step' Inr True g2 index_newer_True[of current gen] by auto
    next
      case False
      define s3 where "s3 = others (i + 2) s2"
      have g3: "index_gen (val s key) \<le> index_gen (val s3 key)"
        using g2 fw(1)[of s2 "i + 2"] by (simp add: s3_def)
      show ?thesis
      proof (cases "so_compare_set ops key current new")
        case None
        then show ?thesis using step' Inr False g3 by (auto simp: s3_def)
      next
        case (Some f)
        have small: "index_gen (Some current) < gen" using index_newer_False[of current gen] Inr False gen by simp
        have val4: "val (fst (f s3)) key = fst (cas_value (val s3 key) current new)"
          "snd (f s3) = snd (cas_value (val s3 key) current new)"
          using store_laws_cas[OF L Some] by simp_all
        have cases4: "fst (cas_value (val s3 key) current new) = val s3 key
            \<or> fst (cas_value (val s3 key) current new) = Some new \<and> index_gen (val s3 key) < gen"
          using small gen by (auto simp: cas_value_def index_gen_def split: option.splits)
        then have g4: "index_gen (val s key) \<le> index_gen (val (fst (f s3)) key)"
          using g3 new(1) by (auto simp: val4)
        show ?thesis
        proof (cases "snd (f s3) = new")
          case True
          have "val (fst (f s3)) key = Some new"
            using True new small by (auto simp: val4 cas_value_def split: option.splits if_splits)
          then show ?thesis
            using step' Inr False Some True g4 new by (auto simp: s3_def case_prod_unfold split: if_splits)
        next
          case differs: False
          then have "set_index_loop ops others key gen new n (i + 3) (fst (f s3)) = (s', r)"
            using step' Inr False Some by (auto simp: s3_def case_prod_unfold)
          from Suc.IH[OF this] g4 show ?thesis by auto
        qed
      qed
    qed
  qed
qed

subsection \<open>Framing\<close>

lemma split_on_append:
  "split_on c (a @ b) = butlast (split_on c a) @ split_on c (last (split_on c a) @ b)"
proof (induction a)
  case Nil
  then show ?case by simp
next
  case (Cons x a)
  note IH = Cons.IH
  show ?case
  proof (cases "x = c")
    case True
    then show ?thesis using Cons by simp
  next
    case False
    obtain p ps where a: "split_on c a = p # ps" by (cases "split_on c a") auto
    show ?thesis
    proof (cases ps)
      case Nil
      have "split_on c (a @ b) = split_on c (p @ b)" using IH a Nil by simp
      then show ?thesis using False a Nil by simp
    next
      case (Cons q qs)
      then have "split_on c (a @ b) = p # butlast (q # qs) @ split_on c (last (q # qs) @ b)"
        using IH a by simp
      then show ?thesis using False a Cons by simp
    qed
  qed
qed

lemma split_on_last: "c \<notin> set (last (split_on c a))"
  by (induction a) (auto split: list.splits if_splits)

lemma split_on_none: "c \<notin> set a \<Longrightarrow> split_on c a = [a]"
  by (induction a) auto

lemma read_lines_all:
  assumes "newline_char \<notin> set pending"
  shows "read_lines pending chunks =
     (butlast (split_on newline_char (pending @ concat chunks)), last (split_on newline_char (pending @ concat chunks)))"
  using assms
proof (induction chunks arbitrary: pending)
  case Nil
  then show ?case by (simp add: split_on_none)
next
  case (Cons chunk chunks)
  let ?p = "last (split_on newline_char (pending @ chunk))"
  have "read_lines ?p chunks = (butlast (split_on newline_char (?p @ concat chunks)),
      last (split_on newline_char (?p @ concat chunks)))"
    by (rule Cons.IH) (rule split_on_last)
  then show ?case
    using split_on_append[of newline_char "pending @ chunk" "concat chunks"]
    by (simp add: take_lines_def Let_def butlast_append)
qed

lemma handle_line_effect:
  assumes "handle_line rank inc t raw rp = Inr (rp', w)"
  shows "rp_acks rp' = rp_acks rp @
       (if startswith (strip raw) ''resolved'' then []
        else [or_else (int_of_text (or_else (dget (parse_report (strip raw)) ''id'') ''0'')) 0 mod 255 + 1])"
    "rp_gen rp \<le> rp_gen rp'"
    "case w of Some (g, names) \<Rightarrow> rp_gen rp < g \<and> g = rp_gen rp' \<and> t \<le> g \<and> names = map snd (rp_published rp')
     | None \<Rightarrow> rp_published rp' = rp_published rp"
  using assms
  by (auto simp: handle_line_def next_gen_def Let_def bind_res_eq_Inr int_field_def py_int_def
      split: if_splits option.splits)

definition ack_byte :: "string \<Rightarrow> int" where
  "ack_byte raw = or_else (int_of_text (or_else (dget (parse_report (strip raw)) ''id'') ''0'')) 0 mod 255 + 1"

definition incident_line :: "string \<Rightarrow> bool" where
  "incident_line raw \<longleftrightarrow> \<not> startswith (strip raw) ''resolved''"

lemma handle_lines_effect:
  assumes "handle_lines rank inc clock i ls rp = Inr (rp', ws)"
  shows "rp_acks rp' = rp_acks rp @ map ack_byte (filter incident_line ls)
    \<and> sorted_wrt (<) (map fst ws) \<and> (\<forall>w \<in> set ws. rp_gen rp < fst w \<and> fst w \<le> rp_gen rp') \<and> rp_gen rp \<le> rp_gen rp'"
  using assms
proof (induction ls arbitrary: i rp ws)
  case Nil
  then show ?case by simp
next
  case (Cons l ls)
  from Cons.prems obtain rp1 w ws1 where h: "handle_line rank inc (clock i) l rp = Inr (rp1, w)"
    and t: "handle_lines rank inc clock (Suc i) ls rp1 = Inr (rp', ws1)"
    and ws: "ws = (case w of Some x \<Rightarrow> [x] | None \<Rightarrow> []) @ ws1"
    by (auto simp: bind_res_eq_Inr)
  note e = handle_line_effect[OF h]
  from Cons.IH[OF t] have ih: "rp_acks rp' = rp_acks rp1 @ map ack_byte (filter incident_line ls)"
    "sorted_wrt (<) (map fst ws1)" "\<forall>w \<in> set ws1. rp_gen rp1 < fst w \<and> fst w \<le> rp_gen rp'" "rp_gen rp1 \<le> rp_gen rp'"
    by auto
  have acks: "rp_acks rp' = rp_acks rp @ map ack_byte (filter incident_line (l # ls))"
    using e(1) ih(1) by (simp add: ack_byte_def incident_line_def)
  have "sorted_wrt (<) (map fst ws) \<and> (\<forall>w \<in> set ws. rp_gen rp < fst w \<and> fst w \<le> rp_gen rp')"
    using e(2,3) ih(2-4) by (cases w) (auto simp: ws)
  then show ?case using acks e(2) ih(4) by auto
qed

subsection \<open>Properties\<close>



text \<open>C14: The watchdog's lines are cut the same however the pipe delivers them: reading in any chunks
  gives exactly the lines of the whole text, and the part after the last newline as remainder.\<close>

theorem framing_ignores_chunks:
  "read_lines [] chunks =
     (butlast (split_on newline_char (concat chunks)), last (split_on newline_char (concat chunks)))"
  using read_lines_all[of "[]" chunks] by simp

text \<open>Every incident is acknowledged, once, in order, with its own byte between 1 and 255 (a
  resolved line is not), and each index the reporter writes has a higher generation than the one
  before, so updates can never be applied out of order.\<close>

theorem incidents_acknowledged:
  assumes "handle_lines rank inc clock i ls rp = Inr (rp', ws)"
  shows "rp_acks rp' = rp_acks rp @ map ack_byte (filter incident_line ls)
    \<and> list_all (\<lambda>b. 1 \<le> b \<and> b \<le> 255) (map ack_byte ls)
    \<and> sorted_wrt (<) (rp_gen rp # map fst ws)"
proof -
  have "1 \<le> ack_byte l \<and> ack_byte l \<le> 255" for l
    using pos_mod_bound[of 255 "or_else (int_of_text (or_else (dget (parse_report (strip l)) ''id'') ''0'')) 0"]
      pos_mod_sign[of 255 "or_else (int_of_text (or_else (dget (parse_report (strip l)) ''id'') ''0'')) 0"]
    by (simp add: ack_byte_def)
  then show ?thesis using handle_lines_effect[OF assms] by (auto simp: list_all_iff)
qed

definition sample_lines :: "string list" where
  "sample_lines = [''incident id=3 tid=1'', ''resolved tid=1'', ''incident id=4 tid=2'']"

lemma incidents_acknowledged_witness:
  "\<exists>rp' ws. handle_lines 0 ''x'' (\<lambda>i. 100) 0 sample_lines new_reporter = Inr (rp', ws) \<and> rp_acks rp' = [4, 5]"
proof -
  have ok: "case handle_lines 0 ''x'' (\<lambda>i. 100) 0 sample_lines new_reporter of Inr _ \<Rightarrow> True | Inl _ \<Rightarrow> False"
    by code_simp
  then obtain rp' ws where h: "handle_lines 0 ''x'' (\<lambda>i. 100) 0 sample_lines new_reporter = Inr (rp', ws)"
    by (auto split: sum.split_asm)
  have "map ack_byte (filter incident_line sample_lines) = [4, 5]" by code_simp
  with incidents_acknowledged[OF h] h show ?thesis by (auto simp: new_reporter_def)
qed

text \<open>An incident settles what it claims: after a rank's watchdog fired, the generations it took
  from the monitor are no longer in flight (dumped, or failed and due for a retry), it
  acknowledges only what it dumped, and the generation it signalled is among those.\<close>

theorem incident_settles_claim:
  assumes "fr_step p out dlog" "dget (po_states p) key = Some sid"
    and "fr_incident env now1 now2 key signalled dumped ack_sent (Some p) = (Some p', acks, gen)"
  shows "ss_pending (the_state p' sid) = ss_pending (the_state p sid)
    \<and> (acks \<noteq> [] \<longrightarrow> dumped) \<and> (dumped \<longrightarrow> gen \<noteq> 0 \<longrightarrow> gen \<in> set acks)
    \<and> (dumped \<longrightarrow> gen \<noteq> 0 \<longrightarrow> set acks \<subseteq> served (the_state p' sid) \<union> {gen})"
proof -
  from fr_invD(3)[OF fr_step_inv[OF assms(1)] assms(2)] obtain st where st: "dget (po_heap p) sid = Some st" by blast
  from fr_invD(2)[OF fr_step_inv[OF assms(1)] st] have "ledger_of st (outs_of sid out) (log_of sid dlog)" by blast
  then have ok: "gens_ok st" unfolding ledger_of_def using gens.run_ok[OF _ gens_ok_new] by blast
  show ?thesis
  proof (cases "or_else signalled 0 = 0")
    case True
    then show ?thesis using assms(3) by (auto simp: fr_incident_def Let_def)
  next
    case False
    obtain st' gs where c: "claim_gens now1 st (or_else signalled 0) = (st', gs)" by (metis surj_pair)
    have cl: "gens_ok st'" "set gs \<inter> (served st \<union> ss_pending st) = {}" "ss_pending st' = ss_pending st \<union> set gs"
      "served st' = served st" "finite (set gs)"
      using claim_ok[OF ok c] claim_fresh[OF ok c] claim_pending[OF c ok] claim_served[OF c] by auto
    have sub: "set gs \<subseteq> ss_pending st'" using cl(3) by auto
    have p': "the_state p' sid = finish_gens env now2 st' gs dumped (dumped \<and> ack_sent)" "gen = or_else signalled 0"
      "acks = (if dumped then sorted_list_of_set (set gs \<union> {gen}) else [])"
      using assms(2,3) False st c
      by (auto simp: fr_incident_def fr_claim_gens_def fr_finish_def the_state_def Let_def)
    from finish_ok[OF cl(1) sub, of env now2 dumped "dumped \<and> ack_sent"] p'(1)
    have f: "ss_pending (the_state p' sid) = ss_pending st' - set gs"
      "served (the_state p' sid) = served st' \<union> (if dumped then set gs else {})" by auto
    have "ss_pending (the_state p' sid) = ss_pending st" using f(1) cl(2,3) by auto
    moreover have "the_state p sid = st" using st by (simp add: the_state_def)
    moreover have "dumped \<Longrightarrow> set acks = set gs \<union> {gen}"
      unfolding p'(3) by (simp only: if_True set_sorted_list_of_set finite_Un finite.intros cl(5))
    moreover have "acks \<noteq> [] \<Longrightarrow> dumped" using p'(3) by (cases dumped) auto
    ultimately show ?thesis using f(2) by auto
  qed
qed

lemma incident_settles_claim_witness:
  "\<exists>p' acks. fr_incident (\<lambda>_. None) 1 2 (FileStore ''f'') (Some 4) True True (Some sample_poller) = (Some p', acks, 4)
     \<and> 4 \<in> set acks \<and> ss_pending (the_state p' 0) = ss_pending (the_state sample_poller 0)"
proof -
  have s: "dget (po_states sample_poller) (FileStore ''f'') = Some 0"
    by (simp add: sample_poller_def attach_def dump_on_timeout_def bool_or_def Poller_def put_state_def
        poller_pipe_def Let_def or_else_def)
  obtain p' acks where i: "fr_incident (\<lambda>_. None) 1 2 (FileStore ''f'') (Some 4) True True (Some sample_poller)
      = (Some p', acks, 4)"
    by (auto simp: fr_incident_def fr_claim_gens_def fr_finish_def s Let_def case_prod_unfold)
  from incident_settles_claim[OF sample_poller_step s i] i show ?thesis by auto
qed

end
