(* ===== verification/PG_State.thy ===== *)
theory PG_State
  imports PG_Desync
begin

text \<open>
  The state of a \<^verbatim>\<open>MojoProcessGroup\<close> (\<^verbatim>\<open>distributed/process_group.py\<close>) and the plumbing its
  collectives share: communicators, staging, fences, deferral inside a coalescing block, NCCL
  groups and the flight recorder's tags. An action takes the group's state and gives it back with a
  result or the exception raised; what the group does to devices and libraries is the log of
  events. The thread a call runs on is an argument, since coalescing blocks belong to threads.
\<close>

subsection \<open>Tensors and events\<close>

datatype device = CpuDevice | MojoDevice "int option" | OtherDevice string

text \<open>\<open>t_id\<close> is the identity of the Python object, \<open>t_ptr\<close> its data pointer.\<close>

record tensor =
  t_id :: int
  t_device :: device
  t_dtype :: dtype
  t_shape :: "int list"
  t_contig :: bool
  t_ptr :: int

definition numel :: "tensor \<Rightarrow> int" where
  "numel t = prod_list (t_shape t)"

definition as_shaped :: "tensor \<Rightarrow> shaped" where
  "as_shaped t = \<lparr>sh_shape = t_shape t, sh_dtype = t_dtype t\<rparr>"

text \<open>The entries of the native core (\<^verbatim>\<open>_Core\<close>), with their pointers, counts and codes.\<close>

datatype native_call =
    CCreate
  | CUniqueId
  | CInitDevice
  | CWatchdog int int
  | CAttach int
  | CAllreduce int int int int
  | CBroadcast int int int int
  | CReduce int int int int int
  | CAllgather int int int int
  | CReduceScatter int int int int int
  | CSend int int int int
  | CRecv int int int int
  | CSyncComm
  | CAbort

text \<open>
  \<open>EvCopyBack\<close> and \<open>EvReadBack\<close> read what a collective wrote, \<open>EvFence\<close> ties a buffer's release to
  the comm stream: these must come after the collective was submitted. \<open>EvStage\<close>, \<open>EvAlloc\<close>,
  \<open>EvJoin\<close> and \<open>EvLocal\<close> touch no collective's result. The first number is the thread, the second
  the device.
\<close>

datatype event =
    EvGroupStart int bool
  | EvGroupEnd int int bool
  | EvNative int int native_call int bool
  | EvWaitStream int int
  | EvStage int int tensor tensor
  | EvAlloc int int tensor
  | EvJoin int int tensor "tensor list"
  | EvLocal int int tensor tensor
  | EvCopyBack int int tensor tensor
  | EvReadBack int int tensor tensor
  | EvFence int int tensor
  | EvWork int int "tensor list"
  | EvSynchronize int int
  | EvGloo int string bool
  | EvStoreSet string
  | EvStoreGet string

subsection \<open>The group\<close>

text \<open>
  \<open>pg_recorder\<close> is the process's recorder, which all groups share; \<open>pg_fr\<close> says whether
  \<^verbatim>\<open>self._fr\<close> refers to it.
\<close>

record ('tb, 'h) pgroup =
  pg_rank :: int
  pg_size :: nat
  pg_handle :: bool
  pg_ready :: "(int, int) dict"
  pg_seq :: nat
  pg_coalescing :: "int option"
  pg_co_thread :: "int option"
  pg_co_tensors :: "tensor list"
  pg_co_records :: "tensor list"
  pg_co_pairs :: "(tensor \<times> tensor) list"
  pg_recorder :: "('tb, 'h) recorder option"
  pg_fr :: bool
  pg_fr_pg_id :: int
  pg_fr_block :: "bool list option"
  pg_tls :: "int \<Rightarrow> int"
  pg_next :: int
  pg_log :: "event list"

text \<open>
  What the group asks of its surroundings: whether a native call or a gloo collective made now (the
  log tells when) succeeds, the last native error, the current device and the kind of each, the
  stream of a communicator, the address of a new buffer, a captured traceback, and whether the
  unique id read from the store has the right length.
\<close>

record ('tb, 'h) surroundings =
  su_native :: "event list \<Rightarrow> native_call \<Rightarrow> bool"
  su_group :: "event list \<Rightarrow> bool"
  su_gloo :: "event list \<Rightarrow> bool"
  su_error :: string
  su_current :: int
  su_api :: "int \<Rightarrow> string"
  su_stream :: "int \<Rightarrow> int"
  su_address :: "int \<Rightarrow> int"
  su_traceback :: 'tb
  su_self :: 'h
  su_version :: int
  su_deref :: "'h \<Rightarrow> group_view option"
  su_unique_id_ok :: "string \<Rightarrow> bool"
  su_mojoccl :: bool
  su_show_op :: "red_op \<Rightarrow> string"
  su_env :: env
  su_timeout_us :: int

definition new_group :: "int \<Rightarrow> nat \<Rightarrow> ('tb, 'h) recorder option \<Rightarrow> ('tb, 'h) pgroup" where
  "new_group rank world fr =
     \<lparr>pg_rank = rank, pg_size = world, pg_handle = False, pg_ready = [], pg_seq = 0, pg_coalescing = None,
      pg_co_thread = None, pg_co_tensors = [], pg_co_records = [], pg_co_pairs = [], pg_recorder = fr, pg_fr = False,
      pg_fr_pg_id = -1, pg_fr_block = None, pg_tls = (\<lambda>_. 0), pg_next = 0, pg_log = []\<rparr>"

subsection \<open>Actions\<close>

type_synonym ('tb, 'h, 'a) act = "('tb, 'h) pgroup \<Rightarrow> ('tb, 'h) pgroup \<times> 'a result"

definition retp :: "'a \<Rightarrow> ('tb, 'h, 'a) act" where
  "retp x = (\<lambda>s. (s, Inr x))"

definition raisep :: "py_error \<Rightarrow> ('tb, 'h, 'a) act" where
  "raisep e = (\<lambda>s. (s, Inl e))"

definition liftp :: "'a result \<Rightarrow> ('tb, 'h, 'a) act" where
  "liftp r = (\<lambda>s. (s, r))"

definition bindp :: "('tb, 'h, 'a) act \<Rightarrow> ('a \<Rightarrow> ('tb, 'h, 'b) act) \<Rightarrow> ('tb, 'h, 'b) act" where
  "bindp m f = (\<lambda>s. case m s of (s', Inl e) \<Rightarrow> (s', Inl e) | (s', Inr x) \<Rightarrow> f x s')"

definition seqp :: "('tb, 'h, 'a) act \<Rightarrow> ('tb, 'h, 'b) act \<Rightarrow> ('tb, 'h, 'b) act" where
  "seqp m n = bindp m (\<lambda>_. n)"

definition getp :: "(('tb, 'h) pgroup \<Rightarrow> 'a) \<Rightarrow> ('tb, 'h, 'a) act" where
  "getp f = (\<lambda>s. (s, Inr (f s)))"

definition modp :: "(('tb, 'h) pgroup \<Rightarrow> ('tb, 'h) pgroup) \<Rightarrow> ('tb, 'h, unit) act" where
  "modp f = (\<lambda>s. (f s, Inr ()))"

definition whenp :: "bool \<Rightarrow> ('tb, 'h, unit) act \<Rightarrow> ('tb, 'h, unit) act" where
  "whenp b m = (if b then m else retp ())"

text \<open>\<open>if bad: raise\<close>, \<open>try/finally\<close>, and an \<open>except Exception\<close> that swallows.\<close>

definition guardp :: "bool \<Rightarrow> py_error \<Rightarrow> ('tb, 'h, unit) act" where
  "guardp bad e = (if bad then raisep e else retp ())"

definition finallyp :: "('tb, 'h, 'a) act \<Rightarrow> ('tb, 'h, unit) act \<Rightarrow> ('tb, 'h, 'a) act" where
  "finallyp m f = (\<lambda>s. case m s of (s1, r) \<Rightarrow> (case f s1 of (s2, Inl e) \<Rightarrow> (s2, Inl e) | (s2, Inr _) \<Rightarrow> (s2, r)))"

definition exceptp :: "('tb, 'h, 'a) act \<Rightarrow> ('tb, 'h, unit) act \<Rightarrow> ('tb, 'h, 'a) act" where
  "exceptp m h = (\<lambda>s. case m s of (s1, Inl e) \<Rightarrow> (fst (h s1), Inl e) | (s1, Inr x) \<Rightarrow> (s1, Inr x))"

definition swallowp :: "('tb, 'h, unit) act \<Rightarrow> ('tb, 'h, unit) act" where
  "swallowp m = (\<lambda>s. (fst (m s), Inr ()))"

fun mapp :: "('a \<Rightarrow> ('tb, 'h, 'b) act) \<Rightarrow> 'a list \<Rightarrow> ('tb, 'h, 'b list) act" where
  "mapp f [] = retp []"
| "mapp f (x # xs) = bindp (f x) (\<lambda>y. bindp (mapp f xs) (\<lambda>ys. retp (y # ys)))"

fun forp :: "('a \<Rightarrow> ('tb, 'h, unit) act) \<Rightarrow> 'a list \<Rightarrow> ('tb, 'h, unit) act" where
  "forp f [] = retp ()"
| "forp f (x # xs) = seqp (f x) (forp f xs)"

lemmas act_simps = retp_def raisep_def liftp_def bindp_def seqp_def getp_def modp_def whenp_def guardp_def

definition emit :: "event \<Rightarrow> ('tb, 'h, unit) act" where
  "emit ev = modp (\<lambda>s. s\<lparr>pg_log := pg_log s @ [ev]\<rparr>)"

text \<open>\<open>self._ready[index]\<close>.\<close>

definition comm_of :: "int \<Rightarrow> ('tb, 'h, int) act" where
  "comm_of index = bindp (getp pg_ready) (\<lambda>ready.
     case dget ready index of Some c \<Rightarrow> retp c | None \<Rightarrow> raisep (KeyError (int_text index)))"

subsection \<open>Native calls\<close>

definition failed :: "('tb, 'h) surroundings \<Rightarrow> string \<Rightarrow> py_error" where
  "failed su what = RuntimeError (what @ '' failed: '' @ su_error su)"

definition fr_tag :: "int \<Rightarrow> ('tb, 'h, int) act" where
  "fr_tag t = getp (\<lambda>s. pg_tls s t)"

text \<open>\<open>self._core.check(self._core.<call>(..., self._fr_tag()), what)\<close>.\<close>

definition native :: "('tb, 'h) surroundings \<Rightarrow> int \<Rightarrow> int \<Rightarrow> native_call \<Rightarrow> string \<Rightarrow> ('tb, 'h, unit) act" where
  "native su t index call what =
     bindp (fr_tag t) (\<lambda>tag. bindp (getp pg_log) (\<lambda>log.
       let ok = su_native su log call in
       seqp (emit (EvNative t index call tag ok)) (guardp (\<not> ok) (failed su what))))"

definition group_start :: "('tb, 'h) surroundings \<Rightarrow> int \<Rightarrow> ('tb, 'h, unit) act" where
  "group_start su t =
     bindp (getp pg_log) (\<lambda>log. let ok = su_group su log in
       seqp (emit (EvGroupStart t ok)) (guardp (\<not> ok) (failed su ''ncclGroupStart'')))"

definition group_end :: "('tb, 'h) surroundings \<Rightarrow> int \<Rightarrow> ('tb, 'h, unit) act" where
  "group_end su t =
     bindp (fr_tag t) (\<lambda>tag. bindp (getp pg_log) (\<lambda>log. let ok = su_group su log in
       seqp (emit (EvGroupEnd t tag ok)) (guardp (\<not> ok) (failed su ''ncclGroupEnd''))))"

subsection \<open>Coalescing and NCCL groups\<close>

definition coalescing_open :: "int \<Rightarrow> ('tb, 'h, bool) act" where
  "coalescing_open t = bindp (getp pg_coalescing) (\<lambda>c. bindp (getp pg_co_thread) (\<lambda>owner.
     if c = None then retp False
     else if owner \<noteq> Some t
     then raisep (RuntimeError ''a coalescing block of this process group is open on another thread'')
     else retp True))"

definition in_group :: "('tb, 'h) surroundings \<Rightarrow> int \<Rightarrow> ('tb, 'h, 'a) act \<Rightarrow> ('tb, 'h, 'a) act" where
  "in_group su t body = bindp (coalescing_open t) (\<lambda>inside.
     if inside then body else seqp (group_start su t) (finallyp body (group_end su t)))"

subsection \<open>Devices and tensors\<close>

definition is_cpu :: "tensor \<Rightarrow> bool result" where
  "is_cpu x =
     (case t_device x of
        CpuDevice \<Rightarrow> Inr True
      | MojoDevice _ \<Rightarrow> Inr False
      | OtherDevice d \<Rightarrow>
          Inl (ValueError (''the mojo distributed backend handles mojo and cpu tensors, got '' @ d)))"

definition tensor_index :: "('tb, 'h) surroundings \<Rightarrow> tensor \<Rightarrow> int" where
  "tensor_index su x = (case t_device x of MojoDevice (Some i) \<Rightarrow> i | _ \<Rightarrow> su_current su)"

definition one_per_rank :: "tensor list \<Rightarrow> unit result" where
  "one_per_rank xs =
     (if length xs \<noteq> 1 then Inl (ValueError ''the mojo backend takes exactly one tensor per rank per call'') else Inr ())"

definition same_device :: "('tb, 'h) surroundings \<Rightarrow> tensor list \<Rightarrow> int result" where
  "same_device su xs =
     (case xs of
        [] \<Rightarrow> Inl (ValueError ''no tensors'')
      | x # _ \<Rightarrow> bind_res (is_cpu x) (\<lambda>cpu.
          if cpu \<or> list_ex (\<lambda>y. t_id y \<noteq> t_id x \<and> t_device y \<noteq> t_device x) xs
          then Inl (ValueError ''all tensors of a collective must be on the same mojo device'')
          else Inr (tensor_index su x)))"

text \<open>A buffer of its own, made on the comm stream.\<close>

definition new_tensor :: "('tb, 'h) surroundings \<Rightarrow> device \<Rightarrow> dtype \<Rightarrow> int list \<Rightarrow> ('tb, 'h, tensor) act" where
  "new_tensor su dev dt shape = bindp (getp pg_next) (\<lambda>n.
     seqp (modp (\<lambda>s. s\<lparr>pg_next := n + 1\<rparr>))
       (retp \<lparr>t_id = n, t_device = dev, t_dtype = dt, t_shape = shape, t_contig = True, t_ptr = su_address su n\<rparr>))"

definition stage_in :: "('tb, 'h) surroundings \<Rightarrow> int \<Rightarrow> int \<Rightarrow> tensor \<Rightarrow> ('tb, 'h, tensor) act" where
  "stage_in su t index x =
     (if t_contig x then retp x
      else bindp (comm_of index) (\<lambda>_. seqp (emit (EvWaitStream t index))
        (bindp (new_tensor su (t_device x) (t_dtype x) (t_shape x)) (\<lambda>staged.
          seqp (emit (EvStage t index staged x)) (retp staged)))))"

definition stage_out :: "('tb, 'h) surroundings \<Rightarrow> int \<Rightarrow> int \<Rightarrow> tensor \<Rightarrow> ('tb, 'h, tensor) act" where
  "stage_out su t index x =
     (if t_contig x then retp x
      else bindp (comm_of index) (\<lambda>_.
        bindp (new_tensor su (t_device x) (t_dtype x) (t_shape x)) (\<lambda>staged.
          seqp (emit (EvAlloc t index staged)) (retp staged))))"

text \<open>A tensor that is the one just fenced (a contiguous input is its own staging buffer) is skipped.\<close>

fun fence_events :: "int \<Rightarrow> int \<Rightarrow> tensor option \<Rightarrow> tensor list \<Rightarrow> event list" where
  "fence_events t index previous [] = []"
| "fence_events t index previous (x # xs) =
     (if map_option t_id previous = Some (t_id x) then [] else [EvFence t index x])
     @ fence_events t index (Some x) xs"

definition record_tensors :: "int \<Rightarrow> int \<Rightarrow> tensor list \<Rightarrow> ('tb, 'h, unit) act" where
  "record_tensors t index xs = bindp (coalescing_open t) (\<lambda>inside.
     if inside then modp (\<lambda>s. s\<lparr>pg_co_records := pg_co_records s @ xs\<rparr>)
     else bindp (comm_of index) (\<lambda>_. forp emit (fence_events t index None xs)))"

text \<open>The pairs are (output, staged).\<close>

definition finish_events :: "int \<Rightarrow> int \<Rightarrow> (tensor \<times> tensor) list \<Rightarrow> event list" where
  "finish_events t index pairs =
     concat (map (\<lambda>(x, staged). if t_id staged \<noteq> t_id x
        then [EvCopyBack t index x staged, EvFence t index staged] else []) pairs)
     @ map (\<lambda>(x, staged). EvFence t index x) pairs"

definition finish_pairs :: "int \<Rightarrow> int \<Rightarrow> (tensor \<times> tensor) list \<Rightarrow> ('tb, 'h, unit) act" where
  "finish_pairs t index pairs = bindp (coalescing_open t) (\<lambda>inside.
     if inside then modp (\<lambda>s. s\<lparr>pg_co_pairs := pg_co_pairs s @ pairs\<rparr>)
     else bindp (comm_of index) (\<lambda>_. forp emit (finish_events t index pairs)))"

definition make_work :: "int \<Rightarrow> int \<Rightarrow> tensor list \<Rightarrow> ('tb, 'h, unit) act" where
  "make_work t index xs = bindp (comm_of index) (\<lambda>_. emit (EvWork t index xs))"

definition result_work :: "int \<Rightarrow> int \<Rightarrow> tensor list \<Rightarrow> ('tb, 'h, unit) act" where
  "result_work t index xs = bindp (coalescing_open t) (\<lambda>inside.
     seqp (whenp inside (modp (\<lambda>s. s\<lparr>pg_co_tensors := pg_co_tensors s @ xs\<rparr>))) (make_work t index xs))"

subsection \<open>The flight recorder\<close>

definition fr_op :: "('tb, 'h) surroundings \<Rightarrow> int \<Rightarrow> string \<Rightarrow> shaped list \<Rightarrow> shaped list \<Rightarrow> bool \<Rightarrow> ('tb, 'h, unit) act" where
  "fr_op su t name ins outs p2p = modp (\<lambda>s.
     case pg_recorder s of
       None \<Rightarrow> s
     | Some fr \<Rightarrow>
         if \<not> pg_fr s then s
         else
         let flags0 = (if p2p then TAG_P2P else 0);
             (flags, block) = (case pg_fr_block s of
                Some block \<Rightarrow>
                  if pg_co_thread s = Some t
                  then (let fl = flags0 OR TAG_MEMBER in (if block = [] then fl OR TAG_FIRST else fl, Some (block @ [p2p])))
                  else (flags0, Some block)
              | None \<Rightarrow> (flags0, None));
             (fr', tag) = rec_begin fr (su_traceback su) name ins outs flags
         in s\<lparr>pg_recorder := Some fr', pg_fr_block := block, pg_tls := (pg_tls s)(t := tag)\<rparr>)"

definition fr_block_end :: "('tb, 'h) surroundings \<Rightarrow> int \<Rightarrow> ('tb, 'h, unit) act" where
  "fr_block_end su t = modp (\<lambda>s.
     let s1 = s\<lparr>pg_fr_block := None\<rparr>
     in case (pg_recorder s, pg_fr_block s) of
          (Some fr, Some block) \<Rightarrow>
            if \<not> pg_fr s then s1
            else let (fr', tag) = rec_begin fr (su_traceback su) ''coalesced'' [] []
                  (TAG_END OR (if list_ex id block then TAG_P2P else 0))
            in s1\<lparr>pg_recorder := Some fr', pg_tls := (pg_tls s1)(t := tag)\<rparr>
        | _ \<Rightarrow> s1)"

subsection \<open>Communicators\<close>

text \<open>The timeout, action and acknowledgement wait the watchdog is started with.\<close>

definition watchdog_timeout_ms :: "int \<Rightarrow> int" where
  "watchdog_timeout_ms timeout_us = max (min (seconds_to_ms (total_seconds timeout_us)) (10 ^ 12)) 0"

definition watchdog_off :: "int \<Rightarrow> int \<Rightarrow> bool" where
  "watchdog_off action timeout_us \<longleftrightarrow> action = 0 \<or> timeout_us \<le> 0"

definition watchdog_ack_ms :: "env \<Rightarrow> int \<Rightarrow> bool \<Rightarrow> int" where
  "watchdog_ack_ms env timeout_us records =
     (let wait_s = min 10 (total_seconds timeout_us);
          fr_wait_s = (if records \<and> dump_on_timeout env then dump_wait_s env + 20 else 0)
      in \<lfloor>(wait_s + 5 + fr_wait_s) * 1000\<rfloor>)"

definition version_text :: "int \<Rightarrow> string" where
  "version_text v = int_text (v div 10000) @ ''.'' @ int_text (v div 100 mod 100) @ ''.'' @ int_text (v mod 100)"

definition start_watchdog :: "('tb, 'h) surroundings \<Rightarrow> int \<Rightarrow> ('tb, 'h, unit) act" where
  "start_watchdog su t = bindp (liftp (watchdog_action (su_env su))) (\<lambda>action.
     let ms = watchdog_timeout_ms (su_timeout_us su) in
     if watchdog_off action (su_timeout_us su)
     then native su t (-1) (CWatchdog ms 0) ''setting the process group timeout''
     else seqp (native su t (-1) (CWatchdog ms action) ''starting the collective watchdog'')
       (modp (\<lambda>s.
          case pg_recorder s of
            None \<Rightarrow> s
          | Some fr \<Rightarrow>
              let (fr1, pg_id) = add_group fr (su_self su);
                  ok = su_native su (pg_log s) (CAttach pg_id);
                  s1 = s\<lparr>pg_log := pg_log s @ [EvNative t (-1) (CAttach pg_id) 0 ok]\<rparr>
              in if ok
                 then s1\<lparr>pg_fr_pg_id := pg_id, pg_fr := True,
                        pg_recorder := Some (fr1\<lparr>r_comm_lib_version := version_text (su_version su)\<rparr>)\<rparr>
                 else s1\<lparr>pg_recorder := Some (retire (su_deref su) fr1 pg_id)\<rparr>)))"

definition initialize_collectives :: "('tb, 'h) surroundings \<Rightarrow> int \<Rightarrow> ('tb, 'h, unit) act" where
  "initialize_collectives su t = bindp (getp pg_log) (\<lambda>log. let ok = su_native su log CCreate in
     seqp (emit (EvNative t (-1) CCreate 0 ok))
     (seqp (modp (\<lambda>s. s\<lparr>pg_handle := ok\<rparr>))
     (seqp (guardp (\<not> ok) (RuntimeError (''could not load the collectives library: '' @ su_error su)))
       (start_watchdog su t))))"

definition unique_id_key :: "nat \<Rightarrow> string" where
  "unique_id_key n = ''mojo-ccl-unique-id-'' @ nat_text n"

definition exchange_unique_id :: "('tb, 'h) surroundings \<Rightarrow> int \<Rightarrow> string \<Rightarrow> ('tb, 'h, unit) act" where
  "exchange_unique_id su t key = bindp (getp pg_rank) (\<lambda>rank.
     if rank = 0 then seqp (native su t (-1) CUniqueId ''ncclGetUniqueId'') (emit (EvStoreSet key))
     else seqp (emit (EvStoreGet key))
            (guardp (\<not> su_unique_id_ok su key) (RuntimeError (''bad unique id from store key '' @ key))))"

definition ensure :: "('tb, 'h) surroundings \<Rightarrow> int \<Rightarrow> int \<Rightarrow> ('tb, 'h, int) act" where
  "ensure su t index = bindp (getp pg_ready) (\<lambda>ready.
     case dget ready index of
       Some c \<Rightarrow> retp c
     | None \<Rightarrow>
         bindp (coalescing_open t) (\<lambda>inside.
         seqp (guardp inside (RuntimeError ''cannot create a communicator inside a coalescing block''))
         (seqp (guardp (su_api su index \<notin> {''cuda'', ''hip''})
           (NotImplementedError (''mojo GPU collectives require CUDA or HIP, got '' @ su_api su index
              @ ''; CPU tensors can use Gloo'')))
         (bindp (getp pg_handle) (\<lambda>handle. seqp (whenp (\<not> handle) (initialize_collectives su t))
         (bindp (getp pg_seq) (\<lambda>n.
           seqp (modp (\<lambda>s. s\<lparr>pg_seq := n + 1\<rparr>))
           (seqp (exchange_unique_id su t (unique_id_key n))
           (seqp (native su t index CInitDevice ''ncclCommInitRank'')
           (seqp (modp (\<lambda>s. s\<lparr>pg_ready := dput index (su_stream su index) (pg_ready s)\<rparr>))
             (retp (su_stream su index))))))))))))"

subsection \<open>Coalescing blocks\<close>

definition start_coalescing :: "('tb, 'h) surroundings \<Rightarrow> int \<Rightarrow> int option \<Rightarrow> ('tb, 'h, unit) act" where
  "start_coalescing su t dev = bindp (getp pg_coalescing) (\<lambda>c.
     seqp (guardp (c \<noteq> None) (RuntimeError ''coalescing blocks do not nest''))
     (let index = or_else dev (su_current su) in
      bindp (ensure su t index) (\<lambda>_. seqp (group_start su t)
        (modp (\<lambda>s. s\<lparr>pg_coalescing := Some index, pg_co_thread := Some t, pg_co_tensors := [],
           pg_co_records := [], pg_co_pairs := [], pg_fr_block := Some []\<rparr>)))))"

definition drop_block :: "('tb, 'h) pgroup \<Rightarrow> ('tb, 'h) pgroup" where
  "drop_block s = s\<lparr>pg_coalescing := None, pg_co_thread := None, pg_co_tensors := [],
     pg_co_records := [], pg_co_pairs := []\<rparr>"

definition end_coalescing :: "('tb, 'h) surroundings \<Rightarrow> int \<Rightarrow> int option \<Rightarrow> ('tb, 'h, unit) act" where
  "end_coalescing su t dev = bindp (getp (\<lambda>s. s)) (\<lambda>s0.
     let index = or_else (pg_coalescing s0) (or_else dev (su_current su)) in
     seqp (modp drop_block)
     (seqp (fr_block_end su t)
     (seqp (finallyp (group_end su t) (modp (\<lambda>s. s\<lparr>pg_tls := (pg_tls s)(t := 0)\<rparr>)))
     (seqp (record_tensors t index (pg_co_records s0))
     (seqp (finish_pairs t index (pg_co_pairs s0))
       (make_work t index (pg_co_tensors s0)))))))"

definition abort_coalescing :: "('tb, 'h) surroundings \<Rightarrow> int \<Rightarrow> ('tb, 'h, unit) act" where
  "abort_coalescing su t = bindp (getp (\<lambda>s. s)) (\<lambda>s0.
     case pg_coalescing s0 of
       None \<Rightarrow> retp ()
     | Some index \<Rightarrow>
         seqp (modp drop_block)
           (swallowp (seqp (fr_block_end su t)
             (seqp (group_end su t)
             (seqp (record_tensors t index (pg_co_records s0))
               (finish_pairs t index (pg_co_pairs s0)))))))"

text \<open>The wrapper of every collective: a failure unwinds the open block, the tag is always cleared.\<close>

definition loud :: "('tb, 'h) surroundings \<Rightarrow> int \<Rightarrow> ('tb, 'h, unit) act \<Rightarrow> ('tb, 'h, unit) act" where
  "loud su t m = finallyp (exceptp m (abort_coalescing su t)) (modp (\<lambda>s. s\<lparr>pg_tls := (pg_tls s)(t := 0)\<rparr>))"

definition gloo :: "('tb, 'h) surroundings \<Rightarrow> int \<Rightarrow> string \<Rightarrow> ('tb, 'h, unit) act" where
  "gloo su t name = bindp (getp pg_log) (\<lambda>log. let ok = su_gloo su log in
     seqp (emit (EvGloo t name ok)) (guardp (\<not> ok) (RuntimeError ''gloo'')))"

end
