(* ===== verification/PG_Collectives.thy ===== *)
theory PG_Collectives
  imports PG_State
begin

text \<open>
  The collectives of \<^verbatim>\<open>MojoProcessGroup\<close> (\<^verbatim>\<open>distributed/process_group.py\<close>, from \<open>allreduce\<close> to
  \<open>barrier\<close>): each as the action its method performs, in the method's order. A tensor on the CPU
  goes to gloo under the method's name. The arguments are the group's surroundings, the calling
  thread, and the method's own.
\<close>

subsection \<open>Shared pieces\<close>

definition first_of :: "'a list \<Rightarrow> 'a result" where
  "first_of xs = (case xs of [] \<Rightarrow> Inl (IndexError ''list index out of range'') | x # _ \<Rightarrow> Inr x)"

definition or_gloo :: "('tb, 'h) surroundings \<Rightarrow> int \<Rightarrow> string \<Rightarrow> tensor \<Rightarrow> ('tb, 'h, unit) act \<Rightarrow> ('tb, 'h, unit) act" where
  "or_gloo su t name x m = bindp (liftp (is_cpu x)) (\<lambda>cpu. if cpu then gloo su t name else m)"

text \<open>The usual head of a method: \<open>if self._is_cpu(xs[0]): return self._gloo.name(...)\<close>.\<close>

definition collective :: "('tb, 'h) surroundings \<Rightarrow> int \<Rightarrow> string \<Rightarrow> tensor list \<Rightarrow> (tensor \<Rightarrow> ('tb, 'h, unit) act) \<Rightarrow> ('tb, 'h, unit) act" where
  "collective su t name xs m = loud su t (bindp (liftp (first_of xs)) (\<lambda>x. or_gloo su t name x (m x)))"

definition op_code :: "('tb, 'h) surroundings \<Rightarrow> dtype \<Rightarrow> red_op \<Rightarrow> int result" where
  "op_code su dt op = nccl_red_op (su_show_op su) op dt"

definition element_size :: "dtype \<Rightarrow> int" where
  "element_size d =
     (if d \<in> {Int8, Uint8, Bool, Float8_e4m3fn, Float8_e5m2} then 1
      else if d \<in> {Float16, BFloat16, Int16, Uint16} then 2
      else if d \<in> {Float32, Int32, Uint32} then 4
      else if d = Complex128 then 16 else 8)"

definition shapes :: "tensor list \<Rightarrow> shaped list" where
  "shapes = map as_shaped"

definition devices_of :: "('tb, 'h) surroundings \<Rightarrow> int \<Rightarrow> tensor list \<Rightarrow> ('tb, 'h, int) act" where
  "devices_of su t xs = bindp (liftp (same_device su xs)) (\<lambda>index. bindp (ensure su t index) (\<lambda>_. retp index))"

text \<open>A view into \<open>base\<close>, from element \<open>off\<close> on: a new Python object on the same memory.\<close>

definition slice_view :: "('tb, 'h) surroundings \<Rightarrow> tensor \<Rightarrow> int \<Rightarrow> int list \<Rightarrow> ('tb, 'h, tensor) act" where
  "slice_view su base off shape = bindp (new_tensor su (t_device base) (t_dtype base) shape) (\<lambda>v.
     retp (v\<lparr>t_ptr := t_ptr base + off * element_size (t_dtype base)\<rparr>))"

definition send_to :: "('tb, 'h) surroundings \<Rightarrow> int \<Rightarrow> int \<Rightarrow> tensor \<Rightarrow> int \<Rightarrow> int \<Rightarrow> ('tb, 'h, unit) act" where
  "send_to su t index x dt peer = native su t index (CSend (t_ptr x) (numel x) dt peer) ''ncclSend''"

definition recv_from :: "('tb, 'h) surroundings \<Rightarrow> int \<Rightarrow> int \<Rightarrow> tensor \<Rightarrow> int \<Rightarrow> int \<Rightarrow> ('tb, 'h, unit) act" where
  "recv_from su t index x dt peer = native su t index (CRecv (t_ptr x) (numel x) dt peer) ''ncclRecv''"

text \<open>The library refuses a call with no peer, and the loops run over \<open>enumerate\<close>.\<close>

definition enumerated :: "'a list \<Rightarrow> (int \<times> 'a) list" where
  "enumerated xs = zip (map int [0..<length xs]) xs"

subsection \<open>Reductions and broadcasts\<close>

definition allreduce :: "('tb, 'h) surroundings \<Rightarrow> int \<Rightarrow> tensor list \<Rightarrow> red_op \<Rightarrow> ('tb, 'h, unit) act" where
  "allreduce su t tensors op = collective su t ''allreduce'' tensors (\<lambda>x.
     seqp (fr_op su t ''all_reduce'' (shapes tensors) (shapes tensors) False)
     (seqp (liftp (one_per_rank tensors))
     (bindp (devices_of su t tensors) (\<lambda>index.
     (bindp (liftp (nccl_dtype (t_dtype x))) (\<lambda>dt. bindp (liftp (op_code su (t_dtype x) op)) (\<lambda>rop.
     bindp (stage_in su t index x) (\<lambda>staged.
     seqp (native su t index (CAllreduce (t_ptr staged) (numel staged) dt rop) ''ncclAllReduce'')
     (seqp (finish_pairs t index [(x, staged)])
       (result_work t index tensors))))))))))"

definition reduce_plan :: "('tb, 'h) surroundings \<Rightarrow> red_op \<Rightarrow> tensor list \<Rightarrow> (tensor \<times> int \<times> int) list result" where
  "reduce_plan su op tensors = map_res (\<lambda>x.
     bind_res (nccl_dtype (t_dtype x)) (\<lambda>dt. bind_res (op_code su (t_dtype x) op) (\<lambda>rop. Inr (x, dt, rop)))) tensors"

definition allreduce_coalesced :: "('tb, 'h) surroundings \<Rightarrow> int \<Rightarrow> tensor list \<Rightarrow> red_op \<Rightarrow> ('tb, 'h, unit) act" where
  "allreduce_coalesced su t tensors op = collective su t ''allreduce_coalesced'' tensors (\<lambda>x.
     seqp (fr_op su t ''allreduce_coalesced'' (shapes tensors) (shapes tensors) False)
     (bindp (devices_of su t tensors) (\<lambda>index.
     bindp (liftp (reduce_plan su op tensors)) (\<lambda>plan.
     bindp (mapp (stage_in su t index) tensors) (\<lambda>staged.
     seqp (in_group su t (forp (\<lambda>((y, dt, rop), s).
         native su t index (CAllreduce (t_ptr s) (numel s) dt rop) ''ncclAllReduce'') (zip plan staged)))
     (seqp (finish_pairs t index (zip tensors staged))
       (result_work t index tensors)))))))"

definition broadcast :: "('tb, 'h) surroundings \<Rightarrow> int \<Rightarrow> tensor list \<Rightarrow> int \<Rightarrow> int \<Rightarrow> ('tb, 'h, unit) act" where
  "broadcast su t tensors root_rank root_tensor = collective su t ''broadcast'' tensors (\<lambda>x.
     seqp (fr_op su t ''broadcast'' (shapes tensors) (shapes tensors) False)
     (seqp (liftp (one_per_rank tensors))
     (seqp (guardp (root_tensor \<noteq> 0) (ValueError ''rootTensor must be 0 with one tensor per rank''))
     (bindp (devices_of su t tensors) (\<lambda>index.
     bindp (liftp (nccl_dtype (t_dtype x))) (\<lambda>dt.
     bindp (stage_in su t index x) (\<lambda>staged.
     seqp (native su t index (CBroadcast (t_ptr staged) (numel staged) dt root_rank) ''ncclBroadcast'')
     (seqp (finish_pairs t index [(x, staged)])
       (result_work t index tensors)))))))))"

definition reduce :: "('tb, 'h) surroundings \<Rightarrow> int \<Rightarrow> tensor list \<Rightarrow> red_op \<Rightarrow> int \<Rightarrow> ('tb, 'h, unit) act" where
  "reduce su t tensors op root_rank = collective su t ''reduce'' tensors (\<lambda>x.
     seqp (fr_op su t ''reduce'' (shapes tensors) (shapes tensors) False)
     (seqp (liftp (one_per_rank tensors))
     (bindp (devices_of su t tensors) (\<lambda>index.
     bindp (liftp (nccl_dtype (t_dtype x))) (\<lambda>dt. bindp (liftp (op_code su (t_dtype x) op)) (\<lambda>rop.
     bindp (stage_in su t index x) (\<lambda>staged.
     seqp (native su t index (CReduce (t_ptr staged) (numel staged) dt rop root_rank) ''ncclReduce'')
     (seqp (finish_pairs t index [(x, staged)])
       (result_work t index tensors)))))))))"

subsection \<open>All-gathers\<close>

definition allgather_flat :: "('tb, 'h) surroundings \<Rightarrow> int \<Rightarrow> int \<Rightarrow> tensor \<Rightarrow> tensor \<Rightarrow> ('tb, 'h, tensor \<times> tensor) act" where
  "allgather_flat su t index out inp = bindp (getp pg_size) (\<lambda>world.
     seqp (guardp (numel out \<noteq> numel inp * int world)
       (ValueError ''all_gather output must hold world_size copies of the input''))
     (seqp (guardp (t_dtype out \<noteq> t_dtype inp) (ValueError ''all_gather output dtype must match the input''))
     (bindp (liftp (nccl_dtype (t_dtype inp))) (\<lambda>dt.
     bindp (stage_in su t index inp) (\<lambda>staged_in. bindp (stage_out su t index out) (\<lambda>staged_out.
     seqp (native su t index (CAllgather (t_ptr staged_in) (t_ptr staged_out) (numel staged_in) dt) ''ncclAllGather'')
       (retp (staged_in, staged_out))))))))"

definition allgather_base :: "('tb, 'h) surroundings \<Rightarrow> int \<Rightarrow> tensor \<Rightarrow> tensor \<Rightarrow> ('tb, 'h, unit) act" where
  "allgather_base su t out inp = collective su t ''_allgather_base'' [inp] (\<lambda>_.
     seqp (fr_op su t ''_all_gather_base'' (shapes [inp]) (shapes [out]) False)
     (bindp (devices_of su t [inp, out]) (\<lambda>index.
     bindp (allgather_flat su t index out inp) (\<lambda>(staged_in, staged_out).
     seqp (record_tensors t index [inp, staged_in])
     (seqp (finish_pairs t index [(out, staged_out)])
       (result_work t index [out]))))))"

text \<open>\<open>if output_tensors[0]: self._fr_op(name, inputs, [flat(output_tensors[0])])\<close>.\<close>

definition fr_op_flat :: "('tb, 'h) surroundings \<Rightarrow> int \<Rightarrow> tensor list \<Rightarrow> (shaped \<Rightarrow> ('tb, 'h, unit) act) \<Rightarrow> ('tb, 'h, unit) act" where
  "fr_op_flat su t xs op = (if xs = [] then retp () else bindp (liftp (flat (shapes xs))) op)"

definition allgather :: "('tb, 'h) surroundings \<Rightarrow> int \<Rightarrow> tensor list list \<Rightarrow> tensor list \<Rightarrow> ('tb, 'h, unit) act" where
  "allgather su t outputs_of inputs = collective su t ''allgather'' inputs (\<lambda>inp.
     bindp (liftp (first_of outputs_of)) (\<lambda>outputs.
     seqp (fr_op_flat su t outputs (\<lambda>f. fr_op su t ''all_gather'' (shapes inputs) [f] False))
     (seqp (liftp (one_per_rank inputs))
     (bindp (getp pg_size) (\<lambda>world.
     seqp (guardp (length outputs \<noteq> world) (ValueError ''all_gather needs world_size output tensors''))
     (seqp (guardp (list_ex (\<lambda>x. numel x \<noteq> numel inp \<or> t_dtype x \<noteq> t_dtype inp) outputs)
       (NotImplementedError ''all_gather with uneven or differently typed tensors is not supported''))
     (bindp (devices_of su t (inp # outputs)) (\<lambda>index.
     bindp (new_tensor su (t_device inp) (t_dtype inp) [int world * numel inp]) (\<lambda>flat_buf.
     seqp (emit (EvAlloc t index flat_buf))
     (bindp (allgather_flat su t index flat_buf inp) (\<lambda>(staged_in, _).
     seqp (record_tensors t index [inp, staged_in])
     (bindp (mapp (\<lambda>(r, x). bindp (slice_view su flat_buf (r * numel inp) (t_shape x)) (\<lambda>v. retp (x, v)))
               (enumerated outputs)) (\<lambda>pairs.
     seqp (finish_pairs t index pairs)
       (result_work t index outputs))))))))))))))"

definition allgather_into_tensor_coalesced :: "('tb, 'h) surroundings \<Rightarrow> int \<Rightarrow> tensor list \<Rightarrow> tensor list \<Rightarrow> ('tb, 'h, unit) act" where
  "allgather_into_tensor_coalesced su t outputs inputs =
     collective su t ''allgather_into_tensor_coalesced'' inputs (\<lambda>_.
     seqp (fr_op su t ''all_gather_into_tensor_coalesced'' (shapes inputs) (shapes outputs) False)
     (seqp (guardp (length outputs \<noteq> length inputs)
       (ValueError ''coalesced all_gather needs as many outputs as inputs''))
     (bindp (devices_of su t (inputs @ outputs)) (\<lambda>index.
     bindp (in_group su t (mapp (\<lambda>(x, i). allgather_flat su t index x i) (zip outputs inputs))) (\<lambda>pairs.
     seqp (record_tensors t index (inputs @ map fst pairs))
     (seqp (finish_pairs t index (zip outputs (map snd pairs)))
       (result_work t index outputs)))))))"

subsection \<open>Reduce-scatters\<close>

definition reduce_scatter_flat :: "('tb, 'h) surroundings \<Rightarrow> int \<Rightarrow> int \<Rightarrow> tensor \<Rightarrow> tensor \<Rightarrow> red_op \<Rightarrow> ('tb, 'h, tensor \<times> tensor) act" where
  "reduce_scatter_flat su t index out inp op = bindp (getp pg_size) (\<lambda>world.
     seqp (guardp (numel inp \<noteq> numel out * int world)
       (ValueError ''reduce_scatter input must hold world_size chunks of the output''))
     (seqp (guardp (t_dtype out \<noteq> t_dtype inp) (ValueError ''reduce_scatter output dtype must match the input''))
     (bindp (liftp (nccl_dtype (t_dtype inp))) (\<lambda>dt. bindp (liftp (op_code su (t_dtype inp) op)) (\<lambda>rop.
     bindp (stage_in su t index inp) (\<lambda>staged_in. bindp (stage_out su t index out) (\<lambda>staged_out.
     seqp (native su t index (CReduceScatter (t_ptr staged_in) (t_ptr staged_out) (numel staged_out) dt rop) ''ncclReduceScatter'')
       (retp (staged_in, staged_out)))))))))"

definition reduce_scatter_base :: "('tb, 'h) surroundings \<Rightarrow> int \<Rightarrow> tensor \<Rightarrow> tensor \<Rightarrow> red_op \<Rightarrow> ('tb, 'h, unit) act" where
  "reduce_scatter_base su t out inp op = collective su t ''_reduce_scatter_base'' [inp] (\<lambda>_.
     seqp (fr_op su t ''_reduce_scatter_base'' (shapes [inp]) (shapes [out]) False)
     (bindp (devices_of su t [inp, out]) (\<lambda>index.
     bindp (reduce_scatter_flat su t index out inp op) (\<lambda>(staged_in, staged_out).
     seqp (record_tensors t index [inp, staged_in])
     (seqp (finish_pairs t index [(out, staged_out)])
       (result_work t index [out]))))))"

definition reduce_scatter :: "('tb, 'h) surroundings \<Rightarrow> int \<Rightarrow> tensor list \<Rightarrow> tensor list list \<Rightarrow> red_op \<Rightarrow> ('tb, 'h, unit) act" where
  "reduce_scatter su t outputs inputs_of op = collective su t ''reduce_scatter'' outputs (\<lambda>out.
     bindp (liftp (first_of inputs_of)) (\<lambda>inputs.
     seqp (fr_op_flat su t inputs (\<lambda>f. fr_op su t ''reduce_scatter'' [f] (shapes outputs) False))
     (seqp (liftp (one_per_rank outputs))
     (bindp (getp pg_size) (\<lambda>world.
     seqp (guardp (length inputs \<noteq> world) (ValueError ''reduce_scatter needs world_size input tensors''))
     (seqp (guardp (list_ex (\<lambda>x. numel x \<noteq> numel out \<or> t_dtype x \<noteq> t_dtype out) inputs)
       (ValueError (''reduce_scatter inputs must match the output'' @ [char_of (39 :: nat)] @ ''s size and dtype'')))
     (bindp (devices_of su t (out # inputs)) (\<lambda>index.
     seqp (emit (EvWaitStream t index))
     (bindp (new_tensor su (t_device out) (t_dtype out) [sum_list (map numel inputs)]) (\<lambda>flat_buf.
     seqp (emit (EvJoin t index flat_buf inputs))
     (bindp (reduce_scatter_flat su t index out flat_buf op) (\<lambda>(_, staged_out).
     seqp (record_tensors t index (flat_buf # inputs))
     (seqp (finish_pairs t index [(out, staged_out)])
       (result_work t index [out]))))))))))))))"

definition reduce_scatter_tensor_coalesced :: "('tb, 'h) surroundings \<Rightarrow> int \<Rightarrow> tensor list \<Rightarrow> tensor list \<Rightarrow> red_op \<Rightarrow> ('tb, 'h, unit) act" where
  "reduce_scatter_tensor_coalesced su t outputs inputs op =
     collective su t ''reduce_scatter_tensor_coalesced'' outputs (\<lambda>_.
     seqp (fr_op su t ''reduce_scatter_tensor_coalesced'' (shapes inputs) (shapes outputs) False)
     (seqp (guardp (length outputs \<noteq> length inputs)
       (ValueError ''coalesced reduce_scatter needs as many outputs as inputs''))
     (bindp (devices_of su t (inputs @ outputs)) (\<lambda>index.
     bindp (in_group su t (mapp (\<lambda>(x, i). reduce_scatter_flat su t index x i op) (zip outputs inputs))) (\<lambda>pairs.
     seqp (record_tensors t index (inputs @ map fst pairs))
     (seqp (finish_pairs t index (zip outputs (map snd pairs)))
       (result_work t index outputs)))))))"

subsection \<open>All-to-all\<close>

text \<open>Python's \<open>//\<close> and \<open>%\<close> are \<open>div\<close> and \<open>mod\<close>; a group has at least one rank.\<close>

definition splits :: "nat \<Rightarrow> tensor \<Rightarrow> int list \<Rightarrow> string \<Rightarrow> int list result" where
  "splits world x sizes what =
     (let rows = (case t_shape x of [] \<Rightarrow> 1 | n # _ \<Rightarrow> n);
          row = (if rows \<noteq> 0 then numel x div rows else 0)
      in if sizes = [] then
           (if rows mod int world \<noteq> 0
            then Inl (ValueError (''all_to_all '' @ what @ '' of '' @ int_text rows
                   @ '' rows does not split evenly across '' @ nat_text world @ '' ranks''))
            else Inr (replicate world (rows div int world * row)))
         else if length sizes \<noteq> world \<or> list_ex (\<lambda>n. n < 0) sizes \<or> sum_list sizes \<noteq> rows
         then Inl (ValueError (''all_to_all '' @ what @ '' split sizes must be '' @ nat_text world
                   @ '' nonnegative sizes summing to '' @ int_text rows @ '' rows''))
         else Inr (map (\<lambda>n. n * row) sizes))"

text \<open>The loop over the peers, with its running offsets.\<close>

fun sendrecv_loop ::
    "('tb, 'h) surroundings \<Rightarrow> int \<Rightarrow> int \<Rightarrow> tensor \<Rightarrow> tensor \<Rightarrow> int \<Rightarrow> int \<Rightarrow> int \<Rightarrow> (int \<times> int \<times> int) list \<Rightarrow> ('tb, 'h, unit) act" where
  "sendrecv_loop su t index out inp dt in_off out_off [] = retp ()"
| "sendrecv_loop su t index out inp dt in_off out_off ((peer, n_in, n_out) # rest) =
     seqp (whenp (n_in \<noteq> 0)
       (native su t index (CSend (t_ptr inp + in_off * element_size (t_dtype inp)) n_in dt peer) ''ncclSend''))
     (seqp (whenp (n_out \<noteq> 0)
       (native su t index (CRecv (t_ptr out + out_off * element_size (t_dtype inp)) n_out dt peer) ''ncclRecv''))
       (sendrecv_loop su t index out inp dt (in_off + n_in) (out_off + n_out) rest))"

text \<open>Both lists come from \<open>splits\<close>: one size per rank.\<close>

definition sendrecv_chunks ::
    "('tb, 'h) surroundings \<Rightarrow> int \<Rightarrow> int \<Rightarrow> tensor \<Rightarrow> tensor \<Rightarrow> int list \<Rightarrow> int list \<Rightarrow> ('tb, 'h, unit) act" where
  "sendrecv_chunks su t index out inp out_sizes in_sizes =
     seqp (guardp (t_dtype out \<noteq> t_dtype inp) (ValueError ''all_to_all output dtype must match the input''))
     (bindp (liftp (nccl_dtype (t_dtype inp))) (\<lambda>dt.
     bindp (getp pg_size) (\<lambda>world.
       in_group su t (sendrecv_loop su t index out inp dt 0 0
         (zip (map int [0..<world]) (zip in_sizes out_sizes))))))"

definition alltoall_base ::
    "('tb, 'h) surroundings \<Rightarrow> int \<Rightarrow> tensor \<Rightarrow> tensor \<Rightarrow> int list \<Rightarrow> int list \<Rightarrow> ('tb, 'h, unit) act" where
  "alltoall_base su t out inp out_split in_split = collective su t ''alltoall_base'' [inp] (\<lambda>_.
     seqp (fr_op su t ''all_to_all'' (shapes [inp]) (shapes [out]) False)
     (bindp (devices_of su t [inp, out]) (\<lambda>index.
     bindp (getp pg_size) (\<lambda>world.
     bindp (liftp (splits world inp in_split ''input'')) (\<lambda>in_sizes.
     bindp (liftp (splits world out out_split ''output'')) (\<lambda>out_sizes.
     bindp (stage_in su t index inp) (\<lambda>staged_in. bindp (stage_out su t index out) (\<lambda>staged_out.
     seqp (sendrecv_chunks su t index staged_out staged_in out_sizes in_sizes)
     (seqp (record_tensors t index [inp, staged_in])
     (seqp (finish_pairs t index [(out, staged_out)])
       (result_work t index [out])))))))))))"

definition exchange_with :: "('tb, 'h) surroundings \<Rightarrow> int \<Rightarrow> int \<Rightarrow> int \<times> tensor \<times> tensor \<Rightarrow> ('tb, 'h, unit) act" where
  "exchange_with su t index p = (case p of (peer, i, x) \<Rightarrow>
     seqp (whenp (numel i \<noteq> 0) (bindp (liftp (nccl_dtype (t_dtype i))) (\<lambda>dt. send_to su t index i dt peer)))
       (whenp (numel x \<noteq> 0) (bindp (liftp (nccl_dtype (t_dtype x))) (\<lambda>dt. recv_from su t index x dt peer))))"

definition alltoall :: "('tb, 'h) surroundings \<Rightarrow> int \<Rightarrow> tensor list \<Rightarrow> tensor list \<Rightarrow> ('tb, 'h, unit) act" where
  "alltoall su t outputs inputs = collective su t ''alltoall'' inputs (\<lambda>_.
     seqp (fr_op su t ''all_to_all'' (shapes inputs) (shapes outputs) False)
     (bindp (getp pg_size) (\<lambda>world.
     seqp (guardp (length outputs \<noteq> world \<or> length inputs \<noteq> world)
       (ValueError ''all_to_all needs world_size input and output tensors''))
     (bindp (devices_of su t (inputs @ outputs)) (\<lambda>index.
     bindp (mapp (stage_in su t index) inputs) (\<lambda>staged_in. bindp (mapp (stage_out su t index) outputs) (\<lambda>staged_out.
     seqp (in_group su t (forp (exchange_with su t index) (enumerated (zip staged_in staged_out))))
     (seqp (record_tensors t index (inputs @ staged_in))
     (seqp (finish_pairs t index (zip outputs staged_out))
       (result_work t index outputs))))))))))"

subsection \<open>Gather and scatter\<close>

text \<open>MojoCCL has no point-to-point operations: its gather is an all-gather of which the root keeps
  the chunks, its scatter a broadcast of the joined inputs of which each rank keeps its own.\<close>

definition gather_by_all_gather :: "('tb, 'h) surroundings \<Rightarrow> int \<Rightarrow> int \<Rightarrow> tensor \<Rightarrow> tensor list \<Rightarrow> ('tb, 'h, unit) act" where
  "gather_by_all_gather su t index inp outputs = bindp (getp pg_size) (\<lambda>world.
     bindp (new_tensor su (t_device inp) (t_dtype inp) [int world * numel inp]) (\<lambda>gathered.
     seqp (emit (EvAlloc t index gathered))
     (bindp (liftp (nccl_dtype (t_dtype inp))) (\<lambda>dt.
     seqp (native su t index (CAllgather (t_ptr inp) (t_ptr gathered) (numel inp) dt) ''ncclAllGather'')
     (forp (\<lambda>(r, x). bindp (slice_view su gathered (r * numel inp) (t_shape x)) (\<lambda>v. emit (EvReadBack t index x v)))
       (take world (enumerated outputs)))))))"

definition scatter_by_broadcast ::
    "('tb, 'h) surroundings \<Rightarrow> int \<Rightarrow> int \<Rightarrow> tensor \<Rightarrow> tensor list \<Rightarrow> int \<Rightarrow> ('tb, 'h, unit) act" where
  "scatter_by_broadcast su t index out inputs root_rank = bindp (getp (\<lambda>s. (pg_size s, pg_rank s))) (\<lambda>(world, rank).
     bindp (if inputs \<noteq> []
            then bindp (new_tensor su (t_device out) (t_dtype (hd inputs)) [sum_list (map numel inputs)]) (\<lambda>full.
                   seqp (emit (EvJoin t index full inputs)) (retp full))
            else bindp (new_tensor su (t_device out) (t_dtype out) [int world * numel out]) (\<lambda>full.
                   seqp (emit (EvAlloc t index full)) (retp full))) (\<lambda>full.
     bindp (liftp (nccl_dtype (t_dtype out))) (\<lambda>dt.
     seqp (native su t index (CBroadcast (t_ptr full) (numel full) dt root_rank) ''ncclBroadcast'')
     (bindp (slice_view su full (rank * numel out) (t_shape out)) (\<lambda>v.
       emit (EvReadBack t index out v))))))"

definition gather :: "('tb, 'h) surroundings \<Rightarrow> int \<Rightarrow> tensor list list \<Rightarrow> tensor list \<Rightarrow> int \<Rightarrow> ('tb, 'h, unit) act" where
  "gather su t outputs_of inputs root_rank = collective su t ''gather'' inputs (\<lambda>inp.
     seqp (fr_op su t ''gather'' (shapes inputs) (case outputs_of of [] \<Rightarrow> [] | xs # _ \<Rightarrow> shapes xs) False)
     (seqp (liftp (one_per_rank inputs))
     (bindp (getp (\<lambda>s. (pg_size s, pg_rank s))) (\<lambda>(world, rank).
     let root = (rank = root_rank) in
     bindp (if root then liftp (first_of outputs_of) else retp []) (\<lambda>outputs.
     seqp (guardp (root \<and> (length outputs \<noteq> world
          \<or> list_ex (\<lambda>x. numel x \<noteq> numel inp \<or> t_dtype x \<noteq> t_dtype inp) outputs))
       (ValueError ''gather needs world_size outputs matching the input''))
     (bindp (devices_of su t (inp # outputs)) (\<lambda>index.
     bindp (liftp (nccl_dtype (t_dtype inp))) (\<lambda>dt.
     bindp (stage_in su t index inp) (\<lambda>staged_in. bindp (mapp (stage_out su t index) outputs) (\<lambda>staged_out.
     seqp (emit (EvWaitStream t index))
     (if su_mojoccl su
      then seqp (gather_by_all_gather su t index staged_in staged_out)
        (seqp (finish_pairs t index (zip outputs staged_out))
        (seqp (record_tensors t index [inp, staged_in])
          (result_work t index (if root then outputs else inputs))))
      else seqp (in_group su t
             (if root
              then forp (\<lambda>(peer, x). whenp (peer \<noteq> rank) (recv_from su t index x dt peer)) (enumerated staged_out)
              else send_to su t index staged_in dt root_rank))
        (seqp (whenp root
           (seqp (emit (EvLocal t index (staged_out ! nat rank) staged_in))
             (finish_pairs t index (zip outputs staged_out))))
        (seqp (record_tensors t index [inp, staged_in])
          (result_work t index (if root then outputs else inputs)))))))))))))))"

definition scatter :: "('tb, 'h) surroundings \<Rightarrow> int \<Rightarrow> tensor list \<Rightarrow> tensor list list \<Rightarrow> int \<Rightarrow> ('tb, 'h, unit) act" where
  "scatter su t outputs inputs_of root_rank = collective su t ''scatter'' outputs (\<lambda>out.
     seqp (fr_op su t ''scatter'' (case inputs_of of [] \<Rightarrow> [] | xs # _ \<Rightarrow> shapes xs) (shapes outputs) False)
     (seqp (liftp (one_per_rank outputs))
     (bindp (getp (\<lambda>s. (pg_size s, pg_rank s))) (\<lambda>(world, rank).
     let root = (rank = root_rank) in
     bindp (if root then liftp (first_of inputs_of) else retp []) (\<lambda>inputs.
     seqp (guardp (root \<and> (length inputs \<noteq> world
          \<or> list_ex (\<lambda>x. numel x \<noteq> numel out \<or> t_dtype x \<noteq> t_dtype out) inputs))
       (ValueError ''scatter needs world_size inputs matching the output''))
     (bindp (devices_of su t (out # inputs)) (\<lambda>index.
     bindp (liftp (nccl_dtype (t_dtype out))) (\<lambda>dt.
     bindp (stage_out su t index out) (\<lambda>staged_out. bindp (mapp (stage_in su t index) inputs) (\<lambda>staged_in.
     seqp (emit (EvWaitStream t index))
     (if su_mojoccl su
      then seqp (scatter_by_broadcast su t index staged_out staged_in root_rank)
        (seqp (record_tensors t index (inputs @ staged_in))
        (seqp (finish_pairs t index [(out, staged_out)])
          (result_work t index outputs)))
      else seqp (in_group su t
             (if root
              then forp (\<lambda>(peer, x). whenp (peer \<noteq> rank) (send_to su t index x dt peer)) (enumerated staged_in)
              else recv_from su t index staged_out dt root_rank))
        (seqp (whenp root
           (seqp (emit (EvLocal t index staged_out (staged_in ! nat rank)))
             (record_tensors t index (inputs @ staged_in))))
        (seqp (finish_pairs t index [(out, staged_out)])
          (result_work t index outputs))))))))))))))"

subsection \<open>Point to point, barrier, abort\<close>

definition send :: "('tb, 'h) surroundings \<Rightarrow> int \<Rightarrow> tensor list \<Rightarrow> int \<Rightarrow> ('tb, 'h, unit) act" where
  "send su t tensors dst_rank = collective su t ''send'' tensors (\<lambda>_.
     bindp (getp pg_rank) (\<lambda>rank.
     seqp (fr_op su t (''send '' @ int_text rank @ ''->'' @ int_text dst_rank) (shapes tensors) (shapes tensors) True)
     (bindp (devices_of su t tensors) (\<lambda>index.
     bindp (mapp (stage_in su t index) tensors) (\<lambda>staged.
     seqp (in_group su t (forp (\<lambda>s. bindp (liftp (nccl_dtype (t_dtype s))) (\<lambda>dt. send_to su t index s dt dst_rank)) staged))
     (seqp (record_tensors t index (tensors @ staged))
       (result_work t index tensors)))))))"

definition recv :: "('tb, 'h) surroundings \<Rightarrow> int \<Rightarrow> tensor list \<Rightarrow> int \<Rightarrow> ('tb, 'h, unit) act" where
  "recv su t tensors src_rank = collective su t ''recv'' tensors (\<lambda>_.
     bindp (getp pg_rank) (\<lambda>rank.
     seqp (fr_op su t (''recv '' @ int_text rank @ ''<-'' @ int_text src_rank) (shapes tensors) (shapes tensors) True)
     (bindp (devices_of su t tensors) (\<lambda>index.
     bindp (mapp (stage_out su t index) tensors) (\<lambda>staged.
     seqp (in_group su t (forp (\<lambda>s. bindp (liftp (nccl_dtype (t_dtype s))) (\<lambda>dt. recv_from su t index s dt src_rank)) staged))
     (seqp (finish_pairs t index (zip tensors staged))
       (result_work t index tensors)))))))"

definition barrier :: "('tb, 'h) surroundings \<Rightarrow> int \<Rightarrow> ('tb, 'h, unit) act" where
  "barrier su t = loud su t (bindp (getp pg_ready) (\<lambda>ready.
     seqp (forp (\<lambda>index. seqp (emit (EvSynchronize t index))
             (native su t index CSyncComm ''comm stream synchronize'')) (dkeys ready))
       (gloo su t ''barrier'')))"

definition abort :: "('tb, 'h) surroundings \<Rightarrow> int \<Rightarrow> ('tb, 'h, unit) act" where
  "abort su t = bindp (getp pg_ready) (\<lambda>ready.
     forp (\<lambda>index. seqp (native su t index CAbort ''ncclCommAbort'')
             (modp (\<lambda>s. s\<lparr>pg_ready := dpop index (pg_ready s)\<rparr>))) (dkeys ready))"

text \<open>The public methods, as calls a thread makes on the group, with the coalescing entries.\<close>

datatype call =
    Allreduce "tensor list" red_op
  | AllreduceCoalesced "tensor list" red_op
  | Broadcast "tensor list" int int
  | Reduce "tensor list" red_op int
  | AllgatherBase tensor tensor
  | Allgather "tensor list list" "tensor list"
  | AllgatherIntoTensorCoalesced "tensor list" "tensor list"
  | ReduceScatterBase tensor tensor red_op
  | ReduceScatter "tensor list" "tensor list list" red_op
  | ReduceScatterTensorCoalesced "tensor list" "tensor list" red_op
  | AlltoallBase tensor tensor "int list" "int list"
  | Alltoall "tensor list" "tensor list"
  | Gather "tensor list list" "tensor list" int
  | Scatter "tensor list" "tensor list list" int
  | Send "tensor list" int
  | Recv "tensor list" int
  | Barrier
  | StartCoalescing "int option"
  | EndCoalescing "int option"
  | Ensure int
  | Abort

fun perform :: "('tb, 'h) surroundings \<Rightarrow> int \<Rightarrow> call \<Rightarrow> ('tb, 'h, unit) act" where
  "perform su t (Allreduce xs op) = allreduce su t xs op"
| "perform su t (AllreduceCoalesced xs op) = allreduce_coalesced su t xs op"
| "perform su t (Broadcast xs rt k) = broadcast su t xs rt k"
| "perform su t (Reduce xs op rt) = reduce su t xs op rt"
| "perform su t (AllgatherBase x i) = allgather_base su t x i"
| "perform su t (Allgather xss ins) = allgather su t xss ins"
| "perform su t (AllgatherIntoTensorCoalesced xs ins) = allgather_into_tensor_coalesced su t xs ins"
| "perform su t (ReduceScatterBase x i op) = reduce_scatter_base su t x i op"
| "perform su t (ReduceScatter xs iss op) = reduce_scatter su t xs iss op"
| "perform su t (ReduceScatterTensorCoalesced xs ins op) = reduce_scatter_tensor_coalesced su t xs ins op"
| "perform su t (AlltoallBase x i ns ms) = alltoall_base su t x i ns ms"
| "perform su t (Alltoall xs ins) = alltoall su t xs ins"
| "perform su t (Gather xss ins rt) = gather su t xss ins rt"
| "perform su t (Scatter xs iss rt) = scatter su t xs iss rt"
| "perform su t (Send xs dst) = send su t xs dst"
| "perform su t (Recv xs src) = recv su t xs src"
| "perform su t Barrier = barrier su t"
| "perform su t (StartCoalescing dev) = start_coalescing su t dev"
| "perform su t (EndCoalescing dev) = end_coalescing su t dev"
| "perform su t (Ensure index) = bindp (ensure su t index) (\<lambda>_. retp ())"
| "perform su t Abort = abort su t"

end
