(* ===== verification/PG_Runs.thy ===== *)
theory PG_Runs
  imports PG_Collectives
begin

text \<open>
  Runs of a process group: the calls a thread makes one after the other, and what the log of events
  must look like. \<open>scan\<close> reads the log as the library does: a group is opened, closed by the thread
  that opened it, and while one is open nothing may read a collective's result or fence a buffer,
  because the library has submitted nothing yet. \<open>quiet\<close> actions leave blocks alone and add only
  events that are harmless inside a group; \<open>keeps\<close> is preservation of an invariant. Both have rules
  for every combinator, collected in \<open>quiet_rules\<close> and \<open>keeps_rules\<close>, so that a collective is
  proved by following its own structure.
\<close>

named_theorems quiet_rules \<open>actions that neither open nor close a group\<close>
named_theorems keeps_rules \<open>actions that keep the invariant of a run\<close>

subsection \<open>Reading the log\<close>

datatype group_state = Closed | Open int

fun scan_event :: "group_state \<Rightarrow> event \<Rightarrow> group_state option" where
  "scan_event g (EvGroupStart t ok) = (if g = Closed then Some (if ok then Open t else Closed) else None)"
| "scan_event g (EvGroupEnd t tag ok) = (if g = Open t then Some Closed else None)"
| "scan_event g (EvCopyBack t i x y) = (if g = Closed then Some g else None)"
| "scan_event g (EvReadBack t i x y) = (if g = Closed then Some g else None)"
| "scan_event g (EvFence t i x) = (if g = Closed then Some g else None)"
| "scan_event g _ = Some g"

fun scan :: "group_state \<Rightarrow> event list \<Rightarrow> group_state option" where
  "scan g [] = Some g"
| "scan g (e # es) = (case scan_event g e of None \<Rightarrow> None | Some g' \<Rightarrow> scan g' es)"

fun neutral :: "event \<Rightarrow> bool" where
  "neutral (EvGroupStart _ _) = False"
| "neutral (EvGroupEnd _ _ _) = False"
| "neutral (EvCopyBack _ _ _ _) = False"
| "neutral (EvReadBack _ _ _ _) = False"
| "neutral (EvFence _ _ _) = False"
| "neutral _ = True"

lemma scan_append: "scan g (es @ fs) = (case scan g es of None \<Rightarrow> None | Some g' \<Rightarrow> scan g' fs)"
  by (induction es arbitrary: g) (auto split: option.split)

lemma neutral_scan_event: "neutral e \<Longrightarrow> scan_event g e = Some g"
  by (cases e) auto

lemma neutral_scan: "list_all neutral es \<Longrightarrow> scan g es = Some g"
  by (induction es) (auto simp: neutral_scan_event)

subsection \<open>Quiet actions\<close>

text \<open>Nothing waits for a block's end.\<close>

definition nothing_deferred :: "('tb, 'h) pgroup \<Rightarrow> bool" where
  "nothing_deferred s \<longleftrightarrow> pg_co_tensors s = [] \<and> pg_co_records s = [] \<and> pg_co_pairs s = []"

definition same_block :: "('tb, 'h) pgroup \<Rightarrow> ('tb, 'h) pgroup \<Rightarrow> bool" where
  "same_block s s' \<longleftrightarrow> pg_coalescing s' = pg_coalescing s \<and> pg_co_thread s' = pg_co_thread s
     \<and> (pg_coalescing s = None \<longrightarrow> nothing_deferred s \<longrightarrow> nothing_deferred s')
     \<and> (\<exists>es. pg_log s' = pg_log s @ es \<and> list_all neutral es)"

definition quiet :: "('tb, 'h, 'a) act \<Rightarrow> bool" where
  "quiet m \<longleftrightarrow> (\<forall>s. same_block s (fst (m s)))"

lemma same_block_refl [simp]: "same_block s s"
  by (simp add: same_block_def)

lemma same_block_trans: "same_block s s' \<Longrightarrow> same_block s' s'' \<Longrightarrow> same_block s s''"
  by (auto simp: same_block_def)

lemma quietI: "(\<And>s. same_block s (fst (m s))) \<Longrightarrow> quiet m"
  by (simp add: quiet_def)

lemma quietD: "quiet m \<Longrightarrow> same_block s (fst (m s))"
  by (simp add: quiet_def)

lemma quiet_pure [quiet_rules]:
  "quiet (retp x)" "quiet (raisep e)" "quiet (liftp r)" "quiet (getp f)" "quiet (guardp b e)"
  by (auto simp: quiet_def act_simps)

lemma quiet_bind [quiet_rules]:
  assumes "quiet m" "\<And>x. quiet (f x)"
  shows "quiet (bindp m f)"
proof (rule quietI)
  fix s
  show "same_block s (fst (bindp m f s))"
  proof (cases "m s")
    case (Pair s' r)
    have m: "same_block s s'" using quietD[OF assms(1), of s] Pair by simp
    show ?thesis
    proof (cases r)
      case (Inl e)
      then show ?thesis using m by (simp add: bindp_def Pair)
    next
      case (Inr x)
      then show ?thesis using same_block_trans[OF m quietD[OF assms(2)]] by (simp add: bindp_def Pair)
    qed
  qed
qed

lemma quiet_seq [quiet_rules]: "quiet m \<Longrightarrow> quiet n \<Longrightarrow> quiet (seqp m n)"
  by (simp add: seqp_def quiet_bind)

lemma quiet_if [quiet_rules]: "quiet m \<Longrightarrow> quiet n \<Longrightarrow> quiet (if b then m else n)"
  by simp

lemma quiet_when [quiet_rules]: "quiet m \<Longrightarrow> quiet (whenp b m)"
  by (simp add: whenp_def quiet_rules)

lemma quiet_let [quiet_rules]: "(\<And>x. quiet (f x)) \<Longrightarrow> quiet (Let v f)"
  by simp

lemma quiet_split [quiet_rules]: "(\<And>x y. quiet (f x y)) \<Longrightarrow> quiet (case p of (x, y) \<Rightarrow> f x y)"
  by (cases p) simp

lemma quiet_split_app [quiet_rules]: "(\<And>x y. quiet (f x y z)) \<Longrightarrow> quiet ((case p of (x, y) \<Rightarrow> f x y) z)"
  by (cases p) simp

lemma quiet_option [quiet_rules]:
  "quiet m \<Longrightarrow> (\<And>x. quiet (f x)) \<Longrightarrow> quiet (case v of None \<Rightarrow> m | Some x \<Rightarrow> f x)"
  by (cases v) auto

lemma quiet_map [quiet_rules]: "(\<And>x. quiet (f x)) \<Longrightarrow> quiet (mapp f xs)"
  by (induction xs) (auto intro!: quiet_rules)

lemma quiet_for [quiet_rules]: "(\<And>x. quiet (f x)) \<Longrightarrow> quiet (forp f xs)"
  by (induction xs) (auto intro!: quiet_rules)

text \<open>An update of anything but the block and the log.\<close>

lemma quiet_mod:
  assumes "\<And>s. pg_coalescing (f s) = pg_coalescing s" "\<And>s. pg_co_thread (f s) = pg_co_thread s"
    "\<And>s. nothing_deferred s \<Longrightarrow> nothing_deferred (f s)"
    "\<And>s. \<exists>es. pg_log (f s) = pg_log s @ es \<and> list_all neutral es"
  shows "quiet (modp f)"
  using assms by (simp add: quiet_def modp_def same_block_def)

lemma quiet_emit [quiet_rules]: "neutral e \<Longrightarrow> quiet (emit e)"
  unfolding emit_def by (rule quiet_mod) (auto simp: nothing_deferred_def)

lemma quiet_comm_of [quiet_rules]: "quiet (comm_of index)"
  unfolding comm_of_def by (intro quiet_rules)

lemma quiet_fr_tag [quiet_rules]: "quiet (fr_tag t)"
  unfolding fr_tag_def by (intro quiet_rules)

lemma quiet_native [quiet_rules]: "quiet (native su t index call what)"
  unfolding native_def by (intro quiet_rules) simp

lemma quiet_coalescing_open [quiet_rules]: "quiet (coalescing_open t)"
  unfolding coalescing_open_def by (intro quiet_rules)

lemma quiet_new_tensor [quiet_rules]: "quiet (new_tensor su dev dt shape)"
  unfolding new_tensor_def by (intro quiet_rules quiet_mod) (auto simp: nothing_deferred_def)

lemma quiet_stage_in [quiet_rules]: "quiet (stage_in su t index x)"
  unfolding stage_in_def by (intro quiet_rules) simp_all

lemma quiet_stage_out [quiet_rules]: "quiet (stage_out su t index x)"
  unfolding stage_out_def by (intro quiet_rules) simp_all

lemma quiet_make_work [quiet_rules]: "quiet (make_work t index xs)"
  unfolding make_work_def by (intro quiet_rules) simp

lemma quiet_result_work [quiet_rules]: "quiet (result_work t index xs)"
proof (rule quietI)
  fix s :: "('tb, 'h) pgroup"
  have w: "quiet (make_work t index xs :: ('tb, 'h, unit) act)" by (rule quiet_make_work)
  show "same_block s (fst (result_work t index xs s))"
  proof (cases "pg_coalescing s")
    case None
    then show ?thesis using quietD[OF w] by (simp add: result_work_def coalescing_open_def act_simps)
  next
    case (Some i)
    have "same_block s (s\<lparr>pg_co_tensors := pg_co_tensors s @ xs\<rparr>)" by (simp add: same_block_def Some)
    from same_block_trans[OF this quietD[OF w]] show ?thesis
      by (simp add: result_work_def coalescing_open_def act_simps Some)
  qed
qed

lemma quiet_fr_op [quiet_rules]: "quiet (fr_op su t name ins outs p2p)"
  unfolding fr_op_def by (rule quiet_mod) (auto simp: nothing_deferred_def Let_def case_prod_unfold split: option.split)

lemma quiet_fr_block_end [quiet_rules]: "quiet (fr_block_end su t)"
  unfolding fr_block_end_def by (rule quiet_mod) (auto simp: nothing_deferred_def Let_def case_prod_unfold split: option.split)

lemma quiet_clear_tag [quiet_rules]: "quiet (modp (\<lambda>s. s\<lparr>pg_tls := (pg_tls s)(t := 0)\<rparr>))"
  by (rule quiet_mod) (auto simp: nothing_deferred_def)

lemma quiet_gloo [quiet_rules]: "quiet (gloo su t name)"
  unfolding gloo_def by (intro quiet_rules) simp

lemma quiet_start_watchdog [quiet_rules]: "quiet (start_watchdog su t)"
  unfolding start_watchdog_def Let_def
  by (intro quiet_rules quiet_mod) (auto simp: nothing_deferred_def case_prod_unfold Let_def split: option.split)

lemma quiet_initialize [quiet_rules]: "quiet (initialize_collectives su t)"
  unfolding initialize_collectives_def Let_def by (intro quiet_rules quiet_mod) (auto simp: nothing_deferred_def)

lemma quiet_exchange [quiet_rules]: "quiet (exchange_unique_id su t key)"
  unfolding exchange_unique_id_def by (intro quiet_rules) simp_all

lemma quiet_ensure [quiet_rules]: "quiet (ensure su t index)"
  unfolding ensure_def by (intro quiet_rules quiet_mod) (auto simp: nothing_deferred_def)

lemma quiet_slice_view [quiet_rules]: "quiet (slice_view su base off shape)"
  unfolding slice_view_def by (intro quiet_rules)

lemma quiet_devices_of [quiet_rules]: "quiet (devices_of su t xs)"
  unfolding devices_of_def by (intro quiet_rules)

lemma quiet_p2p [quiet_rules]: "quiet (send_to su t index x dt peer)" "quiet (recv_from su t index x dt peer)"
  unfolding send_to_def recv_from_def by (intro quiet_rules)+

lemma quiet_flat [quiet_rules]:
  "quiet (allgather_flat su t index x i)" "quiet (reduce_scatter_flat su t index x i op)"
  unfolding allgather_flat_def reduce_scatter_flat_def by (intro quiet_rules)+

lemma quiet_fr_op_flat [quiet_rules]: "(\<And>f. quiet (op f)) \<Longrightarrow> quiet (fr_op_flat su t xs op)"
  unfolding fr_op_flat_def by (intro quiet_rules)

lemma quiet_exchange_with [quiet_rules]: "quiet (exchange_with su t index p)"
  unfolding exchange_with_def by (intro quiet_rules)

lemma quiet_sendrecv_loop [quiet_rules]: "quiet (sendrecv_loop su t index x i dt a b rest)"
proof (induction rest arbitrary: a b)
  case (Cons p rest)
  then show ?case by (cases p) (auto intro!: quiet_rules)
qed (simp add: quiet_rules)

subsection \<open>The invariant between and inside calls\<close>

text \<open>Between calls the library has a group open exactly when the process group has a block open, on the
  block's thread; \<open>unsubmitted\<close> is the moment inside a call when the library's group is open on its own.\<close>

definition settled :: "int \<Rightarrow> ('tb, 'h) pgroup \<Rightarrow> bool" where
  "settled t s \<longleftrightarrow> scan Closed (pg_log s) = Some (if pg_coalescing s = None then Closed else Open t)
     \<and> (if pg_coalescing s = None then nothing_deferred s else pg_co_thread s = Some t)"

definition unsubmitted :: "int \<Rightarrow> ('tb, 'h) pgroup \<Rightarrow> bool" where
  "unsubmitted t s \<longleftrightarrow> scan Closed (pg_log s) = Some (Open t) \<and> pg_coalescing s = None \<and> nothing_deferred s"

definition keeps :: "int \<Rightarrow> ('tb, 'h, 'a) act \<Rightarrow> bool" where
  "keeps t m \<longleftrightarrow> (\<forall>s. settled t s \<longrightarrow> settled t (fst (m s)))"

lemma keepsI: "(\<And>s. settled t s \<Longrightarrow> settled t (fst (m s))) \<Longrightarrow> keeps t m"
  by (simp add: keeps_def)

lemma keepsD: "keeps t m \<Longrightarrow> settled t s \<Longrightarrow> settled t (fst (m s))"
  by (simp add: keeps_def)

lemma same_block_settled: "same_block s s' \<Longrightarrow> settled t s \<Longrightarrow> settled t s'"
  by (auto simp: same_block_def settled_def scan_append neutral_scan)

lemma same_block_unsubmitted: "same_block s s' \<Longrightarrow> unsubmitted t s \<Longrightarrow> unsubmitted t s'"
  by (auto simp: same_block_def unsubmitted_def scan_append neutral_scan)

lemma quiet_keeps: "quiet m \<Longrightarrow> keeps t m"
  by (auto simp: keeps_def quiet_def intro: same_block_settled)

lemma keeps_bind [keeps_rules]:
  fixes m :: "('tb, 'h, 'a) act" and f :: "'a \<Rightarrow> ('tb, 'h, 'b) act"
  assumes "keeps t m" "\<And>x. keeps t (f x)"
  shows "keeps t (bindp m f)"
proof (rule keepsI)
  fix s :: "('tb, 'h) pgroup" assume s: "settled t s"
  show "settled t (fst (bindp m f s))"
  proof (cases "m s")
    case (Pair s' r)
    then have s': "settled t s'" using keepsD[OF assms(1) s] by simp
    then show ?thesis using keepsD[OF assms(2) s'] by (cases r) (simp_all add: bindp_def Pair)
  qed
qed

lemma keeps_seq [keeps_rules]: "keeps t m \<Longrightarrow> keeps t n \<Longrightarrow> keeps t (seqp m n)"
  by (simp add: seqp_def keeps_bind)

lemma keeps_if [keeps_rules]: "keeps t m \<Longrightarrow> keeps t n \<Longrightarrow> keeps t (if b then m else n)"
  by simp

lemma keeps_when [keeps_rules]: "keeps t m \<Longrightarrow> keeps t (whenp b m)"
  by (simp add: whenp_def quiet_keeps quiet_rules)

lemma keeps_split [keeps_rules]: "(\<And>x y. keeps t (f x y)) \<Longrightarrow> keeps t (case p of (x, y) \<Rightarrow> f x y)"
  by (cases p) simp

lemma keeps_let [keeps_rules]: "(\<And>x. keeps t (f x)) \<Longrightarrow> keeps t (Let v f)"
  by simp

lemma keeps_for [keeps_rules]: "(\<And>x. keeps t (f x)) \<Longrightarrow> keeps t (forp f xs)"
  by (induction xs) (auto intro!: keeps_rules intro: quiet_keeps quiet_rules)

lemma forp_emit: "forp emit es s = (s\<lparr>pg_log := pg_log s @ es\<rparr>, Inr ())"
  by (induction es arbitrary: s) (simp_all add: act_simps emit_def)

text \<open>Copy-backs and fences are harmless when no group is open.\<close>

fun harmless :: "event \<Rightarrow> bool" where
  "harmless (EvCopyBack _ _ _ _) = True"
| "harmless (EvFence _ _ _) = True"
| "harmless e = neutral e"

lemma harmless_scan: "list_all harmless es \<Longrightarrow> scan Closed es = Some Closed"
proof (induction es)
  case (Cons e es)
  then show ?case by (cases e) auto
qed simp

lemma harmless_events: "list_all harmless (fence_events t index prev xs)" "list_all harmless (finish_events t index pairs)"
proof -
  show "list_all harmless (fence_events t index prev xs)" by (induction xs arbitrary: prev) auto
  show "list_all harmless (finish_events t index pairs)" by (induction pairs) (auto simp: finish_events_def list_all_iff)
qed

lemma keeps_outside:
  fixes f :: "('tb, 'h) pgroup \<Rightarrow> ('tb, 'h) pgroup"
  assumes "list_all harmless es"
    "\<And>s. pg_coalescing (f s) = pg_coalescing s" "\<And>s. pg_co_thread (f s) = pg_co_thread s" "\<And>s. pg_log (f s) = pg_log s"
  shows "keeps t (bindp (coalescing_open t') (\<lambda>inside. if inside then modp f else bindp (comm_of index) (\<lambda>_. forp emit es)))"
proof (rule keepsI)
  fix s :: "('tb, 'h) pgroup" assume s: "settled t s"
  have "settled t (f s)" if "pg_coalescing s \<noteq> None" using s that assms(2-4) by (auto simp: settled_def)
  moreover have "settled t (s\<lparr>pg_log := pg_log s @ es\<rparr>)" if "pg_coalescing s = None"
    using s that assms(1) by (simp add: settled_def scan_append harmless_scan nothing_deferred_def)
  ultimately show "settled t (fst (bindp (coalescing_open t') (\<lambda>inside. if inside then modp f else bindp (comm_of index) (\<lambda>_. forp emit es)) s))"
    using s by (auto simp: coalescing_open_def comm_of_def act_simps forp_emit keeps_def split: option.split)
qed

lemma keeps_record [keeps_rules]: "keeps t (record_tensors t' index xs)"
  unfolding record_tensors_def by (rule keeps_outside[OF harmless_events(1)]) auto

lemma keeps_finish [keeps_rules]: "keeps t (finish_pairs t' index pairs)"
  unfolding finish_pairs_def by (rule keeps_outside[OF harmless_events(2)]) auto

lemma group_end_settles:
  "unsubmitted t s \<Longrightarrow> settled t (fst (group_end su t s))"
  by (auto simp: group_end_def fr_tag_def emit_def act_simps Let_def settled_def unsubmitted_def scan_append nothing_deferred_def)

lemma group_start_effect:
  assumes "settled t s" "pg_coalescing s = None"
  shows "case group_start su t s of (s', Inl e) \<Rightarrow> settled t s' | (s', Inr _) \<Rightarrow> unsubmitted t s'"
  using assms by (auto simp: group_start_def emit_def act_simps Let_def settled_def unsubmitted_def scan_append nothing_deferred_def)

lemma keeps_in_group [keeps_rules]:
  fixes body :: "('tb, 'h, 'a) act"
  assumes "quiet body"
  shows "keeps t (in_group su t body)"
proof (rule keepsI)
  fix s :: "('tb, 'h) pgroup" assume s: "settled t s"
  show "settled t (fst (in_group su t body s))"
  proof (cases "pg_coalescing s")
    case None
    have fin: "settled t (fst (finallyp body (group_end su t) s'))" if "unsubmitted t s'" for s' :: "('tb, 'h) pgroup"
    proof -
      have "unsubmitted t (fst (body s'))" using same_block_unsubmitted[OF quietD[OF assms] that] .
      from group_end_settles[OF this, of su] show ?thesis
        by (cases "body s'"; cases "group_end su t (fst (body s'))") (auto simp: finallyp_def split: sum.split)
    qed
    have "settled t (fst (seqp (group_start su t) (finallyp body (group_end su t)) s))"
      using group_start_effect[OF s None, of su] fin
      by (auto simp: seqp_def bindp_def split: prod.splits sum.splits)
    then show ?thesis using None by (simp add: in_group_def coalescing_open_def bindp_def getp_def retp_def)
  next
    case (Some i)
    then have "in_group su t body s = body s"
      using s by (simp add: in_group_def coalescing_open_def act_simps settled_def)
    then show ?thesis using keepsD[OF quiet_keeps[OF assms] s] by simp
  qed
qed

lemma drop_block_unsubmitted: "settled t s \<Longrightarrow> pg_coalescing s \<noteq> None \<Longrightarrow> unsubmitted t (drop_block s)"
  by (auto simp: settled_def unsubmitted_def drop_block_def nothing_deferred_def)

text \<open>Closing a block: the group's end first, then whatever the block deferred.\<close>

lemma closing_settles:
  fixes s :: "('tb, 'h) pgroup" and rest :: "('tb, 'h, unit) act"
  assumes "unsubmitted t s" "keeps t rest"
  shows "settled t (fst (seqp (fr_block_end su t) (seqp (group_end su t) rest) s))"
proof -
  have u: "unsubmitted t (fst (fr_block_end su t s))"
    by (rule same_block_unsubmitted[OF quietD[OF quiet_fr_block_end] assms(1)])
  have "settled t (fst (seqp (group_end su t) rest s'))" if "unsubmitted t s'" for s' :: "('tb, 'h) pgroup"
    using group_end_settles[OF that, of su] keepsD[OF assms(2)]
    by (auto simp: seqp_def bindp_def split: prod.splits sum.splits)
  then show ?thesis
    using u by (auto simp: seqp_def bindp_def fr_block_end_def modp_def)
qed

lemma abort_settles [keeps_rules]:
  fixes su :: "('tb, 'h) surroundings"
  shows "keeps t (abort_coalescing su t)"
proof (rule keepsI)
  fix s :: "('tb, 'h) pgroup" assume s: "settled t s"
  show "settled t (fst (abort_coalescing su t s))"
  proof (cases "pg_coalescing s")
    case None
    then show ?thesis using s by (simp add: abort_coalescing_def act_simps)
  next
    case (Some index)
    have u: "unsubmitted t (drop_block s)" using drop_block_unsubmitted[OF s] Some by simp
    have k: "keeps t (seqp (record_tensors t index xs) (finish_pairs t index pairs))" for xs pairs
      by (intro keeps_rules)
    have "fst (abort_coalescing su t s) = fst (seqp (fr_block_end su t) (seqp (group_end su t)
        (seqp (record_tensors t index (pg_co_records s)) (finish_pairs t index (pg_co_pairs s)))) (drop_block s))"
      by (simp add: abort_coalescing_def Some swallowp_def seqp_def bindp_def getp_def modp_def)
    then show ?thesis using closing_settles[OF u k] by simp
  qed
qed

lemma keeps_loud [keeps_rules]:
  fixes m :: "('tb, 'h, unit) act"
  assumes "keeps t m"
  shows "keeps t (loud su t m)"
proof (rule keepsI)
  fix s :: "('tb, 'h) pgroup" assume s: "settled t s"
  have c: "settled t (s'\<lparr>pg_tls := f\<rparr>)" if "settled t s'" for s' :: "('tb, 'h) pgroup" and f
    using that by (auto simp: settled_def nothing_deferred_def split: if_splits)
  show "settled t (fst (loud su t m s))"
    using keepsD[OF assms s] keepsD[OF abort_settles[of t su]]
    by (auto simp: loud_def finallyp_def exceptp_def modp_def split: prod.splits sum.splits intro!: c)
qed

subsection \<open>Every method keeps it\<close>

lemma keeps_collective [keeps_rules]: "(\<And>x. keeps t (m x)) \<Longrightarrow> keeps t (collective su t name xs m)"
  unfolding collective_def or_gloo_def by (intro keeps_rules) (auto intro!: quiet_keeps quiet_rules)

text \<open>What is left after following a method's structure is quiet.\<close>

lemmas keeps_quiets = quiet_keeps[OF quiet_pure(1)] quiet_keeps[OF quiet_pure(2)] quiet_keeps[OF quiet_pure(3)]
  quiet_keeps[OF quiet_pure(4)] quiet_keeps[OF quiet_pure(5)] quiet_keeps[OF quiet_emit]
  quiet_keeps[OF quiet_native] quiet_keeps[OF quiet_new_tensor] quiet_keeps[OF quiet_stage_in]
  quiet_keeps[OF quiet_stage_out] quiet_keeps[OF quiet_map] quiet_keeps[OF quiet_result_work]
  quiet_keeps[OF quiet_make_work] quiet_keeps[OF quiet_fr_op] quiet_keeps[OF quiet_fr_op_flat]
  quiet_keeps[OF quiet_gloo] quiet_keeps[OF quiet_ensure] quiet_keeps[OF quiet_devices_of]
  quiet_keeps[OF quiet_flat(1)] quiet_keeps[OF quiet_flat(2)]

lemma keeps_reductions:
  "keeps t (allreduce su t xs op)" "keeps t (allreduce_coalesced su t xs op)"
  "keeps t (broadcast su t xs rt k)" "keeps t (reduce su t xs op rt)"
  unfolding allreduce_def allreduce_coalesced_def broadcast_def reduce_def
  by (intro keeps_rules keeps_quiets quiet_rules)+

lemma keeps_gathers:
  "keeps t (allgather_base su t x i)" "keeps t (allgather su t xss ins)"
  "keeps t (allgather_into_tensor_coalesced su t xs ins)"
  unfolding allgather_base_def allgather_def allgather_into_tensor_coalesced_def
  by (intro keeps_rules keeps_quiets quiet_rules; simp)+

lemma keeps_scatters:
  "keeps t (reduce_scatter_base su t x i op)" "keeps t (reduce_scatter su t xs iss op)"
  "keeps t (reduce_scatter_tensor_coalesced su t xs ins op)"
  unfolding reduce_scatter_base_def reduce_scatter_def reduce_scatter_tensor_coalesced_def
  by (intro keeps_rules keeps_quiets quiet_rules; simp)+

lemma keeps_sendrecv_chunks [keeps_rules]: "keeps t (sendrecv_chunks su t index x i ns ms)"
  unfolding sendrecv_chunks_def by (intro keeps_rules keeps_quiets quiet_rules)

lemma keeps_exchanges:
  "keeps t (alltoall_base su t x i ns ms)" "keeps t (alltoall su t xs ins)"
  unfolding alltoall_base_def alltoall_def by (intro keeps_rules keeps_quiets quiet_rules)+

lemma keeps_rooted:
  assumes "\<not> su_mojoccl su"
  shows "keeps t (gather su t xss ins rt)" "keeps t (scatter su t xs iss rt)"
  using assms unfolding gather_def scatter_def
  by (simp_all, (intro keeps_rules keeps_quiets quiet_rules; simp)+)

lemma keeps_p2p: "keeps t (send su t xs peer)" "keeps t (recv su t xs peer)"
  unfolding send_def recv_def by (intro keeps_rules keeps_quiets quiet_rules)+

lemma keeps_barrier: "keeps t (barrier su t)"
  unfolding barrier_def by (intro keeps_rules keeps_quiets quiet_rules; simp)

lemma keeps_abort: "keeps t (abort su t)"
  unfolding abort_def by (intro quiet_keeps quiet_rules quiet_mod) (auto simp: nothing_deferred_def)

lemma seqp_modp: "seqp (modp f) m s = m (f s)" "fst (modp f s) = f s" "bindp (getp g) h s = h (g s) s"
  by (simp_all add: act_simps)

lemma keeps_start:
  fixes su :: "('tb, 'h) surroundings"
  shows "keeps t (start_coalescing su t dev)"
proof (rule keepsI)
  fix s :: "('tb, 'h) pgroup" assume s: "settled t s"
  let ?index = "or_else dev (su_current su)"
  let ?open = "\<lambda>s :: ('tb, 'h) pgroup. s\<lparr>pg_coalescing := Some ?index, pg_co_thread := Some t, pg_co_tensors := [],
     pg_co_records := [], pg_co_pairs := [], pg_fr_block := Some []\<rparr>"
  show "settled t (fst (start_coalescing su t dev s))"
  proof (cases "pg_coalescing s")
    case None
    let ?e = "ensure su t ?index s"
    have b: "same_block s (fst ?e)" by (rule quietD[OF quiet_ensure])
    have e: "settled t (fst ?e)" "pg_coalescing (fst ?e) = None"
      using same_block_settled[OF b s] b None by (auto simp: same_block_def)
    have open_ok: "settled t (?open s')" if "unsubmitted t s'" for s'
      using that by (simp add: settled_def unsubmitted_def)
    have "settled t (fst (seqp (group_start su t) (modp ?open) (fst ?e)))"
      using group_start_effect[OF e, of su] open_ok
      by (auto simp: seqp_def bindp_def modp_def split: prod.splits sum.splits)
    then show ?thesis
      using None e(1) by (cases ?e) (auto simp: start_coalescing_def act_simps Let_def split: sum.split)
  qed (use s in \<open>simp add: start_coalescing_def act_simps\<close>)
qed

lemma end_settles:
  fixes s :: "('tb, 'h) pgroup"
  assumes s: "settled t s" and block: "pg_coalescing s = Some index"
  shows "settled t (fst (end_coalescing su t dev s))"
proof -
  let ?clear = "modp (\<lambda>s. s\<lparr>pg_tls := (pg_tls s)(t := 0)\<rparr>) :: ('tb, 'h, unit) act"
  let ?rest = "seqp (record_tensors t index (pg_co_records s)) (seqp (finish_pairs t index (pg_co_pairs s))
      (make_work t index (pg_co_tensors s))) :: ('tb, 'h, unit) act"
  obtain f where f: "(fr_block_end su t :: ('tb, 'h, unit) act) = modp f" by (auto simp: fr_block_end_def)
  have k: "keeps t ?rest" by (intro keeps_rules keeps_quiets)
  have u: "unsubmitted t (fst (fr_block_end su t (drop_block s)))"
    by (rule same_block_unsubmitted[OF quietD[OF quiet_fr_block_end]])
       (rule drop_block_unsubmitted[OF s], simp add: block)
  have c: "settled t (fst (finallyp (group_end su t) ?clear s'))" if "unsubmitted t s'" for s'
  proof -
    have "keeps t ?clear" by (rule quiet_keeps[OF quiet_clear_tag])
    from keepsD[OF this group_end_settles[OF that, of su]] show ?thesis
      by (cases "group_end su t s'") (simp add: finallyp_def modp_def)
  qed
  have "settled t (fst (seqp (finallyp (group_end su t) ?clear) ?rest (f (drop_block s))))"
    using c[OF u] keepsD[OF k] unfolding seqp_def[of "finallyp _ _"]
    by (auto simp: f seqp_modp bindp_def split: prod.splits sum.splits)
  then show ?thesis
    by (simp add: end_coalescing_def seqp_modp f block or_else_def Let_def)
qed

subsection \<open>Runs\<close>

text \<open>The calls of one thread, in any order, failing or not. \<open>_end_coalescing\<close> is only called by
  torch's \<open>_coalescing_manager\<close>, after a block that opened and was not unwound.\<close>

inductive pg_run :: "('tb, 'h) surroundings \<Rightarrow> int \<Rightarrow> ('tb, 'h) pgroup \<Rightarrow> bool" for su t where
  created: "pg_run su t (new_group rank world fr)"
| called: "pg_run su t s \<Longrightarrow> (\<forall>dev. c = EndCoalescing dev \<longrightarrow> pg_coalescing s \<noteq> None)
    \<Longrightarrow> pg_run su t (fst (perform su t c s))"

lemma perform_settles:
  assumes "\<not> su_mojoccl su" "settled t s" "\<forall>dev. c = EndCoalescing dev \<longrightarrow> pg_coalescing s \<noteq> None"
  shows "settled t (fst (perform su t c s))"
proof (cases "\<exists>dev. c = EndCoalescing dev")
  case True
  then show ?thesis using end_settles[OF assms(2)] assms(3) by auto
next
  case False
  have e: "keeps t (bindp (ensure su t index) (\<lambda>_. retp ()))" for index
    by (intro keeps_rules keeps_quiets)
  from False have "keeps t (perform su t c)"
    by (cases c) (simp_all add: keeps_reductions keeps_gathers keeps_scatters keeps_exchanges
        keeps_rooted[OF assms(1)] keeps_p2p keeps_barrier keeps_start keeps_abort e)
  from keepsD[OF this assms(2)] show ?thesis .
qed

lemma pg_run_settled: "pg_run su t s \<Longrightarrow> \<not> su_mojoccl su \<Longrightarrow> settled t s"
proof (induction rule: pg_run.induct)
  case (created rank world fr)
  then show ?case by (simp add: settled_def new_group_def nothing_deferred_def)
qed (simp add: perform_settles)

subsection \<open>Properties\<close>


definition sample_su :: "bool \<Rightarrow> (unit, unit) surroundings" where
  "sample_su mojoccl =
     \<lparr>su_native = (\<lambda>_ _. True), su_group = (\<lambda>_. True), su_gloo = (\<lambda>_. True), su_error = ''e'', su_current = 0,
      su_api = (\<lambda>_. ''cuda''), su_stream = (\<lambda>i. i + 7), su_address = (\<lambda>n. 1000 * n), su_traceback = (),
      su_self = (), su_version = 22703, su_deref = (\<lambda>_. None), su_unique_id_ok = (\<lambda>_. True),
      su_mojoccl = mojoccl, su_show_op = (\<lambda>_. ''op''), su_env = (\<lambda>_. None), su_timeout_us = 0\<rparr>"

definition sample_tensor :: "int \<Rightarrow> int list \<Rightarrow> bool \<Rightarrow> tensor" where
  "sample_tensor n shape contig =
     \<lparr>t_id = - n, t_device = MojoDevice (Some 0), t_dtype = Float32, t_shape = shape, t_contig = contig, t_ptr = 64 * n\<rparr>"

fun run_calls :: "('tb, 'h) surroundings \<Rightarrow> int \<Rightarrow> call list \<Rightarrow> ('tb, 'h) pgroup \<Rightarrow> ('tb, 'h) pgroup" where
  "run_calls su t [] s = s"
| "run_calls su t (c # cs) s = run_calls su t cs (fst (perform su t c s))"

lemma pg_run_calls:
  "pg_run su t s \<Longrightarrow> list_all (\<lambda>c. \<forall>dev. c \<noteq> EndCoalescing dev) cs \<Longrightarrow> pg_run su t (run_calls su t cs s)"
  by (induction cs arbitrary: s) (auto intro: pg_run.called)

definition sample_calls :: "call list" where
  "sample_calls = [Ensure 0, Allreduce [sample_tensor 1 [2, 3] False] RedSum, StartCoalescing None,
     Allreduce [sample_tensor 2 [4] False] RedMax]"


text \<open>C16: The end of a block submits the group first and then does everything the block's calls deferred,
  in their order: the fences of the inputs, the copy-backs and fences of the outputs, then the
  completion event that covers them. A group that failed to submit copies and fences nothing. Either way
  the block is gone, with nothing left for the next one.\<close>

theorem block_end_submits_then_settles:
  assumes "pg_coalescing s = Some index" "end_coalescing su t dev s = (s', r)"
  shows "pg_coalescing s' = None \<and> nothing_deferred s' \<and> pg_fr_block s' = None \<and> pg_tls s' t = 0
    \<and> (\<exists>tag ok. pg_log s' = pg_log s @ EvGroupEnd t tag ok #
          (if ok \<and> dget (pg_ready s) index \<noteq> None
           then fence_events t index None (pg_co_records s) @ finish_events t index (pg_co_pairs s)
                @ [EvWork t index (pg_co_tensors s)]
           else [])
        \<and> (r = Inr () \<longleftrightarrow> ok \<and> dget (pg_ready s) index \<noteq> None))"
proof -
  obtain f where f: "fr_block_end su t = (modp f :: ('a, 'b, unit) act)" by (auto simp: fr_block_end_def)
  define b where "b = f (drop_block s)"
  have eq: "f = (\<lambda>s. fst (fr_block_end su t s))" by (simp add: f modp_def)
  have b: "pg_coalescing b = None" "nothing_deferred b" "pg_fr_block b = None" "pg_log b = pg_log s" "pg_ready b = pg_ready s"
    by (auto simp: b_def eq fr_block_end_def modp_def drop_block_def nothing_deferred_def Let_def case_prod_unfold
        split: option.split)
  let ?ok = "su_group su (pg_log s)"
  let ?c = "b\<lparr>pg_log := pg_log s @ [EvGroupEnd t (pg_tls b t) ?ok], pg_tls := (pg_tls b)(t := 0)\<rparr>"
  let ?rest = "seqp (record_tensors t index (pg_co_records s)) (seqp (finish_pairs t index (pg_co_pairs s))
      (make_work t index (pg_co_tensors s))) :: ('a, 'b, unit) act"
  have "end_coalescing su t dev s = (if ?ok then ?rest ?c else (?c, Inl (failed su ''ncclGroupEnd'')))"
    by (simp add: end_coalescing_def seqp_modp f assms(1) or_else_def Let_def flip: b_def)
       (simp add: seqp_def[of "finallyp _ _"] bindp_def finallyp_def group_end_def fr_tag_def emit_def act_simps b Let_def)
  then show ?thesis
    using assms(2) b
    by (auto simp: record_tensors_def finish_pairs_def make_work_def coalescing_open_def comm_of_def seqp_modp
        forp_emit emit_def act_simps nothing_deferred_def split: if_splits option.splits)
qed

lemma block_end_submits_then_settles_witness:
  "nothing_deferred (fst (end_coalescing (sample_su False) 5 None
      (run_calls (sample_su False) 5 sample_calls (new_group 1 2 None))))"
proof -
  let ?s = "run_calls (sample_su False) 5 sample_calls (new_group 1 2 None)"
  have "pg_coalescing ?s = Some 0" by code_simp
  from block_end_submits_then_settles[OF this, of "sample_su False" 5 None] show ?thesis
    by (cases "end_coalescing (sample_su False) 5 None ?s") simp
qed

subsection \<open>A call from another thread\<close>

lemma bindp_liftp: "bindp (liftp (Inr x)) f s = f x s"
  by (simp add: act_simps)

lemma collective_fails:
  assumes "is_cpu x = Inr False" "m x s = (n, Inl e)"
  shows "collective su t name (x # xs) m s =
    ((fst (abort_coalescing su t n))\<lparr>pg_tls := (pg_tls (fst (abort_coalescing su t n)))(t := 0)\<rparr>, Inl e)"
  using assms by (simp add: collective_def first_of_def or_gloo_def bindp_liftp loud_def finallyp_def exceptp_def modp_def)

lemma abort_ends_group:
  fixes s :: "('tb, 'h) pgroup"
  assumes "pg_coalescing s = Some i"
  shows "\<exists>tag ok es. pg_log (fst (abort_coalescing su t s)) = pg_log s @ EvGroupEnd t tag ok # es
    \<and> pg_coalescing (fst (abort_coalescing su t s)) = None"
proof -
  obtain f where f: "fr_block_end su t = (modp f :: ('tb, 'h, unit) act)" by (auto simp: fr_block_end_def)
  have feq: "f = (\<lambda>s. fst (fr_block_end su t s))" by (simp add: f modp_def)
  have d: "pg_coalescing (f (drop_block s)) = None" "pg_log (f (drop_block s)) = pg_log s"
    by (auto simp: feq fr_block_end_def modp_def drop_block_def Let_def case_prod_unfold split: option.split)
  show ?thesis
    by (auto simp: abort_coalescing_def assms swallowp_def f seqp_modp seqp_def[of "group_end _ _"]
        bindp_def[of "group_end _ _"] group_end_def fr_tag_def emit_def record_tensors_def finish_pairs_def
        coalescing_open_def comm_of_def forp_emit act_simps d Let_def split: option.split)
qed

text \<open>The operation is issued before the block's thread is looked at.\<close>

lemma foreign_allreduce:
  fixes s :: "('tb, 'h) pgroup"
  assumes "pg_coalescing s = Some i" "pg_co_thread s = Some u" "u \<noteq> t"
    and "t_device x = MojoDevice (Some j)" "t_contig x" "dget (pg_ready s) j = Some c"
    and "nccl_dtype (t_dtype x) = Inr dt" "op_code su (t_dtype x) op = Inr rop" "\<And>log call. su_native su log call"
  shows "\<exists>n tag. pg_log n = pg_log s @ [EvNative t j (CAllreduce (t_ptr x) (numel x) dt rop) tag True]
    \<and> pg_coalescing n = Some i
    \<and> allreduce su t [x] op s =
        ((fst (abort_coalescing su t n))\<lparr>pg_tls := (pg_tls (fst (abort_coalescing su t n)))(t := 0)\<rparr>,
         Inl (RuntimeError ''a coalescing block of this process group is open on another thread''))"
proof -
  let ?op = "fr_op su t ''all_reduce'' (shapes [x]) (shapes [x]) False :: ('tb, 'h, unit) act"
  obtain f where f: "?op = modp f" by (auto simp: fr_op_def)
  define b where "b = f s"
  have "f = (\<lambda>s. fst (?op s))" by (simp add: f modp_def)
  then have b: "pg_log b = pg_log s" "pg_ready b = pg_ready s" "pg_coalescing b = Some i" "pg_co_thread b = Some u"
    using assms(1,2) by (auto simp: b_def fr_op_def modp_def Let_def case_prod_unfold split: option.split)
  let ?n = "b\<lparr>pg_log := pg_log s @ [EvNative t j (CAllreduce (t_ptr x) (numel x) dt rop) (pg_tls b t) True]\<rparr>"
  have "is_cpu x = Inr False" using assms(4) by (simp add: is_cpu_def)
  moreover have "seqp ?op
     (seqp (liftp (one_per_rank [x])) (bindp (devices_of su t [x]) (\<lambda>index.
       bindp (liftp (nccl_dtype (t_dtype x))) (\<lambda>dt. bindp (liftp (op_code su (t_dtype x) op)) (\<lambda>rop.
       bindp (stage_in su t index x) (\<lambda>staged.
       seqp (native su t index (CAllreduce (t_ptr staged) (numel staged) dt rop) ''ncclAllReduce'')
       (seqp (finish_pairs t index [(x, staged)]) (result_work t index [x])))))))) s
    = (?n, Inl (RuntimeError ''a coalescing block of this process group is open on another thread''))"
    using assms(3-9)
    by (simp add: f seqp_modp flip: b_def)
       (simp add: one_per_rank_def devices_of_def same_device_def is_cpu_def tensor_index_def ensure_def stage_in_def
        native_def fr_tag_def emit_def finish_pairs_def coalescing_open_def act_simps Let_def b)
  ultimately have "allreduce su t [x] op s = ((fst (abort_coalescing su t ?n))\<lparr>pg_tls :=
      (pg_tls (fst (abort_coalescing su t ?n)))(t := 0)\<rparr>,
      Inl (RuntimeError ''a coalescing block of this process group is open on another thread''))"
    unfolding allreduce_def by (rule collective_fails)
  then show ?thesis using b by (intro exI[of _ ?n] exI[of _ "pg_tls b t"]) simp
qed



text \<open>Without point-to-point operations a gather inside a block reads the all-gather's buffer at once,
  while the group that fills it is still open.\<close>

lemma mojoccl_gather_reads_early:
  "scan Closed (pg_log (run_calls (sample_su True) 5
      [Ensure 0, StartCoalescing None, Gather [[sample_tensor 1 [2] True, sample_tensor 2 [2] True]] [sample_tensor 3 [2] True] 0]
      (new_group 0 2 None))) = None"
  by code_simp

end
