(* ===== verification/PG_Chunks.thy ===== *)
theory PG_Chunks
  imports PG_Runs
begin

text \<open>
  How collectives cut their buffers: the split sizes of an all-to-all cover the buffer, the pieces it
  sends and receives lie one behind the other from the buffer's start, and the views an all-gather
  copies its outputs from are the ranks' pieces of the gathered buffer.
\<close>

lemma sum_list_scaled: "sum_list (map (\<lambda>n. n * k) ns) = sum_list ns * (k :: int)"
  by (induction ns) (auto simp: distrib_right)

lemma numel_rows: "t_shape x = n # ns \<Longrightarrow> n \<noteq> 0 \<Longrightarrow> n * (numel x div n) = numel x"
  by (simp add: numel_def)

lemma splits_facts:
  assumes "splits world x sizes what = Inr ns" "list_all (\<lambda>n. 0 \<le> n) (t_shape x)"
  shows "length ns = world" "list_all (\<lambda>n. 0 \<le> n) ns" "0 < world \<Longrightarrow> sum_list ns = numel x"
proof -
  define rows where "rows = (case t_shape x of [] \<Rightarrow> 1 | n # _ \<Rightarrow> n)"
  define row where "row = (if rows \<noteq> 0 then numel x div rows else 0)"
  have pos: "0 \<le> numel x" using assms(2) unfolding numel_def by (induction "t_shape x" arbitrary: x) (auto simp: prod_list_nonneg list_all_iff)
  have r: "0 \<le> rows" using assms(2) by (auto simp: rows_def list_all_iff split: list.split)
  have total: "rows * row = numel x"
  proof (cases "t_shape x")
    case Nil
    then show ?thesis by (simp add: rows_def row_def numel_def)
  next
    case (Cons n l)
    then show ?thesis by (simp add: rows_def row_def numel_def)
  qed
  have row: "0 \<le> row" using pos r by (simp add: row_def pos_imp_zdiv_nonneg_iff)
  have ns: "ns = (if sizes = [] then replicate world (rows div int world * row) else map (\<lambda>n. n * row) sizes)"
    and ok: "if sizes = [] then rows mod int world = 0
             else length sizes = world \<and> \<not> list_ex (\<lambda>n. n < 0) sizes \<and> sum_list sizes = rows"
    using assms(1) by (auto simp: splits_def Let_def simp flip: rows_def row_def split: if_splits)
  show "length ns = world" using ns ok by (auto split: if_splits)
  show "list_all (\<lambda>n. 0 \<le> n) ns"
    using ns ok row r by (auto simp: list_all_iff list_ex_iff pos_imp_zdiv_nonneg_iff split: if_splits)
  show "sum_list ns = numel x" if "0 < world"
  proof (cases "sizes = []")
    case True
    then have "sum_list ns = (int world * (rows div int world)) * row" using ns by (simp add: sum_list_replicate)
    also have "int world * (rows div int world) = rows" using ok True by auto
    finally show ?thesis using total by simp
  next
    case False
    then show ?thesis using ns ok total by (simp add: sum_list_scaled)
  qed
qed

subsection \<open>The pieces of an all-to-all\<close>

text \<open>The calls the loop makes for one peer, at the offsets of its pieces.\<close>

definition peer_calls :: "tensor \<Rightarrow> tensor \<Rightarrow> int \<Rightarrow> int \<Rightarrow> int \<Rightarrow> int \<times> int \<times> int \<Rightarrow> native_call list" where
  "peer_calls out inp dt a b p = (case p of (peer, n_in, n_out) \<Rightarrow>
     (if n_in \<noteq> 0 then [CSend (t_ptr inp + a * element_size (t_dtype inp)) n_in dt peer] else [])
     @ (if n_out \<noteq> 0 then [CRecv (t_ptr out + b * element_size (t_dtype inp)) n_out dt peer] else []))"

fun loop_calls :: "tensor \<Rightarrow> tensor \<Rightarrow> int \<Rightarrow> int \<Rightarrow> int \<Rightarrow> (int \<times> int \<times> int) list \<Rightarrow> native_call list" where
  "loop_calls out inp dt a b [] = []"
| "loop_calls out inp dt a b (p # ps) =
     peer_calls out inp dt a b p @ loop_calls out inp dt (a + fst (snd p)) (b + snd (snd p)) ps"

lemma sendrecv_loop_calls:
  assumes "\<And>log call. su_native su log call"
  shows "sendrecv_loop su t index out inp dt a b ps s =
    (s\<lparr>pg_log := pg_log s @ map (\<lambda>c. EvNative t index c (pg_tls s t) True) (loop_calls out inp dt a b ps)\<rparr>, Inr ())"
proof (induction ps arbitrary: a b s)
  case (Cons p ps)
  then show ?case
    by (cases p) (simp add: peer_calls_def native_def fr_tag_def emit_def act_simps Let_def assms)
qed (simp add: act_simps)

lemma loop_calls_nth:
  "loop_calls out inp dt a b ps =
     concat (map (\<lambda>k. peer_calls out inp dt (a + sum_list (take k (map (fst \<circ> snd) ps)))
        (b + sum_list (take k (map (snd \<circ> snd) ps))) (ps ! k)) [0..<length ps])"
proof (induction ps arbitrary: a b)
  case (Cons p ps)
  have up: "[0..<length (p # ps)] = 0 # map Suc [0..<length ps]" by (simp add: map_Suc_upt upt_conv_Cons del: upt_Suc)
  show ?case unfolding up by (simp add: Cons.IH comp_def add.assoc)
qed simp

text \<open>C18: An all-to-all moves everything once. The split sizes of both buffers are one non-negative count per
  rank and add up to the buffer, and the operations issued are, per peer, the piece of the input that
  starts where the pieces of the lower ranks end, and likewise for the output; empty pieces are skipped. All of it is one group.\<close>

theorem alltoall_covers_buffers:
  assumes "splits world inp in_split ''input'' = Inr ns" "splits world out out_split ''output'' = Inr ms"
    and "list_all (\<lambda>n. 0 \<le> n) (t_shape inp)" "list_all (\<lambda>n. 0 \<le> n) (t_shape out)" "0 < world"
    and "t_dtype out = t_dtype inp" "nccl_dtype (t_dtype inp) = Inr dt" "pg_size s = world"
    and "\<And>log call. su_native su log call" "\<And>log. su_group su log" "pg_coalescing s = None"
  shows "sendrecv_chunks su t index out inp ms ns s = (s\<lparr>pg_log := pg_log s @ EvGroupStart t True # map (\<lambda>c. EvNative t index c (pg_tls s t) True)
      (concat (map (\<lambda>k.
         (if ns ! k \<noteq> 0 then [CSend (t_ptr inp + sum_list (take k ns) * element_size (t_dtype inp)) (ns ! k) dt (int k)] else [])
         @ (if ms ! k \<noteq> 0 then [CRecv (t_ptr out + sum_list (take k ms) * element_size (t_dtype inp)) (ms ! k) dt (int k)] else []))
       [0..<world])) @ [EvGroupEnd t (pg_tls s t) True]\<rparr>, Inr ())
    \<and> sum_list ns = numel inp \<and> sum_list ms = numel out \<and> list_all (\<lambda>n. 0 \<le> n) (ns @ ms)
    \<and> length ns = world \<and> length ms = world"
proof -
  note n = splits_facts[OF assms(1,3)] and m = splits_facts[OF assms(2,4)]
  let ?ps = "zip (map int [0..<world]) (zip ns ms)"
  have maps: "map (fst \<circ> snd) ?ps = ns" "map (snd \<circ> snd) ?ps = ms"
    using n(1) m(1) by (simp_all add: map_fst_zip map_snd_zip flip: map_map)
  have at: "?ps ! k = (int k, ns ! k, ms ! k)" if "k < world" for k
    using that n(1) m(1) by simp
  have len: "length ?ps = world" using n(1) m(1) by simp
  have "sendrecv_chunks su t index out inp ms ns s = finallyp (sendrecv_loop su t index out inp dt 0 0 ?ps)
      (group_end su t) (s\<lparr>pg_log := pg_log s @ [EvGroupStart t True]\<rparr>)"
    using assms(6-8,10,11)
    by (simp add: sendrecv_chunks_def in_group_def coalescing_open_def group_start_def emit_def act_simps Let_def)
  also have "\<dots> = (s\<lparr>pg_log := pg_log s @ EvGroupStart t True # map (\<lambda>c. EvNative t index c (pg_tls s t) True)
      (loop_calls out inp dt 0 0 ?ps) @ [EvGroupEnd t (pg_tls s t) True]\<rparr>, Inr ())"
    by (simp add: finallyp_def sendrecv_loop_calls[OF assms(9)] group_end_def fr_tag_def emit_def act_simps Let_def assms(10))
  also have "loop_calls out inp dt 0 0 ?ps = concat (map (\<lambda>k.
         (if ns ! k \<noteq> 0 then [CSend (t_ptr inp + sum_list (take k ns) * element_size (t_dtype inp)) (ns ! k) dt (int k)] else [])
         @ (if ms ! k \<noteq> 0 then [CRecv (t_ptr out + sum_list (take k ms) * element_size (t_dtype inp)) (ms ! k) dt (int k)] else []))
       [0..<world])"
    unfolding loop_calls_nth maps len by (intro arg_cong[of _ _ concat] map_cong) (auto simp: peer_calls_def at)
  finally show ?thesis using n m assms(5) by (simp add: list_all_append)
qed

lemma alltoall_covers_buffers_witness:
  "sum_list [6, 3 :: int] = numel (sample_tensor 1 [3, 3] True)"
proof -
  let ?i = "sample_tensor 1 [3, 3] True" and ?o = "sample_tensor 2 [4, 1] True"
  have c: "splits 2 ?i [2, 1] ''input'' = Inr [6, 3]" "splits 2 ?o [] ''output'' = Inr [2, 2]"
    "list_all (\<lambda>n. 0 \<le> n) (t_shape ?i)" "list_all (\<lambda>n. 0 \<le> n) (t_shape ?o)"
    "t_dtype ?o = t_dtype ?i" "nccl_dtype (t_dtype ?i) = Inr 7" "pg_size (new_group 1 2 None :: (unit, unit) pgroup) = 2"
    "pg_coalescing (new_group 1 2 None :: (unit, unit) pgroup) = None"
    by code_simp+
  have n: "su_native (sample_su False) log call" for log call by (simp add: sample_su_def)
  have g: "su_group (sample_su False) log" for log by (simp add: sample_su_def)
  from alltoall_covers_buffers[OF c(1-4) _ c(5-7) n g c(8)] show ?thesis by simp
qed

end
