(* ===== verification/PG_Pinning.thy ===== *)
theory PG_Pinning
  imports PG_Desync
begin

text \<open>
  Pinning a worker to its GPU (\<^verbatim>\<open>distributed/process_group.py\<close>, \<open>use_local_rank_gpu\<close>): the visibility
  variables are lists of devices, the HSA one below the two runtime ones. The environment is threaded,
  since a call that raises keeps what it wrote before.
\<close>

definition HSA_LEVEL :: string where "HSA_LEVEL = ''ROCR_VISIBLE_DEVICES''"
definition RUNTIME_LEVEL :: "string list" where "RUNTIME_LEVEL = [''CUDA_VISIBLE_DEVICES'', ''HIP_VISIBLE_DEVICES'']"

definition entries_of :: "string \<Rightarrow> string list" where
  "entries_of visible = filter (\<lambda>e. e \<noteq> []) (map strip (split_on CHR '','' visible))"

definition visible_entries :: "env \<Rightarrow> string \<Rightarrow> string list option" where
  "visible_entries env var =
     (case env var of
        None \<Rightarrow> None
      | Some visible \<Rightarrow> (if entries_of visible = [] then None else Some (entries_of visible)))"

text \<open>\<open>xs[i]\<close>: a negative index counts from the end.\<close>

definition py_index :: "'a list \<Rightarrow> int \<Rightarrow> 'a result" where
  "py_index xs i =
     (let k = (if i < 0 then int (length xs) + i else i) in
      if 0 \<le> k \<and> k < int (length xs) then Inr (xs ! nat k) else Inl (IndexError ''list index out of range''))"

definition keep_local_rank_entry :: "env \<Rightarrow> string \<Rightarrow> string list \<Rightarrow> int \<Rightarrow> env \<times> unit result" where
  "keep_local_rank_entry env var listed rank_index =
     (if length listed \<le> 1 then (env, Inr ())
      else if int (length listed) \<le> rank_index
      then (env, Inl (RuntimeError (''LOCAL_RANK='' @ int_text rank_index @ '' but '' @ var @ ''=''
              @ py_quote (or_else (env var) '''') @ '' lists only '' @ nat_text (length listed) @ '' devices'')))
      else case py_index listed rank_index of
          Inl e \<Rightarrow> (env, Inl e)
        | Inr entry \<Rightarrow> (env(var \<mapsto> entry), Inr ()))"

text \<open>The loop over the runtime variables, with its \<open>pinned\<close> flag.\<close>

fun pin_runtime :: "env \<Rightarrow> string list \<Rightarrow> int \<Rightarrow> bool \<Rightarrow> env \<times> bool result" where
  "pin_runtime env [] rank_index pinned = (env, Inr pinned)"
| "pin_runtime env (var # vars) rank_index pinned =
     (case visible_entries env var of
        None \<Rightarrow> pin_runtime env vars rank_index pinned
      | Some listed \<Rightarrow>
          (case keep_local_rank_entry env var listed rank_index of
             (env', Inl e) \<Rightarrow> (env', Inl e)
           | (env', Inr _) \<Rightarrow> pin_runtime env' vars rank_index True))"

definition runtime_to_zero :: "env \<Rightarrow> env" where
  "runtime_to_zero env = foldl (\<lambda>env var. if visible_entries env var \<noteq> None then env(var \<mapsto> ''0'') else env) env RUNTIME_LEVEL"

definition use_local_rank_gpu :: "env \<Rightarrow> env \<times> unit result" where
  "use_local_rank_gpu env =
     (case env ''LOCAL_RANK'' of
        None \<Rightarrow> (env, Inr ())
      | Some local_rank \<Rightarrow>
          (case int_of_text local_rank of
             None \<Rightarrow> (env, Inl (RuntimeError (''LOCAL_RANK='' @ py_quote local_rank @ '' is not an integer'')))
           | Some rank_index \<Rightarrow>
               (case visible_entries env HSA_LEVEL of
                  Some hsa \<Rightarrow>
                    (case keep_local_rank_entry env HSA_LEVEL hsa rank_index of
                       (env', Inl e) \<Rightarrow> (env', Inl e)
                     | (env', Inr _) \<Rightarrow> (runtime_to_zero env', Inr ()))
                | None \<Rightarrow>
                    (case pin_runtime env RUNTIME_LEVEL rank_index False of
                       (env', Inl e) \<Rightarrow> (env', Inl e)
                     | (env', Inr pinned) \<Rightarrow>
                         (if pinned then env'
                          else env'(''CUDA_VISIBLE_DEVICES'' \<mapsto> int_text rank_index,
                                    ''HIP_VISIBLE_DEVICES'' \<mapsto> int_text rank_index), Inr ())))))"

subsection \<open>Entries\<close>

lemma strip_subset: "set (strip s) \<subseteq> set s"
  unfolding strip_def lstrip_def by (metis set_dropWhileD set_rev subsetI)

lemma lstrip_hd: "lstrip s = [] \<or> \<not> is_space (hd (lstrip s))"
  unfolding lstrip_def by (induction s) auto

lemma lstrip_rev_lstrip: "lstrip (rev (lstrip (rev (lstrip s)))) = rev (lstrip (rev (lstrip s)))"
proof -
  obtain u where u: "rev (lstrip s) = u @ lstrip (rev (lstrip s))"
    unfolding lstrip_def[of "rev _"] by (metis takeWhile_dropWhile_id)
  then have v: "lstrip s = rev (lstrip (rev (lstrip s))) @ rev u" by (metis rev_append rev_rev_ident)
  show ?thesis
  proof (cases "rev (lstrip (rev (lstrip s)))")
    case (Cons c cs)
    then have "hd (lstrip s) = c" "lstrip s \<noteq> []" using v by (metis append_Cons list.sel(1), force)
    then have "\<not> is_space c" using lstrip_hd[of s] by simp
    then show ?thesis unfolding Cons by (simp add: lstrip_def)
  next
    case Nil
    then show ?thesis unfolding Nil by (simp add: lstrip_def)
  qed
qed

lemma strip_strip: "strip (strip s) = strip s"
  using lstrip_rev_lstrip[of s] by (simp add: strip_def) (metis dropWhile_idem lstrip_def rev_rev_ident)

lemma split_on_pieces: "p \<in> set (split_on c s) \<Longrightarrow> c \<notin> set p"
proof (induction s arbitrary: p)
  case (Cons x s)
  then show ?case by (cases "split_on c s") (auto split: if_splits)
qed simp

lemma split_on_single: "c \<notin> set s \<Longrightarrow> split_on c s = [s]"
  by (induction s) auto

lemma entry_alone:
  assumes "e \<in> set (entries_of visible)"
  shows "entries_of e = [e]"
proof -
  obtain p where p: "p \<in> set (split_on CHR '','' visible)" "e = strip p" "e \<noteq> []"
    using assms by (auto simp: entries_of_def)
  have "CHR '','' \<notin> set e" using split_on_pieces[OF p(1)] strip_subset[of p] p(2) by auto
  then show ?thesis using p by (simp add: entries_of_def split_on_single strip_strip)
qed

lemma comma_digit: "CHR '','' \<noteq> digit_char d" if "d < 10"
  using that by (auto simp: digit_char_def dest!: arg_cong[of _ _ "of_char :: char \<Rightarrow> nat"])

lemma entries_int_text: "entries_of (int_text i) = [int_text i]"
proof -
  have "CHR '','' \<notin> set (int_text i)"
    using nat_text_digits[of "CHR '',''"] comma_digit by (auto simp: int_text_def)
  then show ?thesis by (simp add: entries_of_def split_on_single strip_no_space)
qed

text \<open>A variable with at most one device.\<close>

definition single :: "env \<Rightarrow> string \<Rightarrow> bool" where
  "single env var \<longleftrightarrow> (case visible_entries env var of None \<Rightarrow> True | Some es \<Rightarrow> length es = 1)"

lemma entries_zero: "entries_of ''0'' = [''0'']"
  by code_simp

lemma visible_nonempty: "visible_entries env var = Some es \<Longrightarrow> es \<noteq> []"
  by (auto simp: visible_entries_def split: option.splits if_splits)

lemma visible_upd: "visible_entries (env(v \<mapsto> x)) w = (if w = v then visible_entries [v \<mapsto> x] v else visible_entries env w)"
  by (simp add: visible_entries_def)

text \<open>What keeping an entry leaves: one entry, the rank's of the former list when there were several.\<close>

definition rank_entry :: "string list \<Rightarrow> int \<Rightarrow> string" where
  "rank_entry es r = (if length es = 1 then hd es else es ! nat (if r < 0 then int (length es) + r else r))"

lemma keep_entry:
  assumes "visible_entries env var = Some es" "keep_local_rank_entry env var es r = (env', Inr u)"
  shows "visible_entries env' var = Some [rank_entry es r]" "\<And>w. w \<noteq> var \<Longrightarrow> env' w = env w"
proof -
  have ne: "es \<noteq> []" by (rule visible_nonempty[OF assms(1)])
  show "\<And>w. w \<noteq> var \<Longrightarrow> env' w = env w"
    using assms(2) by (auto simp: keep_local_rank_entry_def split: if_splits sum.splits)
  show "visible_entries env' var = Some [rank_entry es r]"
  proof (cases "length es \<le> 1")
    case True
    then obtain e where "es = [e]" using ne by (cases es) auto
    then show ?thesis using assms by (simp add: keep_local_rank_entry_def rank_entry_def)
  next
    case False
    let ?k = "if r < 0 then int (length es) + r else r"
    have k: "0 \<le> ?k \<and> ?k < int (length es)" "env' = env(var \<mapsto> es ! nat ?k)"
      using assms(2) False
      by (auto simp: keep_local_rank_entry_def py_index_def Let_def split: if_splits sum.splits)
    obtain v where v: "es = entries_of v"
      using assms(1) by (auto simp: visible_entries_def split: option.splits if_splits)
    have "es ! nat ?k \<in> set es" using k(1) by (intro nth_mem) auto
    then have "entries_of (es ! nat ?k) = [es ! nat ?k]" using entry_alone v by metis
    then show ?thesis using k(2) False by (simp add: visible_entries_def rank_entry_def)
  qed
qed

lemma keep_single: "length es = 1 \<Longrightarrow> keep_local_rank_entry env var es r = (env, Inr ())"
  by (simp add: keep_local_rank_entry_def)

subsection \<open>One device per worker\<close>

lemma pin_runtime_effect:
  assumes "pin_runtime env vars r p = (env', Inr p')" "distinct vars"
  shows "\<forall>v \<in> set vars. visible_entries env' v = map_option (\<lambda>es. [rank_entry es r]) (visible_entries env v)"
    and "\<forall>v. v \<notin> set vars \<longrightarrow> env' v = env v"
    and "p' \<longleftrightarrow> p \<or> (\<exists>v \<in> set vars. visible_entries env v \<noteq> None)"
proof -
  have "(\<forall>v \<in> set vars. visible_entries env' v = map_option (\<lambda>es. [rank_entry es r]) (visible_entries env v))
    \<and> (\<forall>v. v \<notin> set vars \<longrightarrow> env' v = env v) \<and> (p' \<longleftrightarrow> p \<or> (\<exists>v \<in> set vars. visible_entries env v \<noteq> None))"
    using assms
  proof (induction vars arbitrary: env p)
    case (Cons v vars)
    show ?case
    proof (cases "visible_entries env v")
      case None
      then show ?thesis using Cons.IH[of env p] Cons.prems by (auto simp: visible_entries_def)
    next
      case (Some es)
      then obtain e where e: "keep_local_rank_entry env v es r = (e, Inr ())" "pin_runtime e vars r True = (env', Inr p')"
        using Cons.prems(1) by (auto split: prod.splits sum.splits)
      note k = keep_entry[OF Some e(1)]
      have same: "visible_entries e w = visible_entries env w" if "w \<in> set vars" for w
      proof -
        have "w \<noteq> v" using that Cons.prems(2) by auto
        from k(2)[OF this] show ?thesis by (simp add: visible_entries_def)
      qed
      have ih: "\<forall>w \<in> set vars. visible_entries env' w = map_option (\<lambda>es. [rank_entry es r]) (visible_entries e w)"
        "\<forall>w. w \<notin> set vars \<longrightarrow> env' w = e w" "p'"
        using Cons.IH[OF e(2)] Cons.prems(2) by auto
      have "visible_entries env' v = Some [rank_entry es r]"
        using ih(2) Cons.prems(2) k(1) by (simp add: visible_entries_def)
      moreover have "env' w = env w" if "w \<notin> set (v # vars)" for w
        using that ih(2) k(2) by simp
      ultimately show ?thesis using ih(1,3) same Some by simp
    qed
  qed simp
  then show "\<forall>v \<in> set vars. visible_entries env' v = map_option (\<lambda>es. [rank_entry es r]) (visible_entries env v)"
    and "\<forall>v. v \<notin> set vars \<longrightarrow> env' v = env v"
    and "p' \<longleftrightarrow> p \<or> (\<exists>v \<in> set vars. visible_entries env v \<noteq> None)"
    by auto
qed

lemma runtime_to_zero_effect:
  "visible_entries (runtime_to_zero env) v =
     (if v \<in> set RUNTIME_LEVEL then map_option (\<lambda>_. [''0'']) (visible_entries env v) else visible_entries env v)"
  "v \<notin> set RUNTIME_LEVEL \<Longrightarrow> runtime_to_zero env v = env v"
  by (auto simp: runtime_to_zero_def RUNTIME_LEVEL_def visible_entries_def entries_zero split: option.splits if_splits)

text \<open>Pinning leaves exactly one device, on exactly one level. When it succeeds: an HSA list is cut to
  the rank's own entry and any runtime list beside it becomes the index 0; without an HSA list every runtime list
  is cut to the rank's entry; with no list at all both runtime variables name the rank itself. A list
  of one device is never touched, and no other variable is.\<close>

theorem pinned_to_local_rank:
  assumes "env ''LOCAL_RANK'' = Some text" "int_of_text text = Some r" "use_local_rank_gpu env = (env', Inr ())"
  shows "(case visible_entries env HSA_LEVEL of
       Some es \<Rightarrow> visible_entries env' HSA_LEVEL = Some [rank_entry es r]
         \<and> list_all (\<lambda>v. visible_entries env' v = map_option (\<lambda>_. [''0'']) (visible_entries env v)) RUNTIME_LEVEL
     | None \<Rightarrow> visible_entries env' HSA_LEVEL = None
         \<and> (if list_all (\<lambda>v. visible_entries env v = None) RUNTIME_LEVEL
            then list_all (\<lambda>v. visible_entries env' v = Some [int_text r]) RUNTIME_LEVEL
            else list_all (\<lambda>v. visible_entries env' v = map_option (\<lambda>es. [rank_entry es r]) (visible_entries env v)) RUNTIME_LEVEL))
    \<and> (\<forall>v. v \<notin> set (HSA_LEVEL # RUNTIME_LEVEL) \<longrightarrow> env' v = env v)"
proof (cases "visible_entries env HSA_LEVEL")
  case (Some es)
  then obtain e where e: "keep_local_rank_entry env HSA_LEVEL es r = (e, Inr ())" "env' = runtime_to_zero e"
    using assms by (auto simp: use_local_rank_gpu_def split: prod.splits sum.splits)
  note k = keep_entry[OF Some e(1)]
  have h: "HSA_LEVEL \<notin> set RUNTIME_LEVEL" by code_simp
  have "visible_entries e v = visible_entries env v" if "v \<in> set RUNTIME_LEVEL" for v
  proof -
    have "v \<noteq> HSA_LEVEL" using that h by auto
    from k(2)[OF this] show ?thesis by (simp add: visible_entries_def)
  qed
  moreover have "env' v = env v" if "v \<notin> set (HSA_LEVEL # RUNTIME_LEVEL)" for v
    using that k(2)[of v] by (simp add: e(2) runtime_to_zero_effect(2))
  ultimately show ?thesis using Some k(1) h by (simp add: e(2) runtime_to_zero_effect(1) list_all_iff)
next
  case None
  then obtain e p where p: "pin_runtime env RUNTIME_LEVEL r False = (e, Inr p)"
    and e: "env' = (if p then e else e(''CUDA_VISIBLE_DEVICES'' \<mapsto> int_text r, ''HIP_VISIBLE_DEVICES'' \<mapsto> int_text r))"
    using assms by (auto simp: use_local_rank_gpu_def split: prod.splits sum.splits)
  have d: "distinct RUNTIME_LEVEL" "HSA_LEVEL \<notin> set RUNTIME_LEVEL" by code_simp+
  note f = pin_runtime_effect[OF p d(1)]
  have hsa: "visible_entries env' HSA_LEVEL = None"
  proof -
    have "HSA_LEVEL \<noteq> ''CUDA_VISIBLE_DEVICES''" "HSA_LEVEL \<noteq> ''HIP_VISIBLE_DEVICES''" by code_simp+
    then have "env' HSA_LEVEL = env HSA_LEVEL" using f(2) d(2) by (simp add: e)
    then show ?thesis using None by (simp add: visible_entries_def)
  qed
  show ?thesis
  proof (cases p)
    case True
    then have some: "\<not> list_all (\<lambda>v. visible_entries env v = None) RUNTIME_LEVEL"
      using f(3) by (auto simp: list_all_iff)
    have "env' v = env v" if "v \<notin> set (HSA_LEVEL # RUNTIME_LEVEL)" for v
      using f(2) that True by (simp add: e)
    then show ?thesis using None hsa some f(1) True by (auto simp: e list_all_iff)
  next
    case False
    then have none: "list_all (\<lambda>v. visible_entries env v = None) RUNTIME_LEVEL"
      using f(3) by (auto simp: list_all_iff)
    have "visible_entries env' v = Some [int_text r]" if "v \<in> set RUNTIME_LEVEL" for v
      using that False by (auto simp: e RUNTIME_LEVEL_def visible_entries_def entries_int_text)
    moreover have "env' v = env v" if "v \<notin> set (HSA_LEVEL # RUNTIME_LEVEL)" for v
      using f(2) that False by (auto simp: e RUNTIME_LEVEL_def)
    ultimately show ?thesis using None hsa none by (simp add: list_all_iff)
  qed
qed

lemma pinned_to_local_rank_witness:
  "visible_entries (fst (use_local_rank_gpu [''LOCAL_RANK'' \<mapsto> ''2'', HSA_LEVEL \<mapsto> ''0, 1,2 ,3'', ''CUDA_VISIBLE_DEVICES'' \<mapsto> ''0,1,2,3'']))
     HSA_LEVEL = Some [''2'']"
proof -
  let ?env = "[''LOCAL_RANK'' \<mapsto> ''2'', HSA_LEVEL \<mapsto> ''0, 1,2 ,3'', ''CUDA_VISIBLE_DEVICES'' \<mapsto> ''0,1,2,3''] :: env"
  have e: "?env ''LOCAL_RANK'' = Some ''2''" "int_of_text ''2'' = Some 2"
    "visible_entries ?env HSA_LEVEL = Some [''0'', ''1'', ''2'', ''3'']" "snd (use_local_rank_gpu ?env) = Inr ()"
    "rank_entry [''0'', ''1'', ''2'', ''3''] 2 = ''2''"
    by code_simp+
  obtain env' where u: "use_local_rank_gpu ?env = (env', Inr ())"
    using e(4) by (cases "use_local_rank_gpu ?env") simp
  from pinned_to_local_rank[OF e(1,2) u] show ?thesis unfolding u by (simp add: e(3,5))
qed

end
