(* ===== verification/TC_Graph.thy ===== *)
theory TC_Graph
  imports PG_State
begin

text \<open>
  What the compiler backend (\<^verbatim>\<open>torch_compile_backend/\<close>) reads of a traced graph: nodes with their
  operation, target, arguments and traced values, sizes as symbolic expressions, and the dimensions of
  the MAX graph, which are formal expressions over its symbols. A graph is a list of nodes in order;
  an argument names an earlier node by its position.
\<close>

subsection \<open>Dimensions\<close>

datatype dim =
    DConst int
  | DSym string
  | DAdd dim dim
  | DSub dim dim
  | DMul dim dim
  | DFloorDiv dim dim

primrec dim_value :: "(string \<Rightarrow> int) \<Rightarrow> dim \<Rightarrow> int" where
  "dim_value \<sigma> (DConst n) = n"
| "dim_value \<sigma> (DSym s) = \<sigma> s"
| "dim_value \<sigma> (DAdd a b) = dim_value \<sigma> a + dim_value \<sigma> b"
| "dim_value \<sigma> (DSub a b) = dim_value \<sigma> a - dim_value \<sigma> b"
| "dim_value \<sigma> (DMul a b) = dim_value \<sigma> a * dim_value \<sigma> b"
| "dim_value \<sigma> (DFloorDiv a b) = dim_value \<sigma> a div dim_value \<sigma> b"

subsection \<open>Nodes\<close>

datatype node_op = Placeholder | CallFunction | CallMethod | GetAttr | OutputNode

datatype start_kind = AllReduceOp | AllGatherOp | ReduceScatterOp | BroadcastOp

text \<open>The targets the backend tells apart; \<open>StartTarget k True\<close> is the coalesced form, \<open>ViewTarget\<close> an
  overload with \<open>is_view\<close> or \<^verbatim>\<open>aten._unsafe_view\<close>.\<close>

datatype fx_target =
    StartTarget start_kind bool
  | UnsupportedTarget
  | WaitTarget
  | GetItemTarget
  | ViewTarget string
  | OtherTarget string

datatype fx_arg =
    ArgNode nat
  | ArgStr string
  | ArgInt int
  | ArgList "fx_arg list"
  | ArgNone

text \<open>\<open>nd_vals\<close> is \<^verbatim>\<open>meta["val"]\<close> as a list (of one element when it is no list); \<open>None\<close> is no tensor.\<close>

record fx_node =
  nd_name :: string
  nd_op :: node_op
  nd_target :: fx_target
  nd_args :: "fx_arg list"
  nd_vals :: "(device \<times> dtype) option list"

text \<open>The node an argument names, when there is one.\<close>

definition node_at :: "fx_node list \<Rightarrow> nat \<Rightarrow> fx_node option" where
  "node_at g k = (if k < length g then Some (g ! k) else None)"

text \<open>Arguments name earlier nodes.\<close>

fun arg_below :: "nat \<Rightarrow> fx_arg \<Rightarrow> bool" where
  "arg_below k (ArgNode j) = (j < k)"
| "arg_below k (ArgList xs) = list_all (arg_below k) xs"
| "arg_below k _ = True"

definition ordered_graph :: "fx_node list \<Rightarrow> bool" where
  "ordered_graph g \<longleftrightarrow> (\<forall>k < length g. list_all (arg_below k) (nd_args (g ! k)))"

lemma ordered_graph_code [code]:
  "ordered_graph g \<longleftrightarrow> list_all (\<lambda>k. list_all (arg_below k) (nd_args (g ! k))) [0..<length g]"
  by (auto simp: ordered_graph_def list_all_iff)

end
