(* ===== verification/TC_Collectives.thy ===== *)
theory TC_Collectives
  imports TC_Graph
begin

text \<open>
  Collectives inside a compiled graph (\<^verbatim>\<open>torch_compile_backend/collectives.py\<close>): finding them, the handles
  of their process groups, starting one, waiting for it once, finishing those nothing waited for, and the
  inputs an eager collective may still be writing. MAX graph operations are the log \<open>gc_log\<close>; pending
  collectives are objects, so they live in a heap of the state and values name them.
\<close>

subsection \<open>State\<close>

definition ALLREDUCE :: int where "ALLREDUCE = 0"
definition ALLGATHER :: int where "ALLGATHER = 1"
definition REDUCE_SCATTER :: int where "REDUCE_SCATTER = 2"
definition BROADCAST :: int where "BROADCAST = 3"

fun REDUCE_OPS :: "string \<Rightarrow> red_op option" where
  "REDUCE_OPS s =
     (if s = ''sum'' then Some RedSum else if s = ''avg'' then Some RedAvg
      else if s = ''product'' then Some RedProduct else if s = ''min'' then Some RedMin
      else if s = ''max'' then Some RedMax else None)"

text \<open>A tensor of the MAX graph: where it comes from, its device and shape.\<close>

datatype tensor_source = GraphValue nat | StartedBuffer nat | WaitedResult nat

record graph_tensor =
  gt_source :: tensor_source
  gt_device :: int
  gt_shape :: "dim list"

datatype graph_value = VTensor graph_tensor | VPending nat | VList "graph_value list" | VOther fx_arg

datatype graph_op =
    OpToken int
  | OpStart nat int int int "dim list"
  | OpWait nat
  | OpOther nat "graph_value list"

record group_handles =
  gh_group :: int
  gh_device :: int
  gh_address :: int

record pending =
  pd_started :: graph_tensor
  pd_input :: graph_tensor
  pd_result :: "graph_tensor option"

record graph_collectives =
  gc_handles :: "(string, group_handles) dict"
  gc_bound :: bool
  gc_token :: "int option"
  gc_heap :: "pending list"
  gc_started :: "nat list"
  gc_log :: "graph_op list"

text \<open>
  What the lowering asks of its surroundings: the process group registered under a name, with the
  communicator on a device made (its identity and address), the address a group has now, whether a
  drain of its comm stream fails, the current device, how torch prints a reduction, and the device and
  shape of the tensor an ordinary node gives.
\<close>

record lowering_env =
  le_resolve :: "string \<Rightarrow> int \<Rightarrow> (int \<times> int) result"
  le_address :: "int \<Rightarrow> int option"
  le_drain :: "int \<Rightarrow> int \<Rightarrow> bool"
  le_error :: string
  le_current :: int
  le_show_op :: "red_op \<Rightarrow> string"
  le_type :: "nat \<Rightarrow> int \<times> dim list"

subsection \<open>Finding the collectives\<close>

definition group_name :: "fx_node \<Rightarrow> string result" where
  "group_name node =
     (case rev (nd_args node) of
        ArgStr name # _ \<Rightarrow> Inr name
      | [] \<Rightarrow> Inl (IndexError ''tuple index out of range'')
      | _ \<Rightarrow> Inl (RuntimeError (nd_name node @ '': no group name'')))"

definition mojo_device_indices :: "lowering_env \<Rightarrow> fx_node \<Rightarrow> int list result" where
  "mojo_device_indices le node = map_res (\<lambda>v.
     case v of
       Some (MojoDevice i, _) \<Rightarrow> Inr (or_else i (le_current le))
     | _ \<Rightarrow> Inl (RuntimeError (nd_name node
              @ '': collectives in a compiled graph run on the mojo device only''))) (nd_vals node)"

definition resolve :: "lowering_env \<Rightarrow> string \<Rightarrow> int \<Rightarrow> group_handles result" where
  "resolve le name dev = bind_res (le_resolve le name dev)
     (\<lambda>(grp, address). Inr \<lparr>gh_group = grp, gh_device = dev, gh_address = address\<rparr>)"

fun resolve_all :: "lowering_env \<Rightarrow> int \<Rightarrow> fx_node list \<Rightarrow> (string, group_handles) dict \<Rightarrow> (string, group_handles) dict result" where
  "resolve_all le dev [] handles = Inr handles"
| "resolve_all le dev (node # nodes) handles =
     bind_res (group_name node) (\<lambda>name.
       if dget handles name \<noteq> None then resolve_all le dev nodes handles
       else bind_res (resolve le name dev) (\<lambda>h. resolve_all le dev nodes (dput name h handles)))"

definition new_collectives :: "lowering_env \<Rightarrow> fx_node list \<Rightarrow> graph_collectives result" where
  "new_collectives le nodes = bind_res (map_res (mojo_device_indices le) nodes) (\<lambda>per_node.
     case remdups (concat per_node) of
       [dev] \<Rightarrow> bind_res (resolve_all le dev nodes []) (\<lambda>handles.
           Inr \<lparr>gc_handles = handles, gc_bound = False, gc_token = None, gc_heap = [], gc_started = [], gc_log = []\<rparr>)
     | _ \<Rightarrow> Inl (RuntimeError ''a graph's collectives must all run on one device''))"

definition is_start :: "fx_node \<Rightarrow> bool" where
  "is_start node \<longleftrightarrow> nd_op node = CallFunction \<and> (case nd_target node of StartTarget _ _ \<Rightarrow> True | _ \<Rightarrow> False)"

definition scan_graph :: "lowering_env \<Rightarrow> fx_node list \<Rightarrow> graph_collectives option result" where
  "scan_graph le g =
     (if list_ex (\<lambda>n. nd_op n = CallFunction \<and> nd_target n = UnsupportedTarget) g
      then Inl (RuntimeError ''all_to_all_single is not supported in a graph compiled for the mojo device yet'')
      else case filter is_start g of
          [] \<Rightarrow> Inr None
        | nodes \<Rightarrow> bind_res (new_collectives le nodes) (\<lambda>c. Inr (Some c)))"

subsection \<open>Starting and waiting\<close>

definition token :: "int \<Rightarrow> graph_collectives \<Rightarrow> graph_collectives" where
  "token dev c =
     (if gc_token c = None then c\<lparr>gc_token := Some dev, gc_log := gc_log c @ [OpToken dev]\<rparr> else c)"

text \<open>\<open>_start\<close>: the new pending collective is the next cell of the heap.\<close>

definition start_op ::
    "lowering_env \<Rightarrow> fx_node \<Rightarrow> graph_tensor \<Rightarrow> dtype \<Rightarrow> dim list \<Rightarrow> int \<Rightarrow> int \<Rightarrow> graph_collectives
     \<Rightarrow> graph_collectives \<times> nat result" where
  "start_op le node x dt shape kind arg c =
     (case group_name node of
        Inl e \<Rightarrow> (c, Inl e)
      | Inr name \<Rightarrow>
          (if \<not> gc_bound c \<or> dget (gc_handles c) name = None then (c, Inl (KeyError name))
           else let c1 = token (gt_device x) c in
             case nccl_dtype dt of
               Inl e \<Rightarrow> (c1, Inl e)
             | Inr code \<Rightarrow>
                 let p = length (gc_heap c1);
                     started = \<lparr>gt_source = StartedBuffer p, gt_device = gt_device x, gt_shape = shape\<rparr>
                 in (c1\<lparr>gc_heap := gc_heap c1 @ [\<lparr>pd_started = started, pd_input = x, pd_result = None\<rparr>],
                        gc_started := gc_started c1 @ [p],
                        gc_log := gc_log c1 @ [OpStart p kind code arg shape]\<rparr>, Inr p)))"

fun wait_value :: "graph_value \<Rightarrow> graph_collectives \<Rightarrow> graph_value \<times> graph_collectives"
  and wait_values :: "graph_value list \<Rightarrow> graph_collectives \<Rightarrow> graph_value list \<times> graph_collectives" where
  "wait_value (VList vs) c = (case wait_values vs c of (ws, c') \<Rightarrow> (VList ws, c'))"
| "wait_value (VPending p) c =
     (case pd_result (gc_heap c ! p) of
        Some r \<Rightarrow> (VTensor r, c)
      | None \<Rightarrow>
          let pd = gc_heap c ! p; r = (pd_started pd)\<lparr>gt_source := WaitedResult p\<rparr>
          in (VTensor r, c\<lparr>gc_heap := (gc_heap c)[p := pd\<lparr>pd_result := Some r\<rparr>], gc_log := gc_log c @ [OpWait p]\<rparr>))"
| "wait_value v c = (v, c)"
| "wait_values [] c = ([], c)"
| "wait_values (v # vs) c =
     (case wait_value v c of (w, c1) \<Rightarrow> (case wait_values vs c1 of (ws, c2) \<Rightarrow> (w # ws, c2)))"

definition finish_collectives :: "graph_collectives \<Rightarrow> graph_collectives" where
  "finish_collectives c = foldl (\<lambda>c p. snd (wait_value (VPending p) c)) c (gc_started c)"

definition reduce_code :: "lowering_env \<Rightarrow> dtype \<Rightarrow> string \<Rightarrow> int result" where
  "reduce_code le dt reduce_op =
     (case REDUCE_OPS (lower reduce_op) of
        None \<Rightarrow> Inl (RuntimeError (''reduce op '' @ py_quote reduce_op @ '' is not supported in a compiled graph''))
      | Some op \<Rightarrow> nccl_red_op (le_show_op le) op dt)"

text \<open>One collective: the operation's remaining arguments follow the input, the group's name last.\<close>

definition all_reduce ::
    "lowering_env \<Rightarrow> fx_node \<Rightarrow> graph_tensor \<Rightarrow> dtype \<Rightarrow> string \<Rightarrow> graph_collectives \<Rightarrow> graph_collectives \<times> nat result" where
  "all_reduce le node x dt reduce_op c =
     (case reduce_code le dt reduce_op of
        Inl e \<Rightarrow> (c, Inl e)
      | Inr op \<Rightarrow> start_op le node x dt (gt_shape x) ALLREDUCE op c)"

definition all_gather ::
    "lowering_env \<Rightarrow> fx_node \<Rightarrow> graph_tensor \<Rightarrow> dtype \<Rightarrow> int \<Rightarrow> graph_collectives \<Rightarrow> graph_collectives \<times> nat result" where
  "all_gather le node x dt group_size c =
     start_op le node x dt
       (case gt_shape x of [] \<Rightarrow> [DConst group_size] | d # ds \<Rightarrow> DMul d (DConst group_size) # ds) ALLGATHER 0 c"

definition reduce_scatter_one ::
    "lowering_env \<Rightarrow> fx_node \<Rightarrow> graph_tensor \<Rightarrow> dtype \<Rightarrow> string \<Rightarrow> int \<Rightarrow> graph_collectives \<Rightarrow> graph_collectives \<times> nat result" where
  "reduce_scatter_one le node x dt reduce_op group_size c =
     (case gt_shape x of
        [] \<Rightarrow> (c, Inl (IndexError ''index out of range''))
      | d # ds \<Rightarrow>
          (case reduce_code le dt reduce_op of
             Inl e \<Rightarrow> (c, Inl e)
           | Inr op \<Rightarrow> start_op le node x dt (DFloorDiv d (DConst group_size) # ds) REDUCE_SCATTER op c))"

definition broadcast_one ::
    "lowering_env \<Rightarrow> fx_node \<Rightarrow> graph_tensor \<Rightarrow> dtype \<Rightarrow> int \<Rightarrow> graph_collectives \<Rightarrow> graph_collectives \<times> nat result" where
  "broadcast_one le node x dt src c = start_op le node x dt (gt_shape x) BROADCAST src c"

definition start_one ::
    "lowering_env \<Rightarrow> fx_node \<Rightarrow> start_kind \<Rightarrow> fx_arg list \<Rightarrow> graph_tensor \<Rightarrow> dtype \<Rightarrow> graph_collectives
     \<Rightarrow> graph_collectives \<times> nat result" where
  "start_one le node k rest x dt c =
     (case (k, rest) of
        (AllReduceOp, [ArgStr op, _]) \<Rightarrow> all_reduce le node x dt op c
      | (AllGatherOp, [ArgInt n, _]) \<Rightarrow> all_gather le node x dt n c
      | (ReduceScatterOp, [ArgStr op, ArgInt n, _]) \<Rightarrow> reduce_scatter_one le node x dt op n c
      | (BroadcastOp, [ArgInt src, _]) \<Rightarrow> broadcast_one le node x dt src c
      | _ \<Rightarrow> (c, Inl (TypeError ''wrong arguments of a collective'')))"

fun start_many ::
    "lowering_env \<Rightarrow> fx_node \<Rightarrow> start_kind \<Rightarrow> fx_arg list \<Rightarrow> graph_value list \<Rightarrow> dtype list \<Rightarrow> graph_collectives
     \<Rightarrow> graph_collectives \<times> graph_value list result" where
  "start_many le node k rest [] [] c = (c, Inr [])"
| "start_many le node k rest (VTensor x # xs) (dt # dts) c =
     (case start_one le node k rest x dt c of
        (c1, Inl e) \<Rightarrow> (c1, Inl e)
      | (c1, Inr p) \<Rightarrow>
          (case start_many le node k rest xs dts c1 of
             (c2, Inl e) \<Rightarrow> (c2, Inl e)
           | (c2, Inr ps) \<Rightarrow> (c2, Inr (VPending p # ps))))"
| "start_many le node k rest _ _ c = (c, Inl (ValueError ''zip() argument 2 is shorter than argument 1''))"

text \<open>\<open>_dtypes(node)\<close>, then \<open>_single\<close> or \<open>_coalesced\<close>.\<close>

definition node_dtypes :: "fx_node \<Rightarrow> dtype list result" where
  "node_dtypes node = map_res (\<lambda>v. case v of Some (_, dt) \<Rightarrow> Inr dt | None \<Rightarrow> Inl (AssertionError '''')) (nd_vals node)"

definition start_node ::
    "lowering_env \<Rightarrow> fx_node \<Rightarrow> start_kind \<Rightarrow> bool \<Rightarrow> graph_value list \<Rightarrow> fx_arg list \<Rightarrow> graph_collectives
     \<Rightarrow> graph_collectives \<times> graph_value result" where
  "start_node le node k coalesced inputs rest c =
     (case node_dtypes node of
        Inl e \<Rightarrow> (c, Inl e)
      | Inr dts \<Rightarrow>
          (if coalesced then
             (case start_many le node k rest inputs dts c of
                (c1, Inl e) \<Rightarrow> (c1, Inl e)
              | (c1, Inr ps) \<Rightarrow> (c1, Inr (VList ps)))
           else case (inputs, dts) of
               ([VTensor x], dt # _) \<Rightarrow>
                 (case start_one le node k rest x dt c of
                    (c1, Inl e) \<Rightarrow> (c1, Inl e)
                  | (c1, Inr p) \<Rightarrow> (c1, Inr (VPending p)))
             | _ \<Rightarrow> (c, Inl (TypeError ''wrong input of a collective''))))"

subsection \<open>Handles at run time\<close>

definition bind_handles :: "graph_collectives \<Rightarrow> graph_collectives" where
  "bind_handles c = c\<lparr>gc_bound := True\<rparr>"

definition check_alive :: "lowering_env \<Rightarrow> string \<Rightarrow> group_handles \<Rightarrow> unit result" where
  "check_alive le name h =
     (if le_address le (gh_group h) \<noteq> Some (gh_address h)
      then Inl (RuntimeError (''process group '' @ py_quote name
             @ '' was destroyed after this graph was compiled; compile it again (torch._dynamo.reset())''))
      else Inr ())"

text \<open>The handle of each group, in the order they were bound.\<close>

definition runtime_inputs :: "lowering_env \<Rightarrow> graph_collectives \<Rightarrow> (int \<times> int) list result" where
  "runtime_inputs le c =
     bind_res (map_res (\<lambda>(name, h). check_alive le name h) (gc_handles c))
       (\<lambda>_. Inr (map (\<lambda>(_, h). (gh_address h, gh_device h)) (gc_handles c)))"

text \<open>\<open>synchronize_comm\<close> returns a status, nonzero (\<open>le_drain\<close>) when the stream could not be drained.\<close>

definition synchronize :: "lowering_env \<Rightarrow> graph_collectives \<Rightarrow> string list" where
  "synchronize le c =
     concat (map (\<lambda>(name, h).
       if le_address le (gh_group h) \<noteq> Some (gh_address h) then []
       else if le_drain le (gh_address h) (gh_device h) then [py_quote name @ '': '' @ le_error le] else []) (gc_handles c))"

subsection \<open>Inputs still being written\<close>

datatype wait_source = FromInput nat | FromCollective | Neither

text \<open>The chain from a node through views, selections and waits; \<open>fuel\<close> bounds its length, and the number
  of nodes is enough since arguments name earlier nodes.\<close>

fun follow :: "fx_node list \<Rightarrow> nat \<Rightarrow> fx_arg \<Rightarrow> wait_source" where
  "follow g fuel (ArgNode k) =
     (case fuel of
        0 \<Rightarrow> Neither
      | Suc fuel \<Rightarrow>
          (case node_at g k of
             None \<Rightarrow> Neither
           | Some n \<Rightarrow>
               if nd_op n = Placeholder then FromInput k
               else if nd_op n \<noteq> CallFunction then Neither
               else case nd_args n of
                   [] \<Rightarrow> Neither
                 | a # _ \<Rightarrow>
                     (case nd_target n of
                        StartTarget _ _ \<Rightarrow> FromCollective
                      | GetItemTarget \<Rightarrow> follow g fuel a
                      | WaitTarget \<Rightarrow> follow g fuel a
                      | ViewTarget _ \<Rightarrow> follow g fuel a
                      | _ \<Rightarrow> Neither)))"
| "follow g fuel _ = Neither"

definition wait_source_of :: "fx_node list \<Rightarrow> fx_arg \<Rightarrow> wait_source" where
  "wait_source_of g a = follow g (length g) a"

definition placeholders :: "fx_node list \<Rightarrow> nat list" where
  "placeholders g = filter (\<lambda>k. nd_op (g ! k) = Placeholder) [0..<length g]"

definition waits_of :: "fx_node list \<Rightarrow> fx_node list" where
  "waits_of g = filter (\<lambda>n. nd_op n = CallFunction \<and> nd_target n = WaitTarget) g"

text \<open>\<open>None\<close> for a wait on a collective of the graph; an error for a wait on anything else.\<close>

definition waited_of :: "fx_node list \<Rightarrow> fx_node \<Rightarrow> nat option result" where
  "waited_of g n =
     (case nd_args n of
        [] \<Rightarrow> Inl (IndexError ''tuple index out of range'')
      | a # _ \<Rightarrow>
          (case wait_source_of g a of
             FromInput k \<Rightarrow> Inr (Some k)
           | FromCollective \<Rightarrow> Inr None
           | Neither \<Rightarrow> Inl (RuntimeError
               ''wait_tensor on neither a collective of this graph nor a graph input (or a view of one)'')))"

definition waited_inputs :: "fx_node list \<Rightarrow> nat list result" where
  "waited_inputs g = bind_res (map_res (waited_of g) (waits_of g)) (\<lambda>ws.
     Inr (map fst (filter (\<lambda>(_, p). Some p \<in> set ws) (zip [0..<length (placeholders g)] (placeholders g)))))"

subsection \<open>Lowering a graph's nodes\<close>

text \<open>
  The part of \<^verbatim>\<open>compiler.py\<close>'s \<open>handle_call_function\<close> and \<open>handle_output\<close> that decides what is waited for.
  \<open>book\<close> is the tensor book, by position of the node; the result of an ordinary operation on its
  waited arguments is a new tensor of the graph.
\<close>

fun book_value :: "(nat, graph_value) dict \<Rightarrow> fx_arg \<Rightarrow> graph_value result" where
  "book_value book (ArgNode k) = (case dget book k of Some v \<Rightarrow> Inr v | None \<Rightarrow> Inl (KeyError (nat_text k)))"
| "book_value book (ArgList xs) = bind_res (map_res (book_value book) xs) (\<lambda>vs. Inr (VList vs))"
| "book_value book a = Inr (VOther a)"

definition node_tensor :: "lowering_env \<Rightarrow> nat \<Rightarrow> graph_value" where
  "node_tensor le k = VTensor \<lparr>gt_source = GraphValue k, gt_device = fst (le_type le k), gt_shape = snd (le_type le k)\<rparr>"

definition list_items :: "graph_value \<Rightarrow> graph_value list" where
  "list_items v = (case v of VList vs \<Rightarrow> vs | _ \<Rightarrow> [v])"

definition select_item :: "graph_value list \<Rightarrow> graph_value result" where
  "select_item args =
     (case args of
        [VList vs, VOther (ArgInt i)] \<Rightarrow>
          (if 0 \<le> i \<and> i < int (length vs) then Inr (vs ! nat i)
           else if - int (length vs) \<le> i \<and> i < 0 then Inr (vs ! nat (int (length vs) + i))
           else Inl (IndexError ''list index out of range''))
      | _ \<Rightarrow> Inl (TypeError ''getitem of a value that is no list''))"

text \<open>The collective's input, waited for, starts it.\<close>

definition lower_start ::
    "lowering_env \<Rightarrow> fx_node \<Rightarrow> start_kind \<Rightarrow> bool \<Rightarrow> graph_value list \<Rightarrow> graph_collectives
     \<Rightarrow> graph_collectives \<times> graph_value result" where
  "lower_start le node kind coalesced args c =
     (case wait_values args c of
        (a # rest, c1) \<Rightarrow>
          start_node le node kind coalesced (if coalesced then list_items a else [a]) (tl (nd_args node)) c1
      | ([], c1) \<Rightarrow> (c1, Inl (TypeError ''missing input'')))"

definition lower_call ::
    "lowering_env \<Rightarrow> nat \<Rightarrow> fx_node \<Rightarrow> (nat, graph_value) dict \<Rightarrow> graph_collectives
     \<Rightarrow> graph_collectives \<times> graph_value result" where
  "lower_call le k node book c =
     (case map_res (book_value book) (nd_args node) of
        Inl e \<Rightarrow> (c, Inl e)
      | Inr args \<Rightarrow>
          (case nd_target node of
             WaitTarget \<Rightarrow>
               (case args of
                  [] \<Rightarrow> (c, Inl (IndexError ''list index out of range''))
                | a # _ \<Rightarrow> (case wait_value a c of (v, c1) \<Rightarrow> (c1, Inr v)))
           | GetItemTarget \<Rightarrow> (c, select_item args)
           | StartTarget kind coalesced \<Rightarrow> lower_start le node kind coalesced args c
           | _ \<Rightarrow>
               (case wait_values args c of
                  (vs, c1) \<Rightarrow>
                    (c1\<lparr>gc_log := gc_log c1 @ [OpOther k vs]\<rparr>,
                     Inr (node_tensor le k)))))"

definition lower_output ::
    "fx_node \<Rightarrow> (nat, graph_value) dict \<Rightarrow> graph_collectives \<Rightarrow> graph_collectives \<times> graph_value list result" where
  "lower_output node book c =
     (case map_res (book_value book) (nd_args node) of
        Inl e \<Rightarrow> (c, Inl e)
      | Inr vs \<Rightarrow> (case wait_values vs c of (ws, c1) \<Rightarrow> (finish_collectives c1, Inr ws)))"

fun lower_nodes ::
    "lowering_env \<Rightarrow> nat \<Rightarrow> fx_node list \<Rightarrow> (nat, graph_value) dict \<Rightarrow> graph_collectives
     \<Rightarrow> graph_collectives \<times> graph_value list result" where
  "lower_nodes le k [] book c = (c, Inl (ValueError ''No output node found in the graph, this should never happen.''))"
| "lower_nodes le k (node # nodes) book c =
     (case nd_op node of
        OutputNode \<Rightarrow> lower_output node book c
      | Placeholder \<Rightarrow>
          lower_nodes le (Suc k) nodes
            (dput k (node_tensor le k) book) c
      | GetAttr \<Rightarrow>
          lower_nodes le (Suc k) nodes
            (dput k (node_tensor le k) book) c
      | _ \<Rightarrow>
          (case lower_call le k node book c of
             (c1, Inl e) \<Rightarrow> (c1, Inl e)
           | (c1, Inr v) \<Rightarrow> lower_nodes le (Suc k) nodes (dput k v book) c1))"

end
