(* ===== verification/TC_Waits.thy ===== *)
theory TC_Waits
  imports TC_Collectives
begin

text \<open>
  What the lowering of collectives guarantees: every collective a compiled graph starts is waited for
  exactly once, after it started, whatever the graph does with its value, and no ordinary operation ever
  sees one that is still running; and the inputs the caller must wait for are exactly those a wait of
  the graph reads.
\<close>

subsection \<open>Reading the operations of the MAX graph\<close>

fun running :: "graph_value \<Rightarrow> nat set" where
  "running (VPending p) = {p}"
| "running (VList vs) = (\<Union>v \<in> set vs. running v)"
| "running _ = {}"

text \<open>The state is how many collectives were started and which were waited for; \<open>None\<close> is a wait before the
  start or a second wait, a start out of turn, or an operation on a running collective.\<close>

fun read_op :: "nat \<times> nat list \<Rightarrow> graph_op \<Rightarrow> (nat \<times> nat list) option" where
  "read_op (n, ws) (OpStart p _ _ _ _) = (if p = n then Some (Suc n, ws) else None)"
| "read_op (n, ws) (OpWait p) = (if p < n \<and> p \<notin> set ws then Some (n, p # ws) else None)"
| "read_op (n, ws) (OpOther _ vs) = (if \<Union> (running ` set vs) = {} then Some (n, ws) else None)"
| "read_op (n, ws) (OpToken _) = Some (n, ws)"

fun read_ops :: "nat \<times> nat list \<Rightarrow> graph_op list \<Rightarrow> (nat \<times> nat list) option" where
  "read_ops s [] = Some s"
| "read_ops s (op # ops) = (case read_op s op of None \<Rightarrow> None | Some s' \<Rightarrow> read_ops s' ops)"

lemma read_ops_append: "read_ops s (xs @ ys) = (case read_ops s xs of None \<Rightarrow> None | Some s' \<Rightarrow> read_ops s' ys)"
  by (induction xs arbitrary: s) (auto split: option.split)

lemma read_op_distinct: "read_op (n, ws) op = Some (n', ws') \<Longrightarrow> distinct ws \<Longrightarrow> distinct ws'"
  by (cases op) (auto split: if_splits)

lemma read_ops_distinct: "read_ops (n, ws) ops = Some (n', ws') \<Longrightarrow> distinct ws \<Longrightarrow> distinct ws'"
proof (induction ops arbitrary: n ws)
  case (Cons op ops)
  then show ?case using read_op_distinct by (fastforce split: option.splits)
qed simp

subsection \<open>The invariant\<close>

definition done_of :: "graph_collectives \<Rightarrow> nat set" where
  "done_of c = {p. p < length (gc_heap c) \<and> pd_result (gc_heap c ! p) \<noteq> None}"

definition coll_ok :: "graph_collectives \<Rightarrow> bool" where
  "coll_ok c \<longleftrightarrow> gc_started c = [0..<length (gc_heap c)]
     \<and> (\<exists>ws. read_ops (0, []) (gc_log c) = Some (length (gc_heap c), ws) \<and> set ws = done_of c)"

definition valid :: "graph_collectives \<Rightarrow> graph_value \<Rightarrow> bool" where
  "valid c v \<longleftrightarrow> running v \<subseteq> {..<length (gc_heap c)}"

text \<open>What a step may do: keep the invariant and add collectives.\<close>

definition grows :: "graph_collectives \<Rightarrow> graph_collectives \<Rightarrow> bool" where
  "grows c c' \<longleftrightarrow> coll_ok c' \<and> length (gc_heap c) \<le> length (gc_heap c') \<and> done_of c \<subseteq> done_of c'"

lemma grows_refl: "coll_ok c \<Longrightarrow> grows c c"
  by (simp add: grows_def)

lemma grows_trans: "grows c c' \<Longrightarrow> grows c' c'' \<Longrightarrow> grows c c''"
  by (auto simp: grows_def)

lemma grows_ok: "grows c c' \<Longrightarrow> coll_ok c'"
  by (simp add: grows_def)

lemma grows_valid: "grows c c' \<Longrightarrow> valid c v \<Longrightarrow> valid c' v"
  by (auto simp: grows_def valid_def)

lemma wait_pending:
  assumes "coll_ok c" "p < length (gc_heap c)" "wait_value (VPending p) c = (v, c')"
  shows "grows c c' \<and> length (gc_heap c') = length (gc_heap c) \<and> running v = {} \<and> p \<in> done_of c' \<and> gc_started c' = gc_started c"
proof (cases "pd_result (gc_heap c ! p)")
  case None
  from assms(1) obtain ws where ws: "read_ops (0, []) (gc_log c) = Some (length (gc_heap c), ws)" "set ws = done_of c"
    "gc_started c = [0..<length (gc_heap c)]" by (auto simp: coll_ok_def)
  have c': "length (gc_heap c') = length (gc_heap c)" "gc_started c' = gc_started c" "gc_log c' = gc_log c @ [OpWait p]"
    and d: "done_of c' = insert p (done_of c)" and v: "running v = {}"
    using assms(2,3) None by (auto simp: Let_def done_of_def nth_list_update)
  have "p \<notin> set ws" using ws(2) None by (simp add: done_of_def)
  then have "read_ops (0, []) (gc_log c') = Some (length (gc_heap c'), p # ws)"
    using ws(1) assms(2) c' by (simp add: read_ops_append)
  then show ?thesis using ws c' d v by (auto simp: grows_def coll_ok_def)
next
  case (Some r)
  then show ?thesis using assms by (auto simp: grows_refl done_of_def)
qed

lemma wait_steps:
  "wait_value v c = (w, c') \<Longrightarrow> coll_ok c \<Longrightarrow> valid c v \<Longrightarrow> grows c c' \<and> length (gc_heap c') = length (gc_heap c) \<and> running w = {}"
  "wait_values vs c = (ws, c') \<Longrightarrow> coll_ok c \<Longrightarrow> list_all (valid c) vs \<Longrightarrow>
     grows c c' \<and> length (gc_heap c') = length (gc_heap c) \<and> \<Union> (running ` set ws) = {} \<and> length ws = length vs"
proof (induction v c and vs c arbitrary: w c' and ws c' rule: wait_value_wait_values.induct)
  case (1 vs c)
  then have "list_all (valid c) vs" by (force simp: valid_def list_all_iff)
  with 1 show ?case by (auto split: prod.splits)
next
  case (2 p c)
  then have "p < length (gc_heap c)" by (simp add: valid_def)
  from wait_pending[OF 2(2) this 2(1)] show ?case by simp
next
  case (5 v vs c)
  obtain w1 c1 where w1: "wait_value v c = (w1, c1)" by (cases "wait_value v c")
  obtain ws2 c2 where w2: "wait_values vs c1 = (ws2, c2)" by (cases "wait_values vs c1")
  have a: "grows c c1" "length (gc_heap c1) = length (gc_heap c)" "running w1 = {}"
    using "5.IH"(1)[OF w1] 5(4,5) by auto
  have "list_all (valid c1) vs" using 5(5) grows_valid[OF a(1)] by (auto simp: list_all_iff)
  from "5.IH"(2)[OF w1[symmetric] w2 grows_ok[OF a(1)] this] a w1 w2 5(3) show ?case
    by (auto intro: grows_trans)
qed (auto simp: grows_refl)

lemma token_grows: "coll_ok c \<Longrightarrow> grows c (token dev c) \<and> gc_heap (token dev c) = gc_heap c \<and> gc_started (token dev c) = gc_started c"
  by (auto simp: token_def grows_def coll_ok_def done_of_def read_ops_append)

lemma start_op_grows:
  assumes "start_op le node x dt shape kind arg c = (c', r)" "coll_ok c"
  shows "grows c c' \<and> (\<forall>p. r = Inr p \<longrightarrow> p < length (gc_heap c'))"
proof -
  note k = token_grows[OF assms(2), of "gt_device x"]
  show ?thesis
  proof (cases "\<exists>p. r = Inr p")
    case True
    let ?t = "token (gt_device x) c" and ?p = "length (gc_heap c)"
    obtain name code where n: "group_name node = Inr name" "nccl_dtype dt = Inr code"
      "gc_bound c" "dget (gc_handles c) name \<noteq> None"
      using True assms(1) by (auto simp: start_op_def Let_def split: sum.splits if_splits)
    obtain pd where c':
      "gc_heap c' = gc_heap ?t @ [pd]" "pd_result pd = None" "gc_started c' = gc_started ?t @ [?p]"
      "gc_log c' = gc_log ?t @ [OpStart ?p kind code arg shape]" "r = Inr ?p"
      using assms(1) n k by (auto simp: start_op_def Let_def)
    obtain ws where ws: "read_ops (0, []) (gc_log ?t) = Some (length (gc_heap c), ws)" "set ws = done_of ?t"
      "gc_started ?t = [0..<length (gc_heap c)]"
      using grows_ok[of c ?t] k by (auto simp: coll_ok_def)
    have d: "done_of c' = done_of ?t" using c' k by (auto simp: done_of_def nth_append less_Suc_eq)
    have d2: "done_of ?t = done_of c" using k by (simp add: done_of_def)
    have ok: "coll_ok c'" unfolding coll_ok_def using c' ws k d by (simp add: read_ops_append)
    show ?thesis using ok c' k d d2 by (simp add: grows_def)
  next
    case False
    then have "c' = c \<or> c' = token (gt_device x) c" "\<nexists>p. r = Inr p"
      using assms(1) by (auto simp: start_op_def Let_def split: sum.splits if_splits)
    then show ?thesis using k grows_refl[OF assms(2)] by auto
  qed
qed

lemma start_one_grows:
  assumes "start_one le node k rest x dt c = (c', r)" "coll_ok c"
  shows "grows c c' \<and> (\<forall>p. r = Inr p \<longrightarrow> p < length (gc_heap c'))"
  using assms start_op_grows[OF _ assms(2)]
  by (auto simp: start_one_def all_reduce_def all_gather_def reduce_scatter_one_def broadcast_one_def grows_refl
      split: start_kind.splits list.splits fx_arg.splits sum.splits)

lemma start_many_grows:
  "start_many le node k rest xs dts c = (c', r) \<Longrightarrow> coll_ok c \<Longrightarrow> grows c c' \<and> (\<forall>ps. r = Inr ps \<longrightarrow> list_all (valid c') ps)"
proof (induction le node k rest xs dts c arbitrary: c' r rule: start_many.induct)
  case (2 le node k rest x xs dt dts c)
  obtain c1 r1 where one: "start_one le node k rest x dt c = (c1, r1)" by (cases "start_one le node k rest x dt c")
  note g1 = start_one_grows[OF one 2(3)]
  show ?case
  proof (cases r1)
    case (Inl e)
    then show ?thesis using 2(2) one g1 by auto
  next
    case (Inr p)
    obtain c2 r2 where many: "start_many le node k rest xs dts c1 = (c2, r2)" by (cases "start_many le node k rest xs dts c1")
    have ih: "grows c1 c2" "\<forall>ps. r2 = Inr ps \<longrightarrow> list_all (valid c2) ps"
      using "2.IH"[OF one[symmetric] Inr many] g1 grows_ok by blast+
    have g: "grows c c2" using grows_trans g1 ih(1) by blast
    have "valid c1 (VPending p)" using g1 Inr by (simp add: valid_def)
    then have "valid c2 (VPending p)" by (rule grows_valid[OF ih(1)])
    then show ?thesis using 2(2) one Inr many g ih(2) by (cases r2) auto
  qed
qed (auto simp: grows_refl)

lemma start_node_grows:
  assumes "start_node le node k co inputs rest c = (c', r)" "coll_ok c"
  shows "grows c c' \<and> (\<forall>v. r = Inr v \<longrightarrow> valid c' v)"
proof (cases "node_dtypes node")
  case (Inl e)
  then show ?thesis using assms by (auto simp: start_node_def grows_refl)
next
  case (Inr dts)
  show ?thesis
  proof (cases co)
    case True
    obtain c1 r1 where m: "start_many le node k rest inputs dts c = (c1, r1)" by (cases "start_many le node k rest inputs dts c")
    from start_many_grows[OF m assms(2)] show ?thesis
      using assms(1) Inr True m by (cases r1) (force simp: start_node_def valid_def list_all_iff)+
  next
    case False
    show ?thesis
    proof (cases "\<exists>x dt ds. inputs = [VTensor x] \<and> dts = dt # ds")
      case True
      then obtain x dt ds where x: "inputs = [VTensor x]" "dts = dt # ds" by blast
      obtain c1 r1 where one: "start_one le node k rest x dt c = (c1, r1)" by (cases "start_one le node k rest x dt c")
      from start_one_grows[OF one assms(2)] show ?thesis
        using assms(1) Inr False x one by (cases r1) (auto simp: start_node_def valid_def)
    next
      case none: False
      have "(case (inputs, dts) of ([VTensor x], dt # _) \<Rightarrow> f x dt | _ \<Rightarrow> y) = y" for f and y :: "graph_collectives \<times> graph_value result"
        using none by (auto split: list.splits graph_value.splits)
      then have "c' = c \<and> (\<nexists>v. r = Inr v)" using assms(1) Inr False by (auto simp: start_node_def)
      then show ?thesis using grows_refl[OF assms(2)] by auto
    qed
  qed
qed

subsection \<open>Lowering\<close>

definition book_ok :: "graph_collectives \<Rightarrow> (nat, graph_value) dict \<Rightarrow> bool" where
  "book_ok c book \<longleftrightarrow> (\<forall>k v. dget book k = Some v \<longrightarrow> valid c v)"

lemma book_ok_put: "book_ok c book \<Longrightarrow> valid c v \<Longrightarrow> book_ok c (dput k v book)"
  by (simp add: book_ok_def)

lemma book_ok_grows: "grows c c' \<Longrightarrow> book_ok c book \<Longrightarrow> book_ok c' book"
  using grows_valid unfolding book_ok_def by blast

lemma book_value_valid: "book_value book a = Inr v \<Longrightarrow> book_ok c book \<Longrightarrow> valid c v"
proof (induction a arbitrary: v)
  case (ArgList xs)
  then obtain vs where vs: "map_res (book_value book) xs = Inr vs" "v = VList vs" by (auto simp: bind_res_eq_Inr)
  have "valid c w" if w: "w \<in> set vs" for w
  proof -
    from w obtain i where i: "i < length vs" "w = vs ! i" by (metis in_set_conv_nth)
    then have "i < length xs" "book_value book (xs ! i) = Inr w"
      using map_res_length[OF vs(1)] map_res_nth[OF vs(1)] by auto
    then show ?thesis using ArgList.IH ArgList.prems(2) nth_mem by blast
  qed
  then show ?case by (auto simp: vs(2) valid_def)
qed (auto simp: book_ok_def valid_def split: option.splits)

lemma book_values_valid:
  assumes "map_res (book_value book) xs = Inr vs" "book_ok c book"
  shows "list_all (valid c) vs"
proof -
  have "valid c (VList vs)" using book_value_valid[of book "ArgList xs" "VList vs" c] assms by simp
  then show ?thesis by (auto simp: valid_def list_all_iff)
qed

lemma select_item_valid: "select_item vs = Inr v \<Longrightarrow> list_all (valid c) vs \<Longrightarrow> valid c v"
proof -
  assume s: "select_item vs = Inr v" and ok: "list_all (valid c) vs"
  then obtain us i where u: "vs = [VList us, VOther (ArgInt i)]" "v \<in> set us"
    by (auto simp: select_item_def split: list.splits graph_value.splits fx_arg.splits if_splits)
  then show ?thesis using ok by (auto simp: valid_def)
qed

lemma node_tensor_valid [simp]: "valid c (node_tensor le k)"
  by (simp add: valid_def node_tensor_def)

lemma other_grows:
  assumes "coll_ok c" "\<Union> (running ` set vs) = {}"
  shows "grows c (c\<lparr>gc_log := gc_log c @ [OpOther k vs]\<rparr>)"
  using assms by (auto simp: grows_def coll_ok_def done_of_def read_ops_append)

lemma lower_call_grows:
  assumes "lower_call le k node book c = (c', r)" "coll_ok c" "book_ok c book"
  shows "grows c c' \<and> (\<forall>v. r = Inr v \<longrightarrow> valid c' v)"
proof (cases "map_res (book_value book) (nd_args node)")
  case (Inl e)
  then show ?thesis using assms by (auto simp: lower_call_def lower_start_def grows_refl)
next
  case (Inr args)
  have args: "list_all (valid c) args" by (rule book_values_valid[OF Inr assms(3)])
  obtain ws c1 where w: "wait_values args c = (ws, c1)" by (cases "wait_values args c")
  note g = wait_steps(2)[OF w assms(2) args]
  then have g1: "grows c c1" "coll_ok c1" by (auto simp: grows_ok)
  have other: ?thesis
    if "(c', r) = (c1\<lparr>gc_log := gc_log c1 @ [OpOther k ws]\<rparr>, Inr (node_tensor le k))"
  proof -
    have "grows c1 (c1\<lparr>gc_log := gc_log c1 @ [OpOther k ws]\<rparr>)" using other_grows[OF g1(2)] g by auto
    then show ?thesis using that grows_trans[OF g1(1)] by auto
  qed
  show ?thesis
  proof (cases "nd_target node")
    case WaitTarget
    show ?thesis
    proof (cases args)
      case Nil
      then show ?thesis using assms Inr WaitTarget by (auto simp: lower_call_def lower_start_def grows_refl)
    next
      case (Cons a as)
      obtain v1 c2 where v: "wait_value a c = (v1, c2)" by (cases "wait_value a c")
      have "valid c a" using args Cons by simp
      from wait_steps(1)[OF v assms(2) this] show ?thesis
        using assms(1) Inr WaitTarget Cons v by (auto simp: lower_call_def lower_start_def valid_def)
    qed
  next
    case GetItemTarget
    then show ?thesis using assms(1) Inr select_item_valid[OF _ args] grows_refl[OF assms(2)] by (auto simp: lower_call_def lower_start_def)
  next
    case (StartTarget kind co)
    show ?thesis
    proof (cases ws)
      case Nil
      then show ?thesis using assms(1) Inr StartTarget w g1 by (auto simp: lower_call_def lower_start_def)
    next
      case (Cons a as)
      then have "start_node le node kind co (if co then list_items a else [a]) (tl (nd_args node)) c1 = (c', r)"
        using assms(1) Inr StartTarget w by (simp add: lower_call_def lower_start_def)
      from start_node_grows[OF this g1(2)] show ?thesis using grows_trans[OF g1(1)] by blast
    qed
  qed (use assms(1) Inr w other in \<open>auto simp: lower_call_def lower_start_def\<close>)
qed

lemma finish_waits:
  assumes "coll_ok c"
  shows "coll_ok (finish_collectives c) \<and> done_of (finish_collectives c) = {..<length (gc_heap (finish_collectives c))}"
proof -
  have "coll_ok (foldl (\<lambda>c p. snd (wait_value (VPending p) c)) c ps)
    \<and> length (gc_heap (foldl (\<lambda>c p. snd (wait_value (VPending p) c)) c ps)) = length (gc_heap c)
    \<and> done_of c \<union> set ps \<subseteq> done_of (foldl (\<lambda>c p. snd (wait_value (VPending p) c)) c ps)"
    if "coll_ok c" "set ps \<subseteq> {..<length (gc_heap c)}" for ps c
    using that
  proof (induction ps arbitrary: c)
    case (Cons p ps)
    obtain v c1 where w: "wait_value (VPending p) c = (v, c1)" by (cases "wait_value (VPending p) c")
    from Cons.prems have "p < length (gc_heap c)" by simp
    note g = wait_pending[OF Cons.prems(1) this w]
    then have "coll_ok c1" "set ps \<subseteq> {..<length (gc_heap c1)}" "done_of c \<subseteq> done_of c1"
      using Cons.prems(2) by (auto simp: grows_def)
    from Cons.IH[OF this(1,2)] this(3) g w show ?case by auto
  qed simp
  note f = this[OF assms, of "gc_started c", folded finish_collectives_def]
  have "set (gc_started c) = {..<length (gc_heap c)}" using assms by (auto simp: coll_ok_def)
  moreover have "done_of (finish_collectives c) \<subseteq> {..<length (gc_heap (finish_collectives c))}" by (auto simp: done_of_def)
  ultimately show ?thesis using f by auto
qed

lemma lower_nodes_finish:
  "lower_nodes le k nodes book c = (c', Inr outs) \<Longrightarrow> coll_ok c \<Longrightarrow> book_ok c book \<Longrightarrow>
     coll_ok c' \<and> done_of c' = {..<length (gc_heap c')} \<and> \<Union> (running ` set outs) = {}"
proof (induction le k nodes book c arbitrary: c' outs rule: lower_nodes.induct)
  case (2 le k node nodes book c)
  have put: "book_ok c (dput k (node_tensor le k) book)" using "2.prems"(3) by (rule book_ok_put) simp
  have call: ?case if op: "nd_op node = CallFunction \<or> nd_op node = CallMethod"
  proof -
    obtain c1 r where l: "lower_call le k node book c = (c1, r)" by (cases "lower_call le k node book c")
    note g = lower_call_grows[OF l "2.prems"(2,3)]
    obtain v where v: "r = Inr v" using "2.prems"(1) op l by (cases r) auto
    have next_ok: "lower_nodes le (Suc k) nodes (dput k v book) c1 = (c', Inr outs)"
      using "2.prems"(1) op l v by auto
    have "coll_ok c1" "book_ok c1 (dput k v book)"
      using g v grows_ok book_ok_put book_ok_grows "2.prems"(3) by blast+
    then show ?thesis using "2.IH"(2)[OF _ l[symmetric] v next_ok] "2.IH"(3)[OF _ l[symmetric] v next_ok] op by auto
  qed
  show ?case
  proof (cases "nd_op node")
    case OutputNode
    then obtain vs ws c1 where o: "map_res (book_value book) (nd_args node) = Inr vs" "wait_values vs c = (ws, c1)"
      "c' = finish_collectives c1" "outs = ws"
      using "2.prems"(1) by (auto simp: lower_output_def split: sum.splits prod.splits)
    note g = wait_steps(2)[OF o(2) "2.prems"(2) book_values_valid[OF o(1) "2.prems"(3)]]
    from finish_waits[of c1] g show ?thesis by (auto simp: o grows_ok)
  qed (use 2 put call in auto)
qed simp

lemma new_collectives_empty:
  assumes "new_collectives le nodes = Inr c"
  shows "gc_heap c = [] \<and> gc_started c = [] \<and> gc_log c = []"
proof -
  obtain per where "(case remdups (concat per) of
       [dev] \<Rightarrow> bind_res (resolve_all le dev nodes []) (\<lambda>handles.
           Inr \<lparr>gc_handles = handles, gc_bound = False, gc_token = None, gc_heap = [], gc_started = [], gc_log = []\<rparr>)
     | _ \<Rightarrow> Inl (RuntimeError ''a graph's collectives must all run on one device'')) = Inr c"
    using assms by (auto simp: new_collectives_def bind_res_eq_Inr)
  then show ?thesis by (cases "remdups (concat per)" rule: remdups_adj.cases) (auto simp: bind_res_eq_Inr)
qed


definition sample_le :: lowering_env where
  "sample_le =
     \<lparr>le_resolve = (\<lambda>name dev. Inr (1, 4096)), le_address = (\<lambda>_. Some 4096), le_drain = (\<lambda>_ _. False), le_error = '''',
      le_current = 0, le_show_op = (\<lambda>_. ''op''), le_type = (\<lambda>k. (0, [DSym ''s0'', DConst 4]))\<rparr>"

definition fx :: "node_op \<Rightarrow> fx_target \<Rightarrow> fx_arg list \<Rightarrow> fx_node" where
  "fx op target args =
     \<lparr>nd_name = ''n'', nd_op = op, nd_target = target, nd_args = args, nd_vals = [Some (MojoDevice (Some 0), Float32)]\<rparr>"

text \<open>An all-reduce waited for twice, and one nothing waits for.\<close>

definition sample_graph :: "fx_node list" where
  "sample_graph =
     [fx Placeholder (OtherTarget ''x'') [],
      fx CallFunction (StartTarget AllReduceOp False) [ArgNode 0, ArgStr ''sum'', ArgStr ''g''],
      fx CallFunction (StartTarget AllGatherOp False) [ArgNode 0, ArgInt 2, ArgStr ''g''],
      fx CallFunction WaitTarget [ArgNode 1],
      fx CallFunction (OtherTarget ''mul'') [ArgNode 1, ArgNode 3],
      fx OutputNode (OtherTarget ''output'') [ArgNode 4]]"


subsection \<open>The inputs a wait reads\<close>

text \<open>Through selections, waits and views.\<close>

inductive reads :: "fx_node list \<Rightarrow> fx_arg \<Rightarrow> nat \<Rightarrow> bool" for g where
  here: "node_at g k = Some n \<Longrightarrow> nd_op n = Placeholder \<Longrightarrow> reads g (ArgNode k) k"
| through: "node_at g k = Some n \<Longrightarrow> nd_op n = CallFunction \<Longrightarrow> nd_args n = a # as
    \<Longrightarrow> nd_target n = GetItemTarget \<or> nd_target n = WaitTarget \<or> (\<exists>v. nd_target n = ViewTarget v)
    \<Longrightarrow> reads g a j \<Longrightarrow> reads g (ArgNode k) j"

inductive_cases reads_cases: "reads g (ArgNode k) j"

lemma follow_sound: "follow g fuel a = FromInput j \<Longrightarrow> reads g a j"
proof (induction g fuel a rule: follow.induct)
  case (1 g fuel k)
  then show ?case
    by (auto split: nat.splits option.splits if_splits list.splits fx_target.splits intro: reads.here reads.through)
qed auto

lemma arg_below_mono: "arg_below k b \<Longrightarrow> k \<le> f \<Longrightarrow> arg_below f b"
  by (induction b) (auto simp: list_all_iff)

text \<open>A node's chain is shorter than its position, so the number of nodes is fuel enough.\<close>

lemma follow_complete:
  "reads g a j \<Longrightarrow> ordered_graph g \<Longrightarrow> arg_below fuel a \<Longrightarrow> follow g fuel a = FromInput j"
proof (induction arbitrary: fuel rule: reads.induct)
  case (here k n)
  then obtain f where "fuel = Suc f" by (cases fuel) auto
  with here show ?case by simp
next
  case (through k n a as j)
  then obtain f where f: "fuel = Suc f" "k \<le> f" by (cases fuel) auto
  from through.hyps(1) have k: "k < length g" "n = g ! k" by (auto simp: node_at_def split: if_splits)
  then have "list_all (arg_below k) (nd_args n)" using through.prems(1) by (simp add: ordered_graph_def)
  then have "arg_below k a" using through.hyps(3) by simp
  from through.IH[OF through.prems(1) arg_below_mono[OF this f(2)]] show ?case using through.hyps f by auto
qed


text \<open>An input waited for through a view, and one that is not.\<close>

definition waiting_graph :: "fx_node list" where
  "waiting_graph =
     [fx Placeholder (OtherTarget ''x'') [], fx Placeholder (OtherTarget ''y'') [],
      fx CallFunction (ViewTarget ''view'') [ArgNode 1, ArgList [ArgInt 4]],
      fx CallFunction WaitTarget [ArgNode 2], fx OutputNode (OtherTarget ''output'') [ArgNode 3, ArgNode 0]]"


end
