(* ===== verification/TC_Symbols.thy ===== *)
theory TC_Symbols
  imports TC_Graph
begin

text \<open>
  Symbolic sizes in the compiler (\<^verbatim>\<open>torch_compile_backend/compiler.py\<close>): sympy expressions as MAX dimensions,
  graph inputs from placeholders, and the carriers that feed an integer argument to a graph whose inputs
  are all tensors. \<open>sym_value\<close> is what an expression means for values of its symbols; functions the
  backend does not know are interpreted by \<open>\<phi>\<close>.
\<close>

subsection \<open>Expressions\<close>

datatype sym_expr =
    SInt int
  | SSym string
  | SPow sym_expr sym_expr
  | SAdd "sym_expr list"
  | SMul "sym_expr list"
  | SFloorDiv sym_expr sym_expr
  | SMod sym_expr sym_expr
  | SOther string "sym_expr list"

fun sym_value :: "(string \<Rightarrow> int list \<Rightarrow> int) \<Rightarrow> (string \<Rightarrow> int) \<Rightarrow> sym_expr \<Rightarrow> int" where
  "sym_value \<phi> \<rho> (SInt n) = n"
| "sym_value \<phi> \<rho> (SSym s) = \<rho> s"
| "sym_value \<phi> \<rho> (SPow a b) = sym_value \<phi> \<rho> a ^ nat (sym_value \<phi> \<rho> b)"
| "sym_value \<phi> \<rho> (SAdd es) = sum_list (map (sym_value \<phi> \<rho>) es)"
| "sym_value \<phi> \<rho> (SMul es) = prod_list (map (sym_value \<phi> \<rho>) es)"
| "sym_value \<phi> \<rho> (SFloorDiv a b) = sym_value \<phi> \<rho> a div sym_value \<phi> \<rho> b"
| "sym_value \<phi> \<rho> (SMod a b) = sym_value \<phi> \<rho> a mod sym_value \<phi> \<rho> b"
| "sym_value \<phi> \<rho> (SOther f es) = \<phi> f (map (sym_value \<phi> \<rho>) es)"

fun free_symbols :: "sym_expr \<Rightarrow> string list" where
  "free_symbols (SInt n) = []"
| "free_symbols (SSym s) = [s]"
| "free_symbols (SPow a b) = free_symbols a @ free_symbols b"
| "free_symbols (SAdd es) = concat (map free_symbols es)"
| "free_symbols (SMul es) = concat (map free_symbols es)"
| "free_symbols (SFloorDiv a b) = free_symbols a @ free_symbols b"
| "free_symbols (SMod a b) = free_symbols a @ free_symbols b"
| "free_symbols (SOther f es) = concat (map free_symbols es)"

text \<open>\<open>functools.reduce\<close> without an initial value.\<close>

definition reduce_dims :: "(dim \<Rightarrow> dim \<Rightarrow> dim) \<Rightarrow> dim list \<Rightarrow> dim result" where
  "reduce_dims f ds =
     (case ds of
        [] \<Rightarrow> Inl (TypeError ''reduce() of empty iterable with no initial value'')
      | d # ds \<Rightarrow> Inr (foldl f d ds))"

fun sympy_to_dim :: "(string, dim) dict \<Rightarrow> sym_expr \<Rightarrow> dim result" where
  "sympy_to_dim symbols (SInt n) = Inr (DConst n)"
| "sympy_to_dim symbols (SSym s) =
     (case dget symbols s of
        Some d \<Rightarrow> Inr d
      | None \<Rightarrow> Inl (NotImplementedError (''symbol '' @ s @ '' is not bound to a graph input'')))"
| "sympy_to_dim symbols (SPow a b) =
     (case b of
        SInt n \<Rightarrow>
          (if 0 < n then bind_res (sympy_to_dim symbols a) (\<lambda>base. reduce_dims DMul (replicate (nat n) base))
           else Inl (NotImplementedError ''no MAX Dim equivalent''))
      | _ \<Rightarrow> Inl (NotImplementedError ''no MAX Dim equivalent''))"
| "sympy_to_dim symbols (SAdd es) = bind_res (map_res (sympy_to_dim symbols) es) (reduce_dims DAdd)"
| "sympy_to_dim symbols (SMul es) = bind_res (map_res (sympy_to_dim symbols) es) (reduce_dims DMul)"
| "sympy_to_dim symbols (SFloorDiv a b) =
     bind_res (sympy_to_dim symbols a) (\<lambda>x. bind_res (sympy_to_dim symbols b) (\<lambda>y. Inr (DFloorDiv x y)))"
| "sympy_to_dim symbols (SMod a b) =
     bind_res (sympy_to_dim symbols a) (\<lambda>x. bind_res (sympy_to_dim symbols b) (\<lambda>y.
       Inr (DSub x (DMul (DFloorDiv x y) y))))"
| "sympy_to_dim symbols (SOther f es) = Inl (NotImplementedError ''no MAX Dim equivalent'')"

subsection \<open>Graph inputs\<close>

datatype input_kind = TensorInput | SizeInput | SignedInput

text \<open>What a placeholder was traced with: an integer with the lower bound its guards give, a float or a boolean,
  or a tensor with its sizes, strides, offset, type, device and storage.\<close>

record traced_tensor =
  tt_shape :: "sym_expr list"
  tt_stride :: "sym_expr list"
  tt_offset :: sym_expr
  tt_dtype :: dtype
  tt_device :: device
  tt_strided :: bool
  tt_storage :: nat

datatype example =
    ExInt sym_expr "int option"
  | ExFloat
  | ExBool
  | ExTensor traced_tensor
  | ExOther

text \<open>\<open>fa_inputs\<close> are the shapes of the MAX graph's inputs; symbols are known by their names.\<close>

record factory =
  fa_placeholders :: nat
  fa_names :: "(string, nat) dict"
  fa_plan :: "(input_kind \<times> nat) list"
  fa_symints :: "(string \<times> nat \<times> sym_expr \<times> int option) list"
  fa_dim_sources :: "(string, string \<times> nat) dict"
  fa_carriers :: "(string, input_kind \<times> nat) dict"
  fa_symbol_args :: "(string, nat \<times> nat option) dict"
  fa_inputs :: "dim list list"
  fa_expression_dims :: "(string, (nat, sym_expr) dict) dict"
  fa_storages :: "(nat, nat \<times> traced_tensor) dict"
  fa_input_vals :: "(nat, traced_tensor) dict"
  fa_input_args :: "(string, nat) dict"
  fa_ints :: "(string, int) dict"

definition new_factory :: factory where
  "new_factory =
     \<lparr>fa_placeholders = 0, fa_names = [], fa_plan = [], fa_symints = [], fa_dim_sources = [], fa_carriers = [],
      fa_symbol_args = [], fa_inputs = [], fa_expression_dims = [], fa_storages = [], fa_input_vals = [],
      fa_input_args = [], fa_ints = []\<rparr>"

text \<open>\<open>dict.setdefault\<close>.\<close>

definition dsetdefault :: "'k \<Rightarrow> 'v \<Rightarrow> ('k, 'v) dict \<Rightarrow> ('k, 'v) dict" where
  "dsetdefault k v d = (if dget d k = None then dput k v d else d)"

text \<open>One dimension of a tensor input: its own name when it is a symbol, else a fresh one.\<close>

definition add_dim :: "string \<Rightarrow> nat \<Rightarrow> factory \<times> dim list \<Rightarrow> nat \<times> sym_expr \<Rightarrow> factory \<times> dim list" where
  "add_dim name arg_index acc p =
     (case (acc, p) of ((f, shape), (i, e)) \<Rightarrow>
        (case e of
           SInt n \<Rightarrow> (f, shape @ [DConst n])
         | SSym s \<Rightarrow>
             (f\<lparr>fa_dim_sources := dsetdefault s (name, i) (fa_dim_sources f),
                fa_symbol_args := dsetdefault s (arg_index, Some i) (fa_symbol_args f)\<rparr>, shape @ [DSym s])
         | _ \<Rightarrow>
             (f\<lparr>fa_expression_dims := dput name (dput i e (or_else (dget (fa_expression_dims f) name) []))
                  (fa_expression_dims f)\<rparr>,
              shape @ [DSym (name @ ''_dim'' @ nat_text i)])))"

definition enum :: "'a list \<Rightarrow> (nat \<times> 'a) list" where
  "enum xs = zip [0..<length xs] xs"

definition add_tensor :: "string \<Rightarrow> nat \<Rightarrow> traced_tensor \<Rightarrow> factory \<Rightarrow> factory" where
  "add_tensor name arg_index x f =
     (case foldl (add_dim name arg_index) (f, []) (enum (tt_shape x)) of
        (f1, shape) \<Rightarrow>
          f1\<lparr>fa_inputs := fa_inputs f1 @ [shape],
             fa_names := dput name (length (fa_inputs f1)) (fa_names f1),
             fa_plan := fa_plan f1 @ [(TensorInput, arg_index)],
             fa_input_vals := dput arg_index x (fa_input_vals f1),
             fa_input_args := dput name arg_index (fa_input_args f1),
             fa_storages := (if tt_strided x then dsetdefault (tt_storage x) (arg_index, x) (fa_storages f1)
                             else fa_storages f1)\<rparr>)"

definition handle_placeholder :: "string list \<Rightarrow> string \<Rightarrow> example \<Rightarrow> factory \<Rightarrow> factory result" where
  "handle_placeholder replaced name ex f0 =
     (let arg_index = fa_placeholders f0; f = f0\<lparr>fa_placeholders := Suc arg_index\<rparr> in
      if name \<in> set replaced then Inr f
      else case ex of
          ExInt e lo \<Rightarrow>
            (case e of
               SInt n \<Rightarrow> Inr (f\<lparr>fa_ints := dput name n (fa_ints f)\<rparr>)
             | _ \<Rightarrow>
                 Inr (f\<lparr>fa_symbol_args :=
                          (case e of SSym s \<Rightarrow> dsetdefault s (arg_index, None) (fa_symbol_args f) | _ \<Rightarrow> fa_symbol_args f),
                        fa_symints := fa_symints f @ [(name, arg_index, e, lo)]\<rparr>))
        | ExFloat \<Rightarrow> Inl (RuntimeError (''Graph input '' @ name @ '' is a SymFloat, which the MAX graph backend does not support.''))
        | ExBool \<Rightarrow> Inl (RuntimeError (''Graph input '' @ name @ '' is a SymBool, which the MAX graph backend does not support.''))
        | ExTensor x \<Rightarrow> Inr (add_tensor name arg_index x f)
        | ExOther \<Rightarrow> Inr f)"

subsection \<open>Carriers\<close>

definition pos_name :: "string \<Rightarrow> string" where "pos_name s = s @ ''_pos''"
definition neg_a_name :: "string \<Rightarrow> string" where "neg_a_name s = s @ ''_neg_a''"
definition neg_b_name :: "string \<Rightarrow> string" where "neg_b_name s = s @ ''_neg_b''"

text \<open>One pass of the loop of \<open>_add_symint_carriers\<close>.\<close>

definition add_carrier :: "factory \<Rightarrow> string \<times> nat \<times> sym_expr \<times> int option \<Rightarrow> factory" where
  "add_carrier f p =
     (case p of (_, arg_index, e, lo) \<Rightarrow>
        (case e of
           SSym s \<Rightarrow>
             (if dget (fa_dim_sources f) s \<noteq> None \<or> dget (fa_carriers f) s \<noteq> None then f
              else
                let kind = (case lo of Some l \<Rightarrow> if 0 \<le> l then SizeInput else SignedInput | None \<Rightarrow> SignedInput);
                    shape = (if kind = SizeInput then [DSym s, DConst 0]
                             else [DSym (pos_name s), DSym (neg_a_name s), DSym (neg_b_name s), DConst 0])
                in f\<lparr>fa_inputs := fa_inputs f @ [shape], fa_plan := fa_plan f @ [(kind, arg_index)],
                     fa_carriers := dput s (kind, length (fa_inputs f)) (fa_carriers f)\<rparr>)
         | _ \<Rightarrow> f))"

definition add_symint_carriers :: "factory \<Rightarrow> factory" where
  "add_symint_carriers f = foldl add_carrier f (fa_symints f)"

text \<open>\<open>initialize_graph\<close>: each symbol as a dimension of the graph's inputs; a carrier's wins.\<close>

definition source_dim :: "factory \<Rightarrow> string \<times> nat \<Rightarrow> dim" where
  "source_dim f p = (case p of (name, i) \<Rightarrow> fa_inputs f ! the (dget (fa_names f) name) ! i)"

definition carrier_dim :: "factory \<Rightarrow> input_kind \<times> nat \<Rightarrow> dim" where
  "carrier_dim f p =
     (case p of (kind, idx) \<Rightarrow>
        let shape = fa_inputs f ! idx in
        if kind = SizeInput then shape ! 0 else DSub (DSub (shape ! 0) (shape ! 1)) (shape ! 2))"

definition symbol_dims :: "factory \<Rightarrow> (string, dim) dict" where
  "symbol_dims f =
     foldl (\<lambda>d (s, p). dput s (carrier_dim f p) d)
       (foldl (\<lambda>d (s, p). dput s (source_dim f p) d) [] (fa_dim_sources f)) (fa_carriers f)"

definition symint_to_dim :: "factory \<Rightarrow> sym_expr \<Rightarrow> dim result" where
  "symint_to_dim f e = sympy_to_dim (symbol_dims f) e"

subsection \<open>Feeding a call's arguments\<close>

datatype run_arg = RTensor "int list" | RInt int | ROther

definition symint_carrier :: "int list \<Rightarrow> int list" where
  "symint_carrier shape = shape"

text \<open>The shape of the buffer each graph input receives.\<close>

definition graph_input :: "input_kind \<Rightarrow> run_arg \<Rightarrow> int list result" where
  "graph_input kind a =
     (case (kind, a) of
        (TensorInput, RTensor shape) \<Rightarrow> Inr shape
      | (SizeInput, RInt n) \<Rightarrow> Inr (symint_carrier [n, 0])
      | (SignedInput, RInt n) \<Rightarrow>
          (if 0 \<le> n then Inr (symint_carrier [n, 0, 0, 0])
           else let neg = - n in Inr (symint_carrier [0, neg - neg div 2, neg div 2, 0]))
      | _ \<Rightarrow> Inl (AssertionError ''''))"

definition run_inputs :: "factory \<Rightarrow> run_arg list \<Rightarrow> int list list result" where
  "run_inputs f args = map_res (\<lambda>(kind, i). graph_input kind (args ! i)) (fa_plan f)"

text \<open>\<open>_symbol_values\<close>: the symbols' values read off the arguments.\<close>

definition symbol_values :: "factory \<Rightarrow> run_arg list \<Rightarrow> (string, int) dict result" where
  "symbol_values f args = map_res (\<lambda>(s, i, d).
     case (d, args ! i) of
       (Some k, RTensor shape) \<Rightarrow> Inr (s, shape ! k)
     | (None, RInt n) \<Rightarrow> Inr (s, n)
     | _ \<Rightarrow> Inl (AssertionError '''')) (fa_symbol_args f)"

text \<open>All placeholders of a graph, in order, then the carriers.\<close>

fun add_placeholders :: "string list \<Rightarrow> (string \<times> example) list \<Rightarrow> factory \<Rightarrow> factory result" where
  "add_placeholders replaced [] f = Inr f"
| "add_placeholders replaced ((name, ex) # phs) f =
     bind_res (handle_placeholder replaced name ex f) (add_placeholders replaced phs)"

definition factory_of :: "string list \<Rightarrow> (string \<times> example) list \<Rightarrow> factory result" where
  "factory_of replaced phs = bind_res (add_placeholders replaced phs new_factory) (\<lambda>f. Inr (add_symint_carriers f))"

end
