(* ===== verification/TC_Sizes.thy ===== *)
theory TC_Sizes
  imports TC_Symbols
begin

text \<open>
  Symbolic sizes are right at run time: when a call's arguments fit what was traced, every symbol of the
  compiled graph reads its value off the inputs it was bound to, so each symbolic integer of the trace
  and the MAX dimension lowered for it agree; and an integer argument survives its carrier.
\<close>

subsection \<open>Expressions keep their value\<close>

lemma fold_dims: "dim_value \<sigma> (foldl DAdd d ds) = dim_value \<sigma> d + sum_list (map (dim_value \<sigma>) ds)"
  "dim_value \<sigma> (foldl DMul d ds) = dim_value \<sigma> d * prod_list (map (dim_value \<sigma>) ds)"
  by (induction ds arbitrary: d) (auto simp: add.assoc mult.assoc)

lemma reduce_dims_value:
  "reduce_dims DAdd ds = Inr d \<Longrightarrow> dim_value \<sigma> d = sum_list (map (dim_value \<sigma>) ds)"
  "reduce_dims DMul ds = Inr d \<Longrightarrow> dim_value \<sigma> d = prod_list (map (dim_value \<sigma>) ds)"
  by (auto simp: reduce_dims_def fold_dims split: list.splits)

lemma map_res_values:
  assumes "map_res g es = Inr ds" "\<And>e d. e \<in> set es \<Longrightarrow> g e = Inr d \<Longrightarrow> v d = w e"
  shows "map v ds = map w es"
  using assms
proof (induction es arbitrary: ds)
  case (Cons e es)
  then show ?case by (auto simp: bind_res_eq_Inr)
qed simp

lemma sympy_to_dim_value:
  assumes "\<And>s d. dget symbols s = Some d \<Longrightarrow> dim_value \<sigma> d = \<rho> s"
  shows "sympy_to_dim symbols e = Inr d \<Longrightarrow> dim_value \<sigma> d = sym_value \<phi> \<rho> e"
proof (induction e arbitrary: d)
  case (SSym s)
  then show ?case using assms by (auto split: option.splits)
next
  case (SPow a b)
  from SPow.prems obtain n x where b: "b = SInt n" "0 < n" "sympy_to_dim symbols a = Inr x"
    "reduce_dims DMul (replicate (nat n) x) = Inr d"
    by (auto simp: bind_res_eq_Inr split: sym_expr.splits if_splits)
  have "dim_value \<sigma> d = prod_list (replicate (nat n) (dim_value \<sigma> x))"
    using reduce_dims_value(2)[OF b(4)] by simp
  then show ?case using b(1,2) SPow.IH(1)[OF b(3)] by (simp add: prod_list_replicate)
next
  case (SAdd es)
  then obtain ds where ds: "map_res (sympy_to_dim symbols) es = Inr ds" "reduce_dims DAdd ds = Inr d"
    by (auto simp: bind_res_eq_Inr)
  have "map (dim_value \<sigma>) ds = map (sym_value \<phi> \<rho>) es" by (rule map_res_values[OF ds(1)]) (rule SAdd.IH)
  then show ?case using reduce_dims_value(1)[OF ds(2)] by simp
next
  case (SMul es)
  then obtain ds where ds: "map_res (sympy_to_dim symbols) es = Inr ds" "reduce_dims DMul ds = Inr d"
    by (auto simp: bind_res_eq_Inr)
  have "map (dim_value \<sigma>) ds = map (sym_value \<phi> \<rho>) es" by (rule map_res_values[OF ds(1)]) (rule SMul.IH)
  then show ?case using reduce_dims_value(2)[OF ds(2)] by simp
qed (auto simp: bind_res_eq_Inr minus_div_mult_eq_mod)

subsection \<open>What the placeholders leave\<close>

lemma set_dput: "p \<in> set (dput k v d) \<Longrightarrow> p = (k, v) \<or> p \<in> set d"
  by (induction d) (auto split: if_splits)

lemma set_dsetdefault: "p \<in> set (dsetdefault k v d) \<Longrightarrow> p = (k, v) \<or> p \<in> set d"
  by (auto simp: dsetdefault_def dest: set_dput split: if_splits)

lemma dget_fold_dput:
  "dget (foldl (\<lambda>d (s, p). dput s (g p) d) d0 ps) s = Some v \<Longrightarrow> dget d0 s = Some v \<or> (\<exists>p. (s, p) \<in> set ps \<and> v = g p)"
proof (induction ps arbitrary: d0)
  case (Cons q ps)
  obtain s' p where q: "q = (s', p)" by (cases q)
  then show ?case using Cons.IH[of "dput s' (g p) d0"] Cons.prems by (auto split: if_splits)
qed simp

text \<open>A symbol's source: dimension \<open>d\<close> of the graph input \<open>j\<close> made for the tensor placeholder \<open>i\<close>.\<close>

definition slot :: "(string \<times> example) list \<Rightarrow> factory \<Rightarrow> string \<Rightarrow> string \<times> nat \<Rightarrow> bool" where
  "slot phs f s p \<longleftrightarrow> (case p of (name, d) \<Rightarrow> \<exists>j i x. dget (fa_names f) name = Some j \<and> j < length (fa_inputs f)
     \<and> fa_plan f ! j = (TensorInput, i) \<and> i < length phs \<and> snd (phs ! i) = ExTensor x
     \<and> d < length (tt_shape x) \<and> tt_shape x ! d = SSym s \<and> length (fa_inputs f ! j) = length (tt_shape x))"

text \<open>Where a symbol's value is among the arguments.\<close>

definition arg_slot :: "(string \<times> example) list \<Rightarrow> string \<Rightarrow> nat \<times> nat option \<Rightarrow> bool" where
  "arg_slot phs s p \<longleftrightarrow> fst p < length phs \<and> (case snd p of
      Some d \<Rightarrow> (\<exists>x. snd (phs ! fst p) = ExTensor x \<and> d < length (tt_shape x) \<and> tt_shape x ! d = SSym s)
    | None \<Rightarrow> (\<exists>lo. snd (phs ! fst p) = ExInt (SSym s) lo))"

definition dim_of :: "string \<Rightarrow> nat \<times> sym_expr \<Rightarrow> dim" where
  "dim_of name p = (case p of (i, e) \<Rightarrow>
     (case e of SInt n \<Rightarrow> DConst n | SSym s \<Rightarrow> DSym s | _ \<Rightarrow> DSym (name @ ''_dim'' @ nat_text i)))"

definition same_rest :: "factory \<Rightarrow> factory \<Rightarrow> bool" where
  "same_rest f f' \<longleftrightarrow> fa_inputs f' = fa_inputs f \<and> fa_plan f' = fa_plan f \<and> fa_names f' = fa_names f
     \<and> fa_symints f' = fa_symints f \<and> fa_carriers f' = fa_carriers f \<and> fa_placeholders f' = fa_placeholders f"

lemma add_dim_facts:
  assumes "add_dim name a (f, shape) (i, e) = (f1, shape1)"
  shows "shape1 = shape @ [dim_of name (i, e)]" "same_rest f f1"
    "\<And>s q. (s, q) \<in> set (fa_dim_sources f1) \<Longrightarrow> (s, q) \<in> set (fa_dim_sources f) \<or> q = (name, i) \<and> e = SSym s"
    "\<And>s q. (s, q) \<in> set (fa_symbol_args f1) \<Longrightarrow> (s, q) \<in> set (fa_symbol_args f) \<or> q = (a, Some i) \<and> e = SSym s"
  using assms
  by (auto simp: add_dim_def dim_of_def same_rest_def split: sym_expr.splits dest!: set_dsetdefault)

lemma add_dims_facts:
  assumes "foldl (add_dim name a) (f, shape) ps = (f', shape')"
  shows "shape' = shape @ map (dim_of name) ps" "same_rest f f'"
    "(s, q) \<in> set (fa_dim_sources f') \<Longrightarrow> (s, q) \<in> set (fa_dim_sources f) \<or> (\<exists>i. q = (name, i) \<and> (i, SSym s) \<in> set ps)"
    "(s, q') \<in> set (fa_symbol_args f') \<Longrightarrow> (s, q') \<in> set (fa_symbol_args f) \<or> (\<exists>i. q' = (a, Some i) \<and> (i, SSym s) \<in> set ps)"
proof -
  have "shape' = shape @ map (dim_of name) ps \<and> same_rest f f'
    \<and> ((s, q) \<in> set (fa_dim_sources f') \<longrightarrow> (s, q) \<in> set (fa_dim_sources f) \<or> (\<exists>i. q = (name, i) \<and> (i, SSym s) \<in> set ps))
    \<and> ((s, q') \<in> set (fa_symbol_args f') \<longrightarrow> (s, q') \<in> set (fa_symbol_args f) \<or> (\<exists>i. q' = (a, Some i) \<and> (i, SSym s) \<in> set ps))"
    using assms
  proof (induction ps arbitrary: f shape)
    case Nil
    then show ?case by (simp add: same_rest_def)
  next
    case (Cons p ps)
    obtain i e where p: "p = (i, e)" by (cases p)
    obtain f1 sh1 where one: "add_dim name a (f, shape) (i, e) = (f1, sh1)" by (cases "add_dim name a (f, shape) (i, e)")
    have rest: "foldl (add_dim name a) (f1, sh1) ps = (f', shape')" using Cons.prems one p by simp
    note A = add_dim_facts[OF one] and B = Cons.IH[OF rest]
    have "same_rest f f'" using A(2) B by (simp add: same_rest_def)
    moreover have "shape' = shape @ map (dim_of name) (p # ps)" using A(1) B p by simp
    ultimately show ?case using A(3)[of s q] A(4)[of s q'] B p by auto
  qed
  then show "shape' = shape @ map (dim_of name) ps" "same_rest f f'"
    "(s, q) \<in> set (fa_dim_sources f') \<Longrightarrow> (s, q) \<in> set (fa_dim_sources f) \<or> (\<exists>i. q = (name, i) \<and> (i, SSym s) \<in> set ps)"
    "(s, q') \<in> set (fa_symbol_args f') \<Longrightarrow> (s, q') \<in> set (fa_symbol_args f) \<or> (\<exists>i. q' = (a, Some i) \<and> (i, SSym s) \<in> set ps)"
    by auto
qed

lemma enum_mem: "(i, x) \<in> set (enum xs) \<longleftrightarrow> i < length xs \<and> x = xs ! i"
  by (auto simp: enum_def set_zip intro!: exI[of _ i])
subsection \<open>The factory's records are about its placeholders\<close>

text \<open>A planned input reads an argument of its kind.\<close>

definition planned :: "(string \<times> example) list \<Rightarrow> input_kind \<Rightarrow> nat \<Rightarrow> bool" where
  "planned phs kind i \<longleftrightarrow> i < length phs \<and>
     (if kind = TensorInput then \<exists>x. snd (phs ! i) = ExTensor x else \<exists>e lo. snd (phs ! i) = ExInt e lo)"

text \<open>After the first \<open>n\<close> placeholders.\<close>

definition placed :: "(string \<times> example) list \<Rightarrow> factory \<Rightarrow> bool" where
  "placed phs f \<longleftrightarrow> length (fa_plan f) = length (fa_inputs f)
     \<and> (\<forall>(kind, i) \<in> set (fa_plan f). planned phs kind i)
     \<and> (\<forall>(s, p) \<in> set (fa_dim_sources f). slot phs f s p)
     \<and> (\<forall>(s, p) \<in> set (fa_symbol_args f). arg_slot phs s p)
     \<and> (\<forall>(name, i, e, lo) \<in> set (fa_symints f). i < length phs \<and> phs ! i = (name, ExInt e lo))"

definition named_before :: "(string \<times> example) list \<Rightarrow> nat \<Rightarrow> factory \<Rightarrow> bool" where
  "named_before phs n f \<longleftrightarrow> fa_placeholders f = n
     \<and> (\<forall>name j. dget (fa_names f) name = Some j \<longrightarrow> name \<in> fst ` set (take n phs))"

text \<open>A source stays one when inputs are appended and other names bound.\<close>

lemma slotI:
  assumes "dget (fa_names f) name = Some j" "j < length (fa_inputs f)" "fa_plan f ! j = (TensorInput, i)"
    "i < length phs" "snd (phs ! i) = ExTensor x" "d < length (tt_shape x)" "tt_shape x ! d = SSym s"
    "length (fa_inputs f ! j) = length (tt_shape x)"
  shows "slot phs f s (name, d)"
  unfolding slot_def prod.case using assms by (intro exI conjI)

lemma slotE:
  assumes "slot phs f s (name, d)"
  obtains j i x where "dget (fa_names f) name = Some j" "j < length (fa_inputs f)" "fa_plan f ! j = (TensorInput, i)"
    "i < length phs" "snd (phs ! i) = ExTensor x" "d < length (tt_shape x)" "tt_shape x ! d = SSym s"
    "length (fa_inputs f ! j) = length (tt_shape x)"
  using assms unfolding slot_def by auto

lemma slot_append:
  assumes "slot phs f s p" "fa_inputs f' = fa_inputs f @ is" "fa_plan f' = fa_plan f @ ps"
    "length (fa_plan f) = length (fa_inputs f)" "dget (fa_names f') (fst p) = dget (fa_names f) (fst p)"
  shows "slot phs f' s p"
proof -
  obtain name d where p: "p = (name, d)" by (cases p)
  show ?thesis unfolding p
  proof (rule slotE[OF assms(1)[unfolded p]])
    fix j i x
    assume old: "dget (fa_names f) name = Some j" "j < length (fa_inputs f)" "fa_plan f ! j = (TensorInput, i)"
      and rest: "i < length phs" "snd (phs ! i) = ExTensor x" "d < length (tt_shape x)" "tt_shape x ! d = SSym s"
      and len: "length (fa_inputs f ! j) = length (tt_shape x)"
    show "slot phs f' s (name, d)"
    proof (rule slotI[OF _ _ _ rest])
      show "dget (fa_names f') name = Some j" using assms(5) old(1) by (simp add: p)
      show "j < length (fa_inputs f')" "fa_plan f' ! j = (TensorInput, i)" "length (fa_inputs f' ! j) = length (tt_shape x)"
        using assms(2-4) old len by (simp_all add: nth_append)
    qed
  qed
qed

lemma nth_not_before: "distinct xs \<Longrightarrow> n < length xs \<Longrightarrow> xs ! n \<notin> set (take n xs)"
  by (metis Int_iff disjoint_iff distinct_append id_take_nth_drop insertI1 list.simps(15))

lemma add_tensor_placed:
  assumes phs: "distinct (map fst phs)" "n < length phs" "phs ! n = (name, ExTensor x)"
    and inv: "placed phs f" "fa_placeholders f = Suc n"
    and names: "\<forall>nm j. dget (fa_names f) nm = Some j \<longrightarrow> nm \<in> fst ` set (take n phs)"
  shows "placed phs (add_tensor name n x f) \<and> named_before phs (Suc n) (add_tensor name n x f)"
proof -
  define f' where "f' = add_tensor name n x f"
  obtain f1 shape where fold: "foldl (add_dim name n) (f, []) (enum (tt_shape x)) = (f1, shape)"
    by (cases "foldl (add_dim name n) (f, []) (enum (tt_shape x))")
  note A = add_dims_facts[OF fold]
  have shape: "length shape = length (tt_shape x)" using A(1) by (simp add: enum_def)
  have f': "fa_inputs f' = fa_inputs f @ [shape]" "fa_plan f' = fa_plan f @ [(TensorInput, n)]"
    "fa_names f' = dput name (length (fa_inputs f)) (fa_names f)" "fa_symints f' = fa_symints f"
    "fa_dim_sources f' = fa_dim_sources f1" "fa_symbol_args f' = fa_symbol_args f1" "fa_placeholders f' = Suc n"
    using A(2) inv(2) by (simp_all add: f'_def add_tensor_def fold same_rest_def)
  have "map fst phs ! n \<notin> set (take n (map fst phs))" using phs(1,2) by (intro nth_not_before) simp_all
  then have fresh: "name \<notin> fst ` set (take n phs)" using phs(2,3) by (simp add: take_map)
  have len: "length (fa_plan f) = length (fa_inputs f)" using inv(1) by (simp add: placed_def)
  have srcs: "slot phs f' s p" if mem: "(s, p) \<in> set (fa_dim_sources f')" for s p
  proof -
    consider "(s, p) \<in> set (fa_dim_sources f)" | i where "p = (name, i)" "(i, SSym s) \<in> set (enum (tt_shape x))"
      using mem A(3) f'(5) by metis
    then show ?thesis
    proof cases
      case 1
      then have old: "slot phs f s p" using inv(1) by (auto simp: placed_def)
      then have "fst p \<noteq> name" using names fresh by (cases p) (auto elim: slotE)
      then show ?thesis by (intro slot_append[OF old f'(1,2) len]) (simp add: f'(3))
    next
      case 2
      then have i: "i < length (tt_shape x)" "tt_shape x ! i = SSym s" by (auto simp: enum_mem)
      show ?thesis unfolding 2(1)
        by (rule slotI[of _ _ "length (fa_inputs f)" n _ x]) (use f' len shape phs i in \<open>simp_all add: nth_append\<close>)
    qed
  qed
  have args: "arg_slot phs s p" if mem: "(s, p) \<in> set (fa_symbol_args f')" for s p
  proof -
    consider "(s, p) \<in> set (fa_symbol_args f)" | i where "p = (n, Some i)" "(i, SSym s) \<in> set (enum (tt_shape x))"
      using mem A(4) f'(6) by metis
    then show ?thesis
    proof cases
      case 1
      then show ?thesis using inv(1) by (auto simp: placed_def)
    next
      case 2
      then show ?thesis using phs by (auto simp: arg_slot_def enum_mem)
    qed
  qed
  have "placed phs f'" using srcs args inv(1) f'(1,2,4) len phs(2,3) by (auto simp: placed_def planned_def)
  moreover have "named_before phs (Suc n) f'"
    using names f'(3,7) phs by (auto simp: named_before_def take_Suc_conv_app_nth)
  ultimately show ?thesis by (simp add: f'_def)
qed
lemma placed_unchanged:
  assumes "placed phs f" "fa_plan f' = fa_plan f" "fa_inputs f' = fa_inputs f" "fa_dim_sources f' = fa_dim_sources f"
    "fa_names f' = fa_names f"
    "\<And>s p. (s, p) \<in> set (fa_symbol_args f') \<Longrightarrow> (s, p) \<in> set (fa_symbol_args f) \<or> arg_slot phs s p"
    "\<And>name i e lo. (name, i, e, lo) \<in> set (fa_symints f') \<Longrightarrow>
       (name, i, e, lo) \<in> set (fa_symints f) \<or> i < length phs \<and> phs ! i = (name, ExInt e lo)"
  shows "placed phs f'"
  using assms(1,6,7) unfolding placed_def slot_def assms(2-5) by blast

lemma named_before_Suc: "named_before phs n f \<Longrightarrow> fa_names f' = fa_names f \<Longrightarrow> fa_placeholders f' = Suc n \<Longrightarrow>
    n < length phs \<Longrightarrow> named_before phs (Suc n) f'"
  by (auto simp: named_before_def take_Suc_conv_app_nth)

lemma handle_placeholder_placed:
  assumes phs: "distinct (map fst phs)" "n < length phs" "phs ! n = (name, ex)"
    and inv: "placed phs f" "named_before phs n f" and run: "handle_placeholder replaced name ex f = Inr f'"
  shows "placed phs f' \<and> named_before phs (Suc n) f'"
proof -
  have n: "fa_placeholders f = n" using inv(2) by (simp add: named_before_def)
  define g where "g = f\<lparr>fa_placeholders := Suc n\<rparr>"
  have g: "placed phs g" "named_before phs (Suc n) g"
    by (rule placed_unchanged[OF inv(1)]; simp add: g_def)
       (rule named_before_Suc[OF inv(2)]; simp add: g_def phs(2))
  have same: ?thesis if "f' = g" using g that by simp
  have run': "handle_placeholder replaced name ex f = (if name \<in> set replaced then Inr g else case ex of
       ExInt e lo \<Rightarrow> (case e of
           SInt k \<Rightarrow> Inr (g\<lparr>fa_ints := dput name k (fa_ints g)\<rparr>)
         | _ \<Rightarrow> Inr (g\<lparr>fa_symbol_args := (case e of SSym s \<Rightarrow> dsetdefault s (n, None) (fa_symbol_args g) | _ \<Rightarrow> fa_symbol_args g),
                   fa_symints := fa_symints g @ [(name, n, e, lo)]\<rparr>))
     | ExTensor x \<Rightarrow> Inr (add_tensor name n x g) | ExOther \<Rightarrow> Inr g | _ \<Rightarrow> handle_placeholder replaced name ex f)"
    unfolding handle_placeholder_def g_def n Let_def
    by (cases ex) simp_all
  have int: ?thesis if "ex = ExInt e lo" "f' = g\<lparr>fa_symbol_args :=
          (case e of SSym s \<Rightarrow> dsetdefault s (n, None) (fa_symbol_args g) | _ \<Rightarrow> fa_symbol_args g),
          fa_symints := fa_symints g @ [(name, n, e, lo)]\<rparr>" for e lo
  proof
    show "placed phs f'"
      by (rule placed_unchanged[OF g(1)])
         (use that phs in \<open>auto simp: arg_slot_def split: sym_expr.splits dest!: set_dsetdefault\<close>)
    show "named_before phs (Suc n) f'" using g(2) by (simp add: named_before_def that)
  qed
  have num: ?thesis if "f' = g\<lparr>fa_ints := ks\<rparr>" for ks
  proof
    show "placed phs f'" by (rule placed_unchanged[OF g(1)]) (simp_all add: that)
    show "named_before phs (Suc n) f'" using g(2) by (simp add: named_before_def that)
  qed
  show ?thesis
  proof (cases "name \<in> set replaced")
    case True
    then show ?thesis using run run' same by simp
  next
    case False
    show ?thesis
    proof (cases ex)
      case (ExInt e lo)
      then show ?thesis using run run' False int[of e lo] num by (cases e) simp_all
    next
      case (ExTensor x)
      have "\<forall>nm j. dget (fa_names g) nm = Some j \<longrightarrow> nm \<in> fst ` set (take n phs)"
        using inv(2) by (simp add: named_before_def g_def)
      with ExTensor run run' False add_tensor_placed[OF phs(1,2) _ g(1)] phs(3) show ?thesis by (simp add: g_def)
    qed (use run run' False same in \<open>auto simp: handle_placeholder_def\<close>)
  qed
qed

lemma add_placeholders_placed:
  assumes "distinct (map fst phs)" "placed phs f" "named_before phs n f" "n \<le> length phs"
    "add_placeholders replaced (drop n phs) f = Inr f'"
  shows "placed phs f' \<and> fa_placeholders f' = length phs"
  using assms(2-)
proof (induction "length phs - n" arbitrary: n f)
  case 0
  then show ?case by (simp add: named_before_def)
next
  case (Suc k)
  then have n: "n < length phs" by simp
  obtain name ex where ph: "phs ! n = (name, ex)" by (cases "phs ! n")
  have "drop n phs = (name, ex) # drop (Suc n) phs" using Cons_nth_drop_Suc[OF n] ph by simp
  then obtain f1 where f1: "handle_placeholder replaced name ex f = Inr f1"
    "add_placeholders replaced (drop (Suc n) phs) f1 = Inr f'"
    using Suc.prems(4) by (auto simp: bind_res_eq_Inr)
  have "placed phs f1 \<and> named_before phs (Suc n) f1"
    using handle_placeholder_placed[OF assms(1) n ph Suc.prems(1,2) f1(1)] .
  then show ?case using Suc.hyps(1)[of "Suc n" f1] Suc.hyps(2) n f1(2) by simp
qed

lemma handle_placeholder_no_carriers: "handle_placeholder replaced name ex f = Inr f' \<Longrightarrow> fa_carriers f' = fa_carriers f"
  unfolding handle_placeholder_def Let_def
  by (auto simp: add_tensor_def split: if_splits example.splits sym_expr.splits prod.splits dest!: add_dims_facts(2))
     (auto simp: same_rest_def)

lemma add_placeholders_no_carriers: "add_placeholders replaced phs f = Inr f' \<Longrightarrow> fa_carriers f' = fa_carriers f"
  by (induction phs arbitrary: f) (auto simp: bind_res_eq_Inr dest!: handle_placeholder_no_carriers)
subsection \<open>Carriers\<close>

definition carrier_slot :: "(string \<times> example) list \<Rightarrow> factory \<Rightarrow> string \<Rightarrow> input_kind \<Rightarrow> nat \<Rightarrow> bool" where
  "carrier_slot phs f s kind j \<longleftrightarrow> j < length (fa_inputs f) \<and> fst (fa_plan f ! j) = kind
     \<and> (\<exists>lo. snd (phs ! snd (fa_plan f ! j)) = ExInt (SSym s) lo \<and> snd (fa_plan f ! j) < length phs
          \<and> (kind = SizeInput \<and> (\<exists>l \<ge> 0. lo = Some l) \<and> length (fa_inputs f ! j) = 2
             \<or> kind = SignedInput \<and> length (fa_inputs f ! j) = 4))"

definition carried :: "(string \<times> example) list \<Rightarrow> factory \<Rightarrow> bool" where
  "carried phs f \<longleftrightarrow> placed phs f \<and> (\<forall>(s, kind, j) \<in> set (fa_carriers f). carrier_slot phs f s kind j)"

lemma carrier_slot_append:
  "carrier_slot phs f s kind j \<Longrightarrow> fa_inputs f' = fa_inputs f @ xs \<Longrightarrow> fa_plan f' = fa_plan f @ ps \<Longrightarrow>
     length (fa_plan f) = length (fa_inputs f) \<Longrightarrow> carrier_slot phs f' s kind j"
  unfolding carrier_slot_def by (simp add: nth_append)

lemma add_carrier_carried:
  assumes "carried phs f" "i < length phs" "phs ! i = (name, ExInt e lo)"
  shows "carried phs (add_carrier f (name, i, e, lo))"
proof (cases "add_carrier f (name, i, e, lo) = f")
  case False
  then obtain s where e: "e = SSym s" by (cases e) (auto simp: add_carrier_def)
  define kind where "kind = (case lo of Some l \<Rightarrow> if 0 \<le> l then SizeInput else SignedInput | None \<Rightarrow> SignedInput)"
  define shape where "shape = (if kind = SizeInput then [DSym s, DConst 0]
    else [DSym (pos_name s), DSym (neg_a_name s), DSym (neg_b_name s), DConst 0])"
  define f' where "f' = add_carrier f (name, i, e, lo)"
  have f': "f' = f\<lparr>fa_inputs := fa_inputs f @ [shape], fa_plan := fa_plan f @ [(kind, i)],
      fa_carriers := dput s (kind, length (fa_inputs f)) (fa_carriers f)\<rparr>"
    using False unfolding f'_def add_carrier_def e kind_def shape_def Let_def by (auto split: if_splits)
  have len: "length (fa_plan f) = length (fa_inputs f)" and pl: "placed phs f"
    using assms(1) by (simp_all add: carried_def placed_def)
  have kind: "kind = SizeInput \<and> (\<exists>l \<ge> 0. lo = Some l) \<or> kind = SignedInput"
    by (auto simp: kind_def split: option.splits)
  have "slot phs f' t p" if "(t, p) \<in> set (fa_dim_sources f)" for t p
    by (rule slot_append[of phs f t p f' "[shape]" "[(kind, i)]"]) (use that pl len in \<open>auto simp: placed_def f'\<close>)
  moreover have "planned phs kind i" using kind assms(2,3) by (auto simp: planned_def)
  ultimately have "placed phs f'" using pl len by (auto simp: placed_def f')
  moreover have "carrier_slot phs f' t k j" if t: "(t, k, j) \<in> set (fa_carriers f')" for t k j
  proof (cases "(t, k, j) \<in> set (fa_carriers f)")
    case True
    then have "carrier_slot phs f t k j" using assms(1) by (auto simp: carried_def)
    then show ?thesis by (rule carrier_slot_append) (simp_all add: f' len)
  next
    case False
    then have "t = s" "k = kind" "j = length (fa_inputs f)" using t by (auto simp: f' dest: set_dput)
    then show ?thesis using kind assms(2,3) len by (auto simp: carrier_slot_def f' nth_append shape_def e)
  qed
  ultimately show ?thesis by (auto simp: carried_def f'_def)
qed (use assms in simp)

lemma add_carrier_symints [simp]: "fa_symints (add_carrier f p) = fa_symints f"
  by (auto simp: add_carrier_def Let_def split: prod.splits sym_expr.splits)

lemma add_carriers_carried:
  assumes "carried phs f" "\<And>name i e lo. (name, i, e, lo) \<in> set ps \<Longrightarrow> i < length phs \<and> phs ! i = (name, ExInt e lo)"
  shows "carried phs (foldl add_carrier f ps)"
  using assms
proof (induction ps arbitrary: f)
  case (Cons p ps)
  obtain name i e lo where p: "p = (name, i, e, lo)" by (cases p) auto
  have "carried phs (add_carrier f p)" using Cons.prems(1) Cons.prems(2)[of name i e lo] unfolding p
    by (intro add_carrier_carried) auto
  from Cons.IH[OF this Cons.prems(2)] show ?case by (metis foldl_Cons list.set_intros(2))
qed simp

lemma factory_of_carried:
  assumes "distinct (map fst phs)" "factory_of replaced phs = Inr f"
  shows "carried phs f"
proof -
  obtain f0 where f0: "add_placeholders replaced phs new_factory = Inr f0" "f = add_symint_carriers f0"
    using assms(2) by (auto simp: factory_of_def bind_res_eq_Inr)
  have "placed phs new_factory" "named_before phs 0 new_factory"
    by (simp_all add: placed_def named_before_def new_factory_def)
  then have pl: "placed phs f0" using add_placeholders_placed[OF assms(1), of new_factory 0] f0(1) by simp
  have "fa_carriers f0 = []" using add_placeholders_no_carriers[OF f0(1)] by (simp add: new_factory_def)
  then have "carried phs f0" using pl by (simp add: carried_def)
  then show ?thesis unfolding f0(2) add_symint_carriers_def
    by (rule add_carriers_carried) (use pl in \<open>auto simp: placed_def\<close>)
qed

subsection \<open>A call\<close>

text \<open>An argument fits what its placeholder was traced with, for values \<open>\<rho>\<close> of the symbols that meet the guards.\<close>

definition fits :: "(string \<Rightarrow> int list \<Rightarrow> int) \<Rightarrow> (string \<Rightarrow> int) \<Rightarrow> string \<times> example \<Rightarrow> run_arg \<Rightarrow> bool" where
  "fits \<phi> \<rho> ph a = (case snd ph of
      ExInt e lo \<Rightarrow> a = RInt (sym_value \<phi> \<rho> e) \<and> (case lo of Some l \<Rightarrow> l \<le> sym_value \<phi> \<rho> e | None \<Rightarrow> True)
    | ExTensor x \<Rightarrow> a = RTensor (map (sym_value \<phi> \<rho>) (tt_shape x))
    | _ \<Rightarrow> True)"

lemma map_res_total: "(\<And>x. x \<in> set xs \<Longrightarrow> \<exists>y. f x = Inr y) \<Longrightarrow> \<exists>ys. map_res f xs = Inr ys"
  by (induction xs) force+

lemma map_res_exact: "(\<And>x. x \<in> set xs \<Longrightarrow> f x = Inr (g x)) \<Longrightarrow> map_res f xs = Inr (map g xs)"
  by (induction xs) simp_all

lemma run_inputs_total:
  assumes "placed phs f" "list_all2 (fits \<phi> \<rho>) phs args"
  shows "\<exists>shapes. run_inputs f args = Inr shapes"
  unfolding run_inputs_def
proof (rule map_res_total)
  fix p
  assume "p \<in> set (fa_plan f)"
  then obtain kind i where p: "p = (kind, i)" "planned phs kind i" using assms(1) by (cases p) (auto simp: placed_def)
  then have "fits \<phi> \<rho> (phs ! i) (args ! i)" using assms(2) by (auto simp: planned_def list_all2_conv_all_nth)
  then show "\<exists>y. (case p of (kind, i) \<Rightarrow> graph_input kind (args ! i)) = Inr y"
    using p by (cases kind) (auto simp: planned_def fits_def graph_input_def Let_def)
qed

text \<open>What a carrier holds.\<close>

lemma signed_carrier: "graph_input SignedInput (RInt n) = Inr [a, b, c, d] \<Longrightarrow> a - b - c = n"
  by (auto simp: graph_input_def symint_carrier_def Let_def split: if_splits)

lemma symbol_dims_value:
  assumes inv: "carried phs f" and fit: "list_all2 (fits \<phi> \<rho>) phs args"
    and run: "run_inputs f args = Inr (map (map (dim_value \<sigma>)) (fa_inputs f))"
    and d: "dget (symbol_dims f) s = Some d"
  shows "dim_value \<sigma> d = \<rho> s"
proof -
  have len: "length (fa_plan f) = length (fa_inputs f)" using inv by (simp add: carried_def placed_def)
  have input: "graph_input (fst (fa_plan f ! j)) (args ! snd (fa_plan f ! j)) = Inr (map (dim_value \<sigma>) (fa_inputs f ! j))"
    if "j < length (fa_inputs f)" for j
    using map_res_nth[OF run[unfolded run_inputs_def], of j] that len by (simp add: split_beta)
  consider (source) p where "(s, p) \<in> set (fa_dim_sources f)" "d = source_dim f p"
    | (carrier) k j where "(s, k, j) \<in> set (fa_carriers f)" "d = carrier_dim f (k, j)"
    using dget_fold_dput[OF d[unfolded symbol_dims_def]] dget_fold_dput[where ?d0.0 = "[]" and s = s and v = d]
    by fastforce
  then show ?thesis
  proof cases
    case source
    obtain name i where p: "p = (name, i)" by (cases p)
    have "slot phs f s (name, i)" using source(1) inv p by (auto simp: carried_def placed_def)
    then show ?thesis
    proof (rule slotE)
      fix j k x
      assume j: "dget (fa_names f) name = Some j" "j < length (fa_inputs f)" "fa_plan f ! j = (TensorInput, k)"
        and k: "k < length phs" "snd (phs ! k) = ExTensor x" "i < length (tt_shape x)" "tt_shape x ! i = SSym s"
        and len: "length (fa_inputs f ! j) = length (tt_shape x)"
      have "args ! k = RTensor (map (sym_value \<phi> \<rho>) (tt_shape x))"
        using fit k(1,2) by (auto simp: list_all2_conv_all_nth fits_def)
      then have "map (dim_value \<sigma>) (fa_inputs f ! j) = map (sym_value \<phi> \<rho>) (tt_shape x)"
        using input[OF j(2)] j(3) by (simp add: graph_input_def)
      then have "dim_value \<sigma> (fa_inputs f ! j ! i) = sym_value \<phi> \<rho> (SSym s)" using k(3,4) len by (metis nth_map)
      then show ?thesis using source(2) j(1) p by (simp add: source_dim_def)
    qed
  next
    case carrier
    then have "carrier_slot phs f s k j" using inv by (auto simp: carried_def)
    then obtain lo where j: "j < length (fa_inputs f)" "fst (fa_plan f ! j) = k" "snd (fa_plan f ! j) < length phs"
      "snd (phs ! snd (fa_plan f ! j)) = ExInt (SSym s) lo"
      "k = SizeInput \<and> (\<exists>l \<ge> 0. lo = Some l) \<and> length (fa_inputs f ! j) = 2 \<or> k = SignedInput \<and> length (fa_inputs f ! j) = 4"
      by (auto simp: carrier_slot_def)
    have "fits \<phi> \<rho> (phs ! snd (fa_plan f ! j)) (args ! snd (fa_plan f ! j))"
      using fit j(3) by (simp add: list_all2_conv_all_nth)
    then have arg: "args ! snd (fa_plan f ! j) = RInt (\<rho> s)" using j(4) by (simp add: fits_def)
    note shape = input[OF j(1), unfolded j(2) arg]
    show ?thesis
    proof (cases "k = SizeInput")
      case True
      then have "map (dim_value \<sigma>) (fa_inputs f ! j) = [\<rho> s, 0]" using shape by (simp add: graph_input_def symint_carrier_def)
      then show ?thesis using carrier(2) True by (cases "fa_inputs f ! j") (auto simp: carrier_dim_def)
    next
      case False
      then have k: "k = SignedInput" and l: "length (fa_inputs f ! j) = 4" using j(5) by simp_all
      then obtain a b c e where dims: "fa_inputs f ! j = [a, b, c, e]"
        by (auto simp: numeral_eq_Suc length_Suc_conv)
      show ?thesis using signed_carrier[OF shape[unfolded k dims, simplified]] carrier(2)
        by (simp add: carrier_dim_def k dims)
    qed
  qed
qed
lemma symbol_values_exact:
  assumes "carried phs f" "list_all2 (fits \<phi> \<rho>) phs args"
  shows "\<exists>env. symbol_values f args = Inr env \<and> (\<forall>s. dget env s = map_option (\<lambda>_. \<rho> s) (dget (fa_symbol_args f) s))"
proof -
  have one: "(case (d, args ! i) of (Some k, RTensor shape) \<Rightarrow> Inr (s, shape ! k) | (None, RInt n) \<Rightarrow> Inr (s, n)
      | _ \<Rightarrow> Inl (AssertionError '''')) = Inr (s, \<rho> s)" if "(s, i, d) \<in> set (fa_symbol_args f)" for s i d
  proof -
    have "arg_slot phs s (i, d)" using that assms(1) by (auto simp: carried_def placed_def)
    moreover from this have "fits \<phi> \<rho> (phs ! i) (args ! i)" using assms(2) by (simp add: arg_slot_def list_all2_conv_all_nth)
    ultimately show ?thesis by (cases d) (auto simp: arg_slot_def fits_def)
  qed
  have "symbol_values f args = Inr (map (\<lambda>(s, _). (s, \<rho> s)) (fa_symbol_args f))"
    unfolding symbol_values_def by (rule map_res_exact) (use one in auto)
  moreover have "dget (map (\<lambda>(s, _). (s, \<rho> s)) xs) s = map_option (\<lambda>_. \<rho> s) (dget xs s)" for xs :: "(string \<times> nat \<times> nat option) list" and s
    by (induction xs) auto
  ultimately show ?thesis by simp
qed

text \<open>C21: a compiled graph sees the sizes it was traced for. Whatever values the symbols take, as long as the
  call's arguments fit the trace, the arguments become graph inputs without an error, and binding the
  graph's dimensions to those inputs gives every symbolic integer that was lowered its traced value:
  symbols a tensor holds, symbols only an integer argument holds (whose carrier survives every sign),
  and expressions over both.\<close>

theorem symbols_at_runtime:
  assumes "distinct (map fst phs)" "factory_of replaced phs = Inr f" "list_all2 (fits \<phi> \<rho>) phs args"
  shows "\<exists>shapes. run_inputs f args = Inr shapes
     \<and> (\<forall>\<sigma> e d. map (map (dim_value \<sigma>)) (fa_inputs f) = shapes \<longrightarrow> symint_to_dim f e = Inr d \<longrightarrow>
          dim_value \<sigma> d = sym_value \<phi> \<rho> e)"
proof -
  have inv: "carried phs f" using assms(1,2) by (rule factory_of_carried)
  then obtain shapes where run: "run_inputs f args = Inr shapes"
    using run_inputs_total[OF _ assms(3)] by (auto simp: carried_def)
  have "dim_value \<sigma> d = sym_value \<phi> \<rho> e"
    if bind: "map (map (dim_value \<sigma>)) (fa_inputs f) = shapes" and d: "symint_to_dim f e = Inr d" for \<sigma> e d
    by (rule sympy_to_dim_value[OF _ d[unfolded symint_to_dim_def]])
       (rule symbol_dims_value[OF inv assms(3) run[folded bind]])
  with run show ?thesis by blast
qed

text \<open>A matrix whose second size is the product of two symbols, one of them a negative integer argument.\<close>

definition sample_placeholders :: "(string \<times> example) list" where
  "sample_placeholders =
     [(''n'', ExInt (SSym ''s1'') (Some (-8))),
      (''x'', ExTensor \<lparr>tt_shape = [SSym ''s0'', SMul [SInt 2, SSym ''s0'']], tt_stride = [SMul [SInt 2, SSym ''s0''], SInt 1],
         tt_offset = SInt 0, tt_dtype = Float32, tt_device = MojoDevice (Some 0), tt_strided = True, tt_storage = 0\<rparr>)]"
definition sample_factory :: factory where "sample_factory = projr (factory_of [] sample_placeholders)"

definition sample_symbols :: "string \<Rightarrow> int" where
  "sample_symbols s = (if s = ''s0'' then 5 else if s = ''s1'' then -3 else 0)"

definition sample_dims :: "string \<Rightarrow> int" where
  "sample_dims s = (if s = ''s0'' then 5 else if s = ''x_dim1'' then 10 else if s = neg_a_name ''s1'' then 2
     else if s = neg_b_name ''s1'' then 1 else 0)"

definition sample_expr :: sym_expr where "sample_expr = SAdd [SMul [SInt 2, SSym ''s0''], SSym ''s1'']"

theorem symbols_at_runtime_witness:
  "run_inputs sample_factory [RInt (-3), RTensor [5, 10]] = Inr [[5, 10], [0, 2, 1, 0]]
     \<and> map_sum id (dim_value sample_dims) (symint_to_dim sample_factory sample_expr) = Inr 7"
proof -
  have eval: "factory_of [] sample_placeholders = Inr sample_factory"
    "run_inputs sample_factory [RInt (-3), RTensor [5, 10]] = Inr [[5, 10], [0, 2, 1, 0]]"
    "map (map (dim_value sample_dims)) (fa_inputs sample_factory) = [[5, 10], [0, 2, 1, 0]]"
    "symint_to_dim sample_factory sample_expr = Inr (projr (symint_to_dim sample_factory sample_expr))"
    "sym_value (\<lambda>_ _. 0) sample_symbols sample_expr = 7" "distinct (map fst sample_placeholders)"
    by code_simp+
  have "list_all2 (fits (\<lambda>_ _. 0) sample_symbols) sample_placeholders [RInt (-3), RTensor [5, 10]]"
    by (simp add: sample_placeholders_def fits_def sample_symbols_def)
  from symbols_at_runtime[OF eval(6) eval(1) this] eval(2,3)
  have "dim_value sample_dims (projr (symint_to_dim sample_factory sample_expr)) = sym_value (\<lambda>_ _. 0) sample_symbols sample_expr"
    using eval(4) by auto
  then show ?thesis using eval(2,5) arg_cong[OF eval(4), of "map_sum id (dim_value sample_dims)"] by simp
qed

end
