(* ===== verification/TC_Outputs.thy ===== *)
theory TC_Outputs
  imports TC_Sizes
begin

text \<open>
  What a compiled graph returns (\<^verbatim>\<open>torch_compile_backend/compiler.py\<close>): the blueprint that \<open>handle_output\<close> lays
  out, outputs that are graph inputs or views of one, and \<open>reconstruct_from_blueprint\<close>, which reads the
  blueprint at run time. The property says every output gets its own value back. Python objects are named
  by numbers: nodes, and the storages tensors live in.
\<close>

subsection \<open>Outputs\<close>

text \<open>An fx node as an output reads it: its identity, name, kind, and traced value when that is a tensor.\<close>

record out_node =
  on_id :: nat
  on_name :: string
  on_placeholder :: bool
  on_val :: "traced_tensor option"

text \<open>What an output argument is: a node, or a constant of the graph.\<close>

datatype 'c out_arg = OutNode out_node | OutConst 'c

text \<open>What it converts to once waited for: nothing, a dimension or a tensor.\<close>

datatype 'v out_value = ONone | ODim dim | OTensor 'v

record input_view =
  iv_arg :: nat
  iv_size :: "sym_expr list"
  iv_stride :: "sym_expr list"
  iv_offset :: sym_expr
  iv_identity :: bool

definition whole_input :: "nat \<Rightarrow> input_view" where
  "whole_input i = \<lparr>iv_arg = i, iv_size = [], iv_stride = [], iv_offset = SInt 0, iv_identity = True\<rparr>"

text \<open>
  What the decision is made from: whether views are left out of the graph, the mutated inputs (output
  position, argument), the positions of the user's outputs, and two functions of torch and sympy:
  whether two lists of sizes are known to be equal, and the difference of two sizes.
\<close>

record view_env =
  ve_rebuild :: bool
  ve_mutated :: "(nat \<times> nat) list"
  ve_user :: "(nat \<times> nat) option"
  ve_known_eq :: "sym_expr list \<Rightarrow> sym_expr list \<Rightarrow> bool"
  ve_sub :: "sym_expr \<Rightarrow> sym_expr \<Rightarrow> sym_expr"

record view_state =
  vw_storages :: "(nat, nat \<times> traced_tensor) dict"
  vw_new :: "nat list"
  vw_mutated :: "nat list"

text \<open>\<open>_register_new_values\<close>: one mutated input.\<close>

definition register_new_value ::
    "view_env \<Rightarrow> factory \<Rightarrow> 'c out_arg list \<Rightarrow> nat \<times> nat \<Rightarrow> view_state \<Rightarrow> view_state result" where
  "register_new_value ve f outs p st =
     (case p of (position, arg_index) \<Rightarrow>
        if length outs \<le> position then Inl (IndexError ''list index out of range'')
        else case (outs ! position, dget (fa_input_vals f) arg_index) of
            (OutNode node, Some old) \<Rightarrow>
              (case on_val node of
                 None \<Rightarrow> Inr st
               | Some new \<Rightarrow>
                   if \<not> tt_strided new \<or> tt_dtype new \<noteq> tt_dtype old
                      \<or> \<not> ve_known_eq ve (tt_shape new) (tt_shape old)
                      \<or> \<not> ve_known_eq ve (tt_stride new) (tt_stride old) then Inr st
                   else if dget (vw_storages st) (tt_storage new) \<noteq> None then Inr st
                   else Inr \<lparr>vw_storages = dput (tt_storage new) (arg_index, new) (vw_storages st),
                             vw_new = on_id node # vw_new st, vw_mutated = arg_index # vw_mutated st\<rparr>)
          | _ \<Rightarrow> Inr st)"

fun register_new_values ::
    "view_env \<Rightarrow> factory \<Rightarrow> 'c out_arg list \<Rightarrow> (nat \<times> nat) list \<Rightarrow> view_state \<Rightarrow> view_state result" where
  "register_new_values ve f outs [] st = Inr st"
| "register_new_values ve f outs (p # ps) st =
     bind_res (register_new_value ve f outs p st) (register_new_values ve f outs ps)"

text \<open>\<open>_input_view\<close>: the output as a graph input or a view of one, when it may be returned as such.\<close>

definition user_output :: "view_env \<Rightarrow> nat \<Rightarrow> bool" where
  "user_output ve position \<longleftrightarrow> (case ve_user ve of None \<Rightarrow> True | Some (a, b) \<Rightarrow> a \<le> position \<and> position < b)"

definition allowed :: "view_env \<Rightarrow> view_state \<Rightarrow> nat \<Rightarrow> nat \<Rightarrow> bool" where
  "allowed ve st position arg_index \<longleftrightarrow> user_output ve position \<or> arg_index \<notin> set (vw_mutated st)"

definition view_symbols :: "input_view \<Rightarrow> string list" where
  "view_symbols v = concat (map free_symbols (iv_size v @ iv_stride v @ [iv_offset v]))"

definition find_input_view :: "view_env \<Rightarrow> factory \<Rightarrow> view_state \<Rightarrow> out_node \<Rightarrow> nat \<Rightarrow> input_view option" where
  "find_input_view ve f st node position =
     (if \<not> ve_rebuild ve \<or> on_id node \<in> set (vw_new st) then None
      else if on_placeholder node then
        (case dget (fa_input_args f) (on_name node) of
           None \<Rightarrow> None
         | Some arg_index \<Rightarrow> if allowed ve st position arg_index then Some (whole_input arg_index) else None)
      else case on_val node of
          None \<Rightarrow> None
        | Some val \<Rightarrow>
            if \<not> tt_strided val then None
            else case dget (vw_storages st) (tt_storage val) of
                None \<Rightarrow> None
              | Some (arg_index, base_val) \<Rightarrow>
                  if tt_dtype base_val \<noteq> tt_dtype val \<or> \<not> allowed ve st position arg_index then None
                  else let view = \<lparr>iv_arg = arg_index, iv_size = tt_shape val, iv_stride = tt_stride val,
                                   iv_offset = ve_sub ve (tt_offset val) (tt_offset base_val), iv_identity = False\<rparr>
                       in if set (view_symbols view) \<subseteq> set (dkeys (fa_symbol_args f)) then Some view else None)"

subsection \<open>The blueprint\<close>

datatype blueprint = BNone | BTensor nat | BDim nat | BView nat

text \<open>The loop of \<open>handle_output\<close> over the outputs; \<open>conv\<close> is the tensor book's value, waited for.\<close>

record 'v out_state =
  os_blueprint :: "blueprint list"
  os_tensors :: "'v out_value list"
  os_views :: "input_view list"

definition output_view :: "view_env \<Rightarrow> factory \<Rightarrow> view_state \<Rightarrow> 'c out_arg \<Rightarrow> nat \<Rightarrow> input_view option" where
  "output_view ve f st x position =
     (case x of OutNode node \<Rightarrow> find_input_view ve f st node position | OutConst _ \<Rightarrow> None)"

definition lay_out ::
    "view_env \<Rightarrow> factory \<Rightarrow> view_state \<Rightarrow> ('c out_arg \<Rightarrow> 'v out_value) \<Rightarrow> 'v out_state \<Rightarrow> nat \<times> 'c out_arg \<Rightarrow> 'v out_state" where
  "lay_out ve f st conv acc p =
     (case p of (position, x) \<Rightarrow>
        (case output_view ve f st x position of
           Some v \<Rightarrow> acc\<lparr>os_blueprint := os_blueprint acc @ [BView (length (os_views acc))], os_views := os_views acc @ [v]\<rparr>
         | None \<Rightarrow>
             (case conv x of
                ONone \<Rightarrow> acc\<lparr>os_blueprint := os_blueprint acc @ [BNone]\<rparr>
              | ODim d \<Rightarrow> acc\<lparr>os_blueprint := os_blueprint acc @ [BDim (length (os_tensors acc))], os_tensors := os_tensors acc @ [ODim d]\<rparr>
              | OTensor v \<Rightarrow> acc\<lparr>os_blueprint := os_blueprint acc @ [BTensor (length (os_tensors acc))],
                              os_tensors := os_tensors acc @ [OTensor v]\<rparr>)))"

definition handle_output ::
    "view_env \<Rightarrow> factory \<Rightarrow> ('c out_arg \<Rightarrow> 'v out_value) \<Rightarrow> 'c out_arg list \<Rightarrow> (view_state \<times> 'v out_state) result" where
  "handle_output ve f conv outs =
     bind_res (register_new_values ve f outs (ve_mutated ve) \<lparr>vw_storages = fa_storages f, vw_new = [], vw_mutated = []\<rparr>)
       (\<lambda>st. Inr (st, foldl (lay_out ve f st conv) \<lparr>os_blueprint = [], os_tensors = [], os_views = []\<rparr> (enum outs)))"
subsection \<open>Rebuilding the outputs of a call\<close>

text \<open>
  Tensors of the call are values of a type \<open>'r\<close>; of torch the code uses a tensor's shape and storage
  offset, \<open>as_strided\<close> on its storage, and \<open>item\<close>.
\<close>

record 'r torch_ops =
  to_shape :: "'r \<Rightarrow> int list"
  to_offset :: "'r \<Rightarrow> int"
  to_strided :: "'r \<Rightarrow> int list \<Rightarrow> int list \<Rightarrow> int \<Rightarrow> 'r"
  to_item :: "'r \<Rightarrow> int"

datatype 'r call_arg = CTensor 'r | CInt int | COther

datatype 'r returned = RetNone | RetTensor 'r | RetInt int

definition run_arg_of :: "'r torch_ops \<Rightarrow> 'r call_arg \<Rightarrow> run_arg" where
  "run_arg_of ops a = (case a of CTensor t \<Rightarrow> RTensor (to_shape ops t) | CInt n \<Rightarrow> RInt n | COther \<Rightarrow> ROther)"

text \<open>\<open>int(e.xreplace(env))\<close>, and a plain integer as is.\<close>

definition xreplaced :: "(string \<Rightarrow> int list \<Rightarrow> int) \<Rightarrow> (string, int) dict \<Rightarrow> sym_expr \<Rightarrow> int result" where
  "xreplaced \<phi> env e =
     (case e of
        SInt n \<Rightarrow> Inr n
      | _ \<Rightarrow> if set (free_symbols e) \<subseteq> set (dkeys env) then Inr (sym_value \<phi> (\<lambda>s. or_else (dget env s) 0) e)
             else Inl (TypeError ''Cannot convert symbols to int''))"

definition rebuild_view ::
    "(string \<Rightarrow> int list \<Rightarrow> int) \<Rightarrow> 'r torch_ops \<Rightarrow> (string, int) dict \<Rightarrow> 'r call_arg list \<Rightarrow> input_view \<Rightarrow> 'r result" where
  "rebuild_view \<phi> ops env args v =
     (case args ! iv_arg v of
        CTensor base \<Rightarrow>
          if iv_identity v then Inr base
          else bind_res (map_res (xreplaced \<phi> env) (iv_size v @ iv_stride v @ [iv_offset v])) (\<lambda>values.
             let rank = length (iv_size v)
             in Inr (to_strided ops base (take rank values) (take rank (drop rank values)) (to_offset ops base + last values)))
      | _ \<Rightarrow> Inl (AssertionError ''''))"

definition is_symbolic :: "sym_expr \<Rightarrow> bool" where
  "is_symbolic e \<longleftrightarrow> (case e of SInt n \<Rightarrow> False | _ \<Rightarrow> True)"

definition symbolic_views :: "input_view list \<Rightarrow> bool" where
  "symbolic_views vs \<longleftrightarrow> list_ex (\<lambda>v. list_ex is_symbolic (iv_size v @ iv_stride v @ [iv_offset v])) vs"

definition reconstruct_one ::
    "(string \<Rightarrow> int list \<Rightarrow> int) \<Rightarrow> 'r torch_ops \<Rightarrow> input_view list \<Rightarrow> 'r list \<Rightarrow> 'r call_arg list \<Rightarrow> (string, int) dict
     \<Rightarrow> blueprint \<Rightarrow> 'r returned result" where
  "reconstruct_one \<phi> ops views outputs args env b =
     (case b of
        BNone \<Rightarrow> Inr RetNone
      | BTensor i \<Rightarrow> Inr (RetTensor (outputs ! i))
      | BDim i \<Rightarrow> Inr (RetInt (to_item ops (outputs ! i)))
      | BView i \<Rightarrow> bind_res (rebuild_view \<phi> ops env args (views ! i)) (\<lambda>t. Inr (RetTensor t)))"

definition reconstruct ::
    "(string \<Rightarrow> int list \<Rightarrow> int) \<Rightarrow> 'r torch_ops \<Rightarrow> factory \<Rightarrow> blueprint list \<Rightarrow> input_view list \<Rightarrow> 'r list \<Rightarrow> 'r call_arg list
     \<Rightarrow> 'r returned list result" where
  "reconstruct \<phi> ops f blueprint views outputs args =
     bind_res (if symbolic_views views then symbol_values f (map (run_arg_of ops) args) else Inr [])
       (\<lambda>env. map_res (reconstruct_one \<phi> ops views outputs args env) blueprint)"

subsection \<open>Which placeholder a recorded input is\<close>

definition tensor_at :: "(string \<times> example) list \<Rightarrow> nat \<Rightarrow> bool" where
  "tensor_at phs i \<longleftrightarrow> i < length phs \<and> (\<exists>x. snd (phs ! i) = ExTensor x)"

definition args_known :: "(string \<times> example) list \<Rightarrow> factory \<Rightarrow> bool" where
  "args_known phs f \<longleftrightarrow>
     (\<forall>(name, i) \<in> set (fa_input_args f). tensor_at phs i \<and> fst (phs ! i) = name)
     \<and> (\<forall>(k, i, x) \<in> set (fa_storages f). tensor_at phs i \<and> snd (phs ! i) = ExTensor x \<and> tt_storage x = k)
     \<and> (\<forall>(i, x) \<in> set (fa_input_vals f). tensor_at phs i)"

lemma add_dims_inputs:
  "foldl (add_dim name a) (f, shape) ps = (f', shape') \<Longrightarrow>
     fa_input_args f' = fa_input_args f \<and> fa_storages f' = fa_storages f \<and> fa_input_vals f' = fa_input_vals f
     \<and> fa_placeholders f' = fa_placeholders f"
proof (induction ps arbitrary: f shape)
  case (Cons p ps)
  obtain f1 sh1 where one: "add_dim name a (f, shape) p = (f1, sh1)" by (cases "add_dim name a (f, shape) p")
  have "fa_input_args f1 = fa_input_args f \<and> fa_storages f1 = fa_storages f \<and> fa_input_vals f1 = fa_input_vals f
     \<and> fa_placeholders f1 = fa_placeholders f"
    using one by (auto simp: add_dim_def split: prod.splits sym_expr.splits)
  then show ?case using Cons.IH[of f1 sh1] Cons.prems one by simp
qed simp

lemma handle_placeholder_known:
  assumes "args_known phs f" "fa_placeholders f = n" "n < length phs" "phs ! n = (name, ex)"
    "handle_placeholder replaced name ex f = Inr f'"
  shows "args_known phs f' \<and> fa_placeholders f' = Suc n"
proof (cases "name \<notin> set replaced \<and> (\<exists>x. ex = ExTensor x)")
  case True
  then obtain x where x: "ex = ExTensor x" by blast
  define g where "g = f\<lparr>fa_placeholders := Suc n\<rparr>"
  have f': "f' = add_tensor name n x g"
    using assms(2,5) True x by (simp add: handle_placeholder_def g_def Let_def)
  obtain f1 shape where fold: "foldl (add_dim name n) (g, []) (enum (tt_shape x)) = (f1, shape)"
    by (cases "foldl (add_dim name n) (g, []) (enum (tt_shape x))")
  have g: "fa_input_args f1 = fa_input_args f" "fa_storages f1 = fa_storages f" "fa_input_vals f1 = fa_input_vals f"
    "fa_placeholders f1 = Suc n"
    using add_dims_inputs[OF fold] by (simp_all add: g_def)
  have f'': "fa_input_args f' = dput name n (fa_input_args f)" "fa_input_vals f' = dput n x (fa_input_vals f)"
    "fa_storages f' = (if tt_strided x then dsetdefault (tt_storage x) (n, x) (fa_storages f) else fa_storages f)"
    "fa_placeholders f' = Suc n"
    using g by (simp_all add: f' add_tensor_def fold)
  have n: "tensor_at phs n" "fst (phs ! n) = name" "snd (phs ! n) = ExTensor x" using assms(3,4) x by (simp_all add: tensor_at_def)
  show ?thesis using assms(1) n unfolding args_known_def f''
    by (auto dest!: set_dput set_dsetdefault split: if_splits)
next
  case False
  have "fa_input_args f' = fa_input_args f \<and> fa_storages f' = fa_storages f \<and> fa_input_vals f' = fa_input_vals f
     \<and> fa_placeholders f' = Suc n"
    using assms(2,5) False unfolding handle_placeholder_def Let_def
    by (cases "name \<in> set replaced"; cases ex) (auto split: sym_expr.splits)
  then show ?thesis using assms(1) by (simp add: args_known_def)
qed

lemma add_placeholders_known:
  assumes "args_known phs f" "fa_placeholders f = n" "n \<le> length phs" "add_placeholders replaced (drop n phs) f = Inr f'"
  shows "args_known phs f'"
  using assms
proof (induction "length phs - n" arbitrary: n f)
  case (Suc k)
  then have n: "n < length phs" by simp
  obtain name ex where ph: "phs ! n = (name, ex)" by (cases "phs ! n")
  have "drop n phs = (name, ex) # drop (Suc n) phs" using Cons_nth_drop_Suc[OF n] ph by simp
  then obtain f1 where f1: "handle_placeholder replaced name ex f = Inr f1"
    "add_placeholders replaced (drop (Suc n) phs) f1 = Inr f'"
    using Suc.prems(4) by (auto simp: bind_res_eq_Inr)
  have "args_known phs f1 \<and> fa_placeholders f1 = Suc n"
    by (rule handle_placeholder_known[OF Suc.prems(1,2) n ph f1(1)])
  then show ?case using Suc.hyps(1)[of "Suc n" f1] Suc.hyps(2) n f1(2) by simp
qed simp

lemma add_carrier_known: "args_known phs f \<Longrightarrow> args_known phs (add_carrier f p)"
  by (auto simp: args_known_def add_carrier_def Let_def split: prod.splits sym_expr.splits)

lemma factory_of_known:
  assumes "factory_of replaced phs = Inr f"
  shows "args_known phs f"
proof -
  obtain f0 where f0: "add_placeholders replaced phs new_factory = Inr f0" "f = add_symint_carriers f0"
    using assms by (auto simp: factory_of_def bind_res_eq_Inr)
  have "args_known phs f0"
    using add_placeholders_known[of phs new_factory 0] f0(1) by (simp add: args_known_def new_factory_def)
  moreover have "args_known phs g \<Longrightarrow> args_known phs (foldl add_carrier g ps)" for g ps
    by (induction ps arbitrary: g) (simp_all add: add_carrier_known)
  ultimately show ?thesis by (simp add: f0(2) add_symint_carriers_def)
qed
lemma register_new_value_known:
  assumes "register_new_value ve f outs p st = Inr st'" "args_known phs f"
    "\<forall>(k, i, x) \<in> set (vw_storages st). tensor_at phs i \<and> tt_storage x = k"
  shows "\<forall>(k, i, x) \<in> set (vw_storages st'). tensor_at phs i \<and> tt_storage x = k"
proof -
  obtain position arg_index where p: "p = (position, arg_index)" by (cases p)
  have "vw_storages st' = vw_storages st \<or> (\<exists>new. vw_storages st' = dput (tt_storage new) (arg_index, new) (vw_storages st)
      \<and> dget (fa_input_vals f) arg_index \<noteq> None)"
    using assms(1) unfolding register_new_value_def p
    by (auto split: if_splits out_arg.splits option.splits)
  then show ?thesis
  proof (elim disjE exE conjE)
    fix new assume new: "vw_storages st' = dput (tt_storage new) (arg_index, new) (vw_storages st)"
      "dget (fa_input_vals f) arg_index \<noteq> None"
    then have "tensor_at phs arg_index" using assms(2) by (auto simp: args_known_def dest: map_of_SomeD)
    then show ?thesis using new(1) assms(3) by (auto dest!: set_dput)
  qed (use assms(3) in simp)
qed

lemma register_new_values_known:
  "register_new_values ve f outs ps st = Inr st' \<Longrightarrow> args_known phs f \<Longrightarrow>
     \<forall>(k, i, x) \<in> set (vw_storages st). tensor_at phs i \<and> tt_storage x = k \<Longrightarrow>
     \<forall>(k, i, x) \<in> set (vw_storages st'). tensor_at phs i \<and> tt_storage x = k"
proof (induction ps arbitrary: st)
  case (Cons p ps)
  then obtain st1 where "register_new_value ve f outs p st = Inr st1" "register_new_values ve f outs ps st1 = Inr st'"
    by (auto simp: bind_res_eq_Inr)
  then show ?case using Cons.IH Cons.prems(2,3) register_new_value_known by metis
qed simp

subsection \<open>The blueprint points at each output's own value\<close>

definition laid ::
    "view_env \<Rightarrow> factory \<Rightarrow> view_state \<Rightarrow> ('c out_arg \<Rightarrow> 'v out_value) \<Rightarrow> 'v out_state \<Rightarrow> blueprint \<Rightarrow> nat \<times> 'c out_arg \<Rightarrow> bool" where
  "laid ve f st conv acc b p =
     (case output_view ve f st (snd p) (fst p) of
        Some v \<Rightarrow> (\<exists>i. b = BView i \<and> i < length (os_views acc) \<and> os_views acc ! i = v)
      | None \<Rightarrow>
          (case conv (snd p) of
             ONone \<Rightarrow> b = BNone
           | ODim d \<Rightarrow> (\<exists>i. b = BDim i \<and> i < length (os_tensors acc) \<and> os_tensors acc ! i = ODim d)
           | OTensor t \<Rightarrow> (\<exists>i. b = BTensor i \<and> i < length (os_tensors acc) \<and> os_tensors acc ! i = OTensor t)))"

lemma laid_append:
  assumes "laid ve f st conv acc b p" "os_views acc' = os_views acc @ vs" "os_tensors acc' = os_tensors acc @ ts"
  shows "laid ve f st conv acc' b p"
  using assms unfolding laid_def by (auto simp: nth_append split: option.splits out_value.splits)

lemma lay_out_step:
  fixes conv :: "'c out_arg \<Rightarrow> 'v out_value" and acc :: "'v out_state"
  shows "\<exists>b vs ts. os_blueprint (lay_out ve f st conv acc p) = os_blueprint acc @ [b]
     \<and> os_views (lay_out ve f st conv acc p) = os_views acc @ vs \<and> os_tensors (lay_out ve f st conv acc p) = os_tensors acc @ ts
     \<and> laid ve f st conv (lay_out ve f st conv acc p) b p
     \<and> (\<forall>v \<in> set vs. output_view ve f st (snd p) (fst p) = Some v)"
proof (cases "output_view ve f st (snd p) (fst p)")
  case None
  then show ?thesis by (cases "conv (snd p)") (auto simp: lay_out_def laid_def split_beta)
next
  case (Some v)
  then show ?thesis by (auto simp: lay_out_def laid_def split_beta)
qed

lemma lay_out_all:
  fixes conv :: "'c out_arg \<Rightarrow> 'v out_value"
  defines "start \<equiv> \<lparr>os_blueprint = [], os_tensors = [], os_views = []\<rparr> :: 'v out_state"
  shows "list_all2 (laid ve f st conv (foldl (lay_out ve f st conv) start xs))
       (os_blueprint (foldl (lay_out ve f st conv) start xs)) xs
     \<and> (\<forall>v \<in> set (os_views (foldl (lay_out ve f st conv) start xs)). \<exists>p \<in> set xs. output_view ve f st (snd p) (fst p) = Some v)"
proof (induction xs rule: rev_induct)
  case Nil
  then show ?case by (simp add: start_def)
next
  case (snoc p xs)
  define acc where "acc = foldl (lay_out ve f st conv) start xs"
  obtain b vs ts where step: "os_blueprint (lay_out ve f st conv acc p) = os_blueprint acc @ [b]"
    "os_views (lay_out ve f st conv acc p) = os_views acc @ vs" "os_tensors (lay_out ve f st conv acc p) = os_tensors acc @ ts"
    "laid ve f st conv (lay_out ve f st conv acc p) b p" "\<forall>v \<in> set vs. output_view ve f st (snd p) (fst p) = Some v"
    using lay_out_step[of ve f st conv acc p] by blast
  have "list_all2 (laid ve f st conv (lay_out ve f st conv acc p)) (os_blueprint acc) xs"
    by (rule list_all2_mono[of "laid ve f st conv acc"]) (use snoc.IH step(2,3) in \<open>auto simp: acc_def[symmetric] intro: laid_append\<close>)
  then show ?case using step snoc.IH by (auto simp: acc_def[symmetric] intro: list_all2_appendI)
qed

subsection \<open>Views of the arguments\<close>

lemma sym_value_cong: "(\<And>s. s \<in> set (free_symbols e) \<Longrightarrow> \<rho> s = \<rho>' s) \<Longrightarrow> sym_value \<phi> \<rho> e = sym_value \<phi> \<rho>' e"
proof (induction e)
  case (SAdd es)
  then have "map (sym_value \<phi> \<rho>) es = map (sym_value \<phi> \<rho>') es" by (intro map_cong) auto
  then show ?case by (simp only: sym_value.simps)
next
  case (SMul es)
  then have "map (sym_value \<phi> \<rho>) es = map (sym_value \<phi> \<rho>') es" by (intro map_cong) auto
  then show ?case by (simp only: sym_value.simps)
next
  case (SOther f es)
  then have "map (sym_value \<phi> \<rho>) es = map (sym_value \<phi> \<rho>') es" by (intro map_cong) auto
  then show ?case by (simp only: sym_value.simps)
next
  case (SPow a b)
  have "sym_value \<phi> \<rho> a = sym_value \<phi> \<rho>' a" "sym_value \<phi> \<rho> b = sym_value \<phi> \<rho>' b" by (intro SPow; simp add: SPow.prems)+
  then show ?case by simp
next
  case (SFloorDiv a b)
  have "sym_value \<phi> \<rho> a = sym_value \<phi> \<rho>' a" "sym_value \<phi> \<rho> b = sym_value \<phi> \<rho>' b" by (intro SFloorDiv; simp add: SFloorDiv.prems)+
  then show ?case by simp
next
  case (SMod a b)
  have "sym_value \<phi> \<rho> a = sym_value \<phi> \<rho>' a" "sym_value \<phi> \<rho> b = sym_value \<phi> \<rho>' b" by (intro SMod; simp add: SMod.prems)+
  then show ?case by simp
qed simp_all

lemma xreplaced_value:
  assumes "\<And>s. s \<in> set (free_symbols e) \<Longrightarrow> dget env s = Some (\<rho> s)"
  shows "xreplaced \<phi> env e = Inr (sym_value \<phi> \<rho> e)"
proof -
  have "sym_value \<phi> (\<lambda>s. or_else (dget env s) 0) e = sym_value \<phi> \<rho> e" by (rule sym_value_cong) (simp add: assms)
  moreover have "set (free_symbols e) \<subseteq> set (dkeys env)" using assms by (auto simp: dget_dkeys)
  ultimately show ?thesis by (cases e) (simp_all add: xreplaced_def)
qed

lemma rebuild_view_value:
  assumes "args ! iv_arg v = CTensor t" "\<not> iv_identity v" "length (iv_stride v) = length (iv_size v)"
    "\<And>s. s \<in> set (view_symbols v) \<Longrightarrow> dget env s = Some (\<rho> s)"
  shows "rebuild_view \<phi> ops env args v = Inr (to_strided ops t (map (sym_value \<phi> \<rho>) (iv_size v))
           (map (sym_value \<phi> \<rho>) (iv_stride v)) (to_offset ops t + sym_value \<phi> \<rho> (iv_offset v)))"
proof -
  have "map_res (xreplaced \<phi> env) (iv_size v @ iv_stride v @ [iv_offset v])
      = Inr (map (sym_value \<phi> \<rho>) (iv_size v @ iv_stride v @ [iv_offset v]))"
    by (rule map_res_exact, rule xreplaced_value, rule assms(4)) (auto simp: view_symbols_def)
  then show ?thesis using assms(1-3) by (simp add: rebuild_view_def)
qed
text \<open>What the caller must get for an output: the argument itself, a view of it with the traced geometry (the
  offset as far from the argument's as it was traced), or the graph's own result.\<close>

definition own_value ::
    "(string \<Rightarrow> int list \<Rightarrow> int) \<Rightarrow> (string \<Rightarrow> int) \<Rightarrow> 'r torch_ops \<Rightarrow> (string \<times> example) list \<Rightarrow> 'r call_arg list \<Rightarrow> view_state
     \<Rightarrow> ('c out_arg \<Rightarrow> 'v out_value) \<Rightarrow> ('v out_value \<Rightarrow> 'r) \<Rightarrow> 'c out_arg \<Rightarrow> input_view option \<Rightarrow> 'r returned \<Rightarrow> bool" where
  "own_value \<phi> \<rho> ops phs args st conv ev x v r =
     (case v of
        None \<Rightarrow>
          (case conv x of
             ONone \<Rightarrow> r = RetNone
           | ODim d \<Rightarrow> r = RetInt (to_item ops (ev (ODim d)))
           | OTensor t \<Rightarrow> r = RetTensor (ev (OTensor t)))
      | Some w \<Rightarrow>
          (\<exists>node t. x = OutNode node \<and> iv_arg w < length phs \<and> args ! iv_arg w = CTensor t \<and>
             (on_placeholder node \<and> fst (phs ! iv_arg w) = on_name node \<and> r = RetTensor t
              \<or> (\<exists>val base. on_val node = Some val \<and> dget (vw_storages st) (tt_storage val) = Some (iv_arg w, base)
                   \<and> tt_storage base = tt_storage val
                   \<and> r = RetTensor (to_strided ops t (map (sym_value \<phi> \<rho>) (tt_shape val)) (map (sym_value \<phi> \<rho>) (tt_stride val))
                       (to_offset ops t + (sym_value \<phi> \<rho> (tt_offset val) - sym_value \<phi> \<rho> (tt_offset base))))))))"

lemma view_own_value:
  assumes view: "output_view ve f st x p = Some v"
    and known: "args_known phs f" "\<forall>(k, i, x) \<in> set (vw_storages st). tensor_at phs i \<and> tt_storage x = k"
    and fit: "list_all2 (fits \<phi> \<rho>) phs (map (run_arg_of ops) args)"
    and sub: "\<And>a b. sym_value \<phi> \<rho> (ve_sub ve a b) = sym_value \<phi> \<rho> a - sym_value \<phi> \<rho> b"
    and rank: "\<And>node val. x = OutNode node \<Longrightarrow> on_val node = Some val \<Longrightarrow> length (tt_stride val) = length (tt_shape val)"
    and env: "\<And>s. s \<in> set (view_symbols v) \<Longrightarrow> s \<in> set (dkeys (fa_symbol_args f)) \<Longrightarrow> dget env s = Some (\<rho> s)"
  shows "\<exists>t. rebuild_view \<phi> ops env args v = Inr t \<and> own_value \<phi> \<rho> ops phs args st conv ev x (Some v) (RetTensor t)"
proof -
  obtain node where x: "x = OutNode node" "find_input_view ve f st node p = Some v"
    using view by (cases x) (auto simp: output_view_def)
  have arg: "\<exists>t. args ! i = CTensor t" if "tensor_at phs i" for i
  proof -
    have "i < length phs" "length args = length phs" using that fit by (auto simp: tensor_at_def list_all2_lengthD dest: list_all2_lengthD)
    then have "fits \<phi> \<rho> (phs ! i) (run_arg_of ops (args ! i))" using fit by (auto simp: list_all2_conv_all_nth)
    then show ?thesis using that by (cases "args ! i") (auto simp: tensor_at_def fits_def run_arg_of_def)
  qed
  show ?thesis
  proof (cases "on_placeholder node")
    case True
    then obtain i where i: "dget (fa_input_args f) (on_name node) = Some i" "v = whole_input i"
      using x(2) by (auto simp: find_input_view_def split: if_splits option.splits)
    have at: "tensor_at phs i" "fst (phs ! i) = on_name node"
      using known(1) i(1) by (auto simp: args_known_def dest: map_of_SomeD)
    then obtain t where t: "args ! i = CTensor t" using arg by blast
    then have "rebuild_view \<phi> ops env args v = Inr t" by (simp add: rebuild_view_def i(2) whole_input_def)
    moreover have "own_value \<phi> \<rho> ops phs args st conv ev x (Some v) (RetTensor t)"
      using True x(1) at t by (simp add: own_value_def i(2) whole_input_def tensor_at_def)
    ultimately show ?thesis by blast
  next
    case False
    then obtain val i base where val: "on_val node = Some val" "dget (vw_storages st) (tt_storage val) = Some (i, base)"
      "v = \<lparr>iv_arg = i, iv_size = tt_shape val, iv_stride = tt_stride val,
            iv_offset = ve_sub ve (tt_offset val) (tt_offset base), iv_identity = False\<rparr>"
      "set (view_symbols v) \<subseteq> set (dkeys (fa_symbol_args f))"
      using x(2) unfolding find_input_view_def Let_def by (auto split: if_splits option.splits)
    have at: "tensor_at phs i" "tt_storage base = tt_storage val"
      using known(2) val(2) by (auto dest!: map_of_SomeD)
    then obtain t where t: "args ! i = CTensor t" using arg by blast
    have "rebuild_view \<phi> ops env args v = Inr (to_strided ops t (map (sym_value \<phi> \<rho>) (tt_shape val))
        (map (sym_value \<phi> \<rho>) (tt_stride val)) (to_offset ops t + (sym_value \<phi> \<rho> (tt_offset val) - sym_value \<phi> \<rho> (tt_offset base))))"
      using rebuild_view_value[of args v t env \<rho> \<phi> ops] t rank[OF x(1) val(1)] env val(3,4) by (auto simp: sub)
    moreover have "own_value \<phi> \<rho> ops phs args st conv ev x (Some v) (RetTensor (to_strided ops t (map (sym_value \<phi> \<rho>) (tt_shape val))
        (map (sym_value \<phi> \<rho>) (tt_stride val)) (to_offset ops t + (sym_value \<phi> \<rho> (tt_offset val) - sym_value \<phi> \<rho> (tt_offset base)))))"
      using x(1) at t val(1-3) by (simp add: own_value_def tensor_at_def)
    ultimately show ?thesis by blast
  qed
qed

text \<open>The environment the views read: all symbols of the arguments, or nothing when no view needs any.\<close>

lemma constant_no_symbols: "\<not> is_symbolic e \<Longrightarrow> free_symbols e = []"
  by (cases e) (simp_all add: is_symbolic_def)

lemma view_environment:
  assumes "carried phs f" "list_all2 (fits \<phi> \<rho>) phs (map (run_arg_of ops) args)"
  shows "\<exists>env. (if symbolic_views views then symbol_values f (map (run_arg_of ops) args) else Inr []) = Inr env
     \<and> (\<forall>v \<in> set views. \<forall>s \<in> set (view_symbols v). s \<in> set (dkeys (fa_symbol_args f)) \<longrightarrow> dget env s = Some (\<rho> s))"
proof (cases "symbolic_views views")
  case True
  obtain env where "symbol_values f (map (run_arg_of ops) args) = Inr env"
    "\<forall>s. dget env s = map_option (\<lambda>_. \<rho> s) (dget (fa_symbol_args f) s)"
    using symbol_values_exact[OF assms] by blast
  then show ?thesis using True by (auto simp: dget_dkeys)
next
  case False
  then have "view_symbols v = []" if "v \<in> set views" for v
    using that constant_no_symbols unfolding symbolic_views_def view_symbols_def list_ex_iff concat_eq_Nil_conv by fastforce
  then show ?thesis using False by simp
qed

text \<open>C22: every output of a compiled graph comes back as its own value. For a call whose arguments fit the
  trace, reconstructing from the blueprint succeeds and gives one result per output, in order: an output
  that is a graph input is that very argument; an output that lives on an input's storage (or on the new
  value of a mutated input) is a view of that argument with the sizes and strides the trace gives for this
  call's symbols; every other output is the graph's own result for it, whatever was left out before it.\<close>

theorem outputs_rebuilt:
  fixes conv :: "'c out_arg \<Rightarrow> 'v out_value" and ops :: "'r torch_ops"
  assumes "distinct (map fst phs)" "factory_of replaced phs = Inr f"
    "list_all2 (fits \<phi> \<rho>) phs (map (run_arg_of ops) args)"
    "handle_output ve f conv outs = Inr (st, acc)"
    "\<forall>a b. sym_value \<phi> \<rho> (ve_sub ve a b) = sym_value \<phi> \<rho> a - sym_value \<phi> \<rho> b"
    "\<forall>node val. OutNode node \<in> set outs \<longrightarrow> on_val node = Some val \<longrightarrow> length (tt_stride val) = length (tt_shape val)"
  shows "\<exists>rs. reconstruct \<phi> ops f (os_blueprint acc) (os_views acc) (map ev (os_tensors acc)) args = Inr rs
     \<and> length rs = length outs
     \<and> (\<forall>p < length outs. own_value \<phi> \<rho> ops phs args st conv ev (outs ! p) (output_view ve f st (outs ! p) p) (rs ! p))"
proof -
  have inv: "carried phs f" "args_known phs f" using assms(1,2) factory_of_carried factory_of_known by blast+
  define st0 where "st0 = \<lparr>vw_storages = fa_storages f, vw_new = [], vw_mutated = []\<rparr>"
  have st: "register_new_values ve f outs (ve_mutated ve) st0 = Inr st"
    and acc: "acc = foldl (lay_out ve f st conv) \<lparr>os_blueprint = [], os_tensors = [], os_views = []\<rparr> (enum outs)"
    using assms(4) by (auto simp: handle_output_def st0_def bind_res_eq_Inr)
  have known: "\<forall>(k, i, x) \<in> set (vw_storages st). tensor_at phs i \<and> tt_storage x = k"
    by (rule register_new_values_known[OF st inv(2)]) (use inv(2) in \<open>auto simp: args_known_def st0_def\<close>)
  obtain env where env: "(if symbolic_views (os_views acc) then symbol_values f (map (run_arg_of ops) args) else Inr []) = Inr env"
    "\<forall>v \<in> set (os_views acc). \<forall>s \<in> set (view_symbols v). s \<in> set (dkeys (fa_symbol_args f)) \<longrightarrow> dget env s = Some (\<rho> s)"
    using view_environment[OF inv(1) assms(3)] by blast
  define one where "one = reconstruct_one \<phi> ops (os_views acc) (map ev (os_tensors acc)) args env"
  have laid: "list_all2 (laid ve f st conv acc) (os_blueprint acc) (enum outs)" using lay_out_all acc by blast
  have own: "\<exists>r. one b = Inr r \<and> own_value \<phi> \<rho> ops phs args st conv ev x (output_view ve f st x p) r"
    if l: "laid ve f st conv acc b (p, x)" and x: "x \<in> set outs" for b p x
  proof (cases "output_view ve f st x p")
    case None
    then show ?thesis using l by (cases "conv x") (auto simp: laid_def one_def reconstruct_one_def own_value_def)
  next
    case (Some v)
    then obtain i where i: "b = BView i" "i < length (os_views acc)" "os_views acc ! i = v" using l by (auto simp: laid_def)
    then have "v \<in> set (os_views acc)" by auto
    then obtain t where "rebuild_view \<phi> ops env args v = Inr t" "own_value \<phi> \<rho> ops phs args st conv ev x (Some v) (RetTensor t)"
      using view_own_value[OF Some inv(2) known assms(3)] assms(5,6) env(2) x by metis
    then show ?thesis using i Some by (simp add: one_def reconstruct_one_def)
  qed
  have len: "length (os_blueprint acc) = length outs" using list_all2_lengthD[OF laid] by (simp add: enum_def)
  have each: "\<exists>r. one (os_blueprint acc ! p) = Inr r
      \<and> own_value \<phi> \<rho> ops phs args st conv ev (outs ! p) (output_view ve f st (outs ! p) p) r" if "p < length outs" for p
    by (rule own) (use list_all2_nthD[OF laid, of p] len that in \<open>simp_all add: enum_def\<close>)
  then obtain rs where rs: "map_res one (os_blueprint acc) = Inr rs"
    using map_res_total[of "os_blueprint acc" one] len by (metis in_set_conv_nth)
  have "own_value \<phi> \<rho> ops phs args st conv ev (outs ! p) (output_view ve f st (outs ! p) p) (rs ! p)" if "p < length outs" for p
    using each[OF that] map_res_nth[OF rs, of p] that len by auto
  moreover have "reconstruct \<phi> ops f (os_blueprint acc) (os_views acc) (map ev (os_tensors acc)) args = Inr rs"
    using env(1) rs by (simp add: reconstruct_def one_def)
  ultimately show ?thesis using map_res_length[OF rs] len by auto
qed
text \<open>The second input itself, its second column, and a computed tensor, of a call with sizes 5 and 10.\<close>

definition sample_ops :: "(int list \<times> int list \<times> int) torch_ops" where
  "sample_ops = \<lparr>to_shape = fst, to_offset = (\<lambda>t. snd (snd t)), to_strided = (\<lambda>_ size stride offset. (size, stride, offset)),
     to_item = (\<lambda>_. 0)\<rparr>"

definition sample_args :: "(int list \<times> int list \<times> int) call_arg list" where
  "sample_args = [CInt (-3), CTensor ([5, 10], [10, 1], 7)]"

definition sample_ve :: view_env where
  "sample_ve = \<lparr>ve_rebuild = True, ve_mutated = [], ve_user = None, ve_known_eq = (=),
     ve_sub = (\<lambda>a b. SAdd [a, SMul [SInt (-1), b]])\<rparr>"

definition sample_column :: traced_tensor where
  "sample_column = \<lparr>tt_shape = [SSym ''s0''], tt_stride = [SMul [SInt 2, SSym ''s0'']], tt_offset = SInt 1,
     tt_dtype = Float32, tt_device = MojoDevice (Some 0), tt_strided = True, tt_storage = 0\<rparr>"

definition sample_outputs :: "unit out_arg list" where
  "sample_outputs =
     [OutNode \<lparr>on_id = 1, on_name = ''x'', on_placeholder = True, on_val = None\<rparr>,
      OutNode \<lparr>on_id = 2, on_name = ''add'', on_placeholder = False, on_val = Some (sample_column\<lparr>tt_storage := 9\<rparr>)\<rparr>,
      OutNode \<lparr>on_id = 3, on_name = ''select'', on_placeholder = False, on_val = Some sample_column\<rparr>]"

definition sample_laid :: "view_state \<times> unit out_state" where
  "sample_laid = projr (handle_output sample_ve sample_factory (\<lambda>_. OTensor ()) sample_outputs)"

definition sample_rebuilt :: "(int list \<times> int list \<times> int) returned list" where
  "sample_rebuilt = projr (reconstruct (\<lambda>_ _. 0) sample_ops sample_factory (os_blueprint (snd sample_laid))
     (os_views (snd sample_laid)) (map (\<lambda>_. ([], [], 99)) (os_tensors (snd sample_laid))) sample_args)"

theorem outputs_rebuilt_witness:
  "length sample_rebuilt = 3
     \<and> sample_rebuilt = [RetTensor ([5, 10], [10, 1], 7), RetTensor ([], [], 99), RetTensor ([5], [10], 8)]"
proof -
  have eval: "factory_of [] sample_placeholders = Inr sample_factory" "distinct (map fst sample_placeholders)"
    "handle_output sample_ve sample_factory (\<lambda>_. OTensor ()) sample_outputs = Inr (fst sample_laid, snd sample_laid)"
    "sample_rebuilt = [RetTensor ([5, 10], [10, 1], 7), RetTensor ([], [], 99), RetTensor ([5], [10], 8)]"
    by code_simp+
  have "list_all2 (fits (\<lambda>_ _. 0) sample_symbols) sample_placeholders (map (run_arg_of sample_ops) sample_args)"
    by (simp add: sample_placeholders_def fits_def sample_symbols_def sample_args_def run_arg_of_def sample_ops_def)
  moreover have "\<forall>a b. sym_value (\<lambda>_ _. 0) sample_symbols (ve_sub sample_ve a b)
      = sym_value (\<lambda>_ _. 0) sample_symbols a - sym_value (\<lambda>_ _. 0) sample_symbols b"
    by (simp add: sample_ve_def)
  moreover have "\<forall>node val. OutNode node \<in> set sample_outputs \<longrightarrow> on_val node = Some val \<longrightarrow>
      length (tt_stride val) = length (tt_shape val)"
    by (auto simp: sample_outputs_def sample_column_def)
  ultimately obtain rs where "reconstruct (\<lambda>_ _. 0) sample_ops sample_factory (os_blueprint (snd sample_laid))
      (os_views (snd sample_laid)) (map (\<lambda>_. ([], [], 99)) (os_tensors (snd sample_laid))) sample_args = Inr rs"
      "length rs = length sample_outputs"
    using outputs_rebuilt[OF eval(2,1) _ eval(3), where ev = "\<lambda>_. ([], [], 99)"] by blast
  then have "length sample_rebuilt = length sample_outputs" by (simp add: sample_rebuilt_def)
  then show ?thesis using eval(4) by (simp add: sample_outputs_def)
qed

end
