(* ===== verification/TC_Buffers.thy ===== *)
theory TC_Buffers
  imports Prelude
begin

text \<open>
  The cache of imported input buffers (\<^verbatim>\<open>torch_compile_backend/compiler.py\<close>, \<open>_cached_buffer_for\<close>): an entry
  per tensor object, guarded by the data pointer, evicted when the tensor dies. Runs interleave calls
  with what the program does to its tensors; identities of dead tensors may come back.
\<close>

subsection \<open>Tensors and buffers\<close>

text \<open>A live tensor object: its identity, data pointer, shape, and whether it is contiguous.\<close>

record tensor_obj =
  tn_id :: nat
  tn_ptr :: int
  tn_shape :: "int list"
  tn_contiguous :: bool

text \<open>A buffer on that memory (\<open>bf_alias\<close>), or on a fresh copy.\<close>

record buffer =
  bf_ptr :: int
  bf_shape :: "int list"
  bf_alias :: bool

datatype buffer_event = BeforeCopy | Copied nat | Imported nat

record buffer_cache =
  bc_entries :: "(nat, buffer \<times> int) dict"
  bc_finalizers :: "nat list"
  bc_events :: "buffer_event list"

definition MAX_INPUT_ALIGNMENT :: int where "MAX_INPUT_ALIGNMENT = 16"

definition evict_buffer :: "nat \<Rightarrow> buffer_cache \<Rightarrow> buffer_cache" where
  "evict_buffer tensor_id c = c\<lparr>bc_entries := dpop tensor_id (bc_entries c)\<rparr>"

text \<open>\<open>fresh\<close> is the address of a new allocation; \<open>fast_from_dlpack\<close> gives a buffer on the tensor's memory.\<close>

definition from_dlpack :: "tensor_obj \<Rightarrow> buffer" where
  "from_dlpack t = \<lparr>bf_ptr = tn_ptr t, bf_shape = tn_shape t, bf_alias = True\<rparr>"

definition cached_buffer_for :: "bool \<Rightarrow> int \<Rightarrow> tensor_obj \<Rightarrow> buffer_cache \<Rightarrow> buffer \<times> buffer_cache" where
  "cached_buffer_for before_copy fresh t c =
     (if \<not> tn_contiguous t \<or> tn_ptr t mod MAX_INPUT_ALIGNMENT \<noteq> 0
      then (\<lparr>bf_ptr = fresh, bf_shape = tn_shape t, bf_alias = False\<rparr>,
            c\<lparr>bc_events := bc_events c @ (if before_copy then [BeforeCopy] else []) @ [Copied (tn_id t)]\<rparr>)
      else
        let fill = (from_dlpack t,
              c\<lparr>bc_entries := dput (tn_id t) (from_dlpack t, tn_ptr t) (bc_entries c),
                bc_finalizers := tn_id t # bc_finalizers c,
                bc_events := bc_events c @ [Imported (tn_id t)]\<rparr>)
        in case dget (bc_entries c) (tn_id t) of
             Some (buffer, ptr) \<Rightarrow> if ptr = tn_ptr t then (buffer, c) else fill
           | None \<Rightarrow> fill)"

text \<open>A tensor's death runs every finalizer registered for it.\<close>

definition tensor_dies :: "nat \<Rightarrow> buffer_cache \<Rightarrow> buffer_cache" where
  "tensor_dies k c =
     (let mine = filter (\<lambda>j. j = k) (bc_finalizers c)
      in (foldl (\<lambda>c j. evict_buffer j c) c mine)\<lparr>bc_finalizers := filter (\<lambda>j. j \<noteq> k) (bc_finalizers c)\<rparr>)"

subsection \<open>Runs\<close>

text \<open>The live tensors and the cache; \<open>reshapes\<close> says whether the program gives a tensor another
  shape (\<open>resize_\<close>, or \<open>x.data\<close> assigned a tensor of another shape); its memory may move in any case.\<close>

inductive buffer_run :: "bool \<Rightarrow> tensor_obj list \<Rightarrow> buffer_cache \<Rightarrow> bool" for reshapes where
  start: "buffer_run reshapes [] \<lparr>bc_entries = [], bc_finalizers = [], bc_events = []\<rparr>"
| create: "buffer_run reshapes ts c \<Longrightarrow> tn_id t \<notin> tn_id ` set ts \<Longrightarrow> buffer_run reshapes (t # ts) c"
| change: "buffer_run reshapes ts c \<Longrightarrow> i < length ts \<Longrightarrow> tn_id t = tn_id (ts ! i) \<Longrightarrow>
     reshapes \<or> tn_shape t = tn_shape (ts ! i) \<Longrightarrow> buffer_run reshapes (ts[i := t]) c"
| feed: "buffer_run reshapes ts c \<Longrightarrow> t \<in> set ts \<Longrightarrow>
     buffer_run reshapes ts (snd (cached_buffer_for before_copy fresh t c))"
| die: "buffer_run reshapes ts c \<Longrightarrow> i < length ts \<Longrightarrow>
     buffer_run reshapes (take i ts @ drop (Suc i) ts) (tensor_dies (tn_id (ts ! i)) c)"

subsection \<open>Entries belong to live tensors\<close>

definition cache_ok :: "bool \<Rightarrow> tensor_obj list \<Rightarrow> buffer_cache \<Rightarrow> bool" where
  "cache_ok reshapes ts c \<longleftrightarrow> distinct (map tn_id ts)
     \<and> (\<forall>k b p. dget (bc_entries c) k = Some (b, p) \<longrightarrow>
          k \<in> set (bc_finalizers c) \<and> bf_ptr b = p \<and> bf_alias b \<and> p mod MAX_INPUT_ALIGNMENT = 0
          \<and> (\<exists>t \<in> set ts. tn_id t = k \<and> (reshapes \<or> bf_shape b = tn_shape t)))"

lemma cache_okD:
  assumes "cache_ok reshapes ts c" "dget (bc_entries c) k = Some (b, p)"
  shows "k \<in> set (bc_finalizers c)" "bf_ptr b = p" "bf_alias b" "p mod MAX_INPUT_ALIGNMENT = 0"
    "\<exists>t \<in> set ts. tn_id t = k \<and> (reshapes \<or> bf_shape b = tn_shape t)"
  using assms by (auto simp: cache_ok_def)

lemma cached_buffer_cases:
  obtains (copied) "\<not> tn_contiguous t \<or> tn_ptr t mod MAX_INPUT_ALIGNMENT \<noteq> 0"
      "bc_entries (snd (cached_buffer_for bc fresh t c)) = bc_entries c"
      "bc_finalizers (snd (cached_buffer_for bc fresh t c)) = bc_finalizers c"
      "fst (cached_buffer_for bc fresh t c) = \<lparr>bf_ptr = fresh, bf_shape = tn_shape t, bf_alias = False\<rparr>"
    | (hit) b where "tn_contiguous t" "tn_ptr t mod MAX_INPUT_ALIGNMENT = 0"
      "dget (bc_entries c) (tn_id t) = Some (b, tn_ptr t)" "cached_buffer_for bc fresh t c = (b, c)"
    | (fill) "tn_contiguous t" "tn_ptr t mod MAX_INPUT_ALIGNMENT = 0" "fst (cached_buffer_for bc fresh t c) = from_dlpack t"
      "bc_entries (snd (cached_buffer_for bc fresh t c)) = dput (tn_id t) (from_dlpack t, tn_ptr t) (bc_entries c)"
      "bc_finalizers (snd (cached_buffer_for bc fresh t c)) = tn_id t # bc_finalizers c"
proof (cases "\<not> tn_contiguous t \<or> tn_ptr t mod MAX_INPUT_ALIGNMENT \<noteq> 0")
  case True
  then show thesis by (intro copied[OF True]) (simp_all add: cached_buffer_for_def)
next
  case False
  show thesis
  proof (cases "\<exists>b. dget (bc_entries c) (tn_id t) = Some (b, tn_ptr t)")
    case True
    then obtain b where "dget (bc_entries c) (tn_id t) = Some (b, tn_ptr t)" by blast
    then show thesis using False by (intro hit) (simp_all add: cached_buffer_for_def)
  next
    case miss: False
    have "cached_buffer_for bc fresh t c = (from_dlpack t, c\<lparr>bc_entries := dput (tn_id t) (from_dlpack t, tn_ptr t) (bc_entries c),
        bc_finalizers := tn_id t # bc_finalizers c, bc_events := bc_events c @ [Imported (tn_id t)]\<rparr>)"
      using False miss by (auto simp: cached_buffer_for_def Let_def split: option.splits)
    then show thesis using False by (intro fill) simp_all
  qed
qed

lemma feed_ok:
  assumes "cache_ok reshapes ts c" "t \<in> set ts"
  shows "cache_ok reshapes ts (snd (cached_buffer_for bc fresh t c))"
proof (cases rule: cached_buffer_cases[of t bc fresh c])
  case copied
  then show ?thesis using assms(1) by (simp add: cache_ok_def)
next
  case (hit b)
  then show ?thesis using assms(1) by simp
next
  case fill
  show ?thesis using assms fill(1,2) unfolding cache_ok_def fill(4,5) by (auto simp: from_dlpack_def split: if_splits)
qed

lemma dies_entries:
  "dget (bc_entries (tensor_dies k c)) j = (if j = k \<and> k \<in> set (bc_finalizers c) then None else dget (bc_entries c) j)"
proof -
  have "dget (bc_entries (foldl (\<lambda>c j. evict_buffer j c) c xs)) j = (if j \<in> set xs then None else dget (bc_entries c) j)" for xs
    by (induction xs arbitrary: c) (simp_all add: evict_buffer_def)
  then show ?thesis by (auto simp: tensor_dies_def Let_def)
qed

lemma die_ok:
  assumes "cache_ok reshapes ts c" "i < length ts"
  shows "cache_ok reshapes (take i ts @ drop (Suc i) ts) (tensor_dies (tn_id (ts ! i)) c)"
proof -
  let ?k = "tn_id (ts ! i)"
  have split: "ts = take i ts @ ts ! i # drop (Suc i) ts" using assms(2) by (rule id_take_nth_drop)
  have "distinct (map tn_id (take i ts @ ts ! i # drop (Suc i) ts))" using assms(1) split by (simp add: cache_ok_def)
  then have "distinct (map tn_id (take i ts @ drop (Suc i) ts))" by simp
  moreover have "k \<in> set (bc_finalizers (tensor_dies ?k c)) \<and> bf_ptr b = p \<and> bf_alias b \<and> p mod MAX_INPUT_ALIGNMENT = 0
      \<and> (\<exists>t \<in> set (take i ts @ drop (Suc i) ts). tn_id t = k \<and> (reshapes \<or> bf_shape b = tn_shape t))"
    if "dget (bc_entries (tensor_dies ?k c)) k = Some (b, p)" for k b p
  proof -
    have e: "dget (bc_entries c) k = Some (b, p)" "k \<noteq> ?k"
      using that cache_okD(1)[OF assms(1), of k b p] by (auto simp: dies_entries split: if_splits)
    obtain t where t: "t \<in> set ts" "tn_id t = k" "reshapes \<or> bf_shape b = tn_shape t" using cache_okD(5)[OF assms(1) e(1)] by blast
    then have "t \<in> set (take i ts @ drop (Suc i) ts)" using e(2) split by (metis Un_iff set_ConsD set_append)
    then show ?thesis using cache_okD(1-4)[OF assms(1) e(1)] e(2) t(2,3) by (auto simp: tensor_dies_def Let_def)
  qed
  ultimately show ?thesis by (simp add: cache_ok_def)
qed

lemma change_ok:
  assumes "cache_ok reshapes ts c" "i < length ts" "tn_id t = tn_id (ts ! i)" "reshapes \<or> tn_shape t = tn_shape (ts ! i)"
  shows "cache_ok reshapes (ts[i := t]) c"
proof -
  have ids: "map tn_id (ts[i := t]) = map tn_id ts" using assms(2,3) by (simp add: map_update) (metis list_update_id length_map nth_map)
  have "\<exists>u \<in> set (ts[i := t]). tn_id u = k \<and> (reshapes \<or> bf_shape b = tn_shape u)"
    if e: "\<exists>u \<in> set ts. tn_id u = k \<and> (reshapes \<or> bf_shape b = tn_shape u)" for k and b :: buffer
  proof -
    obtain j where j: "j < length ts" "tn_id (ts ! j) = k" "reshapes \<or> bf_shape b = tn_shape (ts ! j)"
      using e by (metis in_set_conv_nth)
    have "ts[i := t] ! j \<in> set (ts[i := t])" using j(1) by simp
    moreover have "tn_id (ts[i := t] ! j) = k \<and> (reshapes \<or> bf_shape b = tn_shape (ts[i := t] ! j))"
      using j assms(2-4) by (cases "j = i") auto
    ultimately show ?thesis by blast
  qed
  then show ?thesis using assms(1) ids unfolding cache_ok_def by metis
qed

lemma buffer_run_ok: "buffer_run reshapes ts c \<Longrightarrow> cache_ok reshapes ts c"
proof (induction rule: buffer_run.induct)
  case (create ts c t)
  then show ?case by (fastforce simp: cache_ok_def)
next
  case start
  then show ?case by (simp add: cache_ok_def)
qed (rule feed_ok die_ok change_ok; assumption)+
text \<open>C23: a graph reads the caller's own memory. Whatever a program does between calls (tensors created, moved
  and dying, identities reused), the buffer fed for a contiguous tensor at an aligned address aliases the
  memory the tensor has now, so in-place updates are seen, and it has the tensor's shape when tensors keep
  their shapes; any other tensor is copied to a fresh buffer of its shape, after the copy was ordered, and
  copies are never kept. Entries belong to live tensors only.\<close>

theorem buffers_alias_live_tensors:
  assumes "buffer_run reshapes ts c" "t \<in> set ts" "cached_buffer_for before_copy fresh t c = (b, c')"
  shows "(if tn_contiguous t \<and> tn_ptr t mod MAX_INPUT_ALIGNMENT = 0
     then bf_alias b \<and> bf_ptr b = tn_ptr t \<and> (\<not> reshapes \<longrightarrow> bf_shape b = tn_shape t)
     else \<not> bf_alias b \<and> bf_shape b = tn_shape t \<and> bc_entries c' = bc_entries c
       \<and> bc_events c' = bc_events c @ (if before_copy then [BeforeCopy] else []) @ [Copied (tn_id t)])
     \<and> set (dkeys (bc_entries c')) \<subseteq> tn_id ` set ts"
proof -
  have ok: "cache_ok reshapes ts c" using assms(1) by (rule buffer_run_ok)
  have same: "u = t" if "u \<in> set ts" "tn_id u = tn_id t" for u
    using ok that assms(2) by (metis cache_ok_def distinct_map inj_onD)
  have "if tn_contiguous t \<and> tn_ptr t mod MAX_INPUT_ALIGNMENT = 0
     then bf_alias b \<and> bf_ptr b = tn_ptr t \<and> (\<not> reshapes \<longrightarrow> bf_shape b = tn_shape t)
     else \<not> bf_alias b \<and> bf_shape b = tn_shape t \<and> bc_entries c' = bc_entries c
       \<and> bc_events c' = bc_events c @ (if before_copy then [BeforeCopy] else []) @ [Copied (tn_id t)]"
  proof (cases rule: cached_buffer_cases[of t before_copy fresh c])
    case copied
    then show ?thesis using assms(3) by (auto simp: cached_buffer_for_def)
  next
    case (hit b')
    then have "b' = b" using assms(3) by simp
    then show ?thesis using hit(1,2) cache_okD(2,3,5)[OF ok hit(3)] same by auto
  next
    case fill
    then show ?thesis using assms(3) by (simp add: from_dlpack_def)
  qed
  moreover have "cache_ok reshapes ts c'" using feed_ok[OF ok assms(2), of before_copy fresh] assms(3) by simp
  then have "k \<in> tn_id ` set ts" if "dget (bc_entries c') k = Some e" for k e
    using that cache_okD(5)[of reshapes ts c' k] by (cases e) blast
  ultimately show ?thesis by (auto simp: dget_dkeys)
qed

definition sample_obj :: tensor_obj where
  "sample_obj = \<lparr>tn_id = 1, tn_ptr = 64, tn_shape = [4], tn_contiguous = True\<rparr>"

lemma sample_run: "buffer_run r [sample_obj] (snd (cached_buffer_for False 0 sample_obj \<lparr>bc_entries = [], bc_finalizers = [], bc_events = []\<rparr>))"
  by (rule buffer_run.feed[OF buffer_run.create[OF buffer_run.start]]) simp_all

theorem buffers_alias_live_tensors_witness:
  "bf_alias (fst (cached_buffer_for False 0 sample_obj
       (snd (cached_buffer_for False 0 sample_obj \<lparr>bc_entries = [], bc_finalizers = [], bc_events = []\<rparr>))))"
  using buffers_alias_live_tensors[OF sample_run[of False], of sample_obj False 0
    "fst (cached_buffer_for False 0 sample_obj
       (snd (cached_buffer_for False 0 sample_obj \<lparr>bc_entries = [], bc_finalizers = [], bc_events = []\<rparr>)))"]
  by (simp add: sample_obj_def cached_buffer_for_def MAX_INPUT_ALIGNMENT_def from_dlpack_def Let_def)

text \<open>The pointer does not tell shapes apart: a tensor shrunk in place is fed with its old shape.\<close>

lemma reshaped_tensor_keeps_old_buffer:
  defines "c \<equiv> snd (cached_buffer_for False 0 sample_obj \<lparr>bc_entries = [], bc_finalizers = [], bc_events = []\<rparr>)"
  shows "buffer_run True [sample_obj\<lparr>tn_shape := [2]\<rparr>] c"
    "bf_shape (fst (cached_buffer_for False 0 (sample_obj\<lparr>tn_shape := [2]\<rparr>) c)) = [4]"
proof -
  have "buffer_run True ([sample_obj][0 := sample_obj\<lparr>tn_shape := [2]\<rparr>]) c"
    unfolding c_def by (rule buffer_run.change[OF sample_run]) simp_all
  then show "buffer_run True [sample_obj\<lparr>tn_shape := [2]\<rparr>] c" by simp
  show "bf_shape (fst (cached_buffer_for False 0 (sample_obj\<lparr>tn_shape := [2]\<rparr>) c)) = [4]" unfolding c_def by code_simp
qed

end
