(* ===== verification/TC_Streams.thy ===== *)
theory TC_Streams
  imports TC_Graph
begin

text \<open>
  Streams around compiled regions (\<^verbatim>\<open>torch_compile_backend/streams.py\<close> and \<open>BaseMaxCompiler.__call__\<close>):
  how a graph is cut into regions, which stream contexts a region runs under, and the waits put between
  torch's streams and MAX's around one execution. The waits are events of a log; a stream is a device
  and a number, a context is the list of streams a region was traced under.
\<close>

subsection \<open>Cutting a graph\<close>

text \<open>A traced node: whether its example value is a stream or an event, the nodes it reads, its target's
  text, the stream numbers of its metadata, and whether its value requires a gradient.\<close>

record stream_node =
  sn_op :: node_op
  sn_is_stream :: bool
  sn_inputs :: "nat list"
  sn_target :: string
  sn_streams :: "nat list option"
  sn_stream :: "nat option"
  sn_grad :: bool

definition is_orchestration :: "stream_node list \<Rightarrow> stream_node \<Rightarrow> bool" where
  "is_orchestration g n \<longleftrightarrow> sn_is_stream n \<or> list_ex (\<lambda>k. sn_is_stream (g ! k)) (sn_inputs n)
     \<or> take (length ''streams.'') (sn_target n) = ''streams.''"

definition stream_indices :: "stream_node \<Rightarrow> nat list" where
  "stream_indices n =
     (case sn_streams n of
        Some ks \<Rightarrow> ks
      | None \<Rightarrow> (case sn_stream n of None \<Rightarrow> [] | Some k \<Rightarrow> [k]))"

definition uses_streams :: "stream_node list \<Rightarrow> bool" where
  "uses_streams g \<longleftrightarrow> list_ex (\<lambda>n. stream_indices n \<noteq> [] \<or> is_orchestration g n) g"

type_synonym region_key = "bool \<times> nat list"

record partitioning =
  pt_partitions :: "(nat, nat) dict"
  pt_regions :: "(nat, region_key) dict"
  pt_next :: nat
  pt_previous :: "region_key option"

definition node_key :: "bool \<Rightarrow> stream_node list \<Rightarrow> stream_node \<Rightarrow> region_key" where
  "node_key training g n =
     (let control = is_orchestration g n
      in (control, if control \<or> training then stream_indices n else []))"

definition in_region :: "stream_node \<Rightarrow> bool" where
  "in_region n \<longleftrightarrow> sn_op n \<notin> {Placeholder, GetAttr, OutputNode}"

text \<open>The loop's body; \<open>pt_next\<close> is \<open>partition + 1\<close>.\<close>

definition cut_node :: "bool \<Rightarrow> stream_node list \<Rightarrow> partitioning \<Rightarrow> nat \<Rightarrow> partitioning" where
  "cut_node training g s k =
     (let n = g ! k in
      if \<not> in_region n then s
      else
        let key = node_key training g n;
            next = (if fst key \<or> Some key \<noteq> pt_previous s then pt_next s + 1 else pt_next s)
        in \<lparr>pt_partitions = dput k (next - 1) (pt_partitions s), pt_regions = dput (next - 1) key (pt_regions s),
            pt_next = next, pt_previous = (if fst key then None else Some key)\<rparr>)"

definition training_graph :: "stream_node list \<Rightarrow> bool" where
  "training_graph g \<longleftrightarrow> list_ex sn_grad g"

definition cut_graph :: "stream_node list \<Rightarrow> partitioning" where
  "cut_graph g = foldl (cut_node (training_graph g) g)
     \<lparr>pt_partitions = [], pt_regions = [], pt_next = 0, pt_previous = None\<rparr> [0..<length g]"

subsection \<open>One region\<close>

text \<open>\<open>dict.fromkeys\<close>: the first occurrence of each element.\<close>

definition fromkeys :: "'a list \<Rightarrow> 'a list" where
  "fromkeys xs = rev (remdups (rev xs))"

definition context_indices :: "stream_node list \<Rightarrow> nat list list" where
  "context_indices g = fromkeys (map stream_indices (filter (\<lambda>n. sn_op n \<in> {CallFunction, CallMethod}) g))"

definition region_indices :: "stream_node list \<Rightarrow> nat list" where
  "region_indices g = (case context_indices g of [ks] \<Rightarrow> ks | _ \<Rightarrow> [])"

text \<open>\<open>placements\<close> and the number each node of the region is given.\<close>

definition placements :: "stream_node list \<Rightarrow> (nat list, nat) dict" where
  "placements g = foldl (\<lambda>d (i, ks). if ks \<noteq> [] then dput ks (i + 1) d else d) []
     (zip [0..<length (context_indices g)] (context_indices g))"

definition placement :: "stream_node list \<Rightarrow> stream_node \<Rightarrow> nat" where
  "placement g n = or_else (dget (placements g) (stream_indices n)) 0"

subsection \<open>Streams, waits and fences\<close>

datatype device_kind = CpuKind | MetalKind | GpuKind

type_synonym stream = "nat \<times> nat"

text \<open>The queues work is enqueued on: a torch stream, the stream MAX runs a device's graphs on, and its side streams.\<close>

datatype queue = Torch stream | MaxMain nat | MaxSide nat nat

datatype 'op stream_event =
    Enqueue queue 'op
  | WaitFor queue queue
  | HostSync nat

text \<open>\<open>resolve_streams\<close>: the objects Dynamo holds under the indices, which must all be streams; \<open>None\<close> for the
  whole table when torch has none.\<close>

datatype external = ExternalStream stream | ExternalOther

definition resolve_streams :: "(nat \<Rightarrow> external result) option \<Rightarrow> nat list \<Rightarrow> stream list result" where
  "resolve_streams table indices =
     (if indices = [] then Inr []
      else case table of
          None \<Rightarrow> Inl (RuntimeError ''Compiled stream contexts require PyTorch 2.11 or newer'')
        | Some get \<Rightarrow>
            bind_res (map_res get indices) (\<lambda>objects. map_res (\<lambda>x. case x of
                ExternalStream s \<Rightarrow> Inr s
              | ExternalOther \<Rightarrow> Inl (RuntimeError ''Compiled stream index no longer names a torch.Stream'')) objects))"

text \<open>The current stream of a device inside a \<open>with\<close> over a context's streams.\<close>

definition current_in :: "(nat \<Rightarrow> stream) \<Rightarrow> stream list \<Rightarrow> nat \<Rightarrow> stream" where
  "current_in ambient ctx d = foldl (\<lambda>cur s. if fst s = d then s else cur) (ambient d) ctx"

definition streams_of :: "stream list list \<Rightarrow> stream list" where
  "streams_of contexts = fromkeys (concat contexts)"

definition wait_for_contexts :: "(nat \<Rightarrow> stream) \<Rightarrow> stream list list \<Rightarrow> 'op stream_event list" where
  "wait_for_contexts cur contexts = concat (map (\<lambda>s.
     if cur (fst s) \<noteq> s then [WaitFor (Torch (cur (fst s))) (Torch s)] else []) (streams_of contexts))"

definition publish_to_contexts :: "(nat \<Rightarrow> stream) \<Rightarrow> stream list list \<Rightarrow> 'op stream_event list" where
  "publish_to_contexts cur contexts = concat (map (\<lambda>s.
     if cur (fst s) \<noteq> s then [WaitFor (Torch s) (Torch (cur (fst s)))] else []) (streams_of contexts))"

text \<open>\<open>MaxStreamPool\<close>: the side streams of each device, none on the CPU and on Metal.\<close>

definition new_pool :: "(nat \<Rightarrow> device_kind) \<Rightarrow> nat list \<Rightarrow> nat \<Rightarrow> (nat, nat list) dict" where
  "new_pool kind devices count =
     (if count \<le> 1 then []
      else foldl (\<lambda>views d. if kind d = GpuKind then dput d (or_else (dget views d) [] @ [1..<count]) views else views) [] devices)"

text \<open>\<open>ensure_side_streams\<close>: the numbers of streams of the devices' contexts after topping them up to \<open>count\<close>.\<close>

definition ensure_side_streams :: "(nat \<Rightarrow> device_kind) \<Rightarrow> nat list \<Rightarrow> nat \<Rightarrow> (nat \<Rightarrow> nat) \<Rightarrow> (nat \<Rightarrow> nat)" where
  "ensure_side_streams kind devices count have =
     (if count \<le> 1 then have
      else foldl (\<lambda>have d. if kind d = GpuKind then have(d := have d + length [have d..<count]) else have) have devices)"

definition pool_fence :: "(nat \<Rightarrow> device_kind) \<Rightarrow> (nat, nat list) dict \<Rightarrow> bool \<Rightarrow> nat list \<Rightarrow> 'op stream_event list" where
  "pool_fence kind views entering buffers =
     (if views = [] then []
      else concat (map (\<lambda>d. map (\<lambda>i. if entering then WaitFor (MaxSide d i) (MaxMain d) else WaitFor (MaxMain d) (MaxSide d i))
                (or_else (dget views d) []))
         (remdups (filter (\<lambda>d. kind d \<noteq> CpuKind) buffers))))"

text \<open>\<open>fast_from_dlpack\<close> of a tensor while \<open>s\<close> is its device's current stream: MAX's stream is ordered after
  it; Metal's queue is drained by the host, and a CPU tensor needs nothing.\<close>

definition import_tensor :: "(nat \<Rightarrow> device_kind) \<Rightarrow> nat \<Rightarrow> stream \<Rightarrow> 'op stream_event list" where
  "import_tensor kind d s =
     (case kind d of CpuKind \<Rightarrow> [] | MetalKind \<Rightarrow> [HostSync d] | GpuKind \<Rightarrow> [WaitFor (MaxMain d) (Torch s)])"

definition entry_fences :: "(nat \<Rightarrow> device_kind) \<Rightarrow> (nat \<Rightarrow> stream) \<Rightarrow> nat list \<Rightarrow> stream list list \<Rightarrow> 'op stream_event list" where
  "entry_fences kind ambient tokens active =
     concat (map (\<lambda>ctx. concat (map (\<lambda>d. import_tensor kind d (current_in ambient ctx d)) tokens)) active)"

text \<open>The inputs that are staged through a copy, with their devices; the contexts are waited for once, before the first.\<close>

definition staged_copies ::
    "(nat \<Rightarrow> device_kind) \<Rightarrow> (nat \<Rightarrow> stream) \<Rightarrow> stream list list \<Rightarrow> (nat \<times> 'op) list \<Rightarrow> 'op stream_event list" where
  "staged_copies kind ambient active copies =
     (if copies \<noteq> [] \<and> list_ex (\<lambda>ctx. ctx \<noteq> []) active then wait_for_contexts ambient active else [])
     @ concat (map (\<lambda>(d, x). Enqueue (Torch (ambient d)) x # import_tensor kind d (ambient d)) copies)"

definition exit_fences :: "(nat \<Rightarrow> device_kind) \<Rightarrow> (nat \<Rightarrow> stream) \<Rightarrow> nat list \<Rightarrow> stream list list \<Rightarrow> 'op stream_event list" where
  "exit_fences kind ambient tokens active =
     concat (map (\<lambda>ctx. concat (map (\<lambda>d.
       case kind d of
         CpuKind \<Rightarrow> []
       | MetalKind \<Rightarrow> [HostSync d]
       | GpuKind \<Rightarrow> [WaitFor (Torch (current_in ambient ctx d)) (MaxMain d)]) tokens)) active)"

text \<open>One call: fences in, copies, side streams in, the graph's own work, side streams out, fences out. The
  last two are in a \<open>finally\<close>, so a failing execution passes them too.\<close>

definition call_graph ::
    "(nat \<Rightarrow> device_kind) \<Rightarrow> (nat \<Rightarrow> stream) \<Rightarrow> nat list \<Rightarrow> (nat, nat list) dict \<Rightarrow> stream list list
     \<Rightarrow> (nat \<times> 'op) list \<Rightarrow> (queue \<times> 'op) list \<Rightarrow> 'op stream_event list" where
  "call_graph kind ambient tokens views active copies work =
     (let fences = concat (map (\<lambda>_. tokens) active) in
      entry_fences kind ambient tokens active
      @ staged_copies kind ambient active copies
      @ pool_fence kind views True fences
      @ map (\<lambda>(q, x). Enqueue q x) work
      @ pool_fence kind views False fences
      @ exit_fences kind ambient tokens active)"

text \<open>\<open>_CompiledRegion._run\<close>: the contexts of the region, with the ambient one first; \<open>epilogue\<close> is what AOT
  autograd enqueues on the ambient streams after the graph (the copies into mutated inputs).\<close>

definition active_contexts :: "stream list list \<Rightarrow> stream list list" where
  "active_contexts contexts = fromkeys ([] # contexts)"

definition run_region ::
    "(nat \<Rightarrow> device_kind) \<Rightarrow> (nat \<Rightarrow> stream) \<Rightarrow> nat list \<Rightarrow> (nat, nat list) dict \<Rightarrow> stream list list
     \<Rightarrow> (nat \<times> 'op) list \<Rightarrow> (queue \<times> 'op) list \<Rightarrow> (nat \<times> 'op) list \<Rightarrow> 'op stream_event list" where
  "run_region kind ambient tokens views contexts copies work epilogue =
     call_graph kind ambient tokens views (active_contexts contexts) copies work
     @ map (\<lambda>(d, x). Enqueue (Torch (ambient d)) x) epilogue
     @ (if 1 < length contexts then publish_to_contexts ambient contexts else [])"

text \<open>\<open>_StreamRegion.forward\<close>: a region of one context runs inside it.\<close>

definition region_context :: "stream list list \<Rightarrow> stream list" where
  "region_context contexts = (case contexts of [ctx] \<Rightarrow> ctx | _ \<Rightarrow> [])"

definition forward_region ::
    "(nat \<Rightarrow> device_kind) \<Rightarrow> (nat \<Rightarrow> stream) \<Rightarrow> nat list \<Rightarrow> (nat, nat list) dict \<Rightarrow> stream list list
     \<Rightarrow> (nat \<times> 'op) list \<Rightarrow> (queue \<times> 'op) list \<Rightarrow> (nat \<times> 'op) list \<Rightarrow> 'op stream_event list" where
  "forward_region kind ambient tokens views contexts copies work epilogue =
     run_region kind (current_in ambient (region_context contexts)) tokens views contexts copies work epilogue"

end
