(* ===== verification/TC_Ordering.thy ===== *)
theory TC_Ordering
  imports TC_Streams
begin

text \<open>
  Why compiled regions respect the program's streams. The waits of a log mean what torch, MAX and DLPack
  document: \<open>order\<close> computes, for each queue, the operations its next one comes after, and records
  for each operation those before it. The properties: a graph is cut into consecutive runs of nodes, and
  a region's work comes after everything enqueued before on its contexts' streams and before everything
  enqueued there later.
\<close>

subsection \<open>Order\<close>

fun queue_device :: "queue \<Rightarrow> nat" where
  "queue_device (Torch s) = fst s"
| "queue_device (MaxMain d) = d"
| "queue_device (MaxSide d i) = d"

type_synonym 'op order_state = "(queue \<Rightarrow> 'op set) \<times> ('op \<times> 'op set) list"

fun order_step :: "'op stream_event \<Rightarrow> 'op order_state \<Rightarrow> 'op order_state" where
  "order_step (Enqueue q x) (seen, deps) = (seen(q := insert x (seen q)), deps @ [(x, seen q)])"
| "order_step (WaitFor a b) (seen, deps) = (seen(a := seen a \<union> seen b), deps)"
| "order_step (HostSync d) (seen, deps) = ((\<lambda>q. seen q \<union> {x. \<exists>p. queue_device p = d \<and> x \<in> seen p}), deps)"

definition order :: "'op stream_event list \<Rightarrow> 'op order_state \<Rightarrow> 'op order_state" where
  "order evs st = foldl (\<lambda>st e. order_step e st) st evs"

lemma order_simps [simp]:
  "order [] st = st" "order (e # evs) st = order evs (order_step e st)" "order (xs @ ys) st = order ys (order xs st)"
  by (simp_all add: order_def)

lemma order_step_mono: "fst st q \<subseteq> fst (order_step e st) q" "set (snd st) \<subseteq> set (snd (order_step e st))"
  by (cases st; cases e; auto)+

lemma order_mono: "fst st q \<subseteq> fst (order evs st) q \<and> set (snd st) \<subseteq> set (snd (order evs st))"
proof (induction evs arbitrary: st)
  case (Cons e evs)
  then show ?case using order_step_mono[of st] by (metis order_simps(2) subset_trans)
qed simp

lemmas seen_mono = order_mono[THEN conjunct1] and deps_mono = order_mono[THEN conjunct2]

lemma order_wait: "WaitFor a b \<in> set evs \<Longrightarrow> fst st b \<subseteq> fst (order evs st) a"
proof -
  assume "WaitFor a b \<in> set evs"
  then obtain l1 l2 where evs: "evs = l1 @ WaitFor a b # l2" by (meson split_list)
  obtain seen deps where st1: "order l1 st = (seen, deps)" by (cases "order l1 st")
  have "fst st b \<subseteq> seen b" using seen_mono[of st b l1] by (simp add: st1)
  also have "\<dots> \<subseteq> fst (order_step (WaitFor a b) (order l1 st)) a" by (simp add: st1)
  also have "\<dots> \<subseteq> fst (order l2 (order_step (WaitFor a b) (order l1 st))) a" by (rule seen_mono)
  finally show ?thesis by (simp add: evs)
qed

lemma order_enqueue:
  assumes "Enqueue q x \<in> set evs"
  shows "(\<exists>S. (x, S) \<in> set (snd (order evs st)) \<and> fst st q \<subseteq> S) \<and> x \<in> fst (order evs st) q"
proof -
  obtain l1 l2 where evs: "evs = l1 @ Enqueue q x # l2" using assms by (meson split_list)
  obtain seen deps where st1: "order l1 st = (seen, deps)" by (cases "order l1 st")
  have "fst st q \<subseteq> seen q" using seen_mono[of st q l1] by (simp add: st1)
  moreover have "(x, seen q) \<in> set (snd (order_step (Enqueue q x) (order l1 st)))"
    "x \<in> fst (order_step (Enqueue q x) (order l1 st)) q"
    by (simp_all add: st1)
  then have "(x, seen q) \<in> set (snd (order evs st))" "x \<in> fst (order evs st) q"
    unfolding evs order_simps
    using seen_mono[of "order_step (Enqueue q x) (order l1 st)" q l2] deps_mono[of "order_step (Enqueue q x) (order l1 st)" l2]
    by (simp_all add: subsetD)
  ultimately show ?thesis by blast
qed

subsection \<open>A region's work\<close>

lemma fromkeys_set [simp]: "set (fromkeys xs) = set xs"
  by (simp add: fromkeys_def)

lemma in_concat_map: "x \<in> set xs \<Longrightarrow> y \<in> set (f x) \<Longrightarrow> y \<in> set (concat (map f xs))"
  by auto

lemma entry_fences_wait:
  assumes "ctx \<in> set active" "d \<in> set tokens" "kind d = GpuKind"
  shows "WaitFor (MaxMain d) (Torch (current_in ambient ctx d)) \<in> set (entry_fences kind ambient tokens active)"
  unfolding entry_fences_def
  by (intro in_concat_map[OF assms(1)] in_concat_map[OF assms(2)]) (simp add: import_tensor_def assms(3))

lemma exit_fences_wait:
  assumes "ctx \<in> set active" "d \<in> set tokens" "kind d = GpuKind"
  shows "WaitFor (Torch (current_in ambient ctx d)) (MaxMain d) \<in> set (exit_fences kind ambient tokens active)"
  unfolding exit_fences_def
  by (intro in_concat_map[OF assms(1)] in_concat_map[OF assms(2)]) (simp add: assms(3))

lemma pool_fence_wait:
  assumes "d \<in> set buffers" "kind d = GpuKind" "i \<in> set (or_else (dget views d) [])"
  shows "WaitFor (MaxSide d i) (MaxMain d) \<in> set (pool_fence kind views True buffers)"
    "WaitFor (MaxMain d) (MaxSide d i) \<in> set (pool_fence kind views False buffers)"
proof -
  have "views \<noteq> []" using assms(3) by (auto simp: or_else_def split: option.splits)
  moreover have "d \<in> set (remdups (filter (\<lambda>d. kind d \<noteq> CpuKind) buffers))" using assms(1,2) by simp
  ultimately show "WaitFor (MaxSide d i) (MaxMain d) \<in> set (pool_fence kind views True buffers)"
    "WaitFor (MaxMain d) (MaxSide d i) \<in> set (pool_fence kind views False buffers)"
    using assms(3) unfolding pool_fence_def by auto
qed

text \<open>A queue MAX runs the graph's work for a device on.\<close>

definition max_queue :: "(nat, nat list) dict \<Rightarrow> nat \<Rightarrow> queue \<Rightarrow> bool" where
  "max_queue views d q \<longleftrightarrow> q = MaxMain d \<or> (\<exists>i. q = MaxSide d i \<and> i \<in> set (or_else (dget views d) []))"

lemma pool_fence_in:
  assumes "max_queue views d q" "d \<in> set buffers" "kind d = GpuKind"
  shows "fst st (MaxMain d) \<subseteq> fst (order (pool_fence kind views True buffers) st) q"
proof (cases "q = MaxMain d")
  case True
  show ?thesis unfolding True by (rule seen_mono)
next
  case False
  then obtain i where "q = MaxSide d i" "i \<in> set (or_else (dget views d) [])" using assms(1) by (auto simp: max_queue_def)
  then show ?thesis using order_wait[OF pool_fence_wait(1)[of d buffers kind i views, OF assms(2,3)], of st] by simp
qed

lemma pool_fence_out:
  assumes "max_queue views d q" "d \<in> set buffers" "kind d = GpuKind"
  shows "fst st q \<subseteq> fst (order (pool_fence kind views False buffers) st) (MaxMain d)"
proof (cases "q = MaxMain d")
  case True
  show ?thesis unfolding True by (rule seen_mono)
next
  case False
  then obtain i where "q = MaxSide d i" "i \<in> set (or_else (dget views d) [])" using assms(1) by (auto simp: max_queue_def)
  then show ?thesis using order_wait[OF pool_fence_wait(2)[of d buffers kind i views, OF assms(2,3)], of st] by simp
qed

text \<open>A staged copy reaches MAX's stream.\<close>

lemma staged_copy_seen:
  fixes copies :: "(nat \<times> 'op) list"
  assumes "(d, c) \<in> set copies" "kind d = GpuKind"
  shows "c \<in> fst (order (staged_copies kind ambient active copies) st) (MaxMain d)"
proof -
  obtain l1 l2 where copies: "copies = l1 @ (d, c) # l2" using assms(1) by (meson split_list)
  define f :: "nat \<times> 'op \<Rightarrow> 'op stream_event list"
    where "f = (\<lambda>(d, x). Enqueue (Torch (ambient d)) x # import_tensor kind d (ambient d))"
  obtain pre where pre: "staged_copies kind ambient active copies
      = pre @ (Enqueue (Torch (ambient d)) c # [WaitFor (MaxMain d) (Torch (ambient d))]) @ concat (map f l2)"
    using assms(2) by (simp add: staged_copies_def copies f_def import_tensor_def)
  have "c \<in> fst (order [Enqueue (Torch (ambient d)) c, WaitFor (MaxMain d) (Torch (ambient d))] (order pre st)) (MaxMain d)"
    by (cases "order pre st") simp
  from subsetD[OF seen_mono this] show ?thesis unfolding pre by simp
qed

text \<open>What a call guarantees, from any state.\<close>

lemma call_graph_ordered:
  fixes copies :: "(nat \<times> 'op) list"
  assumes d: "kind d = GpuKind" "d \<in> set tokens" and ctx: "ctx \<in> set active"
    and work: "(q, x) \<in> set work" "max_queue views d q"
    and evs_def: "evs = call_graph kind ambient tokens views active copies work"
  shows "(\<exists>S. (x, S) \<in> set (snd (order evs st)) \<and> fst st (Torch (current_in ambient ctx d)) \<subseteq> S \<and> {c. (d, c) \<in> set copies} \<subseteq> S)
     \<and> x \<in> fst (order evs st) (Torch (current_in ambient ctx d))"
proof -
  define fences where "fences = concat (map (\<lambda>_. tokens) active)"
  have fd: "d \<in> set fences" using d ctx by (auto simp: fences_def)
  define l1 :: "'op stream_event list" where "l1 = entry_fences kind ambient tokens active"
  define l2 where "l2 = staged_copies kind ambient active copies"
  define l3 :: "'op stream_event list" where "l3 = pool_fence kind views True fences"
  define l4 where "l4 = map (\<lambda>(q, x). Enqueue q x) work"
  define l5 :: "'op stream_event list" where "l5 = pool_fence kind views False fences"
  define l6 :: "'op stream_event list" where "l6 = exit_fences kind ambient tokens active"
  have evs: "evs = l1 @ l2 @ l3 @ l4 @ l5 @ l6"
    by (simp add: evs_def call_graph_def Let_def fences_def l1_def l2_def l3_def l4_def l5_def l6_def)
  define s1 s2 s3 s4 s5 where "s1 = order l1 st" and "s2 = order l2 s1" and "s3 = order l3 s2" and "s4 = order l4 s3"
    and "s5 = order l5 s4"
  have s6: "order evs st = order l6 s5" by (simp add: evs s1_def s2_def s3_def s4_def s5_def)
  let ?t = "Torch (current_in ambient ctx d)"
  have "fst st ?t \<subseteq> fst s1 (MaxMain d)"
    unfolding s1_def l1_def by (rule order_wait[OF entry_fences_wait[of ctx active d tokens kind ambient, OF ctx d(2,1)]])
  then have "fst st ?t \<subseteq> fst s2 (MaxMain d)" using seen_mono[of s1 "MaxMain d" l2] by (auto simp: s2_def)
  moreover have "{c. (d, c) \<in> set copies} \<subseteq> fst s2 (MaxMain d)"
    unfolding s2_def l2_def by (intro subsetI staged_copy_seen) (simp_all add: d(1))
  ultimately have in3: "fst st ?t \<union> {c. (d, c) \<in> set copies} \<subseteq> fst s3 q"
    using pool_fence_in[of views d q fences kind s2, OF work(2) fd d(1)] by (auto simp: s3_def l3_def)
  have "Enqueue q x \<in> set l4" using work(1) by (force simp: l4_def)
  from order_enqueue[OF this, of s3] obtain S where S: "(x, S) \<in> set (snd s4)" "fst s3 q \<subseteq> S" "x \<in> fst s4 q"
    by (auto simp: s4_def)
  have "x \<in> fst s5 (MaxMain d)" using S(3) pool_fence_out[of views d q fences kind s4, OF work(2) fd d(1)] by (auto simp: s5_def l5_def)
  then have "x \<in> fst (order evs st) ?t"
    using order_wait[OF exit_fences_wait[of ctx active d tokens kind ambient, OF ctx d(2,1)], of s5] by (auto simp: s6 l6_def)
  moreover have "(x, S) \<in> set (snd (order evs st))"
    using S(1) deps_mono[of s4 l5] deps_mono[of s5 l6] by (auto simp: s6 s5_def)
  ultimately show ?thesis using in3 S(2) by blast
qed
text \<open>C25: a compiled region keeps the program's stream order. For a GPU the graph uses, every operation of the
  graph, on MAX's stream or a side stream, comes after everything that was enqueued on the current stream
  of each context of the region (the ambient one included) and after the copies that stage its inputs; and
  whatever is enqueued on such a stream afterwards comes after that operation. Several contexts, side
  streams and staged copies do not weaken this, and it holds from any earlier state.\<close>

theorem region_ordered:
  fixes copies :: "(nat \<times> 'op) list"
  assumes "kind d = GpuKind" "d \<in> set tokens" "ctx \<in> set (active_contexts contexts)"
    "(q, x) \<in> set work" "max_queue views d q"
    "cur = current_in ambient (region_context contexts)"
    "order (forward_region kind ambient tokens views contexts copies work epilogue) (seen0, []) = (seen1, deps)"
  shows "(\<exists>S. (x, S) \<in> set deps \<and> seen0 (Torch (current_in cur ctx d)) \<union> {c. (d, c) \<in> set copies} \<subseteq> S)
     \<and> x \<in> seen1 (Torch (current_in cur ctx d))"
proof -
  define body where "body = call_graph kind cur tokens views (active_contexts contexts) copies work"
  define rest :: "'op stream_event list" where "rest = map (\<lambda>(d, x). Enqueue (Torch (cur d)) x) epilogue
     @ (if 1 < length contexts then publish_to_contexts cur contexts else [])"
  have evs: "forward_region kind ambient tokens views contexts copies work epilogue = body @ rest"
    by (simp add: forward_region_def run_region_def body_def rest_def assms(6))
  from call_graph_ordered[OF assms(1-5) body_def, of "(seen0, [])"]
  have body: "\<exists>S. (x, S) \<in> set (snd (order body (seen0, []))) \<and> seen0 (Torch (current_in cur ctx d)) \<subseteq> S \<and> {c. (d, c) \<in> set copies} \<subseteq> S"
    "x \<in> fst (order body (seen0, [])) (Torch (current_in cur ctx d))"
    by simp_all
  have "order rest (order body (seen0, [])) = (seen1, deps)" using assms(7) by (simp add: evs)
  then have "set (snd (order body (seen0, []))) \<subseteq> set deps"
    "fst (order body (seen0, [])) (Torch (current_in cur ctx d)) \<subseteq> seen1 (Torch (current_in cur ctx d))"
    using deps_mono[of "order body (seen0, [])" rest] seen_mono[of "order body (seen0, [])" _ rest] by (metis fst_conv snd_conv)+
  then show ?thesis using body by blast
qed

text \<open>A region of one context waits for its own stream only, and MAX has one side stream.\<close>

theorem region_ordered_witness:
  "\<exists>S. (''mm'', S) \<in> set (snd (order (forward_region (\<lambda>_. GpuKind) (\<lambda>d. (d, 0)) [0] [(0, [1])] [[(0, 5)], []] [(0, ''copy'')]
       [(MaxSide 0 1, ''mm'')] [(0, ''copy back'')]) (\<lambda>q. if q = Torch (0, 5) then {''before''} else {}, [])))
     \<and> {''before'', ''copy''} \<subseteq> S"
proof -
  let ?run = "order (forward_region (\<lambda>_. GpuKind) (\<lambda>d. (d, 0)) [0] [(0, [1])] [[(0, 5)], []] [(0, ''copy'')]
       [(MaxSide 0 1, ''mm'')] [(0, ''copy back'')]) (\<lambda>q. if q = Torch (0, 5) then {''before''} else {}, [])"
  have "[(0, 5)] \<in> set (active_contexts [[(0, 5)], []])" "current_in (current_in (\<lambda>d. (d, 0)) (region_context [[(0, 5)], []])) [(0, 5)] 0 = (0, 5)"
    by (simp_all add: active_contexts_def region_context_def current_in_def)
  from region_ordered[of "\<lambda>_. GpuKind" 0 "[0]", OF _ _ this(1), of "MaxSide 0 1" "''mm''" "[(MaxSide 0 1, ''mm'')]" "[(0, [1])]"
      _ "\<lambda>d. (d, 0)" "[(0, ''copy'')]" "[(0, ''copy back'')]" "\<lambda>q. if q = Torch (0, 5) then {''before''} else {}" "fst ?run" "snd ?run"]
    this(2)
  show ?thesis by (auto simp: max_queue_def)
qed
lemma ensure_side_streams_enough:
  assumes "d \<in> set devices" "kind d = GpuKind" "1 < count"
  shows "count \<le> ensure_side_streams kind devices count streams d"
proof -
  define step where "step = (\<lambda>streams d. if kind d = GpuKind then streams(d := streams d + length [streams d..<count]) else streams)"
  have mono: "streams d \<le> foldl step streams ds d" for ds and streams :: "nat \<Rightarrow> nat"
  proof (induction ds arbitrary: streams)
    case (Cons e ds)
    have "streams d \<le> step streams e d" by (simp add: step_def)
    then show ?case using Cons.IH[of "step streams e"] by simp
  qed simp
  obtain ds es where "devices = ds @ d # es" using assms(1) by (meson split_list)
  moreover have "count \<le> step (foldl step streams ds) d d" using assms(2) by (simp add: step_def)
  ultimately have "count \<le> foldl step streams devices d" using mono[of "step (foldl step streams ds) d" es] by simp
  then show ?thesis using assms(3) by (simp add: ensure_side_streams_def step_def)
qed

subsection \<open>Around a region\<close>

lemma wait_for_contexts_ordered:
  assumes "s \<in> set (concat contexts)"
  shows "fst st (Torch s) \<subseteq> fst (order (wait_for_contexts cur contexts) st) (Torch (cur (fst s)))"
proof (cases "cur (fst s) = s")
  case True
  show ?thesis unfolding True by (rule seen_mono)
next
  case False
  have "WaitFor (Torch (cur (fst s))) (Torch s) \<in> set (wait_for_contexts cur contexts)"
    unfolding wait_for_contexts_def by (rule in_concat_map[of s]) (use assms False in \<open>simp_all add: streams_of_def\<close>)
  then show ?thesis by (rule order_wait)
qed

lemma publish_to_contexts_ordered:
  assumes "s \<in> set (concat contexts)"
  shows "fst st (Torch (cur (fst s))) \<subseteq> fst (order (publish_to_contexts cur contexts) st) (Torch s)"
proof (cases "cur (fst s) = s")
  case True
  show ?thesis unfolding True by (rule seen_mono)
next
  case False
  have "WaitFor (Torch s) (Torch (cur (fst s))) \<in> set (publish_to_contexts cur contexts)"
    unfolding publish_to_contexts_def by (rule in_concat_map[of s]) (use assms False in \<open>simp_all add: streams_of_def\<close>)
  then show ?thesis by (rule order_wait)
qed

lemma current_in_device: "fst (ambient d) = d \<Longrightarrow> fst (current_in ambient ctx d) = d"
proof -
  assume "fst (ambient d) = d"
  then have "fst cur = d \<Longrightarrow> fst (foldl (\<lambda>cur s. if fst s = d then s else cur) cur ctx) = d" for cur
    by (induction ctx arbitrary: cur) auto
  then show ?thesis using \<open>fst (ambient d) = d\<close> by (simp add: current_in_def)
qed

text \<open>Copies around a region are ordered too. The copy that stages an input comes after everything
  enqueued before on any stream of the region's contexts on its device; and when the region combines
  several contexts, everything enqueued on those streams later comes after the epilogue that AOT autograd
  runs on the ambient stream.\<close>

theorem region_copies_ordered:
  fixes copies :: "(nat \<times> 'op) list"
  assumes "s \<in> set (concat contexts)" "cur = current_in ambient (region_context contexts)"
    "order (forward_region kind ambient tokens views contexts copies work epilogue) (seen0, []) = (seen1, deps)"
  shows "((fst s, c) \<in> set copies \<longrightarrow> (\<exists>S. (c, S) \<in> set deps \<and> seen0 (Torch s) \<subseteq> S))
     \<and> (1 < length contexts \<longrightarrow> (fst s, e) \<in> set epilogue \<longrightarrow> e \<in> seen1 (Torch s))"
proof -
  let ?active = "active_contexts contexts"
  define l1 :: "'op stream_event list" where "l1 = entry_fences kind cur tokens ?active"
  define copying where "copying = concat (map (\<lambda>(d, x). Enqueue (Torch (cur d)) x # import_tensor kind d (cur d)) copies)"
  define work_evs where "work_evs = map (\<lambda>(q, x). Enqueue q x) work"
  define fences where "fences = concat (map (\<lambda>_. tokens) ?active)"
  define l3 where "l3 = pool_fence kind views True fences @ work_evs @ pool_fence kind views False fences
     @ exit_fences kind cur tokens ?active"
  define ep :: "'op stream_event list" where "ep = map (\<lambda>(d, x). Enqueue (Torch (cur d)) x) epilogue"
  define pub :: "'op stream_event list" where "pub = (if 1 < length contexts then publish_to_contexts cur contexts else [])"
  have evs: "forward_region kind ambient tokens views contexts copies work epilogue
      = l1 @ staged_copies kind cur ?active copies @ l3 @ ep @ pub"
    by (simp add: forward_region_def run_region_def call_graph_def Let_def l1_def l3_def ep_def pub_def fences_def work_evs_def assms(2))
  have end1: "\<exists>S. (c, S) \<in> set deps \<and> seen0 (Torch s) \<subseteq> S" if c: "(fst s, c) \<in> set copies"
  proof -
    have "s \<in> set (concat ?active)" "list_ex (\<lambda>ctx. ctx \<noteq> []) ?active"
      using assms(1) by (auto simp: active_contexts_def list_ex_iff) (metis empty_iff empty_set)
    moreover have "copies \<noteq> []" using c by auto
    ultimately have stage: "staged_copies kind cur ?active copies = wait_for_contexts cur ?active @ copying"
      by (simp add: staged_copies_def copying_def)
    define s1 where "s1 = order (wait_for_contexts cur ?active) (order l1 (seen0, []))"
    have "seen0 (Torch s) \<subseteq> fst (order l1 (seen0, [])) (Torch s)" using seen_mono[of "(seen0, [])" _ l1] by simp
    also have "\<dots> \<subseteq> fst s1 (Torch (cur (fst s)))" unfolding s1_def
      using \<open>s \<in> set (concat ?active)\<close> by (rule wait_for_contexts_ordered)
    finally have in1: "seen0 (Torch s) \<subseteq> fst s1 (Torch (cur (fst s)))" .
    have "Enqueue (Torch (cur (fst s))) c \<in> set copying"
      unfolding copying_def by (rule in_concat_map[OF c]) simp
    from order_enqueue[OF this, of s1] obtain S where S: "(c, S) \<in> set (snd (order copying s1))" "fst s1 (Torch (cur (fst s))) \<subseteq> S"
      by blast
    have "order (l3 @ ep @ pub) (order copying s1) = (seen1, deps)" using assms(3) by (simp add: evs stage s1_def)
    then have "(c, S) \<in> set deps" using S(1) deps_mono[of "order copying s1" "l3 @ ep @ pub"] by auto
    then show ?thesis using S(2) in1 by blast
  qed
  have end2: "e \<in> seen1 (Torch s)" if "1 < length contexts" "(fst s, e) \<in> set epilogue"
  proof -
    define s2 where "s2 = order (l1 @ staged_copies kind cur ?active copies @ l3) (seen0, [])"
    have "Enqueue (Torch (cur (fst s))) e \<in> set ep" using that(2) by (force simp: ep_def)
    then have "e \<in> fst (order ep s2) (Torch (cur (fst s)))" using order_enqueue[of _ e ep s2] by simp
    then have "e \<in> fst (order pub (order ep s2)) (Torch s)"
      using publish_to_contexts_ordered[OF assms(1), of "order ep s2" cur] that(1) by (auto simp: pub_def)
    moreover have "order pub (order ep s2) = (seen1, deps)" using assms(3) by (simp add: evs s2_def)
    ultimately show ?thesis by simp
  qed
  show ?thesis using end1 end2 by blast
qed

theorem region_copies_ordered_witness:
  "''copy back'' \<in> fst (order (forward_region (\<lambda>_. GpuKind) (\<lambda>d. (d, 0)) [0] [(0, [1])] [[(0, 5)], []] [(0, ''copy'')]
       [(MaxSide 0 1, ''mm'')] [(0, ''copy back'')]) (\<lambda>q. {}, [])) (Torch (0, 5))"
proof -
  let ?run = "order (forward_region (\<lambda>_. GpuKind) (\<lambda>d. (d, 0)) [0] [(0, [1])] [[(0, 5)], []] [(0, ''copy'')]
       [(MaxSide 0 1, ''mm'')] [(0, ''copy back'')]) (\<lambda>q. {}, [])"
  from region_copies_ordered[of "(0, 5)" "[[(0, 5)], []]", OF _ refl, of "\<lambda>_. GpuKind" "\<lambda>d. (d, 0)" "[0]" "[(0, [1])]"
      "[(0, ''copy'')]" "[(MaxSide 0 1, ''mm'')]" "[(0, ''copy back'')]" "\<lambda>q. {}" "fst ?run" "snd ?run" "''copy''" "''copy back''"]
  show ?thesis by simp
qed

end
