(* ===== verification/TC_Regions.thy ===== *)
theory TC_Regions
  imports TC_Streams
begin

text \<open>
  How \<open>compile_stream_graph\<close> cuts a graph: consecutive runs of nodes in program order, each stream or
  event call a region of its own, and a region of tensor operations of one stream context when training.
\<close>

definition kept :: "stream_node list \<Rightarrow> nat \<Rightarrow> nat list" where
  "kept g m = filter (\<lambda>k. in_region (g ! k)) [0..<m]"

text \<open>Two neighbours are cut apart when one is a control node or their contexts differ.\<close>

definition cut_between :: "region_key \<Rightarrow> region_key \<Rightarrow> bool" where
  "cut_between a b \<longleftrightarrow> fst a \<or> fst b \<or> a \<noteq> b"

definition cuts :: "region_key list \<Rightarrow> nat \<Rightarrow> nat" where
  "cuts keys i = length (filter (\<lambda>j. cut_between (keys ! j) (keys ! Suc j)) [0..<i])"

lemma cuts_0 [simp]: "cuts keys 0 = 0"
  by (simp add: cuts_def)

lemma cuts_Suc [simp]: "cuts keys (Suc i) = cuts keys i + (if cut_between (keys ! i) (keys ! Suc i) then 1 else 0)"
  by (simp add: cuts_def)

lemma cuts_append: "i < length keys \<Longrightarrow> cuts (keys @ [b]) i = cuts keys i"
  unfolding cuts_def by (rule arg_cong[where f = length], rule filter_cong) (auto simp: nth_append)

lemma cuts_between: "i \<le> j \<Longrightarrow> cuts keys i \<le> cuts keys j \<and>
    (cuts keys i = cuts keys j \<longleftrightarrow> (\<forall>l. i \<le> l \<longrightarrow> l < j \<longrightarrow> \<not> cut_between (keys ! l) (keys ! Suc l)))"
proof (induction j rule: dec_induct)
  case (step j)
  then show ?case by (auto simp: less_Suc_eq)
qed simp

definition key_at :: "stream_node list \<Rightarrow> nat \<Rightarrow> region_key" where
  "key_at g k = node_key (training_graph g) g (g ! k)"

text \<open>The loop's state after the first \<open>m\<close> nodes.\<close>

definition cut_ok :: "stream_node list \<Rightarrow> nat list \<Rightarrow> partitioning \<Rightarrow> bool" where
  "cut_ok g ks s \<longleftrightarrow>
     (let keys = map (key_at g) ks in
      pt_partitions s = map (\<lambda>i. (ks ! i, cuts keys i)) [0..<length ks]
      \<and> (\<forall>i < length ks. dget (pt_regions s) (cuts keys i) = Some (keys ! i))
      \<and> (if ks = [] then pt_next s = 0 \<and> pt_previous s = None
         else pt_next s = Suc (cuts keys (length ks - 1)) \<and> pt_previous s = (if fst (last keys) then None else Some (last keys))))"

lemma cut_node_ok:
  assumes "cut_ok g ks s" "k \<notin> set ks" "in_region (g ! k)"
  shows "cut_ok g (ks @ [k]) (cut_node (training_graph g) g s k)"
proof -
  define keys where "keys = map (key_at g) ks"
  define key where "key = key_at g k"
  have len: "length keys = length ks" by (simp add: keys_def)
  have parts: "pt_partitions s = map (\<lambda>i. (ks ! i, cuts keys i)) [0..<length ks]"
    and regs: "\<And>i. i < length ks \<Longrightarrow> dget (pt_regions s) (cuts keys i) = Some (keys ! i)"
    and nxt: "if ks = [] then pt_next s = 0 \<and> pt_previous s = None
         else pt_next s = Suc (cuts keys (length ks - 1)) \<and> pt_previous s = (if fst (last keys) then None else Some (last keys))"
    using assms(1) by (simp_all add: cut_ok_def Let_def keys_def)
  define new where "new = (if fst key \<or> Some key \<noteq> pt_previous s then pt_next s + 1 else pt_next s)"
  have step: "cut_node (training_graph g) g s k = \<lparr>pt_partitions = dput k (new - 1) (pt_partitions s),
      pt_regions = dput (new - 1) key (pt_regions s), pt_next = new, pt_previous = (if fst key then None else Some key)\<rparr>"
    using assms(3) by (simp add: cut_node_def Let_def key_def key_at_def new_def)
  have new: "new = Suc (cuts (keys @ [key]) (length ks))"
  proof (cases ks rule: rev_cases)
    case Nil
    then show ?thesis using nxt by (simp add: new_def)
  next
    case (snoc ks' z)
    then have last: "(keys @ [key]) ! (length ks - 1) = last keys" "length ks = Suc (length ks')"
      by (simp_all add: keys_def nth_append)
    show ?thesis using nxt snoc last by (auto simp: new_def cut_between_def cuts_append len nth_append)
  qed
  have same: "cuts keys i = cuts (keys @ [key]) i" if "i < length ks" for i using that by (simp add: cuts_append len)
  have "dget (pt_partitions s) k = None" using assms(2) by (auto simp: parts map_of_eq_None_iff in_set_conv_nth)
  then have "pt_partitions (cut_node (training_graph g) g s k)
      = map (\<lambda>i. ((ks @ [k]) ! i, cuts (keys @ [key]) i)) [0..<length (ks @ [k])]"
    by (simp add: step dput_fresh parts new) (simp add: same nth_append)
  moreover have "dget (pt_regions (cut_node (training_graph g) g s k)) (cuts (keys @ [key]) i) = Some ((keys @ [key]) ! i)"
    if i: "i < length (ks @ [k])" for i
  proof (cases "i = length ks")
    case True
    then show ?thesis by (simp add: step new nth_append len)
  next
    case False
    then have l: "i < length ks" using i by simp
    show ?thesis
    proof (cases "cuts (keys @ [key]) i = cuts (keys @ [key]) (length ks)")
      case True
      have "(keys @ [key]) ! i = key"
      proof -
        have none: "\<not> cut_between ((keys @ [key]) ! j) ((keys @ [key]) ! Suc j)" if "i \<le> j" "j < length ks" for j
          using cuts_between[of i "length ks" "keys @ [key]"] True l that by auto
        have "(keys @ [key]) ! i = (keys @ [key]) ! j" if "i \<le> j" "j \<le> length ks" for j
          using that
        proof (induction j rule: dec_induct)
          case (step j)
          then show ?case using none[of j] by (simp add: cut_between_def)
        qed simp
        from this[of "length ks"] show ?thesis using l len by (simp add: nth_append)
      qed
      then show ?thesis using True by (simp add: step new)
    next
      case False
      then show ?thesis using regs[OF l] same[OF l] l len by (simp add: step new nth_append)
    qed
  qed
  moreover have "pt_next (cut_node (training_graph g) g s k) = Suc (cuts (keys @ [key]) (length (ks @ [k]) - 1))"
    "pt_previous (cut_node (training_graph g) g s k) = (if fst key then None else Some key)"
    by (simp_all add: step new)
  ultimately show ?thesis by (simp add: cut_ok_def Let_def keys_def[symmetric] key_def[symmetric])
qed

lemma cut_graph_ok: "cut_ok g (kept g (length g)) (cut_graph g)"
proof -
  have "m \<le> length g \<Longrightarrow> cut_ok g (kept g m) (foldl (cut_node (training_graph g) g)
     \<lparr>pt_partitions = [], pt_regions = [], pt_next = 0, pt_previous = None\<rparr> [0..<m])" for m
  proof (induction m)
    case 0
    then show ?case by (simp add: cut_ok_def kept_def Let_def)
  next
    case (Suc m)
    show ?case
    proof (cases "in_region (g ! m)")
      case True
      have "m \<notin> set (kept g m)" by (simp add: kept_def)
      then show ?thesis using cut_node_ok[OF _ _ True] Suc True by (simp add: kept_def)
    next
      case False
      have "cut_node (training_graph g) g s m = s" for s using False by (simp add: cut_node_def Let_def)
      then show ?thesis using Suc False by (simp add: kept_def)
    qed
  qed
  from this[of "length g"] show ?thesis by (simp add: cut_graph_def)
qed

definition computing :: "stream_node list \<Rightarrow> nat list" where
  "computing g = kept g (length g)"

definition sample_call :: "string \<Rightarrow> nat option \<Rightarrow> stream_node" where
  "sample_call target s = \<lparr>sn_op = CallFunction, sn_is_stream = False, sn_inputs = [], sn_target = target, sn_streams = None,
     sn_stream = s, sn_grad = False\<rparr>"

definition sample_stream_graph :: "stream_node list" where
  "sample_stream_graph = [(sample_call ''x'' None)\<lparr>sn_op := Placeholder\<rparr>, sample_call ''aten.mm'' None,
     sample_call ''streams.record_event'' None, sample_call ''aten.add'' (Some 1), sample_call ''aten.relu'' None,
     (sample_call ''output'' None)\<lparr>sn_op := OutputNode\<rparr>]"


subsection \<open>Placement in a region\<close>

lemma fromkeys_distinct [simp]: "distinct (fromkeys xs)" "set (fromkeys xs) = set xs"
  by (simp_all add: fromkeys_def)

lemma placements_index:
  assumes "ks \<in> set (context_indices g)" "ks \<noteq> []"
  shows "\<exists>i < length (context_indices g). context_indices g ! i = ks \<and> dget (placements g) ks = Some (i + 1)"
proof -
  define cs where "cs = context_indices g"
  have dist: "distinct cs" by (simp add: cs_def context_indices_def)
  obtain i where i: "i < length cs" "cs ! i = ks" using assms(1) by (auto simp: cs_def in_set_conv_nth)
  define put where "put = (\<lambda>(d :: (nat list, nat) dict) (i :: nat, ks). if ks \<noteq> [] then dput ks (i + 1) d else d)"
  have "m \<le> length cs \<Longrightarrow> dget (foldl put [] (zip [0..<m] (take m cs))) ks = (if i < m then Some (i + 1) else None)" for m
  proof (induction m)
    case (Suc m)
    then have "zip [0..<Suc m] (take (Suc m) cs) = zip [0..<m] (take m cs) @ [(m, cs ! m)]"
      by (simp add: take_Suc_conv_app_nth)
    moreover have "cs ! m = ks \<longleftrightarrow> m = i" using dist i Suc.prems by (auto simp: nth_eq_iff_index_eq)
    ultimately show ?case using Suc i assms(2) by (auto simp: put_def less_Suc_eq)
  qed simp
  from this[of "length cs"] i show ?thesis by (auto simp: placements_def cs_def put_def)
qed

text \<open>In a compiled region a node's side stream is its context. Nodes of the ambient context stay on MAX's
  own stream, number 0; two nodes get the same number exactly when their contexts are the same.\<close>

theorem placement_by_context:
  assumes "n \<in> set g" "m \<in> set g" "sn_op n \<in> {CallFunction, CallMethod}" "sn_op m \<in> {CallFunction, CallMethod}"
  shows "(placement g n = 0 \<longleftrightarrow> stream_indices n = []) \<and> (placement g n = placement g m \<longleftrightarrow> stream_indices n = stream_indices m)
     \<and> placement g n \<le> length (context_indices g)"
proof -
  have listed: "stream_indices k \<in> set (context_indices g)" if "k \<in> set g" "sn_op k \<in> {CallFunction, CallMethod}" for k
    using that by (auto simp: context_indices_def)
  have "dget (foldl (\<lambda>d (i, ks). if ks \<noteq> [] then dput ks (i + 1) d else d) d xs) [] = dget d []" for d :: "(nat list, nat) dict" and xs
    by (induction xs arbitrary: d) auto
  then have none: "dget (placements g) [] = None" by (simp add: placements_def)
  show ?thesis
  proof (cases "stream_indices n = []")
    case True
    then show ?thesis using none placements_index[OF listed[OF assms(2,4)]] by (cases "stream_indices m = []") (auto simp: placement_def)
  next
    case False
    then show ?thesis using none placements_index[OF listed[OF assms(1,3)] False] placements_index[OF listed[OF assms(2,4)]]
      by (cases "stream_indices m = []") (auto simp: placement_def)
  qed
qed

theorem placement_by_context_witness:
  "placement [sample_call ''aten.add'' (Some 1), sample_call ''aten.relu'' None] (sample_call ''aten.add'' (Some 1)) = 1"
proof -
  let ?g = "[sample_call ''aten.add'' (Some 1), sample_call ''aten.relu'' None]"
  have "placement ?g (sample_call ''aten.add'' (Some 1)) \<noteq> 0"
    using placement_by_context[of "sample_call ''aten.add'' (Some 1)" ?g "sample_call ''aten.relu'' None"]
    by (simp add: sample_call_def stream_indices_def)
  moreover have "placement ?g (sample_call ''aten.add'' (Some 1)) \<le> 1" by code_simp
  ultimately show ?thesis by simp
qed

end
