(* ===== verification/AT_Tensor.thy ===== *)
theory AT_Tensor
  imports Prelude
begin

text \<open>
  What the operator lowerings (\<^verbatim>\<open>aten_functions.py\<close>) use of MAX: tensors with a shape and an element at every
  index, and the graph operations as fields of a record, for they are not code of this repository. Each
  \<open>..._ok\<close> predicate states what MAX documents of one operation, and the properties name the ones they rest
  on. \<open>ref_ops\<close> is an instance (a shape and a function on indices) that satisfies all of them; the witnesses
  run on it. Extents are static: the shapes are those MAX knows when the graph is built.
\<close>

named_theorems tensor_simps \<open>shapes and indices of tensors\<close>

subsection \<open>Indices\<close>

definition inb :: "nat list \<Rightarrow> nat list \<Rightarrow> bool" where
  "inb s ix \<longleftrightarrow> list_all2 (\<lambda>i n. i < n) ix s"

text \<open>Row-major position of an index, and back.\<close>

fun ravel :: "nat list \<Rightarrow> nat list \<Rightarrow> nat" where
  "ravel (n # s) (i # ix) = i * prod_list s + ravel s ix"
| "ravel _ _ = 0"

fun unravel :: "nat list \<Rightarrow> nat \<Rightarrow> nat list" where
  "unravel [] k = []"
| "unravel (n # s) k = (k div prod_list s) # unravel s (k mod prod_list s)"

lemma inb_length: "inb s ix \<Longrightarrow> length ix = length s"
  by (auto simp: inb_def dest: list_all2_lengthD)

lemma inb_nth: "inb s ix \<Longrightarrow> a < length s \<Longrightarrow> ix ! a < s ! a"
  by (auto simp: inb_def list_all2_conv_all_nth)

lemma inbI: "length ix = length s \<Longrightarrow> (\<And>a. a < length s \<Longrightarrow> ix ! a < s ! a) \<Longrightarrow> inb s ix"
  by (auto simp: inb_def list_all2_conv_all_nth)

lemma inb_Cons [tensor_simps, simp]:
  "inb (n # s) ix \<longleftrightarrow> (\<exists>i jx. ix = i # jx \<and> i < n \<and> inb s jx)" "inb [] ix \<longleftrightarrow> ix = []"
  by (cases ix; simp add: inb_def)+

lemma inb_append [tensor_simps]:
  "inb (s @ s') ix \<longleftrightarrow> (\<exists>jx kx. ix = jx @ kx \<and> inb s jx \<and> inb s' kx)"
  by (auto simp: inb_def list_all2_append2 list_all2_appendI dest: list_all2_lengthD)

lemma inb_append2: "length jx = length s \<Longrightarrow> inb (s @ s') (jx @ kx) \<longleftrightarrow> inb s jx \<and> inb s' kx"
  by (auto simp: inb_def list_all2_append)

lemma inb_update: "inb s ix \<Longrightarrow> k < n \<Longrightarrow> inb (s[a := n]) (ix[a := k])"
  by (auto simp: inb_def list_all2_update_cong)

lemma prod_list_pos: "inb s ix \<Longrightarrow> 0 < prod_list s"
  by (induction s arbitrary: ix) auto

lemma ravel_less: "inb s ix \<Longrightarrow> ravel s ix < prod_list s"
proof (induction s arbitrary: ix)
  case (Cons n s)
  then obtain i jx where ix: "ix = i # jx" "i < n" "inb s jx" by auto
  then have "i * prod_list s + ravel s jx < i * prod_list s + prod_list s" using Cons.IH by simp
  also have "\<dots> = Suc i * prod_list s" by simp
  also have "\<dots> \<le> n * prod_list s" using ix(2) by (intro mult_right_mono) auto
  finally show ?case using ix(1) by simp
qed simp

lemma unravel_inb: "k < prod_list s \<Longrightarrow> inb s (unravel s k)"
proof (induction s arbitrary: k)
  case (Cons n s)
  then have "0 < prod_list s" by (cases "prod_list s = 0") auto
  then show ?case using Cons by (simp add: less_mult_imp_div_less mult.commute)
qed simp

lemma ravel_unravel: "k < prod_list s \<Longrightarrow> ravel s (unravel s k) = k"
proof (induction s arbitrary: k)
  case (Cons n s)
  then have "0 < prod_list s" by (cases "prod_list s = 0") auto
  then show ?case using Cons by simp
qed simp

lemma unravel_ravel: "inb s ix \<Longrightarrow> unravel s (ravel s ix) = ix"
proof (induction s arbitrary: ix)
  case (Cons n s)
  then obtain i jx where ix: "ix = i # jx" "i < n" "inb s jx" by auto
  then show ?case using Cons.IH[OF ix(3)] ravel_less[OF ix(3)] by simp
qed simp

lemma ravel_append:
  "length jx = length s \<Longrightarrow> ravel (s @ s') (jx @ kx) = ravel s jx * prod_list s' + ravel s' kx"
  by (induction s jx rule: ravel.induct) (auto simp: algebra_simps)

subsection \<open>The operations\<close>

record ('t, 'v) max_ops =
  shape_of :: "'t \<Rightarrow> nat list"
  elem_at :: "'t \<Rightarrow> nat list \<Rightarrow> 'v"
  of_num :: "int \<Rightarrow> 'v"
  to_num :: "'v \<Rightarrow> int"
  f_constant :: "nat list \<Rightarrow> int list \<Rightarrow> 't"
  f_arange :: "nat \<Rightarrow> 't"
  f_permute :: "'t \<Rightarrow> nat list \<Rightarrow> 't"
  f_transpose :: "'t \<Rightarrow> nat \<Rightarrow> nat \<Rightarrow> 't"
  f_reshape :: "'t \<Rightarrow> nat list \<Rightarrow> 't"
  f_broadcast :: "'t \<Rightarrow> nat list \<Rightarrow> 't"
  f_gather :: "'t \<Rightarrow> 't \<Rightarrow> nat \<Rightarrow> 't"
  f_gather_nd :: "'t \<Rightarrow> 't \<Rightarrow> 't"
  f_scatter_nd_add :: "'t \<Rightarrow> 't \<Rightarrow> 't \<Rightarrow> 't"
  f_scale :: "'t \<Rightarrow> 'v \<Rightarrow> 't"
  f_stack_last :: "'t list \<Rightarrow> 't"
  f_squeeze :: "'t \<Rightarrow> nat \<Rightarrow> 't"
  f_unsqueeze :: "'t \<Rightarrow> nat \<Rightarrow> 't"
  f_where :: "'t \<Rightarrow> 't \<Rightarrow> 't \<Rightarrow> 't"
  f_equal :: "'t \<Rightarrow> 't \<Rightarrow> 't"
  f_slice :: "'t \<Rightarrow> nat \<Rightarrow> nat \<Rightarrow> nat \<Rightarrow> 't"

text \<open>Numbers survive the trip through a tensor (index values are far below \<open>2 ^ 63\<close>), and \<open>F.constant\<close>
  lays a nested list out in row-major order.\<close>

definition constant_ok :: "('t, 'v, 'z) max_ops_scheme \<Rightarrow> bool" where
  "constant_ok M \<longleftrightarrow> (\<forall>n. to_num M (of_num M n) = n) \<and>
     (\<forall>s xs. length xs = prod_list s \<longrightarrow> shape_of M (f_constant M s xs) = s \<and>
        (\<forall>ix. inb s ix \<longrightarrow> elem_at M (f_constant M s xs) ix = of_num M (xs ! ravel s ix)))"

definition arange_ok :: "('t, 'v, 'z) max_ops_scheme \<Rightarrow> bool" where
  "arange_ok M \<longleftrightarrow> (\<forall>n. shape_of M (f_arange M n) = [n] \<and>
     (\<forall>i < n. to_num M (elem_at M (f_arange M n) [i]) = int i))"

definition permute_ok :: "('t, 'v, 'z) max_ops_scheme \<Rightarrow> bool" where
  "permute_ok M \<longleftrightarrow> (\<forall>t p. distinct p \<and> set p = {..<length (shape_of M t)} \<longrightarrow>
     shape_of M (f_permute M t p) = map (\<lambda>a. shape_of M t ! a) p \<and>
     (\<forall>ix. inb (shape_of M t) ix \<longrightarrow> elem_at M (f_permute M t p) (map (\<lambda>a. ix ! a) p) = elem_at M t ix))"

text \<open>Swapping two positions of a list.\<close>

definition swap_at :: "nat \<Rightarrow> nat \<Rightarrow> 'a list \<Rightarrow> 'a list" where
  "swap_at a b xs = xs[a := xs ! b, b := xs ! a]"

definition transpose_ok :: "('t, 'v, 'z) max_ops_scheme \<Rightarrow> bool" where
  "transpose_ok M \<longleftrightarrow> (\<forall>t a b. a < length (shape_of M t) \<and> b < length (shape_of M t) \<longrightarrow>
     shape_of M (f_transpose M t a b) = swap_at a b (shape_of M t) \<and>
     (\<forall>ix. inb (shape_of M t) ix \<longrightarrow> elem_at M (f_transpose M t a b) (swap_at a b ix) = elem_at M t ix))"

definition reshape_ok :: "('t, 'v, 'z) max_ops_scheme \<Rightarrow> bool" where
  "reshape_ok M \<longleftrightarrow> (\<forall>t s. prod_list s = prod_list (shape_of M t) \<longrightarrow> shape_of M (f_reshape M t s) = s \<and>
     (\<forall>ix jx. inb s ix \<and> inb (shape_of M t) jx \<and> ravel s ix = ravel (shape_of M t) jx \<longrightarrow>
        elem_at M (f_reshape M t s) ix = elem_at M t jx))"

text \<open>\<open>broadcast_to\<close>: the shapes are aligned at their last axis and an axis of size 1 repeats.\<close>

definition spreads :: "nat list \<Rightarrow> nat list \<Rightarrow> bool" where
  "spreads s s' \<longleftrightarrow> length s \<le> length s' \<and>
     list_all2 (\<lambda>n m. n = 1 \<or> n = m) s (drop (length s' - length s) s')"

definition shrink_index :: "nat list \<Rightarrow> nat list \<Rightarrow> nat list" where
  "shrink_index s ix = map2 (\<lambda>n i. if n = 1 then 0 else i) s (drop (length ix - length s) ix)"

definition broadcast_ok :: "('t, 'v, 'z) max_ops_scheme \<Rightarrow> bool" where
  "broadcast_ok M \<longleftrightarrow> (\<forall>t s. spreads (shape_of M t) s \<longrightarrow> shape_of M (f_broadcast M t s) = s \<and>
     (\<forall>ix. inb s ix \<longrightarrow> elem_at M (f_broadcast M t s) ix = elem_at M t (shrink_index (shape_of M t) ix)))"

text \<open>\<open>gather\<close> is numpy's \<open>take\<close>: the axis is replaced by the axes of the index tensor.\<close>

definition gather_ok :: "('t, 'v, 'z) max_ops_scheme \<Rightarrow> bool" where
  "gather_ok M \<longleftrightarrow> (\<forall>t i s n s'. shape_of M t = s @ n # s' \<longrightarrow>
     shape_of M (f_gather M t i (length s)) = s @ shape_of M i @ s' \<and>
     (\<forall>ix jx kx k. inb s ix \<and> inb (shape_of M i) jx \<and> inb s' kx \<and> to_num M (elem_at M i jx) = int k \<and> k < n \<longrightarrow>
        elem_at M (f_gather M t i (length s)) (ix @ jx @ kx) = elem_at M t (ix @ k # kx)))"

text \<open>\<open>gather_nd\<close> without batch axes, its index vectors as long as the rank.\<close>

definition gather_nd_ok :: "('t, 'v, 'z) max_ops_scheme \<Rightarrow> bool" where
  "gather_nd_ok M \<longleftrightarrow> (\<forall>t c s. shape_of M c = s @ [length (shape_of M t)] \<longrightarrow>
     shape_of M (f_gather_nd M t c) = s \<and>
     (\<forall>ix jx. inb s ix \<and> inb (shape_of M t) jx \<and>
        (\<forall>a < length jx. to_num M (elem_at M c (ix @ [a])) = int (jx ! a)) \<longrightarrow>
        elem_at M (f_gather_nd M t c) ix = elem_at M t jx))"

text \<open>\<open>scatter_nd_add\<close> with a list of updates and one full index vector each: every update is added where it
  points, repeated destinations included.\<close>

definition scatter_nd_add_ok :: "('t, 'v::comm_monoid_add, 'z) max_ops_scheme \<Rightarrow> bool" where
  "scatter_nd_add_ok M \<longleftrightarrow> (\<forall>t u c n g. shape_of M u = [n] \<and> shape_of M c = [n, length (shape_of M t)] \<and>
     (\<forall>i < n. inb (shape_of M t) (g i) \<and> (\<forall>a < length (g i). to_num M (elem_at M c [i, a]) = int (g i ! a))) \<longrightarrow>
     shape_of M (f_scatter_nd_add M t u c) = shape_of M t \<and>
     (\<forall>jx. inb (shape_of M t) jx \<longrightarrow> elem_at M (f_scatter_nd_add M t u c) jx =
        elem_at M t jx + (\<Sum>i | i < n \<and> g i = jx. elem_at M u [i])))"

definition scale_ok :: "('t, 'v::comm_semiring_1, 'z) max_ops_scheme \<Rightarrow> bool" where
  "scale_ok M \<longleftrightarrow> of_num M 1 = 1 \<and> (\<forall>t a. shape_of M (f_scale M t a) = shape_of M t \<and>
     (\<forall>ix. inb (shape_of M t) ix \<longrightarrow> elem_at M (f_scale M t a) ix = elem_at M t ix * a))"

definition stack_ok :: "('t, 'v, 'z) max_ops_scheme \<Rightarrow> bool" where
  "stack_ok M \<longleftrightarrow> (\<forall>ts s. ts \<noteq> [] \<and> (\<forall>t \<in> set ts. shape_of M t = s) \<longrightarrow>
     shape_of M (f_stack_last M ts) = s @ [length ts] \<and>
     (\<forall>ix a. inb s ix \<and> a < length ts \<longrightarrow> elem_at M (f_stack_last M ts) (ix @ [a]) = elem_at M (ts ! a) ix))"

definition squeeze_ok :: "('t, 'v, 'z) max_ops_scheme \<Rightarrow> bool" where
  "squeeze_ok M \<longleftrightarrow> (\<forall>t s s'. shape_of M t = s @ 1 # s' \<longrightarrow> shape_of M (f_squeeze M t (length s)) = s @ s' \<and>
     (\<forall>ix jx. inb s ix \<and> inb s' jx \<longrightarrow>
        elem_at M (f_squeeze M t (length s)) (ix @ jx) = elem_at M t (ix @ 0 # jx)))"

definition unsqueeze_ok :: "('t, 'v, 'z) max_ops_scheme \<Rightarrow> bool" where
  "unsqueeze_ok M \<longleftrightarrow> (\<forall>t s s'. shape_of M t = s @ s' \<longrightarrow> shape_of M (f_unsqueeze M t (length s)) = s @ 1 # s' \<and>
     (\<forall>ix jx. inb s ix \<and> inb s' jx \<longrightarrow>
        elem_at M (f_unsqueeze M t (length s)) (ix @ 0 # jx) = elem_at M t (ix @ jx)))"

text \<open>\<open>where\<close> and \<open>equal\<close> on operands of one shape, and of a 0-d operand for \<open>equal\<close>; a truth value reads as a number.\<close>

definition where_ok :: "('t, 'v, 'z) max_ops_scheme \<Rightarrow> bool" where
  "where_ok M \<longleftrightarrow> (\<forall>c t u. shape_of M c = shape_of M t \<and> shape_of M u = shape_of M t \<longrightarrow>
     shape_of M (f_where M c t u) = shape_of M t \<and>
     (\<forall>ix. inb (shape_of M t) ix \<longrightarrow> elem_at M (f_where M c t u) ix =
        (if to_num M (elem_at M c ix) \<noteq> 0 then elem_at M t ix else elem_at M u ix)))"

definition equal_ok :: "('t, 'v, 'z) max_ops_scheme \<Rightarrow> bool" where
  "equal_ok M \<longleftrightarrow> (\<forall>t u. shape_of M u = [] \<longrightarrow> shape_of M (f_equal M t u) = shape_of M t \<and>
     (\<forall>ix. inb (shape_of M t) ix \<longrightarrow> (to_num M (elem_at M (f_equal M t u) ix) \<noteq> 0 \<longleftrightarrow>
        to_num M (elem_at M t ix) = to_num M (elem_at M u []))))"

text \<open>A slice \<open>t[..., lo:hi, ...]\<close> of one axis with in-range bounds.\<close>

definition slice_ok :: "('t, 'v, 'z) max_ops_scheme \<Rightarrow> bool" where
  "slice_ok M \<longleftrightarrow> (\<forall>t s n s' lo hi. shape_of M t = s @ n # s' \<and> lo \<le> hi \<and> hi \<le> n \<longrightarrow>
     shape_of M (f_slice M t (length s) lo hi) = s @ (hi - lo) # s' \<and>
     (\<forall>ix k jx. inb s ix \<and> k < hi - lo \<and> inb s' jx \<longrightarrow>
        elem_at M (f_slice M t (length s) lo hi) (ix @ k # jx) = elem_at M t (ix @ (lo + k) # jx)))"
subsection \<open>Consequences of the laws\<close>

text \<open>The laws as rules: the shape of a result and its element at an index.\<close>

lemma num_of_num [tensor_simps]: "constant_ok M \<Longrightarrow> to_num M (of_num M n) = n"
  by (simp add: constant_ok_def)

lemma constant_shape [tensor_simps]: "constant_ok M \<Longrightarrow> length xs = prod_list s \<Longrightarrow> shape_of M (f_constant M s xs) = s"
  by (simp add: constant_ok_def)

lemma constant_elem:
  "constant_ok M \<Longrightarrow> length xs = prod_list s \<Longrightarrow> inb s ix \<Longrightarrow>
     to_num M (elem_at M (f_constant M s xs) ix) = xs ! ravel s ix"
  by (simp add: constant_ok_def)

lemma permute_shape:
  "permute_ok M \<Longrightarrow> distinct p \<Longrightarrow> set p = {..<length (shape_of M t)} \<Longrightarrow>
     shape_of M (f_permute M t p) = map ((!) (shape_of M t)) p"
  by (simp add: permute_ok_def)

lemma permute_elem:
  "permute_ok M \<Longrightarrow> distinct p \<Longrightarrow> set p = {..<length (shape_of M t)} \<Longrightarrow> inb (shape_of M t) ix \<Longrightarrow>
     elem_at M (f_permute M t p) (map ((!) ix) p) = elem_at M t ix"
  by (simp add: permute_ok_def)

lemma transpose_shape:
  "transpose_ok M \<Longrightarrow> a < length (shape_of M t) \<Longrightarrow> b < length (shape_of M t) \<Longrightarrow>
     shape_of M (f_transpose M t a b) = swap_at a b (shape_of M t)"
  by (simp add: transpose_ok_def)

lemma transpose_elem:
  "transpose_ok M \<Longrightarrow> a < length (shape_of M t) \<Longrightarrow> b < length (shape_of M t) \<Longrightarrow> inb (shape_of M t) ix \<Longrightarrow>
     elem_at M (f_transpose M t a b) (swap_at a b ix) = elem_at M t ix"
  by (simp add: transpose_ok_def)

lemma reshape_shape: "reshape_ok M \<Longrightarrow> prod_list s = prod_list (shape_of M t) \<Longrightarrow> shape_of M (f_reshape M t s) = s"
  by (simp add: reshape_ok_def)

lemma reshape_elem:
  "reshape_ok M \<Longrightarrow> prod_list s = prod_list (shape_of M t) \<Longrightarrow> inb s ix \<Longrightarrow> inb (shape_of M t) jx \<Longrightarrow>
     ravel s ix = ravel (shape_of M t) jx \<Longrightarrow> elem_at M (f_reshape M t s) ix = elem_at M t jx"
  by (simp add: reshape_ok_def)

lemma broadcast_shape_of: "broadcast_ok M \<Longrightarrow> spreads (shape_of M t) s \<Longrightarrow> shape_of M (f_broadcast M t s) = s"
  by (simp add: broadcast_ok_def)

lemma broadcast_elem:
  "broadcast_ok M \<Longrightarrow> spreads (shape_of M t) s \<Longrightarrow> inb s ix \<Longrightarrow>
     elem_at M (f_broadcast M t s) ix = elem_at M t (shrink_index (shape_of M t) ix)"
  by (simp add: broadcast_ok_def)

lemma gather_shape:
  "gather_ok M \<Longrightarrow> shape_of M t = s @ n # s' \<Longrightarrow> a = length s \<Longrightarrow> shape_of M (f_gather M t i a) = s @ shape_of M i @ s'"
  by (simp add: gather_ok_def)

lemma gather_elem:
  "gather_ok M \<Longrightarrow> shape_of M t = s @ n # s' \<Longrightarrow> a = length s \<Longrightarrow> inb s ix \<Longrightarrow> inb (shape_of M i) jx \<Longrightarrow> inb s' kx \<Longrightarrow>
     to_num M (elem_at M i jx) = int k \<Longrightarrow> k < n \<Longrightarrow> elem_at M (f_gather M t i a) (ix @ jx @ kx) = elem_at M t (ix @ k # kx)"
  by (simp add: gather_ok_def)

lemma gather_nd_shape:
  "gather_nd_ok M \<Longrightarrow> shape_of M c = s @ [length (shape_of M t)] \<Longrightarrow> shape_of M (f_gather_nd M t c) = s"
  by (simp add: gather_nd_ok_def)

lemma gather_nd_elem:
  "gather_nd_ok M \<Longrightarrow> shape_of M c = s @ [length (shape_of M t)] \<Longrightarrow> inb s ix \<Longrightarrow> inb (shape_of M t) jx \<Longrightarrow>
     (\<And>a. a < length jx \<Longrightarrow> to_num M (elem_at M c (ix @ [a])) = int (jx ! a)) \<Longrightarrow>
     elem_at M (f_gather_nd M t c) ix = elem_at M t jx"
  by (simp add: gather_nd_ok_def)

lemma arange_shape: "arange_ok M \<Longrightarrow> shape_of M (f_arange M n) = [n]"
  by (simp add: arange_ok_def)

lemma arange_elem: "arange_ok M \<Longrightarrow> i < n \<Longrightarrow> to_num M (elem_at M (f_arange M n) [i]) = int i"
  by (simp add: arange_ok_def)

lemma stack_shape:
  "stack_ok M \<Longrightarrow> ts \<noteq> [] \<Longrightarrow> (\<And>t. t \<in> set ts \<Longrightarrow> shape_of M t = s) \<Longrightarrow> shape_of M (f_stack_last M ts) = s @ [length ts]"
  by (simp add: stack_ok_def)

lemma stack_elem:
  "stack_ok M \<Longrightarrow> ts \<noteq> [] \<Longrightarrow> (\<And>t. t \<in> set ts \<Longrightarrow> shape_of M t = s) \<Longrightarrow> inb s ix \<Longrightarrow> a < length ts \<Longrightarrow>
     elem_at M (f_stack_last M ts) (ix @ [a]) = elem_at M (ts ! a) ix"
  unfolding stack_ok_def by blast

lemma squeeze_shape:
  "squeeze_ok M \<Longrightarrow> shape_of M t = s @ 1 # s' \<Longrightarrow> a = length s \<Longrightarrow> shape_of M (f_squeeze M t a) = s @ s'"
  by (simp add: squeeze_ok_def)

lemma squeeze_elem:
  "squeeze_ok M \<Longrightarrow> shape_of M t = s @ 1 # s' \<Longrightarrow> a = length s \<Longrightarrow> inb s ix \<Longrightarrow> inb s' jx \<Longrightarrow>
     elem_at M (f_squeeze M t a) (ix @ jx) = elem_at M t (ix @ 0 # jx)"
  by (simp add: squeeze_ok_def)

lemma unsqueeze_shape:
  "unsqueeze_ok M \<Longrightarrow> shape_of M t = s @ s' \<Longrightarrow> a = length s \<Longrightarrow> shape_of M (f_unsqueeze M t a) = s @ 1 # s'"
  by (simp add: unsqueeze_ok_def)

lemma unsqueeze_elem:
  "unsqueeze_ok M \<Longrightarrow> shape_of M t = s @ s' \<Longrightarrow> a = length s \<Longrightarrow> inb s ix \<Longrightarrow> inb s' jx \<Longrightarrow>
     elem_at M (f_unsqueeze M t a) (ix @ 0 # jx) = elem_at M t (ix @ jx)"
  by (simp add: unsqueeze_ok_def)

lemma slice_shape:
  "slice_ok M \<Longrightarrow> shape_of M t = s @ n # s' \<Longrightarrow> a = length s \<Longrightarrow> lo \<le> hi \<Longrightarrow> hi \<le> n \<Longrightarrow>
     shape_of M (f_slice M t a lo hi) = s @ (hi - lo) # s'"
  by (simp add: slice_ok_def)

lemma slice_elem:
  "slice_ok M \<Longrightarrow> shape_of M t = s @ n # s' \<Longrightarrow> a = length s \<Longrightarrow> lo \<le> hi \<Longrightarrow> hi \<le> n \<Longrightarrow> inb s ix \<Longrightarrow> k < hi - lo \<Longrightarrow> inb s' jx \<Longrightarrow>
     elem_at M (f_slice M t a lo hi) (ix @ k # jx) = elem_at M t (ix @ (lo + k) # jx)"
  by (simp add: slice_ok_def)

text \<open>A gather with a constant list of positions takes those slices.\<close>

lemma take_shape:
  "constant_ok M \<Longrightarrow> gather_ok M \<Longrightarrow> shape_of M t = s @ n # s' \<Longrightarrow> a = length s \<Longrightarrow>
     shape_of M (f_gather M t (f_constant M [length ps] ps) a) = s @ length ps # s'"
  by (simp add: gather_shape constant_shape)

lemma take_elem:
  assumes "constant_ok M" "gather_ok M" "shape_of M t = s @ n # s'" "a = length s" "inb s ix" "inb s' kx"
    "j < length ps" "ps ! j = int k" "k < n"
  shows "elem_at M (f_gather M t (f_constant M [length ps] ps) a) (ix @ j # kx) = elem_at M t (ix @ k # kx)"
  using assms gather_elem[OF assms(2,3,4,5), of "f_constant M [length ps] ps" "[j]" kx k]
  by (simp add: constant_shape constant_elem)

lemma inb_split:
  assumes "a < length s"
  shows "inb s ix \<longleftrightarrow> length ix = length s \<and> inb (take a s) (take a ix) \<and> ix ! a < s ! a \<and> inb (drop (Suc a) s) (drop (Suc a) ix)"
proof (cases "length ix = length s")
  case True
  have "inb (take a s @ s ! a # drop (Suc a) s) (take a ix @ ix ! a # drop (Suc a) ix) \<longleftrightarrow>
      inb (take a s) (take a ix) \<and> ix ! a < s ! a \<and> inb (drop (Suc a) s) (drop (Suc a) ix)"
    by (subst inb_append2) (use True assms in auto)
  then show ?thesis using True assms by (simp add: id_take_nth_drop[symmetric])
qed (auto dest: inb_length)

lemma map_nth_slices: "map ((!) xs) [i..<length xs] = drop i xs" "i \<le> length xs \<Longrightarrow> map ((!) xs) [0..<i] = take i xs"
  by (auto intro: nth_equalityI)

lemma take_axis:
  assumes M: "constant_ok M" "gather_ok M" and t: "shape_of M t = s" "a < length s"
  shows "shape_of M (f_gather M t (f_constant M [length ps] ps) a) = s[a := length ps]"
    "inb (s[a := length ps]) ix \<Longrightarrow> ps ! (ix ! a) = int k \<Longrightarrow> k < s ! a \<Longrightarrow>
       elem_at M (f_gather M t (f_constant M [length ps] ps) a) ix = elem_at M t (ix[a := k])"
proof -
  have s: "shape_of M t = take a s @ s ! a # drop (Suc a) s" and a: "a = length (take a s)"
    using t id_take_nth_drop[of a s] by auto
  show "shape_of M (f_gather M t (f_constant M [length ps] ps) a) = s[a := length ps]"
    using take_shape[OF M s a] t(2) by (simp add: upd_conv_take_nth_drop)
  assume ix: "inb (s[a := length ps]) ix" and k: "ps ! (ix ! a) = int k" "k < s ! a"
  have sp: "inb (take a s) (take a ix)" "ix ! a < length ps" "inb (drop (Suc a) s) (drop (Suc a) ix)" "length ix = length s"
    using ix t(2) inb_split[of a "s[a := length ps]" ix] by auto
  have "elem_at M (f_gather M t (f_constant M [length ps] ps) a) (take a ix @ ix ! a # drop (Suc a) ix) =
      elem_at M t (take a ix @ k # drop (Suc a) ix)"
    by (rule take_elem[OF M s a sp(1,3) sp(2) k])
  then show "elem_at M (f_gather M t (f_constant M [length ps] ps) a) ix = elem_at M t (ix[a := k])"
    using t(2) sp(4) by (simp add: upd_conv_take_nth_drop id_take_nth_drop[symmetric])
qed

subsection \<open>A reference instance\<close>

definition place :: "'a list \<Rightarrow> 'a \<Rightarrow> nat" where
  "place p a = length (takeWhile (\<lambda>b. b \<noteq> a) p)"

definition ref_ops :: "(nat list \<times> (nat list \<Rightarrow> int), int) max_ops" where
  "ref_ops = \<lparr> shape_of = fst, elem_at = snd, of_num = id, to_num = id,
     f_constant = (\<lambda>s xs. (s, \<lambda>ix. xs ! ravel s ix)),
     f_arange = (\<lambda>n. ([n], \<lambda>ix. int (hd ix))),
     f_permute = (\<lambda>t p. (map (\<lambda>a. fst t ! a) p, \<lambda>jx. snd t (map (\<lambda>a. jx ! place p a) [0..<length (fst t)]))),
     f_transpose = (\<lambda>t a b. (swap_at a b (fst t), \<lambda>ix. snd t (swap_at a b ix))),
     f_reshape = (\<lambda>t s. (s, \<lambda>ix. snd t (unravel (fst t) (ravel s ix)))),
     f_broadcast = (\<lambda>t s. (s, \<lambda>ix. snd t (shrink_index (fst t) ix))),
     f_gather = (\<lambda>t i a. (take a (fst t) @ fst i @ drop (Suc a) (fst t),
        \<lambda>ix. snd t (take a ix @ nat (snd i (take (length (fst i)) (drop a ix))) # drop (a + length (fst i)) ix))),
     f_gather_nd = (\<lambda>t c. (butlast (fst c), \<lambda>ix. snd t (map (\<lambda>a. nat (snd c (ix @ [a]))) [0..<length (fst t)]))),
     f_scatter_nd_add = (\<lambda>t u c. (fst t, \<lambda>jx. snd t jx + sum_list (map (\<lambda>i. snd u [i])
        (filter (\<lambda>i. map (\<lambda>a. nat (snd c [i, a])) [0..<length (fst t)] = jx) [0..<hd (fst u)])))),
     f_scale = (\<lambda>t a. (fst t, \<lambda>ix. snd t ix * a)),
     f_stack_last = (\<lambda>ts. (fst (hd ts) @ [length ts], \<lambda>ix. snd (ts ! last ix) (butlast ix))),
     f_squeeze = (\<lambda>t a. (take a (fst t) @ drop (Suc a) (fst t), \<lambda>ix. snd t (take a ix @ 0 # drop a ix))),
     f_unsqueeze = (\<lambda>t a. (take a (fst t) @ 1 # drop a (fst t), \<lambda>ix. snd t (take a ix @ drop (Suc a) ix))),
     f_where = (\<lambda>c t u. (fst t, \<lambda>ix. if snd c ix \<noteq> 0 then snd t ix else snd u ix)),
     f_equal = (\<lambda>t u. (fst t, \<lambda>ix. of_bool (snd t ix = snd u []))),
     f_slice = (\<lambda>t a lo hi. ((fst t)[a := hi - lo], \<lambda>ix. snd t (ix[a := lo + ix ! a]))) \<rparr>"

lemma ref_sel [simp]: "shape_of ref_ops = fst" "elem_at ref_ops = snd" "of_num ref_ops = id" "to_num ref_ops = id"
  by (simp_all add: ref_ops_def)

lemma place_nth: "a \<in> set p \<Longrightarrow> p ! place p a = a \<and> place p a < length p"
  by (induction p) (auto simp: place_def)

lemma swap_swap: "a < length xs \<Longrightarrow> b < length xs \<Longrightarrow> swap_at a b (swap_at a b xs) = xs"
  by (auto simp: swap_at_def nth_list_update intro!: nth_equalityI)

lemma length_swap [simp]: "length (swap_at a b xs) = length xs"
  by (simp add: swap_at_def)

lemma ref_constant: "constant_ok ref_ops"
  by (simp add: constant_ok_def) (simp add: ref_ops_def)

lemma ref_arange: "arange_ok ref_ops"
  unfolding arange_ok_def by (simp add: ref_ops_def)

lemma ref_permute: "permute_ok ref_ops"
proof -
  have "map (\<lambda>a. map ((!) ix) p ! place p a) [0..<length s] = ix"
    if "set p = {..<length s}" "inb s ix" for p s and ix :: "nat list"
  proof (rule nth_equalityI)
    show "length (map (\<lambda>a. map ((!) ix) p ! place p a) [0..<length s]) = length ix"
      using that(2) by (simp add: inb_length)
    fix i assume "i < length (map (\<lambda>a. map ((!) ix) p ! place p a) [0..<length s])"
    then have "i < length s" "i \<in> set p" using that(1) by simp_all
    then show "map (\<lambda>a. map ((!) ix) p ! place p a) [0..<length s] ! i = ix ! i" using place_nth[of i p] by simp
  qed
  then show ?thesis unfolding permute_ok_def by (simp add: ref_ops_def)
qed

lemma ref_transpose: "transpose_ok ref_ops"
proof -
  have "swap_at a b (swap_at a b ix) = ix" if "a < length s" "b < length s" "inb s ix" for a b and s ix :: "nat list"
    using that swap_swap[of a ix b] by (simp add: inb_length)
  then show ?thesis unfolding transpose_ok_def by (auto simp: ref_ops_def)
qed

lemma ref_reshape: "reshape_ok ref_ops"
  unfolding reshape_ok_def by (auto simp: ref_ops_def unravel_ravel)

lemma ref_broadcast: "broadcast_ok ref_ops"
  unfolding broadcast_ok_def by (auto simp: ref_ops_def)

lemma ref_gather: "gather_ok ref_ops"
  unfolding gather_ok_def by (auto simp: ref_ops_def inb_length)

lemma ref_gather_nd: "gather_nd_ok ref_ops"
proof -
  have "map (\<lambda>a. nat (g (ix @ [a]))) [0..<length s] = jx"
    if "inb s jx" "\<forall>a<length jx. g (ix @ [a]) = int (jx ! a)" for s ix jx :: "nat list" and g
    using that by (auto intro!: nth_equalityI simp: inb_length)
  then show ?thesis unfolding gather_nd_ok_def by (auto simp: ref_ops_def)
qed

lemma ref_scatter_nd_add: "scatter_nd_add_ok ref_ops"
proof -
  have row: "map (\<lambda>a. nat (c [i, a])) [0..<length s] = g"
    if "inb s g" "\<forall>a<length g. c [i, a] = int (g ! a)" for s and g :: "nat list" and c :: "nat list \<Rightarrow> int" and i
    using that by (auto intro!: nth_equalityI simp: inb_length)
  have "sum_list (map (\<lambda>i. u [i]) (filter (\<lambda>i. map (\<lambda>a. nat (c [i, a])) [0..<length s] = jx) [0..<n])) =
      (\<Sum>i | i < n \<and> g i = jx. u [i])"
    if "\<forall>i<n. inb s (g i) \<and> (\<forall>a<length (g i). c [i, a] = int (g i ! a))"
    for s n g jx and c u :: "nat list \<Rightarrow> int"
  proof -
    have "filter (\<lambda>i. map (\<lambda>a. nat (c [i, a])) [0..<length s] = jx) [0..<n] = filter (\<lambda>i. g i = jx) [0..<n]"
      using that by (intro filter_cong) (auto simp: row)
    moreover have "{i. i < n \<and> g i = jx} = set (filter (\<lambda>i. g i = jx) [0..<n])" by auto
    ultimately show ?thesis by (simp add: sum.distinct_set_conv_list del: set_filter)
  qed
  then show ?thesis unfolding scatter_nd_add_ok_def by (simp add: ref_ops_def)
qed

lemma ref_scale: "scale_ok ref_ops"
  unfolding scale_ok_def by (simp add: ref_ops_def)

lemma ref_stack: "stack_ok ref_ops"
  unfolding stack_ok_def by (auto simp: ref_ops_def)

lemma ref_squeeze: "squeeze_ok ref_ops"
  unfolding squeeze_ok_def by (auto simp: ref_ops_def inb_length)

lemma ref_unsqueeze: "unsqueeze_ok ref_ops"
  unfolding unsqueeze_ok_def by (auto simp: ref_ops_def inb_length)

lemma ref_where: "where_ok ref_ops"
  unfolding where_ok_def by (auto simp: ref_ops_def)

lemma ref_equal: "equal_ok ref_ops"
  unfolding equal_ok_def by (auto simp: ref_ops_def)

lemma ref_slice: "slice_ok ref_ops"
  unfolding slice_ok_def by (auto simp: ref_ops_def inb_length list_update_append nth_append)

lemmas ref_laws = ref_constant ref_arange ref_permute ref_transpose ref_reshape ref_broadcast ref_gather ref_gather_nd
  ref_stack ref_squeeze ref_unsqueeze ref_where ref_equal ref_slice

end
