(* ===== verification/AT_Views.thy ===== *)
theory AT_Views
  imports AT_Tensor
begin

text \<open>
  Operator lowerings that pick elements of a tensor (\<^verbatim>\<open>aten_functions.py\<close>): \<open>transpose\<close>, \<open>diagonal\<close>, \<open>flip\<close>,
  \<open>unfold\<close>. torch gives views; the graph copies, so each is shown to hold, at every index of its
  result, the element of the input that torch's view would read there.
\<close>

subsection \<open>transpose\<close>

definition norm_dim :: "nat \<Rightarrow> int \<Rightarrow> int" where
  "norm_dim ndim d = (if d < 0 then int ndim + d else d)"

definition torch_transpose_equivalent :: "('t, 'v, 'z) max_ops_scheme \<Rightarrow> 't \<Rightarrow> int \<Rightarrow> int \<Rightarrow> 't result" where
  "torch_transpose_equivalent M t dim0 dim1 =
     (let ndim = length (shape_of M t); d0 = norm_dim ndim dim0; d1 = norm_dim ndim dim1 in
      if d0 < 0 \<or> int ndim \<le> d0 then Inl (ValueError ''Dimension out of range'')
      else if d1 < 0 \<or> int ndim \<le> d1 then Inl (ValueError ''Dimension out of range'')
      else if d0 = d1 then Inr t
      else Inr (f_permute M t (swap_at (nat d0) (nat d1) [0..<ndim])))"

definition aten_t :: "('t, 'v, 'z) max_ops_scheme \<Rightarrow> 't \<Rightarrow> 't result" where
  "aten_t M t = torch_transpose_equivalent M t 0 1"

subsection \<open>diagonal\<close>

definition rest_axes :: "nat \<Rightarrow> nat \<Rightarrow> nat \<Rightarrow> nat list" where
  "rest_axes rank d1 d2 = filter (\<lambda>a. a \<noteq> d1 \<and> a \<noteq> d2) [0..<rank]"

definition aten_diagonal :: "('t, 'v, 'z) max_ops_scheme \<Rightarrow> 't \<Rightarrow> int \<Rightarrow> int \<Rightarrow> int \<Rightarrow> 't result" where
  "aten_diagonal M input offset dim1 dim2 =
     (let s = shape_of M input; rank = length s in
      if rank = 0 then Inl (ZeroDivisionError ''integer modulo by zero'')
      else let d1 = nat (dim1 mod int rank); d2 = nat (dim2 mod int rank) in
      if d1 = d2 then Inl (ValueError ''diagonal dimensions cannot be identical'')
      else let n1 = int (s ! d1); n2 = int (s ! d2); rest = rest_axes rank d1 d2;
        moved = f_permute M input (rest @ [d1, d2]);
        flat = f_reshape M moved (map ((!) s) rest @ [nat (n1 * n2)]);
        first_row = max 0 (- offset);
        len = max 0 (min (n1 - first_row) (n2 - first_row - offset)) in
      if len = 0 then Inr (f_broadcast M (f_constant M [] [0]) (map ((!) s) rest @ [0]))
      else let positions = map (\<lambda>i. (first_row + int i) * (n2 + 1) + offset) [0..<nat len];
        index = f_constant M [nat len] positions in
      Inr (f_gather M flat index (length rest)))"

subsection \<open>flip\<close>

definition flip_axis :: "('t, 'v, 'z) max_ops_scheme \<Rightarrow> 't \<Rightarrow> 't \<Rightarrow> nat \<Rightarrow> 't" where
  "flip_axis M input result axis =
     (let n = shape_of M input ! axis in
      if n \<le> 1 then result else f_gather M result (f_constant M [n] (map int (rev [0..<n]))) axis)"

definition aten_flip :: "('t, 'v, 'z) max_ops_scheme \<Rightarrow> 't \<Rightarrow> int list \<Rightarrow> 't" where
  "aten_flip M input dims =
     (let rank = length (shape_of M input) in
      if rank = 0 then input
      else foldl (flip_axis M input) input (sort (remdups (map (\<lambda>d. nat (d mod int rank)) dims))))"

subsection \<open>unfold\<close>

definition aten_unfold :: "('t, 'v, 'z) max_ops_scheme \<Rightarrow> 't \<Rightarrow> int \<Rightarrow> nat \<Rightarrow> nat \<Rightarrow> 't result" where
  "aten_unfold M input dimension win step =
     (let s = shape_of M input; rank = length s in
      if rank = 0 then Inr (if win = 1 then f_reshape M input [1] else f_broadcast M input [0])
      else if step = 0 then Inl (ZeroDivisionError ''integer division or modulo by zero'')
      else let axis = nat (dimension mod int rank); n = s ! axis;
        windows = (int n - int win) div int step + 1 in
      if win = 0 then Inr (f_broadcast M (f_constant M [] [0]) (take axis s @ [nat windows] @ drop (axis + 1) s @ [0]))
      else let index = f_constant M [nat windows, win]
          (concat (map (\<lambda>w. map (\<lambda>k. int (w * step + k)) [0..<win]) [0..<nat windows]));
        gathered = f_gather M input index axis;
        order = filter (\<lambda>a. a \<noteq> axis + 1) [0..<rank + 1] @ [axis + 1] in
      Inr (f_permute M gathered order))"
subsection \<open>Positions of a permutation\<close>

lemma nth_swap: "a < length xs \<Longrightarrow> b < length xs \<Longrightarrow> i < length xs \<Longrightarrow>
    swap_at a b xs ! i = (if i = a then xs ! b else if i = b then xs ! a else xs ! i)"
  by (auto simp: swap_at_def nth_list_update)

lemma swap_upt:
  assumes "a < n" "b < n"
  shows "distinct (swap_at a b [0..<n])" "set (swap_at a b [0..<n]) = {..<n}"
    "length xs = n \<Longrightarrow> map ((!) xs) (swap_at a b [0..<n]) = swap_at a b xs"
proof -
  show "distinct (swap_at a b [0..<n])" unfolding swap_at_def using assms by (subst distinct_swap) simp_all
  show "set (swap_at a b [0..<n]) = {..<n}" unfolding swap_at_def using assms by (subst set_swap) auto
  show "map ((!) xs) (swap_at a b [0..<n]) = swap_at a b xs" if "length xs = n"
    using assms that by (intro nth_equalityI) (auto simp: nth_swap)
qed

lemma rest_perm:
  assumes "d1 < rank" "d2 < rank" "d1 \<noteq> d2"
  shows "distinct (rest_axes rank d1 d2 @ [d1, d2])" "set (rest_axes rank d1 d2 @ [d1, d2]) = {..<rank}"
  using assms by (auto simp: rest_axes_def)

lemma inb_map: "inb s ix \<Longrightarrow> set p \<subseteq> {..<length s} \<Longrightarrow> inb (map ((!) s) p) (map ((!) ix) p)"
proof (rule inbI)
  show "map ((!) ix) p ! a < map ((!) s) p ! a" if "inb s ix" "set p \<subseteq> {..<length s}" "a < length (map ((!) s) p)" for a
    using that nth_mem[of a p] inb_nth[of s ix "p ! a"] by (auto simp del: nth_mem)
qed simp

subsection \<open>diagonal reads the diagonal\<close>

lemma transpose_reads:
  assumes "permute_ok M" "torch_transpose_equivalent M t dim0 dim1 = Inr r"
  shows "shape_of M r = swap_at (nat (norm_dim (length (shape_of M t)) dim0)) (nat (norm_dim (length (shape_of M t)) dim1)) (shape_of M t)"
    "inb (shape_of M t) ix \<Longrightarrow> elem_at M r (swap_at (nat (norm_dim (length (shape_of M t)) dim0))
       (nat (norm_dim (length (shape_of M t)) dim1)) ix) = elem_at M t ix"
proof -
  let ?n = "length (shape_of M t)"
  define a b where ab: "a = nat (norm_dim ?n dim0)" "b = nat (norm_dim ?n dim1)"
  have lt: "a < ?n" "b < ?n"
    using assms(2) by (auto simp: torch_transpose_equivalent_def Let_def ab split: if_splits)
  have id: "swap_at c c xs = xs" for c and xs :: "nat list" by (simp add: swap_at_def)
  have r: "r = (if a = b then t else f_permute M t (swap_at a b [0..<?n]))"
    using assms(2) lt by (auto simp: torch_transpose_equivalent_def Let_def ab split: if_splits)
  note p = swap_upt[OF lt]
  show "shape_of M r = swap_at (nat (norm_dim ?n dim0)) (nat (norm_dim ?n dim1)) (shape_of M t)"
    using assms(1) p(1,2) p(3)[of "shape_of M t"] id[of b "shape_of M t"] unfolding r ab[symmetric] by (auto simp: permute_shape)
  show "elem_at M r (swap_at (nat (norm_dim ?n dim0)) (nat (norm_dim ?n dim1)) ix) = elem_at M t ix"
    if "inb (shape_of M t) ix"
  proof (cases "a = b")
    case True
    then show ?thesis unfolding r ab[symmetric] by (simp add: id)
  next
    case False
    note permute_elem[OF assms(1) p(1,2) that]
    then show ?thesis using False p(3)[of ix] inb_length[OF that] unfolding r ab[symmetric] by simp
  qed
qed

lemma diagonal_elem:
  assumes M: "constant_ok M" "permute_ok M" "reshape_ok M" "gather_ok M"
    and d: "d1 < length s" "d2 < length s" "d1 \<noteq> d2" and s: "s = shape_of M input"
    and rest: "rest = rest_axes (length s) d1 d2"
    and flat: "flat = f_reshape M (f_permute M input (rest @ [d1, d2])) (map ((!) s) rest @ [s ! d1 * s ! d2])"
    and first: "first_row = max 0 (- offset)"
    and fits: "first_row + int len \<le> int (s ! d1)" "first_row + int len + offset \<le> int (s ! d2)"
    and r: "r = f_gather M flat (f_constant M [len] (map (\<lambda>i. (first_row + int i) * (int (s ! d2) + 1) + offset) [0..<len])) (length rest)"
  shows "shape_of M r = map ((!) s) rest @ [len]"
    "inb s ix \<Longrightarrow> int (ix ! d2) = int (ix ! d1) + offset \<Longrightarrow> int (ix ! d1) = first_row + int i \<Longrightarrow> i < len \<Longrightarrow>
       elem_at M r (map ((!) ix) rest @ [i]) = elem_at M input ix"
proof -
  let ?R = "map ((!) s) rest"
  let ?m = "f_permute M input (rest @ [d1, d2])"
  let ?ps = "map (\<lambda>i. (first_row + int i) * (int (s ! d2) + 1) + offset) [0..<len]"
  note p = rest_perm[OF d, folded rest]
  have m: "shape_of M ?m = ?R @ [s ! d1, s ! d2]"
    using p permute_shape[OF M(2) p(1), of input] by (simp add: s)
  have fl: "shape_of M flat = ?R @ (s ! d1 * s ! d2) # []"
    unfolding flat by (simp add: reshape_shape[OF M(3)] m)
  have rc: "r = f_gather M flat (f_constant M [length ?ps] ?ps) (length ?R)" by (simp add: r)
  show "shape_of M r = ?R @ [len]" unfolding rc using take_shape[OF M(1,4) fl refl, of ?ps] by simp
  assume a: "inb s ix" "int (ix ! d2) = int (ix ! d1) + offset" "int (ix ! d1) = first_row + int i" "i < len"
  let ?k = "ix ! d1 * s ! d2 + ix ! d2"
  have k: "(first_row + int i) * (int (s ! d2) + 1) + offset = int ?k" using a(2,3) by (simp add: algebra_simps)
  have lt: "ix ! d1 < s ! d1" "ix ! d2 < s ! d2" using inb_nth[OF a(1)] d by auto
  have bound: "?k < s ! d1 * s ! d2" using ravel_less[of "[s ! d1, s ! d2]" "[ix ! d1, ix ! d2]"] lt by simp
  have rx: "inb ?R (map ((!) ix) rest)" by (rule inb_map[OF a(1)]) (auto simp: rest rest_axes_def)
  have "elem_at M r (map ((!) ix) rest @ i # []) = elem_at M flat (map ((!) ix) rest @ ?k # [])"
    unfolding rc by (rule take_elem[OF M(1,4) fl refl rx _ _ _ bound]) (use a(4) k in auto)
  also have "\<dots> = elem_at M ?m (map ((!) ix) rest @ [ix ! d1, ix ! d2])"
  proof -
    have "ravel (?R @ [s ! d1 * s ! d2]) (map ((!) ix) rest @ [?k]) =
        ravel (?R @ [s ! d1, s ! d2]) (map ((!) ix) rest @ [ix ! d1, ix ! d2])"
      by (simp add: ravel_append)
    moreover have "inb (?R @ [s ! d1 * s ! d2]) (map ((!) ix) rest @ [?k])"
      "inb (?R @ [s ! d1, s ! d2]) (map ((!) ix) rest @ [ix ! d1, ix ! d2])"
      using rx lt bound by (auto simp: inb_append2)
    ultimately show ?thesis unfolding flat by (intro reshape_elem[OF M(3)]) (simp_all add: m)
  qed
  also have "\<dots> = elem_at M input ix"
    using permute_elem[OF M(2) p(1), of input ix] p(2) a(1) by (simp add: s)
  finally show "elem_at M r (map ((!) ix) rest @ [i]) = elem_at M input ix" .
qed
text \<open>\<open>diagonal\<close> over two different axes returns the remaining axes followed by one whose extent counts the
  rows \<open>i\<close> with \<open>i + offset\<close> a column, and its element there is the input's at row \<open>i\<close>, column \<open>i + offset\<close>,
  rows counted from the first one the diagonal meets.
\<close>

theorem diagonal_reads_diagonal:
  assumes M: "constant_ok M" "permute_ok M" "reshape_ok M" "gather_ok M" "broadcast_ok M"
    and s: "shape_of M input = s" "s \<noteq> []"
    and d: "d1 = nat (dim1 mod int (length s))" "d2 = nat (dim2 mod int (length s))" "d1 \<noteq> d2"
  shows "\<exists>r. aten_diagonal M input offset dim1 dim2 = Inr r
    \<and> shape_of M r = map ((!) s) (rest_axes (length s) d1 d2)
        @ [card {i. i < s ! d1 \<and> 0 \<le> int i + offset \<and> int i + offset < int (s ! d2)}]
    \<and> (\<forall>ix. inb s ix \<and> int (ix ! d2) = int (ix ! d1) + offset \<longrightarrow>
        elem_at M r (map ((!) ix) (rest_axes (length s) d1 d2) @ [ix ! d1 - nat (- offset)]) = elem_at M input ix)"
proof -
  let ?rest = "rest_axes (length s) d1 d2"
  define f where "f = max 0 (- offset)"
  define len where "len = nat (min (int (s ! d1) - f) (int (s ! d2) - f - offset))"
  have lt: "d1 < length s" "d2 < length s" using s(2) d by (auto simp: nat_less_iff)
  have "{i. i < s ! d1 \<and> 0 \<le> int i + offset \<and> int i + offset < int (s ! d2)} = {nat f..<nat f + len}"
    by (auto simp: f_def len_def)
  then have card: "card {i. i < s ! d1 \<and> 0 \<le> int i + offset \<and> int i + offset < int (s ! d2)} = len" by simp
  have max: "max 0 (min (int (s ! d1) - f) (int (s ! d2) - f - offset)) = int len" by (auto simp: len_def)
  show ?thesis
  proof (cases "len = 0")
    case True
    let ?z = "f_broadcast M (f_constant M [] [0]) (map ((!) s) ?rest @ [0])"
    have r: "aten_diagonal M input offset dim1 dim2 = Inr ?z"
      using s(2) d(3) True unfolding aten_diagonal_def Let_def f_def[symmetric] s(1) d(1,2)[symmetric] max by simp
    have "shape_of M ?z = map ((!) s) ?rest @ [0]"
      using M(1) by (intro broadcast_shape_of[OF M(5)]) (simp add: constant_shape spreads_def)
    moreover have "\<not> (inb s ix \<and> int (ix ! d2) = int (ix ! d1) + offset)" for ix
      using True lt inb_nth[of s ix d1] inb_nth[of s ix d2] by (auto simp: len_def f_def)
    ultimately show ?thesis using r card True by auto
  next
    case False
    define flat where "flat = f_reshape M (f_permute M input (?rest @ [d1, d2])) (map ((!) s) ?rest @ [s ! d1 * s ! d2])"
    define r where "r = f_gather M flat (f_constant M [len]
        (map (\<lambda>i. (f + int i) * (int (s ! d2) + 1) + offset) [0..<len])) (length ?rest)"
    have mul: "nat (int (s ! d1) * int (s ! d2)) = s ! d1 * s ! d2" by (simp add: nat_mult_distrib)
    have res: "aten_diagonal M input offset dim1 dim2 = Inr r"
      using s(2) d(3) False unfolding aten_diagonal_def Let_def f_def[symmetric] r_def flat_def s(1) d(1,2)[symmetric] max mul
      by simp
    have fits: "f + int len \<le> int (s ! d1)" "f + int len + offset \<le> int (s ! d2)" using False by (auto simp: len_def)
    note de = diagonal_elem[OF M(1-4) lt d(3) s(1)[symmetric] refl flat_def f_def fits r_def]
    have "elem_at M r (map ((!) ix) ?rest @ [ix ! d1 - nat (- offset)]) = elem_at M input ix"
      if "inb s ix" "int (ix ! d2) = int (ix ! d1) + offset" for ix
      using that inb_nth[OF that(1) lt(1)] inb_nth[OF that(1) lt(2)]
      by (intro de(2)) (auto simp: len_def f_def)
    then show ?thesis using res de(1) card by auto
  qed
qed

lemma diagonal_reads_diagonal_witness:
  "\<exists>r. aten_diagonal ref_ops ([3, 4], \<lambda>ix. int (10 * ix ! 0 + ix ! 1)) 1 (-2) 1 = Inr r \<and> shape_of ref_ops r = [3]
     \<and> elem_at ref_ops r [2] = 23"
proof -
  let ?t = "([3, 4], \<lambda>ix. int (10 * ix ! 0 + ix ! 1)) :: nat list \<times> (nat list \<Rightarrow> int)"
  have d: "(0::nat) = nat ((-2) mod int (length [3, 4::nat]))" "(1::nat) = nat (1 mod int (length [3, 4::nat]))" "(0::nat) \<noteq> 1"
    by simp_all
  have e: "inb [3, 4] [2, 3] \<and> int ([2, 3] ! 1) = int ([2, 3] ! 0) + 1" by simp
  have c: "card {i. i < [3, 4::nat] ! 0 \<and> 0 \<le> int i + 1 \<and> int i + 1 < int ([3, 4::nat] ! 1)} = 3"
  proof -
    have "{i. i < [3, 4::nat] ! 0 \<and> 0 \<le> int i + 1 \<and> int i + 1 < int ([3, 4::nat] ! 1)} = {..<3}" by auto
    then show ?thesis by simp
  qed
  have rest: "rest_axes (length [3, 4::nat]) 0 1 = []" by (simp add: rest_axes_def upt_rec)
  have t: "shape_of ref_ops ?t = [3, 4]" "[3, 4::nat] \<noteq> []" by simp_all
  from diagonal_reads_diagonal[OF ref_constant ref_permute ref_reshape ref_gather ref_broadcast t d, of 1]
  obtain r where r: "aten_diagonal ref_ops ?t 1 (-2) 1 = Inr r" "shape_of ref_ops r = [3]"
      and el: "\<forall>ix. inb [3, 4] ix \<and> int (ix ! 1) = int (ix ! 0) + 1 \<longrightarrow>
        elem_at ref_ops r (map ((!) ix) [] @ [ix ! 0 - nat (- 1)]) = elem_at ref_ops ?t ix"
    unfolding c rest by (elim exE conjE) simp
  have "elem_at ref_ops r [2] = 23" using el[THEN spec, of "[2, 3]"] e by simp
  then show ?thesis using r by blast
qed
subsection \<open>flip reads backwards\<close>

definition flip_at :: "nat list \<Rightarrow> nat set \<Rightarrow> nat list \<Rightarrow> nat list" where
  "flip_at s D ix = map (\<lambda>a. if a \<in> D then s ! a - 1 - ix ! a else ix ! a) [0..<length s]"

lemma flip_axis_reads:
  assumes M: "constant_ok M" "gather_ok M" and s: "shape_of M input = s" "shape_of M t = s" "a < length s"
  shows "shape_of M (flip_axis M input t a) = s"
    "inb s ix \<Longrightarrow> elem_at M (flip_axis M input t a) ix = elem_at M t (ix[a := s ! a - 1 - ix ! a])"
proof -
  let ?ps = "map int (rev [0..<s ! a])"
  note ta = take_axis[OF M s(2,3), of ?ps]
  show "shape_of M (flip_axis M input t a) = s"
    using ta(1) s by (simp add: flip_axis_def Let_def)
  assume ix: "inb s ix"
  then have lt: "ix ! a < s ! a" "length ix = length s" using s(3) by (auto dest: inb_nth inb_length)
  show "elem_at M (flip_axis M input t a) ix = elem_at M t (ix[a := s ! a - 1 - ix ! a])"
  proof (cases "s ! a \<le> 1")
    case True
    then have e: "s ! a - 1 - ix ! a = ix ! a" using lt by simp
    show ?thesis using True s(1) unfolding e list_update_id by (simp add: flip_axis_def Let_def)
  next
    case False
    have "?ps ! (ix ! a) = int (s ! a - 1 - ix ! a)" using lt by (simp add: rev_nth)
    then show ?thesis using ta(2)[of ix "s ! a - 1 - ix ! a"] False ix lt s(1) by (simp add: flip_axis_def Let_def)
  qed
qed

lemma flip_axes_read:
  assumes M: "constant_ok M" "gather_ok M" and s: "shape_of M input = s"
  shows "shape_of M t = s \<Longrightarrow> distinct ds \<Longrightarrow> set ds \<subseteq> {..<length s} \<Longrightarrow>
    shape_of M (foldl (flip_axis M input) t ds) = s \<and>
    (\<forall>ix. inb s ix \<longrightarrow> elem_at M (foldl (flip_axis M input) t ds) ix = elem_at M t (flip_at s (set ds) ix))"
proof (induction ds arbitrary: t)
  case Nil
  have "flip_at s {} ix = ix" if "inb s ix" for ix using inb_length[OF that] by (auto simp: flip_at_def intro: nth_equalityI)
  then show ?case using Nil by simp
next
  case (Cons a ds)
  let ?t = "flip_axis M input t a"
  have a: "a < length s" "a \<notin> set ds" using Cons.prems by auto
  note st = flip_axis_reads[OF M s Cons.prems(1) a(1)]
  have IH: "shape_of M (foldl (flip_axis M input) ?t ds) = s \<and>
      (\<forall>ix. inb s ix \<longrightarrow> elem_at M (foldl (flip_axis M input) ?t ds) ix = elem_at M ?t (flip_at s (set ds) ix))"
    using Cons.IH[OF st(1)] Cons.prems by simp
  have "elem_at M ?t (flip_at s (set ds) ix) = elem_at M t (flip_at s (set (a # ds)) ix)" if ix: "inb s ix" for ix
  proof -
    have "flip_at s (set ds) ix ! b < s ! b" if "b < length s" for b
      using inb_nth[OF ix that] that by (auto simp: flip_at_def)
    then have "inb s (flip_at s (set ds) ix)" by (intro inbI) (simp_all add: flip_at_def)
    note st(2)[OF this]
    moreover have "(flip_at s (set ds) ix)[a := s ! a - 1 - flip_at s (set ds) ix ! a] = flip_at s (set (a # ds)) ix"
      using a by (auto simp: flip_at_def nth_list_update intro!: nth_equalityI)
    ultimately show ?thesis by simp
  qed
  then show ?case using IH by simp
qed

text \<open>\<open>flip\<close> keeps the shape and, at every index, holds the input's element with each listed axis (negative
  ones counted from the end, repeats once) read from its far end.
\<close>

theorem flip_reads_backwards:
  assumes "constant_ok M" "gather_ok M" "shape_of M input = s" "s \<noteq> []"
    and "D = (\<lambda>d. nat (d mod int (length s))) ` set dims"
  shows "shape_of M (aten_flip M input dims) = s"
    and "inb s ix \<Longrightarrow> elem_at M (aten_flip M input dims) ix =
      elem_at M input (map (\<lambda>a. if a \<in> D then s ! a - 1 - ix ! a else ix ! a) [0..<length s])"
proof -
  define ds where "ds = sort (remdups (map (\<lambda>d. nat (d mod int (length s))) dims))"
  have ds: "distinct ds" "set ds = D" "D \<subseteq> {..<length s}" using assms(4,5) by (auto simp: ds_def nat_less_iff)
  have flip: "aten_flip M input dims = foldl (flip_axis M input) input ds"
    using assms(3,4) by (simp add: aten_flip_def Let_def ds_def)
  note r = flip_axes_read[OF assms(1-3) assms(3) ds(1), unfolded ds(2), OF ds(3)]
  show "shape_of M (aten_flip M input dims) = s" unfolding flip using r by blast
  show "elem_at M (aten_flip M input dims) ix =
      elem_at M input (map (\<lambda>a. if a \<in> D then s ! a - 1 - ix ! a else ix ! a) [0..<length s])" if "inb s ix"
    unfolding flip flip_at_def[symmetric] using r that by blast
qed

lemma flip_reads_backwards_witness:
  "elem_at ref_ops (aten_flip ref_ops ([2, 3], \<lambda>ix. int (10 * ix ! 0 + ix ! 1)) [-1, 1]) [1, 0] = 12"
  using flip_reads_backwards(2)[OF ref_constant ref_gather, of "([2, 3], \<lambda>ix. int (10 * ix ! 0 + ix ! 1))" "[2, 3]" "{1}" "[-1, 1]" "[1, 0]"]
  by (simp add: upt_rec)

subsection \<open>unfold reads windows\<close>

lemma windows_order:
  assumes "d + 2 \<le> n"
  shows "filter (\<lambda>a. a \<noteq> d + 1) [0..<n] = [0..<d + 1] @ [d + 2..<n]"
proof -
  have "[0..<n] = [0..<d + 1] @ (d + 1) # [d + 2..<n]"
    using assms upt_add_eq_append[of 0 "d + 1" "n - d - 1"] by (simp add: upt_conv_Cons)
  moreover have "filter (\<lambda>a. a \<noteq> d + 1) [d + 2..<n] = [d + 2..<n]" "filter (\<lambda>a. a \<noteq> d + 1) [0..<d + 1] = [0..<d + 1]"
    by (simp_all add: filter_id_conv)
  ultimately show ?thesis by simp
qed

lemma windows_map:
  assumes "d = length xs" "n = d + 2 + length ys"
  shows "map ((!) (xs @ w # k # ys)) ([0..<d + 1] @ [d + 2..<n] @ [d + 1]) = xs @ w # ys @ [k]"
  using map_nth_slices(1)[of "xs @ w # k # ys" "d + 2"] map_nth_slices(2)[of "d + 1" "xs @ w # k # ys"] assms
  by (simp add: nth_append del: upt_Suc)

lemma grid_nth:
  "i < m \<Longrightarrow> k < n \<Longrightarrow> concat (map (\<lambda>w. map (f w) [0..<n]) [0..<m]) ! (i * n + k) = f i k"
  "length (concat (map (\<lambda>w. map (f w) [0..<n]) [0..<m])) = m * n"
proof -
  show len: "length (concat (map (\<lambda>w. map (f w) [0..<n]) [0..<m])) = m * n" for m
    by (induction m) auto
  show "i < m \<Longrightarrow> k < n \<Longrightarrow> concat (map (\<lambda>w. map (f w) [0..<n]) [0..<m]) ! (i * n + k) = f i k"
  proof (induction m)
    case (Suc m)
    show ?case
    proof (cases "i = m")
      case False
      then have "Suc i * n \<le> m * n" using Suc.prems by (intro mult_right_mono) auto
      then have "i * n + k < m * n" using Suc.prems by simp
      then show ?thesis using Suc False len[of m] by (simp add: nth_append)
    qed (use Suc.prems len[of m] in \<open>simp add: nth_append\<close>)
  qed simp
qed

text \<open>\<open>unfold\<close> of an axis with at least \<open>win\<close> elements has \<open>(n - win) / step + 1\<close> windows on that axis and a new
  last axis of \<open>win\<close> elements: element \<open>k\<close> of window \<open>i\<close> is the input's at \<open>i * step + k\<close>.
\<close>

theorem unfold_reads_windows:
  assumes M: "constant_ok M" "gather_ok M" "permute_ok M"
    and s: "shape_of M input = s @ n # s'" "dimension mod int (length (s @ n # s')) = int (length s)"
    and w: "0 < win" "win \<le> n" "0 < step"
  shows "\<exists>r. aten_unfold M input dimension win step = Inr r \<and> shape_of M r = s @ ((n - win) div step + 1) # s' @ [win]
    \<and> (\<forall>ix i jx k. inb s ix \<and> i < (n - win) div step + 1 \<and> inb s' jx \<and> k < win \<longrightarrow>
         elem_at M r (ix @ i # jx @ [k]) = elem_at M input (ix @ (i * step + k) # jx))"
proof -
  let ?W = "(n - win) div step + 1" and ?d = "length s"
  let ?xs = "concat (map (\<lambda>w. map (\<lambda>k. int (w * step + k)) [0..<win]) [0..<?W])"
  define g where "g = f_gather M input (f_constant M [?W, win] ?xs) ?d"
  define order where "order = [0..<?d + 1] @ [?d + 2..<?d + 2 + length s'] @ [?d + 1]"
  have W: "nat ((int n - int win) div int step + 1) = ?W"
    using w by (simp add: of_nat_diff[symmetric] zdiv_int[symmetric] nat_add_distrib del: of_nat_diff)
  have ord: "filter (\<lambda>a. a \<noteq> ?d + 1) [0..<length (s @ n # s') + 1] @ [?d + 1] = order"
    using windows_order[of ?d "?d + 2 + length s'"] by (simp add: order_def del: upt_Suc)
  have ax: "nat (dimension mod int (length (s @ n # s'))) = ?d" and n: "(s @ n # s') ! ?d = n" using s(2) by simp_all
  have res: "aten_unfold M input dimension win step = Inr (f_permute M g order)"
    using w unfolding aten_unfold_def Let_def s(1) ax n W ord g_def[symmetric] by simp
  have len: "length ?xs = prod_list [?W, win]" unfolding grid_nth by simp
  have gs: "shape_of M g = s @ ?W # win # s'"
    using gather_shape[OF M(2) s(1) refl] constant_shape[OF M(1) len] by (simp add: g_def)
  have p: "distinct order" "set order = {..<length (shape_of M g)}" unfolding order_def gs by auto
  have sh: "shape_of M (f_permute M g order) = s @ ?W # s' @ [win]"
    using permute_shape[OF M(3) p] windows_map[of ?d s "?d + 2 + length s'" s' ?W win] by (simp add: gs order_def)
  have "elem_at M (f_permute M g order) (ix @ i # jx @ [k]) = elem_at M input (ix @ (i * step + k) # jx)"
    if h: "inb s ix" "i < ?W" "inb s' jx" "k < win" for ix i jx k
  proof -
    have l: "length ix = length s" "length jx = length s'" using h by (auto dest: inb_length)
    have "inb (shape_of M g) (ix @ i # k # jx)" using h l by (simp add: gs inb_append2)
    then have "elem_at M (f_permute M g order) (ix @ i # jx @ [k]) = elem_at M g (ix @ i # k # jx)"
      using permute_elem[OF M(3) p, of "ix @ i # k # jx"] windows_map[of ?d ix "?d + 2 + length s'" jx i k] l by (simp add: order_def)
    also have "\<dots> = elem_at M input (ix @ (i * step + k) # jx)"
    proof -
      have "(i * step + k) < n"
      proof -
        have "i * step \<le> (n - win) div step * step" using h(2) by (intro mult_right_mono) auto
        also have "\<dots> \<le> n - win" by (simp add: div_times_less_eq_dividend)
        finally show ?thesis using h(4) w(2) by simp
      qed
      moreover have "to_num M (elem_at M (f_constant M [?W, win] ?xs) [i, k]) = int (i * step + k)"
        using constant_elem[OF M(1) len, of "[i, k]"] h(2,4) grid_nth(1)[OF h(2,4)] by simp
      ultimately have "elem_at M g (ix @ [i, k] @ jx) = elem_at M input (ix @ (i * step + k) # jx)"
        unfolding g_def by (intro gather_elem[OF M(2) s(1) refl h(1) _ h(3)])
          (use h(2,4) constant_shape[OF M(1) len] in auto)
      then show ?thesis by simp
    qed
    finally show ?thesis .
  qed
  then show ?thesis using res sh by blast
qed

lemma unfold_reads_windows_witness:
  "\<exists>r. aten_unfold ref_ops ([2, 5], \<lambda>ix. int (10 * ix ! 0 + ix ! 1)) (-1) 3 2 = Inr r \<and> shape_of ref_ops r = [2, 2, 3]
     \<and> elem_at ref_ops r [1, 1, 0] = 12"
proof -
  let ?t = "([2, 5], \<lambda>ix. int (10 * ix ! 0 + ix ! 1)) :: nat list \<times> (nat list \<Rightarrow> int)"
  have t: "shape_of ref_ops ?t = [2] @ 5 # []" "(-1) mod int (length ([2] @ 5 # [])) = int (length [2::nat])" by simp_all
  have w: "(0::nat) < 3" "(3::nat) \<le> 5" "(0::nat) < 2" by simp_all
  from unfold_reads_windows[OF ref_constant ref_gather ref_permute t w]
  obtain r where r: "aten_unfold ref_ops ?t (-1) 3 2 = Inr r" "shape_of ref_ops r = [2, 2, 3]"
    and el: "\<forall>ix i jx k. inb [2] ix \<and> i < (5 - 3) div 2 + 1 \<and> inb [] jx \<and> k < 3 \<longrightarrow>
         elem_at ref_ops r (ix @ i # jx @ [k]) = elem_at ref_ops ?t (ix @ (i * 2 + k) # jx)"
    by (elim exE conjE) simp
  have "elem_at ref_ops r [1, 1, 0] = 12"
    using el[THEN spec, of "[1]", THEN spec, of 1, THEN spec, of "[]", THEN spec, of 0] by simp
  then show ?thesis using r by blast
qed

end
