(* ===== verification/AT_Gather.thy ===== *)
theory AT_Gather
  imports AT_Views
begin

text \<open>
  torch's elementwise gather and scatter (\<^verbatim>\<open>aten_functions.py\<close>: \<open>_dim_coords\<close>, \<open>aten_gather\<close>, \<open>aten_scatter_add\<close>,
  \<open>aten_index_add\<close>, \<open>aten_select_scatter\<close>, \<open>aten_index_select\<close>) built from MAX's operations on coordinate vectors. The coordinate tensor
  carries, at every index, that index with the entry of one axis replaced by the index tensor's value.
\<close>

subsection \<open>Definitions\<close>

definition axis_shape :: "nat \<Rightarrow> nat \<Rightarrow> nat \<Rightarrow> nat list" where
  "axis_shape rank axis n = map (\<lambda>a. if a = axis then n else 1) [0..<rank]"

definition dim_coords :: "('t, 'v, 'z) max_ops_scheme \<Rightarrow> 't \<Rightarrow> int \<Rightarrow> 't \<Rightarrow> 't result" where
  "dim_coords M input d index =
     (let rank = length (shape_of M input) in
      if rank = 0 then Inl (ZeroDivisionError ''integer modulo by zero'')
      else Inr (f_stack_last M (map (\<lambda>axis.
        if axis = nat (d mod int rank) then index
        else f_broadcast M (f_reshape M (f_arange M (shape_of M index ! axis))
               (axis_shape rank axis (shape_of M index ! axis))) (shape_of M index)) [0..<rank])))"

definition aten_gather :: "('t, 'v, 'z) max_ops_scheme \<Rightarrow> 't \<Rightarrow> int \<Rightarrow> 't \<Rightarrow> 't result" where
  "aten_gather M input d index =
     bind_res (dim_coords M input d index) (\<lambda>coords. Inr (f_gather_nd M input coords))"

definition aten_scatter_add :: "('t, 'v, 'z) max_ops_scheme \<Rightarrow> 't \<Rightarrow> int \<Rightarrow> 't \<Rightarrow> 't \<Rightarrow> 't result" where
  "aten_scatter_add M input d index src =
     bind_res (dim_coords M input d index) (\<lambda>coords.
       Inr (f_scatter_nd_add M input (f_reshape M src [prod_list (shape_of M src)])
         (f_reshape M coords [prod_list (shape_of M index), length (shape_of M input)])))"

definition aten_index_add :: "('t, 'v, 'z) max_ops_scheme \<Rightarrow> 't \<Rightarrow> int \<Rightarrow> 't \<Rightarrow> 't \<Rightarrow> 'v \<Rightarrow> 't result" where
  "aten_index_add M input d index source alpha =
     (let source = (if alpha \<noteq> of_num M 1 then f_scale M source alpha else source);
        rank = length (shape_of M source) in
      if rank = 0 then Inl (ZeroDivisionError ''integer modulo by zero'')
      else aten_scatter_add M input d (f_broadcast M (f_reshape M index
        (axis_shape rank (nat (d mod int rank)) (shape_of M index ! 0))) (shape_of M source)) source)"

definition aten_index_select :: "('t, 'v, 'z) max_ops_scheme \<Rightarrow> 't \<Rightarrow> int \<Rightarrow> 't \<Rightarrow> 't" where
  "aten_index_select M input d index = f_gather M input index (nat (norm_dim (length (shape_of M input)) d))"

definition aten_select_scatter :: "('t, 'v, 'z) max_ops_scheme \<Rightarrow> 't \<Rightarrow> 't \<Rightarrow> int \<Rightarrow> int \<Rightarrow> 't" where
  "aten_select_scatter M input src d index =
     (let s = shape_of M input; d = nat (norm_dim (length s) d); dim_size = s ! d;
        index = (if index < 0 then index + int dim_size else index);
        mask_1d = f_equal M (f_arange M dim_size) (f_constant M [] [index]);
        mask = f_reshape M mask_1d (axis_shape (length s) d dim_size);
        mask_expanded = f_broadcast M mask s;
        src_expanded = f_broadcast M (f_unsqueeze M src d) s in
      f_where M mask_expanded src_expanded input)"

subsection \<open>One axis of an index\<close>

lemma axis_shape_split: "a < r \<Longrightarrow> axis_shape r a n = replicate a 1 @ n # replicate (r - Suc a) 1"
  by (auto simp: axis_shape_def nth_append nth_Cons' intro!: nth_equalityI)

lemma prod_ones [simp]: "prod_list (replicate k (1::nat)) = 1"
  by (induction k) auto

lemma ravel_ones: "ravel (replicate k 1) ix = sum_list (take k ix)"
  by (induction k arbitrary: ix) (case_tac ix; simp)+

lemma prod_axis_shape: "a < r \<Longrightarrow> prod_list (axis_shape r a n) = n"
  by (simp add: axis_shape_split)

lemma spreads_axis: "a < length s \<Longrightarrow> n = s ! a \<Longrightarrow> spreads (axis_shape (length s) a n) s"
  by (auto simp: spreads_def axis_shape_def list_all2_conv_all_nth)

lemma shrink_axis:
  assumes "inb s ix" "a < length s" "n = s ! a"
  shows "inb (axis_shape (length s) a n) (shrink_index (axis_shape (length s) a n) ix)"
    "ravel (axis_shape (length s) a n) (shrink_index (axis_shape (length s) a n) ix) = ix ! a"
proof -
  have l: "length ix = length s" and lt: "ix ! a < s ! a" using assms inb_nth inb_length by auto
  have e: "shrink_index (axis_shape (length s) a n) ix = replicate a 0 @ ix ! a # replicate (length s - Suc a) 0"
    using l lt assms(2,3)
    by (auto simp: shrink_index_def axis_shape_def nth_append nth_Cons' intro!: nth_equalityI)
  show "inb (axis_shape (length s) a n) (shrink_index (axis_shape (length s) a n) ix)"
    using lt assms(2,3) unfolding e by (auto simp: axis_shape_def nth_append nth_Cons' intro!: inbI)
  show "ravel (axis_shape (length s) a n) (shrink_index (axis_shape (length s) a n) ix) = ix ! a"
    by (simp only: e) (simp add: axis_shape_split[OF assms(2)] ravel_append ravel_ones[simplified] sum_list_replicate)
qed

text \<open>A 1-D tensor laid along one axis of a shape.\<close>

lemma along_axis:
  assumes M: "reshape_ok M" "broadcast_ok M" and a: "a < length s" and t: "shape_of M t = [s ! a]"
  shows "shape_of M (f_broadcast M (f_reshape M t (axis_shape (length s) a (s ! a))) s) = s"
    "inb s ix \<Longrightarrow> elem_at M (f_broadcast M (f_reshape M t (axis_shape (length s) a (s ! a))) s) ix = elem_at M t [ix ! a]"
proof -
  let ?x = "axis_shape (length s) a (s ! a)"
  have p: "prod_list ?x = prod_list (shape_of M t)" by (simp add: prod_axis_shape[OF a] t)
  have sh: "shape_of M (f_reshape M t ?x) = ?x" by (rule reshape_shape[OF M(1) p])
  have sp: "spreads (shape_of M (f_reshape M t ?x)) s" unfolding sh by (rule spreads_axis[OF a refl])
  show "shape_of M (f_broadcast M (f_reshape M t ?x) s) = s" by (rule broadcast_shape_of[OF M(2) sp])
  assume ix: "inb s ix"
  have "elem_at M (f_broadcast M (f_reshape M t ?x) s) ix = elem_at M (f_reshape M t ?x) (shrink_index ?x ix)"
    using broadcast_elem[OF M(2) sp ix] by (simp add: sh)
  also have "\<dots> = elem_at M t [ix ! a]"
    using shrink_axis[OF ix a refl] inb_nth[OF ix a] by (intro reshape_elem[OF M(1) p]) (simp_all add: t)
  finally show "elem_at M (f_broadcast M (f_reshape M t ?x) s) ix = elem_at M t [ix ! a]" .
qed

text \<open>The coordinate tensor.\<close>

lemma dim_coords_reads:
  assumes M: "arange_ok M" "reshape_ok M" "broadcast_ok M" "stack_ok M"
    and s: "shape_of M input = s" "s \<noteq> []" "shape_of M index = si" "length si = length s"
    and d: "axis = nat (d mod int (length s))"
    and val: "\<And>ix. inb si ix \<Longrightarrow> to_num M (elem_at M index ix) = int (v ix)"
  obtains c where "dim_coords M input d index = Inr c" "shape_of M c = si @ [length s]"
    "\<And>ix a. inb si ix \<Longrightarrow> a < length s \<Longrightarrow> to_num M (elem_at M c (ix @ [a])) = int ((ix[axis := v ix]) ! a)"
proof -
  let ?f = "\<lambda>a. if a = nat (d mod int (length s)) then index
      else f_broadcast M (f_reshape M (f_arange M (si ! a)) (axis_shape (length s) a (si ! a))) si"
  let ?ts = "map ?f [0..<length s]"
  have ax: "axis < length s" using d s(2) by (simp add: nat_less_iff)
  have al: "shape_of M (f_broadcast M (f_reshape M (f_arange M (si ! a)) (axis_shape (length s) a (si ! a))) si) = si"
    "inb si ix \<Longrightarrow> to_num M (elem_at M (f_broadcast M (f_reshape M (f_arange M (si ! a)) (axis_shape (length s) a (si ! a))) si) ix) = int (ix ! a)"
    if "a < length s" for a ix
    using along_axis[OF M(2,3), of a si "f_arange M (si ! a)"] that s(4) arange_shape[OF M(1)] arange_elem[OF M(1)] inb_nth[of si ix a]
    by simp_all
  have ts: "?ts \<noteq> []" "shape_of M t = si" if "t \<in> set ?ts" for t using s(2,3) al(1) that by auto
  have ne: "?ts \<noteq> []" using s(2) by simp
  show ?thesis
  proof (rule that)
    show "dim_coords M input d index = Inr (f_stack_last M ?ts)" unfolding dim_coords_def Let_def s(1,3) using s(2) by simp
    show "shape_of M (f_stack_last M ?ts) = si @ [length s]" using stack_shape[OF M(4) ne ts(2)] by simp
    fix ix a assume ix: "inb si ix" and a: "a < length s"
    have "elem_at M (f_stack_last M ?ts) (ix @ [a]) = elem_at M (?ts ! a) ix"
      by (rule stack_elem[OF M(4) ne ts(2) ix]) (use a in simp_all)
    moreover have "to_num M (elem_at M (?ts ! a) ix) = int ((ix[axis := v ix]) ! a)"
      using a ix al(2)[OF a ix] val[OF ix] d ax inb_length[OF ix] s(4) by (simp add: nth_list_update)
    ultimately show "to_num M (elem_at M (f_stack_last M ?ts) (ix @ [a])) = int ((ix[axis := v ix]) ! a)" by simp
  qed
qed
lemma redirected_inb:
  assumes "inb si ix" "length si = length s" "k < s ! axis" "\<forall>a < length s. a \<noteq> axis \<longrightarrow> si ! a \<le> s ! a"
  shows "inb s (ix[axis := k])"
proof (rule inbI)
  show "ix[axis := k] ! a < s ! a" if "a < length s" for a
    using that assms inb_nth[OF assms(1), of a] inb_length[OF assms(1)]
    by (cases "a = axis") (auto dest: order_less_le_trans)
qed (use assms in \<open>simp add: inb_length\<close>)

subsection \<open>gather\<close>

text \<open>\<open>gather\<close> along an axis has the index tensor's shape, and its element at \<open>ix\<close> is the input's at \<open>ix\<close>
  with the axis replaced by the index tensor's value there, when those values are in range and the other axes of
  the index tensor are no longer than the input's.
\<close>

theorem gather_reads_index:
  assumes M: "arange_ok M" "reshape_ok M" "broadcast_ok M" "stack_ok M" "gather_nd_ok M"
    and s: "shape_of M input = s" "s \<noteq> []" "shape_of M index = si" "length si = length s"
    and d: "axis = nat (d mod int (length s))"
    and val: "\<forall>ix. inb si ix \<longrightarrow> to_num M (elem_at M index ix) = int (v ix) \<and> v ix < s ! axis"
    and fit: "\<forall>a < length s. a \<noteq> axis \<longrightarrow> si ! a \<le> s ! a"
  shows "\<exists>r. aten_gather M input d index = Inr r \<and> shape_of M r = si
    \<and> (\<forall>ix. inb si ix \<longrightarrow> elem_at M r ix = elem_at M input (ix[axis := v ix]))"
proof -
  obtain c where c: "dim_coords M input d index = Inr c" "shape_of M c = si @ [length (shape_of M input)]"
    "\<And>ix a. inb si ix \<Longrightarrow> a < length s \<Longrightarrow> to_num M (elem_at M c (ix @ [a])) = int ((ix[axis := v ix]) ! a)"
    using dim_coords_reads[OF M(1-4) s d, of v] val s(1) by metis
  have "elem_at M (f_gather_nd M input c) ix = elem_at M input (ix[axis := v ix])" if ix: "inb si ix" for ix
  proof (rule gather_nd_elem[OF M(5) c(2) ix])
    show "inb (shape_of M input) (ix[axis := v ix])"
      unfolding s(1) using val ix by (intro redirected_inb[OF ix s(4) _ fit]) blast
    show "to_num M (elem_at M c (ix @ [a])) = int (ix[axis := v ix] ! a)" if "a < length (ix[axis := v ix])" for a
      using c(3)[OF ix] that inb_length[OF ix] s(4) by simp
  qed
  then show ?thesis using c(1) gather_nd_shape[OF M(5) c(2)] by (auto simp: aten_gather_def)
qed

lemma gather_reads_index_witness:
  "\<exists>r. aten_gather ref_ops ([2, 3], \<lambda>ix. int (10 * ix ! 0 + ix ! 1)) (-1) ([1, 2], \<lambda>ix. if ix = [0, 0] then 2 else 1) = Inr r
     \<and> elem_at ref_ops r [0, 0] = 2 \<and> elem_at ref_ops r [0, 1] = 1"
proof -
  let ?t = "([2, 3], \<lambda>ix. int (10 * ix ! 0 + ix ! 1)) :: nat list \<times> (nat list \<Rightarrow> int)"
  let ?i = "([1, 2], \<lambda>ix. if ix = [0, 0] then 2 else 1) :: nat list \<times> (nat list \<Rightarrow> int)"
  let ?v = "\<lambda>ix. if ix = [0, 0::nat] then 2 else 1 :: nat"
  have s: "shape_of ref_ops ?t = [2, 3]" "[2, 3::nat] \<noteq> []" "shape_of ref_ops ?i = [1, 2]" "length [1, 2::nat] = length [2, 3::nat]"
    by simp_all
  have d: "(1::nat) = nat (-1 mod int (length [2, 3::nat]))" by simp
  have v: "\<forall>ix. inb [1, 2] ix \<longrightarrow> to_num ref_ops (elem_at ref_ops ?i ix) = int (?v ix) \<and> ?v ix < [2, 3::nat] ! 1" by simp
  have fit: "\<forall>a < length [2, 3::nat]. a \<noteq> 1 \<longrightarrow> [1, 2::nat] ! a \<le> [2, 3] ! a" by (auto simp: less_Suc_eq)
  from gather_reads_index[OF ref_arange ref_reshape ref_broadcast ref_stack ref_gather_nd s d v fit]
  obtain r where r: "aten_gather ref_ops ?t (-1) ?i = Inr r" "shape_of ref_ops r = [1, 2]"
    and el: "\<forall>ix. inb [1, 2] ix \<longrightarrow> elem_at ref_ops r ix = elem_at ref_ops ?t (ix[1 := ?v ix])" by (elim exE conjE)
  have "elem_at ref_ops r [0, 0] = 2" "elem_at ref_ops r [0, 1] = 1"
    using el[THEN spec, of "[0, 0]"] el[THEN spec, of "[0, 1]"] by simp_all
  then show ?thesis using r by blast
qed

subsection \<open>scatter_add and index_add\<close>

lemma scatter_add_sums:
  assumes M: "arange_ok M" "reshape_ok M" "broadcast_ok M" "stack_ok M" "scatter_nd_add_ok M"
    and s: "shape_of M input = s" "s \<noteq> []" "shape_of M index = si" "length si = length s" "shape_of M src = si"
    and d: "axis = nat (d mod int (length s))"
    and val: "\<forall>ix. inb si ix \<longrightarrow> to_num M (elem_at M index ix) = int (v ix) \<and> v ix < s ! axis"
    and fit: "\<forall>a < length s. a \<noteq> axis \<longrightarrow> si ! a \<le> s ! a"
  shows "\<exists>r. aten_scatter_add M input d index src = Inr r \<and> shape_of M r = s
    \<and> (\<forall>jx. inb s jx \<longrightarrow> elem_at M r jx = elem_at M input jx + (\<Sum>ix | inb si ix \<and> ix[axis := v ix] = jx. elem_at M src ix))"
proof -
  obtain c where c: "dim_coords M input d index = Inr c" "shape_of M c = si @ [length s]"
    "\<And>ix a. inb si ix \<Longrightarrow> a < length s \<Longrightarrow> to_num M (elem_at M c (ix @ [a])) = int ((ix[axis := v ix]) ! a)"
    using dim_coords_reads[OF M(1-4) s(1-4) d, of v] val by metis
  let ?n = "prod_list si"
  let ?u = "f_reshape M src [?n]" and ?c = "f_reshape M c [?n, length s]"
  define g where "g i = (unravel si i)[axis := v (unravel si i)]" for i
  have u: "shape_of M ?u = [?n]" by (rule reshape_shape[OF M(2)]) (simp add: s)
  have cs: "shape_of M ?c = [?n, length (shape_of M input)]" using reshape_shape[OF M(2), of "[?n, length s]" c] c(2) s(1) by simp
  have g: "inb (shape_of M input) (g i) \<and> (\<forall>a < length (g i). to_num M (elem_at M ?c [i, a]) = int (g i ! a))"
    if "i < ?n" for i
  proof -
    have ix: "inb si (unravel si i)" by (rule unravel_inb[OF that])
    have len: "length (g i) = length s" using inb_length[OF ix] s(4) by (simp add: g_def)
    have "inb s (g i)" unfolding g_def using val ix by (intro redirected_inb[OF ix s(4) _ fit]) blast
    moreover have "to_num M (elem_at M ?c [i, a]) = int (g i ! a)" if "a < length (g i)" for a
    proof -
      have "elem_at M ?c [i, a] = elem_at M c (unravel si i @ [a])"
        using \<open>i < ?n\<close> that len ix inb_length[OF ix] ravel_unravel[OF \<open>i < ?n\<close>]
        by (intro reshape_elem[OF M(2)]) (simp_all add: c(2) inb_append2 ravel_append)
      then show ?thesis using c(3)[OF ix] that len by (simp add: g_def)
    qed
    ultimately show ?thesis using s(1) by simp
  qed
  let ?r = "f_scatter_nd_add M input ?u ?c"
  have r: "shape_of M ?r = s" "inb s jx \<Longrightarrow> elem_at M ?r jx = elem_at M input jx + (\<Sum>i | i < ?n \<and> g i = jx. elem_at M ?u [i])" for jx
    using M(5) u cs g s(1) unfolding scatter_nd_add_ok_def by blast+
  have "(\<Sum>i | i < ?n \<and> g i = jx. elem_at M ?u [i]) = (\<Sum>ix | inb si ix \<and> ix[axis := v ix] = jx. elem_at M src ix)" for jx
    by (rule sum.reindex_bij_witness[of _ "ravel si" "unravel si"])
      (auto simp: unravel_ravel ravel_unravel unravel_inb ravel_less g_def s intro!: reshape_elem[OF M(2), symmetric])
  then show ?thesis using c(1) r by (auto simp: aten_scatter_add_def s)
qed
text \<open>\<open>index_add\<close> adds, to every element of the input, \<open>alpha\<close> times each element of the source whose index along
  the axis the index tensor sends there, an index listed twice adding twice.
\<close>

theorem index_add_sums:
  assumes M: "arange_ok M" "reshape_ok M" "broadcast_ok M" "stack_ok M" "scatter_nd_add_ok M" "scale_ok M"
    and s: "shape_of M input = s" "s \<noteq> []" "shape_of M source = si" "length si = length s"
    and d: "axis = nat (d mod int (length s))" and i: "shape_of M index = [si ! axis]"
    and val: "\<forall>j < si ! axis. to_num M (elem_at M index [j]) = int (v j) \<and> v j < s ! axis"
    and fit: "\<forall>a < length s. a \<noteq> axis \<longrightarrow> si ! a \<le> s ! a"
  shows "\<exists>r. aten_index_add M input d index source alpha = Inr r \<and> shape_of M r = s
    \<and> (\<forall>jx. inb s jx \<longrightarrow> elem_at M r jx = elem_at M input jx
         + (\<Sum>ix | inb si ix \<and> ix[axis := v (ix ! axis)] = jx. elem_at M source ix * alpha))"
proof -
  define src where "src = (if alpha \<noteq> of_num M 1 then f_scale M source alpha else source)"
  have src: "shape_of M src = si" "\<And>ix. inb si ix \<Longrightarrow> elem_at M src ix = elem_at M source ix * alpha"
    using M(6) s(3) by (auto simp: src_def scale_ok_def)
  have ax: "axis < length si" using d s(2,4) by (simp add: nat_less_iff)
  define ind where "ind = f_broadcast M (f_reshape M index (axis_shape (length si) axis (si ! axis))) si"
  note al = along_axis[OF M(2,3) ax i, folded ind_def]
  have eq: "aten_index_add M input d index source alpha = aten_scatter_add M input d ind src"
    unfolding aten_index_add_def Let_def src_def[symmetric] src(1) i ind_def using s(2,4) d by auto
  have "\<forall>ix. inb si ix \<longrightarrow> to_num M (elem_at M ind ix) = int (v (ix ! axis)) \<and> v (ix ! axis) < s ! axis"
    using al(2) val inb_nth[OF _ ax] by simp
  from scatter_add_sums[OF M(1-5) s(1,2) al(1) s(4) src(1) d this fit]
  show ?thesis unfolding eq using src(2) by simp
qed

lemma index_add_sums_witness:
  "\<exists>r. aten_index_add ref_ops ([3], \<lambda>ix. 100) 0 ([2], \<lambda>ix. 1) ([2], \<lambda>ix. int (hd ix) + 1) 5 = Inr r
     \<and> elem_at ref_ops r [1] = 115"
proof -
  let ?t = "([3], \<lambda>ix. 100) :: nat list \<times> (nat list \<Rightarrow> int)"
  let ?i = "([2], \<lambda>ix. 1) :: nat list \<times> (nat list \<Rightarrow> int)"
  let ?src = "([2], \<lambda>ix. int (hd ix) + 1) :: nat list \<times> (nat list \<Rightarrow> int)"
  have s: "shape_of ref_ops ?t = [3]" "[3::nat] \<noteq> []" "shape_of ref_ops ?src = [2]" "length [2::nat] = length [3::nat]" by simp_all
  have d: "(0::nat) = nat (0 mod int (length [3::nat]))" "shape_of ref_ops ?i = [[2::nat] ! 0]" by simp_all
  have v: "\<forall>j < [2::nat] ! 0. to_num ref_ops (elem_at ref_ops ?i [j]) = int ((\<lambda>_. 1) j) \<and> (\<lambda>_. 1) j < [3::nat] ! 0" by simp
  have fit: "\<forall>a < length [3::nat]. a \<noteq> 0 \<longrightarrow> [2::nat] ! a \<le> [3] ! a" by simp
  from index_add_sums[OF ref_arange ref_reshape ref_broadcast ref_stack ref_scatter_nd_add ref_scale s d v fit, of 5]
  obtain r where r: "aten_index_add ref_ops ?t 0 ?i ?src 5 = Inr r" "shape_of ref_ops r = [3]"
    and el: "\<forall>jx. inb [3] jx \<longrightarrow> elem_at ref_ops r jx = elem_at ref_ops ?t jx
         + (\<Sum>ix | inb [2] ix \<and> ix[0 := (\<lambda>_. 1) (ix ! 0)] = jx. elem_at ref_ops ?src ix * 5)" by (elim exE conjE)
  have "{ix. inb [2] ix \<and> ix[0 := 1] = [1]} = {[0], [1]}" by (auto simp: less_Suc_eq numeral_2_eq_2)
  then have "elem_at ref_ops r [1] = 115" using el[THEN spec, of "[1]"] by simp
  then show ?thesis using r by blast
qed

subsection \<open>select_scatter\<close>

text \<open>\<open>select_scatter\<close> keeps the input except where the axis has the (possibly negative) index: there it holds the
  source's element at the index without that axis.
\<close>

theorem select_scatter_replaces:
  assumes M: "constant_ok M" "arange_ok M" "equal_ok M" "reshape_ok M" "broadcast_ok M" "unsqueeze_ok M" "where_ok M"
    and s: "shape_of M input = s @ n # s'" "shape_of M src = s @ s'"
    and d: "norm_dim (length (s @ n # s')) d = int (length s)"
    and k: "k < n" "index = int k \<or> index = int k - int n"
  shows "shape_of M (aten_select_scatter M input src d index) = s @ n # s'"
    "inb s ix \<Longrightarrow> i < n \<Longrightarrow> inb s' jx \<Longrightarrow> elem_at M (aten_select_scatter M input src d index) (ix @ i # jx) =
       (if i = k then elem_at M src (ix @ jx) else elem_at M input (ix @ i # jx))"
proof -
  let ?S = "s @ n # s'" and ?d = "length s"
  let ?eq = "f_equal M (f_arange M n) (f_constant M [] [int k])"
  define mask where "mask = f_broadcast M (f_reshape M ?eq (axis_shape (length ?S) ?d n)) ?S"
  define new where "new = f_broadcast M (f_unsqueeze M src ?d) ?S"
  have idx: "(if index < 0 then index + int n else index) = int k" using k by auto
  have n: "?S ! ?d = n" by simp
  have r: "aten_select_scatter M input src d index = f_where M mask new input"
    unfolding aten_select_scatter_def Let_def s(1) d nat_int n idx mask_def new_def by (rule refl)
  have c: "shape_of M (f_constant M [] [int k]) = []" "to_num M (elem_at M (f_constant M [] [int k]) []) = int k"
    using constant_shape[OF M(1), of "[int k]" "[]"] constant_elem[OF M(1), of "[int k]" "[]" "[]"] by simp_all
  have eq: "shape_of M ?eq = [n]" "j < n \<Longrightarrow> (to_num M (elem_at M ?eq [j]) \<noteq> 0 \<longleftrightarrow> j = k)" for j
  proof -
    have law: "shape_of M ?eq = shape_of M (f_arange M n)" "inb (shape_of M (f_arange M n)) ix \<Longrightarrow>
        (to_num M (elem_at M ?eq ix) \<noteq> 0 \<longleftrightarrow> to_num M (elem_at M (f_arange M n) ix) = int k)" for ix
      using M(3) c unfolding equal_ok_def by simp_all
    show "shape_of M ?eq = [n]" using law(1) arange_shape[OF M(2)] by simp
    show "j < n \<Longrightarrow> (to_num M (elem_at M ?eq [j]) \<noteq> 0 \<longleftrightarrow> j = k)"
      using law(2)[of "[j]"] arange_shape[OF M(2)] arange_elem[OF M(2)] by simp
  qed
  have ax: "?d < length ?S" by simp
  note al = along_axis[OF M(4,5) ax, unfolded n, OF eq(1), folded mask_def]
  have u: "shape_of M (f_unsqueeze M src ?d) = s @ 1 # s'" by (rule unsqueeze_shape[OF M(6) s(2) refl])
  have sp: "spreads (shape_of M (f_unsqueeze M src ?d)) ?S"
    unfolding u spreads_def by (simp add: list_all2_append list_all2_same)
  have new: "shape_of M new = ?S" unfolding new_def by (rule broadcast_shape_of[OF M(5) sp])
  have w: "shape_of M (f_where M mask new input) = ?S"
    "inb ?S jx \<Longrightarrow> elem_at M (f_where M mask new input) jx =
       (if to_num M (elem_at M mask jx) \<noteq> 0 then elem_at M new jx else elem_at M input jx)" for jx
    using M(7) al(1) new s(1) unfolding where_ok_def by simp_all
  show "shape_of M (aten_select_scatter M input src d index) = ?S" unfolding r by (rule w(1))
  assume h: "inb s ix" "i < n" "inb s' jx"
  have in_S: "inb ?S (ix @ i # jx)" using h by (simp add: inb_append2 inb_length)
  have li: "length ix = length s" "length jx = length s'" using h by (auto dest: inb_length)
  have "(to_num M (elem_at M mask (ix @ i # jx)) \<noteq> 0) = (i = k)" using al(2)[OF in_S] eq(2)[OF h(2)] li by (simp add: nth_append)
  moreover have "elem_at M new (ix @ i # jx) = elem_at M src (ix @ jx)"
  proof -
    have "map2 (\<lambda>n i. if n = 1 then 0 else i) t jx = jx" if "inb t jx" for t jx :: "nat list"
      using inb_nth[OF that] inb_length[OF that] by (intro nth_equalityI) (auto, metis less_Suc0)
    then have "shrink_index (s @ 1 # s') (ix @ i # jx) = ix @ 0 # jx"
      using h li by (simp add: shrink_index_def)
    then have "elem_at M new (ix @ i # jx) = elem_at M (f_unsqueeze M src ?d) (ix @ 0 # jx)"
      using broadcast_elem[OF M(5) sp in_S] by (simp add: new_def u)
    then show ?thesis using unsqueeze_elem[OF M(6) s(2) refl h(1,3)] by simp
  qed
  ultimately show "elem_at M (aten_select_scatter M input src d index) (ix @ i # jx) =
       (if i = k then elem_at M src (ix @ jx) else elem_at M input (ix @ i # jx))"
    unfolding r w(2)[OF in_S] by metis
qed

lemma select_scatter_replaces_witness:
  "elem_at ref_ops (aten_select_scatter ref_ops ([2, 3], \<lambda>ix. 0) ([2], \<lambda>ix. int (hd ix) + 7) (-1) (-1)) [1, 2] = 8"
proof -
  have "elem_at ref_ops (aten_select_scatter ref_ops ([2, 3], \<lambda>ix. 0) ([2], \<lambda>ix. int (hd ix) + 7) (-1) (-1)) ([1] @ 2 # []) =
      (if 2 = (2::nat) then elem_at ref_ops ([2], \<lambda>ix. int (hd ix) + 7) ([1] @ []) else elem_at ref_ops ([2, 3], \<lambda>ix. 0) ([1] @ 2 # []))"
    by (rule select_scatter_replaces(2)[OF ref_constant ref_arange ref_equal ref_reshape ref_broadcast ref_unsqueeze ref_where,
        where s = "[2]" and n = 3 and s' = "[]"]) (simp_all add: norm_dim_def)
  then show ?thesis by simp
qed

end
