(* ===== verification/AT_Shapes.thy ===== *)
theory AT_Shapes
  imports AT_Tensor
begin

text \<open>
  Shape arithmetic of the operator lowerings (\<^verbatim>\<open>aten_functions.py\<close>): the two broadcasting routines, the bounds of a
  traced slice, the coordinates of a triangle, and argument normalisation. Dimensions of the broadcasting routines are any type with
  a \<open>1\<close>, compared as MAX compares dimensions. A traced symbolic integer is a function of the values its symbols
  take on a call.
\<close>

subsection \<open>Broadcasting\<close>

fun zip_longest :: "'a list \<Rightarrow> 'b list \<Rightarrow> ('a option \<times> 'b option) list" where
  "zip_longest [] [] = []"
| "zip_longest (x # xs) [] = (Some x, None) # zip_longest xs []"
| "zip_longest [] (y # ys) = (None, Some y) # zip_longest [] ys"
| "zip_longest (x # xs) (y # ys) = (Some x, Some y) # zip_longest xs ys"

fun broadcast_pair :: "'d \<Rightarrow> 'd option \<times> 'd option \<Rightarrow> 'd result" where
  "broadcast_pair one (Some a, None) = Inr a"
| "broadcast_pair one (None, Some b) = Inr b"
| "broadcast_pair one (Some a, Some b) =
     (if a = b \<or> a = one then Inr b else if b = one then Inr a
      else Inl (ValueError ''Broadcast is not possible between shapes''))"
| "broadcast_pair one (None, None) = Inl (TypeError ''unreachable'')"

definition find_broadcast_shape :: "'d \<Rightarrow> 'd list \<Rightarrow> 'd list \<Rightarrow> 'd list result" where
  "find_broadcast_shape one a b =
     bind_res (map_res (broadcast_pair one) (zip_longest (rev a) (rev b))) (\<lambda>r. Inr (rev r))"

definition broadcast_column :: "'d \<Rightarrow> 'd list \<Rightarrow> 'd result" where
  "broadcast_column one col =
     (case filter (\<lambda>d. d \<noteq> one) col of
        [] \<Rightarrow> Inr one
      | first # ds \<Rightarrow> if \<exists>d \<in> set ds. d \<noteq> first
          then Inl (ValueError ''Shapes are not broadcastable at a dimension'') else Inr first)"

definition ones_left :: "'d \<Rightarrow> nat \<Rightarrow> 'd list \<Rightarrow> 'd list" where
  "ones_left one n s = replicate (n - length s) one @ s"

definition broadcast_shape :: "'d \<Rightarrow> 'd list list \<Rightarrow> 'd list result" where
  "broadcast_shape one shapes =
     (if shapes = [] then Inr []
      else let max_rank = Max (set (map length shapes)); padded = map (ones_left one max_rank) shapes in
        map_res (broadcast_column one) (map (\<lambda>i. map (\<lambda>s. s ! i) padded) [0..<max_rank]))"

subsection \<open>The bounds of a traced slice\<close>

datatype 'r sym_bool = Known bool | Sym "'r \<Rightarrow> bool"

text \<open>\<open>known\<close> is torch's \<open>statically_known_true\<close>, \<open>hint\<close> the example values of the trace.\<close>

fun traced_branch :: "(('r \<Rightarrow> bool) \<Rightarrow> bool) \<Rightarrow> 'r option \<Rightarrow> 'r sym_bool \<Rightarrow> bool result" where
  "traced_branch known hint (Known b) = Inr b"
| "traced_branch known hint (Sym c) =
     (if known c then Inr True
      else if known (\<lambda>\<rho>. \<not> c \<rho>) then Inr False
      else case hint of None \<Rightarrow> Inl (NotImplementedError ''no example value'') | Some h \<Rightarrow> Inr (c h))"

datatype 'r sym_int = Lit int | SymI "'r \<Rightarrow> int"

fun at_call :: "'r sym_int \<Rightarrow> 'r \<Rightarrow> int" where
  "at_call (Lit n) \<rho> = n"
| "at_call (SymI f) \<rho> = f \<rho>"

fun sym_add :: "'r sym_int \<Rightarrow> 'r sym_int \<Rightarrow> 'r sym_int" where
  "sym_add (Lit a) (Lit b) = Lit (a + b)"
| "sym_add x y = SymI (\<lambda>\<rho>. at_call x \<rho> + at_call y \<rho>)"

fun sym_less :: "'r sym_int \<Rightarrow> 'r sym_int \<Rightarrow> 'r sym_bool" where
  "sym_less (Lit a) (Lit b) = Known (a < b)"
| "sym_less x y = Sym (\<lambda>\<rho>. at_call x \<rho> < at_call y \<rho>)"

definition maxsize :: int where
  "maxsize = 2 ^ 63 - 1"

text \<open>\<open>start = start + size\<close> where it is negative.\<close>

definition wrap_negative :: "(('r \<Rightarrow> bool) \<Rightarrow> bool) \<Rightarrow> 'r option \<Rightarrow> 'r sym_int \<Rightarrow> 'r sym_int \<Rightarrow> 'r sym_int result" where
  "wrap_negative known hint sz v =
     bind_res (traced_branch known hint (sym_less v (Lit 0))) (\<lambda>neg. Inr (if neg then sym_add v sz else v))"

definition statically_true :: "(('r \<Rightarrow> bool) \<Rightarrow> bool) \<Rightarrow> 'r sym_int \<Rightarrow> 'r sym_int \<Rightarrow> bool" where
  "statically_true known x y = (case (x, y) of (Lit a, Lit b) \<Rightarrow> a = b | _ \<Rightarrow> known (\<lambda>\<rho>. at_call x \<rho> = at_call y \<rho>))"

definition clamp_start ::
  "(('r \<Rightarrow> bool) \<Rightarrow> bool) \<Rightarrow> 'r option \<Rightarrow> 'r sym_int \<Rightarrow> 'r sym_int \<Rightarrow> 'r sym_int result" where
  "clamp_start known hint sz start =
     bind_res (traced_branch known hint (sym_less start (Lit 0))) (\<lambda>low.
       if low then Inr (Lit 0)
       else bind_res (traced_branch known hint (sym_less sz start)) (\<lambda>high. Inr (if high then sz else start)))"

definition clamp_end ::
  "(('r \<Rightarrow> bool) \<Rightarrow> bool) \<Rightarrow> 'r option \<Rightarrow> 'r sym_int \<Rightarrow> 'r sym_int \<Rightarrow> 'r sym_int \<Rightarrow> 'r sym_int result" where
  "clamp_end known hint sz start stop =
     (if statically_true known stop (Lit maxsize) then Inr sz
      else bind_res (traced_branch known hint (sym_less sz stop)) (\<lambda>high.
        if high then Inr sz
        else bind_res (traced_branch known hint (sym_less stop start)) (\<lambda>low. Inr (if low then start else stop))))"

definition traced_slice_bounds ::
  "(('r \<Rightarrow> bool) \<Rightarrow> bool) \<Rightarrow> 'r option \<Rightarrow> 'r sym_int \<Rightarrow> 'r sym_int \<Rightarrow> 'r sym_int \<Rightarrow> 'r sym_int \<Rightarrow> 'r sym_int \<Rightarrow>
     ('r sym_int \<times> 'r sym_int) result" where
  "traced_slice_bounds known hint sz start stop step traced_length =
     bind_res (wrap_negative known hint sz start) (\<lambda>start.
     bind_res (wrap_negative known hint sz stop) (\<lambda>stop.
     bind_res (clamp_start known hint sz start) (\<lambda>start.
     bind_res (clamp_end known hint sz start stop) (\<lambda>stop.
     if statically_true known
          (SymI (\<lambda>\<rho>. (at_call stop \<rho> - at_call start \<rho> + at_call step \<rho> - 1) div at_call step \<rho>)) traced_length
     then Inr (start, stop)
     else Inl (NotImplementedError ''slice bounds do not match the trace'')))))"

subsection \<open>The coordinates of a triangle\<close>

definition tri_bounds :: "int \<Rightarrow> int \<Rightarrow> bool \<Rightarrow> int \<Rightarrow> int \<times> int" where
  "tri_bounds col offset upper i = (if upper then (max 0 (i + offset), col) else (0, min col (i + offset + 1)))"

definition tri_coords :: "nat \<Rightarrow> nat \<Rightarrow> int \<Rightarrow> bool \<Rightarrow> (int \<times> int) list" where
  "tri_coords row col offset upper =
     concat (map (\<lambda>i. case tri_bounds (int col) offset upper i of (lo, hi) \<Rightarrow> map (\<lambda>j. (i, j)) [lo..hi - 1]) [0..int row - 1])"

definition tri_indices :: "('t, 'v, 'z) max_ops_scheme \<Rightarrow> nat \<Rightarrow> nat \<Rightarrow> int \<Rightarrow> bool \<Rightarrow> 't" where
  "tri_indices M row col offset upper =
     (let ps = tri_coords row col offset upper; rows = map fst ps; cols = map snd ps in
      if rows = [] then f_broadcast M (f_constant M [] [0]) [2, 0]
      else f_constant M [2, length rows] (rows @ cols))"

definition aten_tril_indices :: "('t, 'v, 'z) max_ops_scheme \<Rightarrow> nat \<Rightarrow> nat \<Rightarrow> int \<Rightarrow> 't" where
  "aten_tril_indices M row col offset = tri_indices M row col offset False"

definition aten_triu_indices :: "('t, 'v, 'z) max_ops_scheme \<Rightarrow> nat \<Rightarrow> nat \<Rightarrow> int \<Rightarrow> 't" where
  "aten_triu_indices M row col offset = tri_indices M row col offset True"
subsection \<open>Broadcasting yields the least common shape\<close>

lemma map_res_Inr: "map_res f xs = Inr ys \<longleftrightarrow> list_all2 (\<lambda>x y. f x = Inr y) xs ys"
  by (induction xs arbitrary: ys) (auto simp: bind_res_eq_Inr list_all2_Cons1)

lemma map_res_nths: "map_res f xs = Inr ys \<longleftrightarrow> length ys = length xs \<and> (\<forall>i < length xs. f (xs ! i) = Inr (ys ! i))"
  unfolding map_res_Inr by (auto simp: list_all2_conv_all_nth)

lemma broadcast_column_Inr:
  "broadcast_column one col = Inr d \<longleftrightarrow> (\<forall>x \<in> set col. x = one \<or> x = d) \<and> (d = one \<or> d \<in> set col)"
proof (cases "filter (\<lambda>d. d \<noteq> one) col")
  case Nil
  then have "\<forall>x \<in> set col. x = one" by (simp add: filter_empty_conv)
  then show ?thesis using Nil by (auto simp: broadcast_column_def)
next
  case (Cons first ds)
  then have "{x \<in> set col. x \<noteq> one} = insert first (set ds)" by (metis list.simps(15) set_filter)
  then have "\<And>x. x \<in> set col \<and> x \<noteq> one \<longleftrightarrow> x = first \<or> x \<in> set ds" by blast
  then show ?thesis using Cons by (auto simp: broadcast_column_def)
qed

lemma nth_ones_left: "length s \<le> n \<Longrightarrow> i < n \<Longrightarrow> ones_left one n s ! i = (if i < n - length s then one else s ! (i - (n - length s)))"
  by (simp add: ones_left_def nth_append)

lemma spreads_pad:
  "spreads s t \<longleftrightarrow> length s \<le> length t \<and> (\<forall>i < length t. ones_left 1 (length t) s ! i = 1 \<or> ones_left 1 (length t) s ! i = t ! i)"
proof (cases "length s \<le> length t")
  case True
  let ?k = "length t - length s"
  have "(\<forall>i < length s. s ! i = 1 \<or> s ! i = t ! (?k + i)) \<longleftrightarrow>
      (\<forall>i < length t. ones_left 1 (length t) s ! i = 1 \<or> ones_left 1 (length t) s ! i = t ! i)"
  proof (intro iffI allI impI)
    fix i assume a: "\<forall>i < length s. s ! i = 1 \<or> s ! i = t ! (?k + i)" "i < length t"
    show "ones_left 1 (length t) s ! i = 1 \<or> ones_left 1 (length t) s ! i = t ! i"
    proof (cases "i < ?k")
      case False
      then have "i - ?k < length s" "?k + (i - ?k) = i" using a(2) True by auto
      then show ?thesis using a(1)[rule_format, of "i - ?k"] False nth_ones_left[OF True a(2), of 1] by simp
    qed (use nth_ones_left[OF True a(2), of 1] in simp)
  next
    fix i assume a: "\<forall>i < length t. ones_left 1 (length t) s ! i = 1 \<or> ones_left 1 (length t) s ! i = t ! i" "i < length s"
    then have lt: "?k + i < length t" using True by simp
    have "ones_left 1 (length t) s ! (?k + i) = s ! i" unfolding nth_ones_left[OF True lt] by simp
    then show "s ! i = 1 \<or> s ! i = t ! (?k + i)" using a(1)[rule_format, OF lt] by metis
  qed
  then show ?thesis using True by (auto simp: spreads_def list_all2_conv_all_nth)
qed (simp add: spreads_def)

lemma broadcast_shape_Inr:
  assumes "shapes \<noteq> []" "n = Max (set (map length shapes))"
  shows "broadcast_shape one shapes = Inr out \<longleftrightarrow> length out = n
    \<and> (\<forall>i < n. (\<forall>s \<in> set shapes. ones_left one n s ! i = one \<or> ones_left one n s ! i = out ! i)
         \<and> (out ! i = one \<or> (\<exists>s \<in> set shapes. out ! i = ones_left one n s ! i)))"
  using assms by (auto simp: broadcast_shape_def Let_def map_res_nths broadcast_column_Inr)

lemma broadcast_spreads:
  assumes "broadcast_shape 1 shapes = Inr out" "s \<in> set shapes"
  shows "spreads s out"
proof -
  define n where "n = Max (set (map length shapes))"
  have "shapes \<noteq> []" "length s \<le> n" using assms(2) by (auto simp: n_def)
  then show ?thesis using assms unfolding broadcast_shape_Inr[OF \<open>shapes \<noteq> []\<close> n_def] spreads_pad by metis
qed

lemma broadcast_below:
  assumes t: "\<forall>s \<in> set shapes. spreads s t"
  shows "\<exists>out. broadcast_shape 1 shapes = Inr out \<and> spreads out t"
proof (cases "shapes = []")
  case True
  then show ?thesis by (auto simp: broadcast_shape_def spreads_def)
next
  case False
  define n where "n = Max (set (map length shapes))"
  have le: "length s \<le> n" if "s \<in> set shapes" for s using that by (auto simp: n_def)
  have "n \<in> set (map length shapes)" using False unfolding n_def by (intro Max_in) simp_all
  then have nt: "n \<le> length t" using t by (auto simp: spreads_def)
  let ?k = "length t - n"
  define out where "out = map (\<lambda>i. if \<forall>s \<in> set shapes. ones_left 1 n s ! i = 1 then 1 else t ! (?k + i)) [0..<n]"
  have col: "ones_left 1 n s ! i = 1 \<or> ones_left 1 n s ! i = t ! (?k + i)" if "s \<in> set shapes" "i < n" for s i
  proof -
    have l: "length s \<le> length t" "?k + i < length t" using le[OF that(1)] that(2) nt by simp_all
    have "?k + i < length t - length s \<longleftrightarrow> i < n - length s" "?k + i - (length t - length s) = i - (n - length s)"
      using le[OF that(1)] nt by linarith+
    then have "ones_left 1 (length t) s ! (?k + i) = ones_left 1 n s ! i"
      unfolding nth_ones_left[OF l] nth_ones_left[OF le[OF that(1)] that(2)] by simp
    then show ?thesis using t that nt unfolding spreads_pad by (metis add_less_cancel_left le_add_diff_inverse2)
  qed
  have "broadcast_shape 1 shapes = Inr out"
    using col unfolding broadcast_shape_Inr[OF False n_def] by (auto simp: out_def) metis
  moreover have "spreads out t"
    using nt by (auto simp: spreads_def out_def list_all2_conv_all_nth)
  ultimately show ?thesis by blast
qed

text \<open>C29: \<open>broadcast_shape\<close> succeeds exactly when some shape is a broadcast of every argument, and then returns
  the least one: every argument spreads to it, and it spreads to every shape that all of them spread to.
\<close>

theorem broadcast_least:
  "((\<exists>out. broadcast_shape 1 shapes = Inr out) \<longleftrightarrow> (\<exists>t. \<forall>s \<in> set shapes. spreads s t))
   \<and> (\<forall>out. broadcast_shape 1 shapes = Inr out \<longrightarrow>
        (\<forall>s \<in> set shapes. spreads s out) \<and> (\<forall>t. (\<forall>s \<in> set shapes. spreads s t) \<longrightarrow> spreads out t))"
  using broadcast_spreads[of shapes] broadcast_below[of shapes] by (metis sum.inject(2))

lemma broadcast_least_witness:
  "broadcast_shape 1 [[4, 1, 3], [2, 1], [1]] = Inr [4, 2, 3 :: nat] \<and> spreads [2, 1] [4, 2, 3]"
proof -
  have e: "broadcast_shape 1 [[4, 1, 3], [2, 1], [1]] = Inr [4, 2, 3 :: nat]" by code_simp
  with broadcast_least[of "[[4, 1, 3], [2, 1], [1]]"] show ?thesis by simp
qed

text \<open>The two broadcasting routines agree: \<open>find_broadcast_shape\<close> of two shapes returns a shape exactly when
  \<open>broadcast_shape\<close> returns it for the pair.
\<close>

lemma zip_longest_nth:
  "length (zip_longest xs ys) = max (length xs) (length ys)"
  "i < max (length xs) (length ys) \<Longrightarrow> zip_longest xs ys ! i =
     (if i < length xs then Some (xs ! i) else None, if i < length ys then Some (ys ! i) else None)"
  by (induction xs ys arbitrary: i rule: zip_longest.induct) (auto simp: nth_Cons')

lemma broadcast_pair_column:
  "oa \<noteq> None \<or> ob \<noteq> None \<Longrightarrow>
     broadcast_pair one (oa, ob) = Inr d \<longleftrightarrow> broadcast_column one [or_else oa one, or_else ob one] = Inr d"
  by (cases oa; cases ob) (auto simp: broadcast_column_Inr)

lemma nth_pad_rev:
  "length s \<le> n \<Longrightarrow> i < n \<Longrightarrow> ones_left one n s ! (n - Suc i) = or_else (if i < length s then Some (rev s ! i) else None) one"
  by (auto simp: nth_ones_left rev_nth)

lemma all_from_end: "(\<forall>i < n. P (n - Suc i)) \<longleftrightarrow> (\<forall>j < (n::nat). P j)"
proof (intro iffI allI impI)
  fix j assume "\<forall>i < n. P (n - Suc i)" "j < n"
  then show "P j" using spec[of "\<lambda>i. i < n \<longrightarrow> P (n - Suc i)" "n - Suc j"] by simp
qed simp

theorem broadcast_routines_agree:
  "find_broadcast_shape one a b = Inr s \<longleftrightarrow> broadcast_shape one [a, b] = Inr s"
proof -
  let ?n = "max (length a) (length b)"
  let ?oa = "\<lambda>i. if i < length a then Some (rev a ! i) else None" and ?ob = "\<lambda>i. if i < length b then Some (rev b ! i) else None"
  let ?col = "\<lambda>j. [ones_left one ?n a ! j, ones_left one ?n b ! j]"
  have "find_broadcast_shape one a b = Inr s \<longleftrightarrow> map_res (broadcast_pair one) (zip_longest (rev a) (rev b)) = Inr (rev s)"
    by (auto simp: find_broadcast_shape_def bind_res_eq_Inr)
  also have "\<dots> \<longleftrightarrow> length s = ?n \<and> (\<forall>i < ?n. broadcast_pair one (?oa i, ?ob i) = Inr (rev s ! i))"
    by (auto simp: map_res_nths zip_longest_nth)
  also have "\<dots> \<longleftrightarrow> length s = ?n \<and> (\<forall>i < ?n. broadcast_column one (?col (?n - Suc i)) = Inr (s ! (?n - Suc i)))"
    by (rule conj_cong[OF refl], rule all_cong) (simp add: nth_pad_rev broadcast_pair_column rev_nth)
  also have "\<dots> \<longleftrightarrow> length s = ?n \<and> (\<forall>j < ?n. broadcast_column one (?col j) = Inr (s ! j))"
    by (subst all_from_end) (rule refl)
  also have "\<dots> \<longleftrightarrow> broadcast_shape one [a, b] = Inr s"
    by (auto simp: broadcast_shape_def Let_def map_res_nths)
  finally show ?thesis .
qed
subsection \<open>The bounds of a traced slice are Python's\<close>

text \<open>What indexing with \<open>start:stop:step\<close> reads of \<open>n\<close> elements, step by step as Python defines it.\<close>

definition py_clamp :: "int \<Rightarrow> int \<Rightarrow> int" where
  "py_clamp n v = (if v < 0 then max 0 (v + n) else min v n)"

definition range_from :: "int \<Rightarrow> int \<Rightarrow> int \<Rightarrow> int list" where
  "range_from lo hi step = map (\<lambda>k. lo + int k * step) [0..<nat ((hi - lo + step - 1) div step)]"

definition py_slice :: "int \<Rightarrow> int \<Rightarrow> int \<Rightarrow> int \<Rightarrow> int list" where
  "py_slice n start stop step = range_from (py_clamp n start) (py_clamp n stop) step"

text \<open>The branches ATen's normalisation takes.\<close>

definition slice_path :: "int \<Rightarrow> int \<Rightarrow> int \<Rightarrow> bool list" where
  "slice_path n a b =
     (let w = (\<lambda>v. if v < 0 then v + n else v); lo = max 0 (min (w a) n) in
      [a < 0, b < 0, w a < 0, n < w a, n < w b, w b < lo])"

definition truth :: "'r sym_bool \<Rightarrow> 'r \<Rightarrow> bool" where
  "truth b \<rho> = (case b of Known x \<Rightarrow> x | Sym c \<Rightarrow> c \<rho>)"

lemma truth_less [simp]: "truth (sym_less x y) \<rho> \<longleftrightarrow> at_call x \<rho> < at_call y \<rho>"
  by (cases x; cases y) (simp_all add: truth_def)

lemma at_call_add [simp]: "at_call (sym_add x y) \<rho> = at_call x \<rho> + at_call y \<rho>"
  by (cases x; cases y) simp_all

lemma traced_branch_truth:
  assumes sound: "\<forall>c. known c \<longrightarrow> c \<rho>" and x: "traced_branch known (Some h) b = Inr x" and same: "truth b h = truth b \<rho>"
  shows "truth b \<rho> = x"
proof (cases b)
  case (Sym c)
  have "known c \<longrightarrow> c \<rho>" "known (\<lambda>\<rho>. \<not> c \<rho>) \<longrightarrow> \<not> c \<rho>"
    using sound[THEN spec, of c] sound[THEN spec, of "\<lambda>\<rho>. \<not> c \<rho>"] by simp_all
  then show ?thesis using x same Sym by (auto simp: truth_def split: if_splits)
qed (use x in \<open>simp add: truth_def\<close>)

lemma range_empty:
  assumes "0 < step" "hi \<le> lo"
  shows "range_from lo hi step = []"
proof -
  have "(hi - lo + step - 1) div step \<le> (step - 1) div step" using assms by (intro zdiv_mono1) simp_all
  also have "(step - 1) div step = 0" using assms by simp
  finally have "(hi - lo + step - 1) div step \<le> 0" .
  then show ?thesis by (simp add: range_from_def)
qed

lemma wrapped:
  assumes sound: "\<forall>c. known c \<longrightarrow> c \<rho>" and w: "wrap_negative known (Some h) sz v = Inr v'"
    and same: "at_call v h < 0 \<longleftrightarrow> at_call v \<rho> < 0"
  shows "at_call v' \<rho> = (if at_call v \<rho> < 0 then at_call v \<rho> + at_call sz \<rho> else at_call v \<rho>)"
    "at_call v' h = (if at_call v h < 0 then at_call v h + at_call sz h else at_call v h)"
proof -
  obtain neg where n: "traced_branch known (Some h) (sym_less v (Lit 0)) = Inr neg" "v' = (if neg then sym_add v sz else v)"
    using w by (auto simp: wrap_negative_def bind_res_eq_Inr)
  have "at_call v \<rho> < 0 \<longleftrightarrow> neg" using traced_branch_truth[OF sound n(1)] same by simp
  then show "at_call v' \<rho> = (if at_call v \<rho> < 0 then at_call v \<rho> + at_call sz \<rho> else at_call v \<rho>)"
    "at_call v' h = (if at_call v h < 0 then at_call v h + at_call sz h else at_call v h)"
    using n(2) same by auto
qed

lemma clamp_start_value:
  assumes sound: "\<forall>c. known c \<longrightarrow> c \<rho>" and l: "clamp_start known (Some h) sz a = Inr lo"
    and size_: "0 \<le> at_call sz \<rho>" "0 \<le> at_call sz h"
    and p: "at_call a h < 0 \<longleftrightarrow> at_call a \<rho> < 0" "at_call sz h < at_call a h \<longleftrightarrow> at_call sz \<rho> < at_call a \<rho>"
  shows "at_call lo \<rho> = max 0 (min (at_call a \<rho>) (at_call sz \<rho>)) \<and> at_call lo h = max 0 (min (at_call a h) (at_call sz h))"
proof -
  obtain x where x: "traced_branch known (Some h) (sym_less a (Lit 0)) = Inr x"
    and l': "(if x then Inr (Lit 0) else bind_res (traced_branch known (Some h) (sym_less sz a)) (\<lambda>high. Inr (if high then sz else a))) = Inr lo"
    using l unfolding clamp_start_def by (rule bind_resE)
  have xt: "at_call a \<rho> < 0 \<longleftrightarrow> x" using traced_branch_truth[OF sound x] p(1) by simp
  show ?thesis
  proof (cases x)
    case True
    then show ?thesis using l' xt p(1) size_ by auto
  next
    case False
    then obtain y where y: "traced_branch known (Some h) (sym_less sz a) = Inr y" "lo = (if y then sz else a)"
      using l' by (auto simp: bind_res_eq_Inr)
    have "at_call sz \<rho> < at_call a \<rho> \<longleftrightarrow> y" using traced_branch_truth[OF sound y(1)] p(2) by simp
    then show ?thesis using y(2) xt False p size_ by auto
  qed
qed

lemma clamp_end_value:
  assumes sound: "\<forall>c. known c \<longrightarrow> c \<rho>" and e: "clamp_end known (Some h) sz lo b = Inr hi"
    and size_: "at_call sz \<rho> \<le> maxsize" "at_call lo \<rho> \<le> at_call sz \<rho>"
    and p: "at_call sz h < at_call b h \<longleftrightarrow> at_call sz \<rho> < at_call b \<rho>" "at_call b h < at_call lo h \<longleftrightarrow> at_call b \<rho> < at_call lo \<rho>"
  shows "at_call hi \<rho> = max (at_call lo \<rho>) (min (at_call b \<rho>) (at_call sz \<rho>))"
proof (cases "statically_true known b (Lit maxsize)")
  case True
  have "at_call b \<rho> = maxsize"
    using True sound[THEN spec, of "\<lambda>\<rho>. at_call b \<rho> = maxsize"] by (auto simp: statically_true_def split: sym_int.splits)
  then show ?thesis using True e size_ by (auto simp: clamp_end_def)
next
  case False
  then obtain x where x: "traced_branch known (Some h) (sym_less sz b) = Inr x"
    and e': "(if x then Inr sz else bind_res (traced_branch known (Some h) (sym_less b lo)) (\<lambda>low. Inr (if low then lo else b))) = Inr hi"
    using e unfolding clamp_end_def by (simp only: if_False) (rule bind_resE)
  have xt: "at_call sz \<rho> < at_call b \<rho> \<longleftrightarrow> x" using traced_branch_truth[OF sound x] p(1) by simp
  show ?thesis
  proof (cases x)
    case True
    then show ?thesis using e' xt size_ by auto
  next
    case False
    then obtain y where y: "traced_branch known (Some h) (sym_less b lo) = Inr y" "hi = (if y then lo else b)"
      using e' by (auto simp: bind_res_eq_Inr)
    have "at_call b \<rho> < at_call lo \<rho> \<longleftrightarrow> y" using traced_branch_truth[OF sound y(1)] p(2) by simp
    then show ?thesis using y(2) xt False size_ by auto
  qed
qed

text \<open>C30: the bounds fixed at trace time for a slice are right on every call on which ATen's normalisation branches as in
  the traced example: they select the positions Python's slice of the run-time start, end and step selects,
  within \<open>0 \<le> start \<le> end \<le> size\<close>.
\<close>

theorem traced_bounds_are_slice:
  assumes sound: "\<forall>c. known c \<longrightarrow> c \<rho>"
    and res: "traced_slice_bounds known (Some h) sz start stop step traced_length = Inr (lo, hi)"
    and size_: "0 \<le> at_call sz \<rho>" "at_call sz \<rho> \<le> maxsize" "0 < at_call step \<rho>" "0 \<le> at_call sz h"
    and path: "slice_path (at_call sz h) (at_call start h) (at_call stop h) = slice_path (at_call sz \<rho>) (at_call start \<rho>) (at_call stop \<rho>)"
  shows "0 \<le> at_call lo \<rho> \<and> at_call lo \<rho> \<le> at_call hi \<rho> \<and> at_call hi \<rho> \<le> at_call sz \<rho>
    \<and> range_from (at_call lo \<rho>) (at_call hi \<rho>) (at_call step \<rho>) =
        py_slice (at_call sz \<rho>) (at_call start \<rho>) (at_call stop \<rho>) (at_call step \<rho>)"
proof -
  define w where "w \<sigma> v = (if at_call v \<sigma> < 0 then at_call v \<sigma> + at_call sz \<sigma> else at_call v \<sigma>)" for \<sigma> and v :: "'a sym_int"
  define low where "low \<sigma> = max 0 (min (w \<sigma> start) (at_call sz \<sigma>))" for \<sigma>
  have p: "at_call start h < 0 \<longleftrightarrow> at_call start \<rho> < 0" "at_call stop h < 0 \<longleftrightarrow> at_call stop \<rho> < 0"
    "w h start < 0 \<longleftrightarrow> w \<rho> start < 0" "at_call sz h < w h start \<longleftrightarrow> at_call sz \<rho> < w \<rho> start"
    "at_call sz h < w h stop \<longleftrightarrow> at_call sz \<rho> < w \<rho> stop" "w h stop < low h \<longleftrightarrow> w \<rho> stop < low \<rho>"
    using path unfolding slice_path_def Let_def w_def low_def list.inject by blast+
  obtain a b where a: "wrap_negative known (Some h) sz start = Inr a" and b: "wrap_negative known (Some h) sz stop = Inr b"
    and l: "clamp_start known (Some h) sz a = Inr lo" and e: "clamp_end known (Some h) sz lo b = Inr hi"
    using res unfolding traced_slice_bounds_def by (elim bind_resE) (simp split: if_splits)
  note wa = wrapped[OF sound a p(1), folded w_def] and wb = wrapped[OF sound b p(2), folded w_def]
  have le: "0 \<le> low \<rho>" "low \<rho> \<le> at_call sz \<rho>" using size_ by (auto simp: low_def)
  have lo: "at_call lo \<rho> = low \<rho>" "at_call lo h = low h"
    using clamp_start_value[OF sound l size_(1,4)] wa p(3,4) by (simp_all add: low_def)
  have hi: "at_call hi \<rho> = max (low \<rho>) (min (w \<rho> stop) (at_call sz \<rho>))"
    using clamp_end_value[OF sound e size_(2)] wb p(5,6) lo le by simp
  have clamp: "py_clamp (at_call sz \<rho>) (at_call start \<rho>) = low \<rho>"
    "py_clamp (at_call sz \<rho>) (at_call stop \<rho>) = max 0 (min (w \<rho> stop) (at_call sz \<rho>))"
    using size_ by (auto simp: py_clamp_def low_def w_def)
  have "range_from (low \<rho>) (max (low \<rho>) m) s = range_from (low \<rho>) (max 0 m) s" if "0 < s" for m s
    using le that by (cases "m < low \<rho>") (simp_all add: range_empty max_def)
  then show ?thesis using lo hi le size_ unfolding py_slice_def clamp by simp
qed

lemma traced_bounds_are_slice_witness:
  "range_from 7 10 1 = py_slice 10 (- 3) maxsize 1"
proof -
  define kn :: "(int \<Rightarrow> bool) \<Rightarrow> bool" where "kn c \<longleftrightarrow> c 8 \<and> c 10" for c
  have sound: "\<forall>c. kn c \<longrightarrow> c 10" by (simp add: kn_def)
  have res: "traced_slice_bounds kn (Some 8) (SymI (\<lambda>n. n)) (Lit (- 3)) (Lit maxsize) (Lit 1) (Lit 3) =
      Inr (SymI (\<lambda>n. - 3 + n), SymI (\<lambda>n. n))"
    by (simp add: traced_slice_bounds_def wrap_negative_def statically_true_def clamp_start_def clamp_end_def kn_def maxsize_def)
  show ?thesis
    using traced_bounds_are_slice[OF sound res] by (simp add: slice_path_def maxsize_def Let_def)
qed
subsection \<open>The coordinates of a triangle are the triangle's\<close>

lemma filter_upto:
  "filter (\<lambda>j. a \<le> j) [lo..hi] = [max lo a..hi]" "filter (\<lambda>j. j \<le> b) [lo..hi] = [lo..min hi b]" for a b lo hi :: int
proof -
  have "sorted (filter P [lo..hi])" "distinct (filter P [lo..hi])" for P by (auto intro: sorted_filter[of id, simplified])
  then show "filter (\<lambda>j. a \<le> j) [lo..hi] = [max lo a..hi]" "filter (\<lambda>j. j \<le> b) [lo..hi] = [lo..min hi b]"
    by (intro sorted_distinct_set_unique; auto)+
qed

lemma tri_coords_row:
  "map (\<lambda>j. (i, j)) [fst (tri_bounds (int col) offset upper i)..snd (tri_bounds (int col) offset upper i) - 1] =
     filter (\<lambda>(i, j). if upper then offset \<le> j - i else j - i \<le> offset) (map (Pair i) [0..int col - 1])"
proof -
  have "filter (\<lambda>j. offset \<le> j - i) [0..int col - 1] = filter (\<lambda>j. i + offset \<le> j) [0..int col - 1]"
    "filter (\<lambda>j. j - i \<le> offset) [0..int col - 1] = filter (\<lambda>j. j \<le> i + offset) [0..int col - 1]"
    by (intro filter_cong; auto)+
  moreover have "min (int col) (i + offset + 1) - 1 = min (int col - 1) (i + offset)" by auto
  ultimately show ?thesis by (simp add: tri_bounds_def filter_map comp_def filter_upto)
qed

lemma tri_coords_filter:
  "tri_coords row col offset upper =
     filter (\<lambda>(i, j). if upper then offset \<le> j - i else j - i \<le> offset) (List.product [0..int row - 1] [0..int col - 1])"
  unfolding tri_coords_def product_concat_map filter_concat map_map comp_def tri_coords_row[symmetric]
  by (simp add: case_prod_unfold)

text \<open>\<open>tril_indices\<close> and \<open>triu_indices\<close> hold, as columns of a two-row tensor, exactly the coordinates of the
  triangle in row-major order: those of the whole matrix with the ones on the wrong side of the diagonal left out.
\<close>

theorem tri_indices_are_triangle:
  assumes "constant_ok M" "broadcast_ok M"
    and "ps = filter (\<lambda>(i, j). if upper then offset \<le> j - i else j - i \<le> offset) (List.product [0..int row - 1] [0..int col - 1])"
  shows "shape_of M (tri_indices M row col offset upper) = [2, length ps]"
    and "k < length ps \<Longrightarrow> to_num M (elem_at M (tri_indices M row col offset upper) [0, k]) = fst (ps ! k)
      \<and> to_num M (elem_at M (tri_indices M row col offset upper) [1, k]) = snd (ps ! k)"
proof -
  have ps: "tri_coords row col offset upper = ps" by (simp add: tri_coords_filter assms(3))
  have nil: "spreads (shape_of M (f_constant M [] [0])) [2, 0]"
    using assms(1) by (simp add: constant_shape spreads_def)
  show "shape_of M (tri_indices M row col offset upper) = [2, length ps]"
    using assms(1) broadcast_shape_of[OF assms(2) nil] unfolding tri_indices_def ps Let_def
    by (auto simp: constant_shape)
  assume k: "k < length ps"
  then have r: "tri_indices M row col offset upper = f_constant M [2, length ps] (map fst ps @ map snd ps)"
    unfolding tri_indices_def ps Let_def by auto
  have len: "length (map fst ps @ map snd ps) = prod_list [2, length ps]" by simp
  show "to_num M (elem_at M (tri_indices M row col offset upper) [0, k]) = fst (ps ! k)
      \<and> to_num M (elem_at M (tri_indices M row col offset upper) [1, k]) = snd (ps ! k)"
    using constant_elem[OF assms(1) len, of "[0, k]"] constant_elem[OF assms(1) len, of "[1, k]"] k
    unfolding r by (simp add: nth_append)
qed

lemma tri_indices_are_triangle_witness:
  "shape_of ref_ops (tri_indices ref_ops 3 2 0 False) = [2, 5]
     \<and> to_num ref_ops (elem_at ref_ops (tri_indices ref_ops 3 2 0 False) [0, 4]) = 2"
proof -
  have ps: "[(0, 0), (1, 0), (1, 1), (2, 0), (2, 1)] =
      filter (\<lambda>(i, j). if False then 0 \<le> j - i else j - i \<le> (0::int)) (List.product [0..int 3 - 1] [0..int 2 - 1])"
    by code_simp
  show ?thesis using tri_indices_are_triangle[OF ref_constant ref_broadcast ps] by simp
qed

end
