(* ===== verification/AT_Index.thy ===== *)
theory AT_Index
  imports AT_Gather AT_Shapes
begin

text \<open>
  Advanced indexing (\<^verbatim>\<open>aten_functions.py\<close>: \<open>aten_index\<close>, \<open>aten_index_put\<close>, \<open>aten_put\<close>). \<open>aten_index\<close> groups consecutive index
  tensors into blocks and reads each block with one of MAX's gathers; for one block this is torch's indexing.
  torch broadcasts separated index tensors together, the code does not (\<open>separated_indices_not_joined\<close>).
\<close>

subsection \<open>Reading: aten.index\<close>

text \<open>MAX's \<open>gather_nd\<close> with leading batch axes, and its \<open>scatter_nd\<close> with index vectors of length one.\<close>

record ('t, 'v) index_ops = "('t, 'v) max_ops" +
  f_gather_nd_batch :: "'t \<Rightarrow> 't \<Rightarrow> nat \<Rightarrow> 't"
  f_scatter_rows :: "'t \<Rightarrow> 't \<Rightarrow> 't \<Rightarrow> 't"
  f_scatter_rows_add :: "'t \<Rightarrow> 't \<Rightarrow> 't \<Rightarrow> 't"
  is_mask :: "'t \<Rightarrow> bool"

text \<open>\<open>for j in range(start - 1, -1, -1)\<close>: a leading axis of the input's extent, one at a time.\<close>

definition expand_batch :: "('t, 'v, 'z) max_ops_scheme \<Rightarrow> nat list \<Rightarrow> nat \<Rightarrow> 't \<Rightarrow> 't" where
  "expand_batch M s start stacked =
     foldl (\<lambda>st j. f_broadcast M (f_unsqueeze M st 0) (s ! j # shape_of M st)) stacked (rev [0..<start])"

definition index_block :: "('t, 'v, 'z) index_ops_scheme \<Rightarrow> 't \<Rightarrow> nat \<Rightarrow> 't list \<Rightarrow> 't \<Rightarrow> 't result" where
  "index_block M input start block result =
     (if length block = 1 then Inr (f_gather M result (hd block) start)
      else bind_res (broadcast_shape 1 (map (shape_of M) block)) (\<lambda>final_shape.
        let stacked = f_stack_last M (map (\<lambda>t. f_broadcast M t final_shape) block) in
        Inr (f_gather_nd_batch M result (expand_batch M (shape_of M input) start stacked) start)))"

text \<open>The outer loop, on the indices from position \<open>i\<close> on.\<close>

function (sequential) index_loop :: "('t, 'v, 'z) index_ops_scheme \<Rightarrow> 't \<Rightarrow> nat \<Rightarrow> 't option list \<Rightarrow> 't \<Rightarrow> 't result" where
  "index_loop M input i [] result = Inr result"
| "index_loop M input i (None # idx) result = index_loop M input (Suc i) idx result"
| "index_loop M input i (Some t # idx) result =
     (let block = t # map the (takeWhile (\<lambda>x. x \<noteq> None) idx) in
      case index_block M input i block result of
        Inl e \<Rightarrow> Inl e
      | Inr result \<Rightarrow> index_loop M input (i + length block) (dropWhile (\<lambda>x. x \<noteq> None) idx) result)"
  by pat_completeness auto
termination
  by (relation "measure (\<lambda>(M, input, i, idx, result). length idx)") (auto simp: less_Suc_eq_le length_dropWhile_le)

definition aten_index :: "('t, 'v, 'z) index_ops_scheme \<Rightarrow> 't \<Rightarrow> 't option list \<Rightarrow> 't result" where
  "aten_index M input indices =
     (if indices = [] then Inl (NotImplementedError ''We don't yet support aten.index without indices'')
      else index_loop M input 0 (indices @ replicate (length (shape_of M input) - length indices) None) input)"

text \<open>What MAX documents of \<open>gather_nd\<close> with batch axes.\<close>

definition gather_nd_batch_ok :: "('t, 'v, 'z) index_ops_scheme \<Rightarrow> bool" where
  "gather_nd_batch_ok M \<longleftrightarrow> (\<forall>t c bs ns rs f. shape_of M t = bs @ ns @ rs \<and> shape_of M c = bs @ f @ [length ns] \<longrightarrow>
     shape_of M (f_gather_nd_batch M t c (length bs)) = bs @ f @ rs \<and>
     (\<forall>ix jx kx ks. inb bs ix \<and> inb f jx \<and> inb rs kx \<and> inb ns ks \<and>
        (\<forall>a < length ks. to_num M (elem_at M c (ix @ jx @ [a])) = int (ks ! a)) \<longrightarrow>
        elem_at M (f_gather_nd_batch M t c (length bs)) (ix @ jx @ kx) = elem_at M t (ix @ ks @ kx)))"

subsection \<open>One block is torch's indexing\<close>

lemma shrink_same: "inb s ix \<Longrightarrow> shrink_index s ix = ix"
  by (auto simp: shrink_index_def inb_def list_all2_conv_all_nth intro!: nth_equalityI)

lemma spreads_refl: "spreads s s"
  by (simp add: spreads_def list_all2_refl)

lemma expand_batch_reads:
  assumes M: "unsqueeze_ok M" "broadcast_ok M" and n: "n \<le> length s"
  shows "shape_of M (expand_batch M s n t) = take n s @ shape_of M t \<and>
    (\<forall>ix jx. inb (take n s) ix \<and> inb (shape_of M t) jx \<longrightarrow> elem_at M (expand_batch M s n t) (ix @ jx) = elem_at M t jx)"
  using n
proof (induction n arbitrary: t)
  case 0
  then show ?case by (simp add: expand_batch_def)
next
  case (Suc n)
  let ?u = "f_unsqueeze M t 0" and ?d = "s ! n"
  let ?b = "f_broadcast M ?u (?d # shape_of M t)"
  have u: "shape_of M ?u = 1 # shape_of M t" using unsqueeze_shape[OF M(1), of t "[]" "shape_of M t" 0] by simp
  have sp: "spreads (shape_of M ?u) (?d # shape_of M t)" unfolding u by (simp add: spreads_def list_all2_refl)
  have b: "shape_of M ?b = ?d # shape_of M t" by (rule broadcast_shape_of[OF M(2) sp])
  have be: "elem_at M ?b (i # jx) = elem_at M t jx" if "i < ?d" "inb (shape_of M t) jx" for i jx
  proof -
    have "elem_at M ?b (i # jx) = elem_at M ?u (shrink_index (1 # shape_of M t) (i # jx))"
      using broadcast_elem[OF M(2) sp, of "i # jx"] that u by simp
    also have "shrink_index (1 # shape_of M t) (i # jx) = 0 # jx"
      using shrink_same[OF that(2)] inb_length[OF that(2)] by (simp add: shrink_index_def)
    also have "elem_at M ?u (0 # jx) = elem_at M t jx" using unsqueeze_elem[OF M(1), of t "[]" "shape_of M t" 0 "[]" jx] that(2) by simp
    finally show ?thesis .
  qed
  have e: "expand_batch M s (Suc n) t = expand_batch M s n ?b" by (simp add: expand_batch_def)
  have tk: "take (Suc n) s = take n s @ [?d]" using Suc.prems by (simp add: take_Suc_conv_app_nth)
  have IH: "shape_of M (expand_batch M s n ?b) = take n s @ ?d # shape_of M t"
    "inb (take n s) ix \<Longrightarrow> inb (?d # shape_of M t) jx \<Longrightarrow> elem_at M (expand_batch M s n ?b) (ix @ jx) = elem_at M ?b jx" for ix jx
    using Suc.IH[of ?b] Suc.prems b by auto
  show ?case unfolding e tk
  proof (intro conjI allI impI)
    fix ix jx assume "inb (take n s @ [?d]) ix \<and> inb (shape_of M t) jx"
    then obtain ix' i where "ix = ix' @ [i]" "inb (take n s) ix'" "i < ?d" "inb (shape_of M t) jx" by (auto simp: inb_append)
    then show "elem_at M (expand_batch M s n ?b) (ix @ jx) = elem_at M t jx" using IH(2)[of ix' "i # jx"] be by simp
  qed (use IH(1) in simp)
qed

lemma index_block_reads:
  assumes M: "gather_ok M" "broadcast_ok M" "stack_ok M" "unsqueeze_ok M" "gather_nd_batch_ok M"
    and s: "shape_of M input = bs @ ns @ rs" and ts: "ts \<noteq> []" "length ts = length ns"
    and f: "broadcast_shape 1 (map (shape_of M) ts) = Inr f"
    and g: "\<And>jx k. inb f jx \<Longrightarrow> k < length ns \<Longrightarrow>
        to_num M (elem_at M (ts ! k) (shrink_index (shape_of M (ts ! k)) jx)) = int (g jx k) \<and> g jx k < ns ! k"
  shows "\<exists>r. index_block M input (length bs) ts input = Inr r \<and> shape_of M r = bs @ f @ rs
    \<and> (\<forall>ix jx kx. inb bs ix \<and> inb f jx \<and> inb rs kx \<longrightarrow>
         elem_at M r (ix @ jx @ kx) = elem_at M input (ix @ map (g jx) [0..<length ns] @ kx))"
proof (cases "length ts = 1")
  case True
  then obtain t n where t: "ts = [t]" "ns = [n]" using ts(2) by (auto simp: length_Suc_conv)
  have sp: "spreads (shape_of M t) f" "spreads f (shape_of M t)"
    using broadcast_spreads[OF f] broadcast_least[of "map (shape_of M) ts"] f spreads_refl[of "shape_of M t"] by (auto simp: t(1))
  then have len: "length f = length (shape_of M t)" by (auto simp: spreads_def)
  have "\<forall>i < length f. (shape_of M t ! i = 1 \<or> shape_of M t ! i = f ! i) \<and> (f ! i = 1 \<or> f ! i = shape_of M t ! i)"
    using sp len by (simp add: spreads_def list_all2_conv_all_nth)
  then have ft: "f = shape_of M t" using len by (intro nth_equalityI) metis+
  have in': "shape_of M input = bs @ n # rs" using s t(2) by simp
  have "elem_at M (f_gather M input t (length bs)) (ix @ jx @ kx) = elem_at M input (ix @ g jx 0 # kx)"
    if "inb bs ix" "inb f jx" "inb rs kx" for ix jx kx
    using g[OF that(2), of 0] shrink_same[of f jx] that ft t by (intro gather_elem[OF M(1) in' refl]) auto
  then show ?thesis using gather_shape[OF M(1) in' refl, of t] t ft by (auto simp: index_block_def)
next
  case False
  let ?bt = "map (\<lambda>t. f_broadcast M t f) ts"
  let ?st = "f_stack_last M ?bt" and ?ex = "expand_batch M (shape_of M input) (length bs)"
  have sp: "spreads (shape_of M t) f" if "t \<in> set ts" for t using broadcast_spreads[OF f] that by simp
  have sh: "shape_of M t = f" if "t \<in> set ?bt" for t using that broadcast_shape_of[OF M(2) sp] by auto
  have ne: "?bt \<noteq> []" using ts(1) by simp
  have st: "shape_of M ?st = f @ [length ns]" using stack_shape[OF M(3) ne sh] ts(2) by simp
  have ste: "to_num M (elem_at M ?st (jx @ [k])) = int (g jx k)" if "inb f jx" "k < length ns" for jx k
    using stack_elem[OF M(3) ne sh that(1), of k] broadcast_elem[OF M(2) sp that(1), of "ts ! k"] g[OF that] that(2) ts(2) by simp
  have tk: "take (length bs) (shape_of M input) = bs" using s by simp
  have lb: "length bs \<le> length (shape_of M input)" using s by simp
  note ex = expand_batch_reads[OF M(4,2) lb, of ?st, unfolded tk st]
  have exs: "shape_of M (?ex ?st) = bs @ f @ [length ns]" using ex by simp
  have exe: "to_num M (elem_at M (?ex ?st) (ix @ jx @ [k])) = int (g jx k)" if "inb bs ix" "inb f jx" "k < length ns" for ix jx k
    using ex that ste[OF that(2,3)] by (simp add: inb_append2 inb_length)
  let ?r = "f_gather_nd_batch M input (?ex ?st) (length bs)"
  have "inb ns (map (g jx) [0..<length ns])" if "inb f jx" for jx using g[OF that] by (intro inbI) simp_all
  then have "shape_of M ?r = bs @ f @ rs \<and> (\<forall>ix jx kx. inb bs ix \<and> inb f jx \<and> inb rs kx \<longrightarrow>
         elem_at M ?r (ix @ jx @ kx) = elem_at M input (ix @ map (g jx) [0..<length ns] @ kx))"
    using M(5) s exs exe unfolding gather_nd_batch_ok_def by simp
  then show ?thesis using False f by (auto simp: index_block_def Let_def)
qed

lemma index_loop_None: "index_loop M input i (replicate n None @ idx) result = index_loop M input (i + n) idx result"
  by (induction n arbitrary: i) simp_all

lemma index_loop_block:
  assumes "ts \<noteq> []"
  shows "index_loop M input i (map Some ts @ replicate n None) result = index_block M input i ts result"
proof -
  obtain t us where t: "ts = t # us" using assms by (cases ts) auto
  have tw: "takeWhile (\<lambda>x. x \<noteq> None) (map Some us @ replicate n None) = map Some us"
    "dropWhile (\<lambda>x. x \<noteq> None) (map Some us @ replicate n None) = replicate n None"
    by (induction us; cases n; simp)+
  have "index_loop M input j (replicate n None) r = Inr r" for j r using index_loop_None[of M input j n "[]" r] by simp
  then show ?thesis using t tw by (auto simp: Let_def comp_def split: sum.split)
qed

text \<open>C37: Indexing with one run of index tensors, the axes before and after it taken whole, is torch's advanced indexing: the
  indexed axes are replaced by the common broadcast of the index tensors, and every element is the input's at the
  positions they hold there.\<close>

theorem index_reads_block:
  assumes M: "gather_ok M" "broadcast_ok M" "stack_ok M" "unsqueeze_ok M" "gather_nd_batch_ok M"
    and s: "shape_of M input = bs @ ns @ rs" and ts: "ts \<noteq> []" "length ts = length ns"
    and f: "broadcast_shape 1 (map (shape_of M) ts) = Inr f"
    and g: "\<forall>jx k. inb f jx \<and> k < length ns \<longrightarrow>
        to_num M (elem_at M (ts ! k) (shrink_index (shape_of M (ts ! k)) jx)) = int (g jx k) \<and> g jx k < ns ! k"
    and idx: "idx = replicate (length bs) None @ map Some ts @ replicate n None"
  shows "\<exists>r. aten_index M input idx = Inr r \<and> shape_of M r = bs @ f @ rs
    \<and> (\<forall>ix jx kx. inb bs ix \<and> inb f jx \<and> inb rs kx \<longrightarrow>
         elem_at M r (ix @ jx @ kx) = elem_at M input (ix @ map (g jx) [0..<length ns] @ kx))"
proof -
  have "idx \<noteq> []" using idx ts(1) by simp
  moreover have "idx @ replicate m None = replicate (length bs) None @ map Some ts @ replicate (n + m) None" for m
    by (simp add: idx replicate_add)
  ultimately have "aten_index M input idx = index_block M input (length bs) ts input"
    unfolding aten_index_def by (simp add: index_loop_None index_loop_block[OF ts(1)])
  then show ?thesis using index_block_reads[OF M s ts f g[rule_format, OF conjI]] by simp
qed

subsection \<open>Writing: aten.index_put\<close>

definition flat_index :: "('t, 'v, 'z) index_ops_scheme \<Rightarrow> 't \<Rightarrow> 't \<Rightarrow> 't \<Rightarrow> 't \<times> 't" where
  "flat_index M input index values =
     (if length (shape_of M index) \<noteq> 1
      then let values = f_broadcast M values (shape_of M index @ tl (shape_of M input));
             index = f_reshape M index [prod_list (shape_of M index)] in
           (index, f_reshape M values (shape_of M index ! 0 # tl (shape_of M input)))
      else (index, values))"

definition aten_index_put :: "('t, 'v, 'z) index_ops_scheme \<Rightarrow> 't \<Rightarrow> 't option list \<Rightarrow> 't \<Rightarrow> bool \<Rightarrow> 't result" where
  "aten_index_put M input indices values accumulate =
     (let non_none = filter (\<lambda>(axis, idx). idx \<noteq> None) (zip [0..<length indices] indices) in
      if length non_none \<noteq> 1 \<or> fst (hd non_none) \<noteq> 0
      then Inl (NotImplementedError ''aten.index_put only supports a single index tensor on dim 0'')
      else let index = the (snd (hd non_none)) in
        if is_mask M index then Inl (NotImplementedError ''aten.index_put with a boolean mask is not supported yet'')
        else let (index, values) = flat_index M input index values;
               updates = f_broadcast M values (shape_of M index ! 0 # tl (shape_of M input)) in
          Inr ((if accumulate then f_scatter_rows_add M else f_scatter_rows M) input updates (f_unsqueeze M index 1)))"

text \<open>What MAX documents of the two scatters with index vectors of length one: every update is added where it points, or one
  of those that point there is stored.\<close>

definition row_scatter_args :: "('t, 'v, 'z) index_ops_scheme \<Rightarrow> 't \<Rightarrow> 't \<Rightarrow> 't \<Rightarrow> nat \<Rightarrow> nat list \<Rightarrow> nat \<Rightarrow> (nat \<Rightarrow> nat) \<Rightarrow> bool" where
  "row_scatter_args M t u c n rs m g \<longleftrightarrow> shape_of M t = n # rs \<and> shape_of M u = m # rs \<and> shape_of M c = [m, 1]
     \<and> (\<forall>i < m. to_num M (elem_at M c [i, 0]) = int (g i) \<and> g i < n)"

definition scatter_rows_ok :: "('t, 'v::comm_monoid_add, 'z) index_ops_scheme \<Rightarrow> bool" where
  "scatter_rows_ok M \<longleftrightarrow> (\<forall>t u c n rs m g. row_scatter_args M t u c n rs m g \<longrightarrow>
     shape_of M (f_scatter_rows M t u c) = n # rs \<and> shape_of M (f_scatter_rows_add M t u c) = n # rs \<and>
     (\<forall>k kx. k < n \<and> inb rs kx \<longrightarrow>
        elem_at M (f_scatter_rows_add M t u c) (k # kx) = elem_at M t (k # kx) + (\<Sum>i | i < m \<and> g i = k. elem_at M u (i # kx))
        \<and> (if \<exists>i < m. g i = k then \<exists>i < m. g i = k \<and> elem_at M (f_scatter_rows M t u c) (k # kx) = elem_at M u (i # kx)
           else elem_at M (f_scatter_rows M t u c) (k # kx) = elem_at M t (k # kx))))"

lemma put_operands:
  assumes M: "broadcast_ok M" "reshape_ok M" "unsqueeze_ok M"
    and s: "shape_of M index = s" "tl (shape_of M input) = rs" "spreads (shape_of M values) (s @ rs)"
    and fl: "flat_index M input index values = (index', values')"
  shows "shape_of M index' = [prod_list s]"
    "shape_of M (f_broadcast M values' (prod_list s # rs)) = prod_list s # rs"
    "shape_of M (f_unsqueeze M index' 1) = [prod_list s, 1]"
    "inb s jx \<Longrightarrow> elem_at M (f_unsqueeze M index' 1) [ravel s jx, 0] = elem_at M index jx"
    "inb s jx \<Longrightarrow> inb rs kx \<Longrightarrow> elem_at M (f_broadcast M values' (prod_list s # rs)) (ravel s jx # kx)
       = elem_at M values (shrink_index (shape_of M values) (jx @ kx))"
proof -
  have "shape_of M index' = [prod_list s] \<and> spreads (shape_of M values') (prod_list s # rs)
      \<and> (\<forall>jx. inb s jx \<longrightarrow> elem_at M index' [ravel s jx] = elem_at M index jx)
      \<and> (\<forall>jx kx. inb s jx \<and> inb rs kx \<longrightarrow> elem_at M (f_broadcast M values' (prod_list s # rs)) (ravel s jx # kx)
           = elem_at M values (shrink_index (shape_of M values) (jx @ kx)))"
  proof (cases "length s = 1")
    case True
    then obtain m where m: "s = [m]" by (auto simp: length_Suc_conv)
    then have "index' = index" "values' = values" using fl s(1) by (auto simp: flat_index_def)
    then show ?thesis using m s broadcast_elem[OF M(1) s(3)] by auto
  next
    case False
    let ?v = "f_broadcast M values (s @ rs)" and ?i = "f_reshape M index [prod_list s]"
    have i: "shape_of M ?i = [prod_list s]" using reshape_shape[OF M(2), of "[prod_list s]" index] s(1) by simp
    then have e: "index' = ?i" "values' = f_reshape M ?v (prod_list s # rs)"
      using fl False s(1,2) by (auto simp: flat_index_def Let_def)
    have v: "shape_of M ?v = s @ rs" by (rule broadcast_shape_of[OF M(1) s(3)])
    have pr: "prod_list (prod_list s # rs) = prod_list (shape_of M ?v)" unfolding v by simp
    have r: "shape_of M values' = prod_list s # rs" unfolding e(2) by (rule reshape_shape[OF M(2) pr])
    have "elem_at M index' [ravel s jx] = elem_at M index jx" if "inb s jx" for jx
      unfolding e(1) using reshape_elem[OF M(2), of "[prod_list s]" index "[ravel s jx]" jx] that s(1) ravel_less[OF that] by simp
    moreover have "elem_at M (f_broadcast M values' (prod_list s # rs)) (ravel s jx # kx)
           = elem_at M values (shrink_index (shape_of M values) (jx @ kx))" if "inb s jx" "inb rs kx" for jx kx
    proof -
      have b: "inb (prod_list s # rs) (ravel s jx # kx)" using that ravel_less[OF that(1)] by simp
      have "elem_at M (f_broadcast M values' (prod_list s # rs)) (ravel s jx # kx) = elem_at M values' (ravel s jx # kx)"
        using broadcast_elem[OF M(1), of values' "prod_list s # rs" "ravel s jx # kx"] b shrink_same[OF b] spreads_refl r by simp
      also have "\<dots> = elem_at M ?v (jx @ kx)"
        unfolding e(2) by (rule reshape_elem[OF M(2) pr b]) (use that v in \<open>simp_all add: inb_append2 inb_length ravel_append\<close>)
      also have "\<dots> = elem_at M values (shrink_index (shape_of M values) (jx @ kx))"
        using broadcast_elem[OF M(1) s(3), of "jx @ kx"] that by (simp add: inb_append2 inb_length)
      finally show ?thesis .
    qed
    ultimately show ?thesis using e(1) i r spreads_refl[of "prod_list s # rs"] by metis
  qed
  then have i: "shape_of M index' = [prod_list s]" and v: "spreads (shape_of M values') (prod_list s # rs)"
    and ie: "\<And>jx. inb s jx \<Longrightarrow> elem_at M index' [ravel s jx] = elem_at M index jx"
    and ve: "\<And>jx kx. inb s jx \<Longrightarrow> inb rs kx \<Longrightarrow> elem_at M (f_broadcast M values' (prod_list s # rs)) (ravel s jx # kx)
       = elem_at M values (shrink_index (shape_of M values) (jx @ kx))" by blast+
  show "shape_of M index' = [prod_list s]" by (rule i)
  show "shape_of M (f_broadcast M values' (prod_list s # rs)) = prod_list s # rs" by (rule broadcast_shape_of[OF M(1) v])
  show "shape_of M (f_unsqueeze M index' 1) = [prod_list s, 1]" using unsqueeze_shape[OF M(3), of index' "[prod_list s]" "[]" 1] i by simp
  show "inb s jx \<Longrightarrow> elem_at M (f_unsqueeze M index' 1) [ravel s jx, 0] = elem_at M index jx"
    using unsqueeze_elem[OF M(3), of index' "[prod_list s]" "[]" 1 "[ravel s jx]" "[]"] i ie ravel_less[of s jx] by simp
  show "inb s jx \<Longrightarrow> inb rs kx \<Longrightarrow> elem_at M (f_broadcast M values' (prod_list s # rs)) (ravel s jx # kx)
       = elem_at M values (shrink_index (shape_of M values) (jx @ kx))" by (rule ve)
qed

lemma lone_index:
  "filter (\<lambda>(axis, idx). idx \<noteq> None) (zip [0..<length (Some index # replicate j None)] (Some index # replicate j None)) = [(0, Some index)]"
proof -
  have "filter (\<lambda>(axis, idx). idx \<noteq> None) (zip xs (replicate j None)) = ([] :: (nat \<times> 'a option) list)" for xs
    by (auto simp: filter_empty_conv dest!: set_zip_rightD)
  moreover have "[0..<length (Some index # replicate j None)] = 0 # [1..<Suc j]" by (simp add: upt_conv_Cons del: upt_Suc)
  ultimately show ?thesis by simp
qed

text \<open>C38: \<open>index_put\<close> with one index tensor, of any rank, on the first axis: with \<open>accumulate\<close> every value is added to the row
  its index names, repeated indices included; without it a named row takes a value meant for it, and every other
  row stays.\<close>

theorem index_put_writes:
  assumes M: "broadcast_ok M" "reshape_ok M" "unsqueeze_ok M" "scatter_rows_ok M"
    and s: "shape_of M input = n # rs" "shape_of M index = s" "spreads (shape_of M values) (s @ rs)"
    and idx: "idx = Some index # replicate j None" "\<not> is_mask M index"
    and g: "\<forall>jx. inb s jx \<longrightarrow> to_num M (elem_at M index jx) = int (g jx) \<and> g jx < n"
  shows "\<exists>r. aten_index_put M input idx values accumulate = Inr r \<and> shape_of M r = n # rs
    \<and> (\<forall>k kx. k < n \<and> inb rs kx \<longrightarrow>
        (if accumulate then elem_at M r (k # kx) = elem_at M input (k # kx)
            + (\<Sum>jx | inb s jx \<and> g jx = k. elem_at M values (shrink_index (shape_of M values) (jx @ kx)))
         else if \<exists>jx. inb s jx \<and> g jx = k
         then \<exists>jx. inb s jx \<and> g jx = k \<and> elem_at M r (k # kx) = elem_at M values (shrink_index (shape_of M values) (jx @ kx))
         else elem_at M r (k # kx) = elem_at M input (k # kx)))"
proof -
  obtain index' values' where fl: "flat_index M input index values = (index', values')" by fastforce
  have tl: "tl (shape_of M input) = rs" using s(1) by simp
  note op = put_operands[OF M(1-3) s(2) tl s(3) fl]
  let ?m = "prod_list s" and ?u = "f_broadcast M values' (prod_list s # rs)" and ?c = "f_unsqueeze M index' 1"
  let ?val = "\<lambda>jx kx. elem_at M values (shrink_index (shape_of M values) (jx @ kx))"
  have nn: "filter (\<lambda>(axis, idx). idx \<noteq> None) (zip [0..<length idx] idx) = [(0, Some index)]"
    unfolding idx(1) by (rule lone_index)
  have res: "aten_index_put M input idx values accumulate = Inr ((if accumulate then f_scatter_rows_add M else f_scatter_rows M) input ?u ?c)"
    unfolding aten_index_put_def nn Let_def tl by (simp add: idx(2) fl op(1))
  have unrav: "inb s (unravel s i) \<and> ravel s (unravel s i) = i" if "i < ?m" for i using unravel_inb ravel_unravel that by blast
  have args: "row_scatter_args M input ?u ?c n rs ?m (\<lambda>i. g (unravel s i))"
    unfolding row_scatter_args_def
  proof (intro conjI allI impI)
    fix i assume "i < ?m"
    then have b: "inb s (unravel s i)" "ravel s (unravel s i) = i" using unrav by blast+
    show "to_num M (elem_at M ?c [i, 0]) = int (g (unravel s i))" using op(4)[OF b(1)] g b by simp
    show "g (unravel s i) < n" using g b(1) by blast
  qed (rule s(1) op(2,3))+
  have val: "elem_at M ?u (i # kx) = ?val (unravel s i) kx" if "i < ?m" "inb rs kx" for i kx
    using op(5)[of "unravel s i" kx] unrav[OF that(1)] that(2) by simp
  have sum: "(\<Sum>i | i < ?m \<and> g (unravel s i) = k. elem_at M ?u (i # kx)) = (\<Sum>jx | inb s jx \<and> g jx = k. ?val jx kx)" if "inb rs kx" for k kx
    by (rule sum.reindex_bij_witness[where i = "ravel s" and j = "unravel s"])
      (use unrav val[OF _ that] ravel_less unravel_ravel in auto)
  have row: "(\<exists>i < ?m. g (unravel s i) = k \<and> P (elem_at M ?u (i # kx))) \<longleftrightarrow> (\<exists>jx. inb s jx \<and> g jx = k \<and> P (?val jx kx))" if "inb rs kx" for k kx P
    using op(5)[OF _ that] unrav ravel_less unravel_ravel by metis
  have sc: "shape_of M (f_scatter_rows M input ?u ?c) = n # rs" "shape_of M (f_scatter_rows_add M input ?u ?c) = n # rs"
    and el: "\<And>k kx. k < n \<Longrightarrow> inb rs kx \<Longrightarrow>
        elem_at M (f_scatter_rows_add M input ?u ?c) (k # kx) = elem_at M input (k # kx) + (\<Sum>i | i < ?m \<and> g (unravel s i) = k. elem_at M ?u (i # kx))
        \<and> (if \<exists>i < ?m. g (unravel s i) = k then \<exists>i < ?m. g (unravel s i) = k \<and> elem_at M (f_scatter_rows M input ?u ?c) (k # kx) = elem_at M ?u (i # kx)
           else elem_at M (f_scatter_rows M input ?u ?c) (k # kx) = elem_at M input (k # kx))"
    using M(4)[unfolded scatter_rows_ok_def, rule_format, OF args] by blast+
  show ?thesis
  proof (intro exI[of _ "(if accumulate then f_scatter_rows_add M else f_scatter_rows M) input ?u ?c"] conjI allI impI)
    fix k kx assume "k < n \<and> inb rs kx"
    then have k: "k < n" "inb rs kx" by auto
    show "if accumulate then elem_at M ((if accumulate then f_scatter_rows_add M else f_scatter_rows M) input ?u ?c) (k # kx)
            = elem_at M input (k # kx) + (\<Sum>jx | inb s jx \<and> g jx = k. ?val jx kx)
         else if \<exists>jx. inb s jx \<and> g jx = k
         then \<exists>jx. inb s jx \<and> g jx = k \<and> elem_at M ((if accumulate then f_scatter_rows_add M else f_scatter_rows M) input ?u ?c) (k # kx) = ?val jx kx
         else elem_at M ((if accumulate then f_scatter_rows_add M else f_scatter_rows M) input ?u ?c) (k # kx) = elem_at M input (k # kx)"
    proof (cases accumulate)
      case True
      then show ?thesis using el[OF k] sum[OF k(2), of k] by simp
    next
      case False
      show ?thesis
        using el[OF k, THEN conjunct2] False
        unfolding row[OF k(2), of k "\<lambda>_. True", unfolded simp_thms] row[OF k(2), of k "\<lambda>v. elem_at M (f_scatter_rows M input ?u ?c) (k # kx) = v"]
        by (simp only: if_False)
    qed
  qed (use res sc in auto)
qed

subsection \<open>An instance\<close>

definition ref_index :: "(nat list \<times> (nat list \<Rightarrow> int), int) index_ops" where
  "ref_index = max_ops.extend ref_ops
     \<lparr> f_gather_nd_batch = (\<lambda>t c b. (butlast (fst c) @ drop (b + last (fst c)) (fst t),
         \<lambda>ix. let p = length (fst c) - 1 in
           snd t (take b ix @ map (\<lambda>a. nat (snd c (take p ix @ [a]))) [0..<last (fst c)] @ drop p ix))),
       f_scatter_rows = (\<lambda>t u c. (fst t, \<lambda>jx. case find (\<lambda>i. snd c [i, 0] = int (hd jx)) (rev [0..<hd (fst u)]) of
         None \<Rightarrow> snd t jx | Some i \<Rightarrow> snd u (i # tl jx))),
       f_scatter_rows_add = (\<lambda>t u c. (fst t, \<lambda>jx. snd t jx + sum_list (map (\<lambda>i. snd u (i # tl jx))
         (filter (\<lambda>i. snd c [i, 0] = int (hd jx)) [0..<hd (fst u)])))),
       is_mask = (\<lambda>_. False) \<rparr>"

lemma index_sel [simp]: "shape_of ref_index = fst" "elem_at ref_index = snd" "to_num ref_index = id"
  by (simp_all add: ref_index_def max_ops.extend_def ref_ops_def)

lemma index_ops_sel:
  "f_gather ref_index = f_gather ref_ops" "f_broadcast ref_index = f_broadcast ref_ops" "f_stack_last ref_index = f_stack_last ref_ops"
  "f_unsqueeze ref_index = f_unsqueeze ref_ops" "f_reshape ref_index = f_reshape ref_ops"
  by (simp_all add: ref_index_def max_ops.extend_def ref_ops_def)

lemma ref_index_ok: "gather_ok ref_index" "broadcast_ok ref_index" "stack_ok ref_index" "unsqueeze_ok ref_index" "reshape_ok ref_index"
  using ref_gather[unfolded gather_ok_def] ref_broadcast[unfolded broadcast_ok_def] ref_stack[unfolded stack_ok_def]
    ref_unsqueeze[unfolded unsqueeze_ok_def] ref_reshape[unfolded reshape_ok_def]
  unfolding gather_ok_def broadcast_ok_def stack_ok_def unsqueeze_ok_def reshape_ok_def index_ops_sel index_sel ref_sel
  by -

lemma ref_index_batch: "gather_nd_batch_ok ref_index"
  unfolding gather_nd_batch_ok_def
proof (intro allI impI conjI; elim conjE)
  fix t c :: "nat list \<times> (nat list \<Rightarrow> int)" and bs ns rs f
  assume s: "shape_of ref_index t = bs @ ns @ rs" "shape_of ref_index c = bs @ f @ [length ns]"
  show "shape_of ref_index (f_gather_nd_batch ref_index t c (length bs)) = bs @ f @ rs"
    using s by (simp add: ref_index_def max_ops.extend_def butlast_append)
  fix ix jx kx ks
  assume i: "inb bs ix" "inb f jx" "inb ns ks" and k: "\<forall>a < length ks. to_num ref_index (elem_at ref_index c (ix @ jx @ [a])) = int (ks ! a)"
  have "map (\<lambda>a. nat (snd c (ix @ jx @ [a]))) [0..<length ns] = ks"
    using k inb_length[OF i(3)] by (intro nth_equalityI) simp_all
  then show "elem_at ref_index (f_gather_nd_batch ref_index t c (length bs)) (ix @ jx @ kx) = elem_at ref_index t (ix @ ks @ kx)"
    using s inb_length[OF i(1)] inb_length[OF i(2)] by (simp add: ref_index_def max_ops.extend_def Let_def)
qed

lemma index_reads_block_witness:
  "\<exists>r. aten_index ref_index ([2, 3, 4], \<lambda>ix. int (100 * ix ! 0 + 10 * ix ! 1 + ix ! 2)) [None, Some ([2, 1], \<lambda>ix. int (2 * ix ! 0)), Some ([3], \<lambda>ix. int (Suc (ix ! 0)))]
      = Inr r \<and> shape_of ref_index r = [2, 2, 3] \<and> elem_at ref_index r [1, 1, 2] = 123"
proof -
  let ?t = "([2, 3, 4], \<lambda>ix. int (100 * ix ! 0 + 10 * ix ! 1 + ix ! 2)) :: nat list \<times> (nat list \<Rightarrow> int)"
  let ?i = "([2, 1], \<lambda>ix. int (2 * ix ! 0)) :: nat list \<times> (nat list \<Rightarrow> int)" and ?j = "([3], \<lambda>ix. int (Suc (ix ! 0))) :: nat list \<times> (nat list \<Rightarrow> int)"
  have s: "shape_of ref_index ?t = [2] @ [3, 4] @ []" "[?i, ?j] \<noteq> []" "length [?i, ?j] = length [3, 4::nat]"
    "[None, Some ?i, Some ?j] = replicate (length [2::nat]) None @ map Some [?i, ?j] @ replicate 0 None" by simp_all
  have f: "broadcast_shape 1 (map (shape_of ref_index) [?i, ?j]) = Inr [2, 3]" by (simp, code_simp)
  define g :: "nat list \<Rightarrow> nat \<Rightarrow> nat" where "g jx k = (if k = 0 then 2 * jx ! 0 else Suc (jx ! 1))" for jx k
  have g: "\<forall>jx k. inb [2, 3] jx \<and> k < length [3, 4::nat] \<longrightarrow> to_num ref_index (elem_at ref_index ([?i, ?j] ! k) (shrink_index (shape_of ref_index ([?i, ?j] ! k)) jx)) = int (g jx k) \<and> g jx k < [3, 4] ! k"
    by (auto simp: g_def shrink_index_def less_Suc_eq)
  from index_reads_block[OF ref_index_ok(1-4) ref_index_batch s(1-3) f g s(4)] obtain r where
    r: "aten_index ref_index ?t [None, Some ?i, Some ?j] = Inr r" "shape_of ref_index r = [2] @ [2, 3] @ []"
    and el: "\<forall>ix jx kx. inb [2] ix \<and> inb [2, 3] jx \<and> inb [] kx \<longrightarrow>
        elem_at ref_index r (ix @ jx @ kx) = elem_at ref_index ?t (ix @ map (g jx) [0..<length [3, 4::nat]] @ kx)" by (elim exE conjE)
  have "elem_at ref_index r [1, 1, 2] = 123" using el[rule_format, of "[1]" "[1, 2]" "[]"] by (simp add: g_def upt_rec)
  then show ?thesis using r by auto
qed

text \<open>torch joins separated index tensors, here to shape [2, 3]; the code reads each on its own.\<close>

lemma separated_indices_not_joined:
  "\<exists>r. aten_index ref_index ([2, 3, 2], \<lambda>ix. 0) [Some ([2], \<lambda>_. 0), None, Some ([2], \<lambda>_. 0)] = Inr r \<and> shape_of ref_index r = [2, 3, 2]"
  by (simp add: aten_index_def index_block_def index_ops_sel ref_ops_def)

lemma find_rev_upt:
  "find P (rev [0..<m]) = Some i \<Longrightarrow> i < m \<and> P i" "find P (rev [0..<m]) = None \<longleftrightarrow> (\<forall>i < m. \<not> P i)"
  by (auto simp: find_Some_iff find_None_iff rev_nth)

lemma ref_index_scatter: "scatter_rows_ok ref_index"
  unfolding scatter_rows_ok_def
proof (intro allI impI)
  fix t u c :: "nat list \<times> (nat list \<Rightarrow> int)" and n rs m g
  assume "row_scatter_args ref_index t u c n rs m g"
  then have a: "fst t = n # rs" "fst u = m # rs" and g: "\<And>i. i < m \<Longrightarrow> snd c [i, 0] = int (g i)"
    by (simp_all add: row_scatter_args_def)
  have add: "sum_list (map (\<lambda>i. snd u (i # kx)) (filter (\<lambda>i. snd c [i, 0] = int k) [0..<m])) = (\<Sum>i | i < m \<and> g i = k. snd u (i # kx))" for k kx
  proof -
    have "{i. i < m \<and> snd c [i, 0] = int k} = {i. i < m \<and> g i = k}" using g by auto
    then show ?thesis by (simp add: sum_list_distinct_conv_sum_set Int_def conj_commute flip: lessThan_atLeast0)
  qed
  have put: "if \<exists>i < m. g i = k then \<exists>i < m. g i = k \<and> snd (f_scatter_rows ref_index t u c) (k # kx) = snd u (i # kx)
      else snd (f_scatter_rows ref_index t u c) (k # kx) = snd t (k # kx)" for k kx
  proof (cases "find (\<lambda>i. snd c [i, 0] = int k) (rev [0..<m])")
    case None
    then have no: "\<not> (\<exists>i < m. g i = k)" using g by (auto simp: find_rev_upt(2))
    have "snd (f_scatter_rows ref_index t u c) (k # kx) = snd t (k # kx)" using None a by (simp add: ref_index_def max_ops.extend_def)
    then show ?thesis unfolding if_not_P[OF no] .
  next
    case (Some i)
    then have i: "i < m" "g i = k" using find_rev_upt(1)[OF Some] g by auto
    have "snd (f_scatter_rows ref_index t u c) (k # kx) = snd u (i # kx)" using Some a by (simp add: ref_index_def max_ops.extend_def)
    then show ?thesis using i by auto
  qed
  show "shape_of ref_index (f_scatter_rows ref_index t u c) = n # rs \<and> shape_of ref_index (f_scatter_rows_add ref_index t u c) = n # rs \<and>
     (\<forall>k kx. k < n \<and> inb rs kx \<longrightarrow>
        elem_at ref_index (f_scatter_rows_add ref_index t u c) (k # kx)
          = elem_at ref_index t (k # kx) + (\<Sum>i | i < m \<and> g i = k. elem_at ref_index u (i # kx))
        \<and> (if \<exists>i < m. g i = k then \<exists>i < m. g i = k \<and> elem_at ref_index (f_scatter_rows ref_index t u c) (k # kx) = elem_at ref_index u (i # kx)
           else elem_at ref_index (f_scatter_rows ref_index t u c) (k # kx) = elem_at ref_index t (k # kx)))"
  proof (intro conjI allI impI)
    fix k kx
    show "elem_at ref_index (f_scatter_rows_add ref_index t u c) (k # kx)
          = elem_at ref_index t (k # kx) + (\<Sum>i | i < m \<and> g i = k. elem_at ref_index u (i # kx))"
      using add[of kx k] a by (simp add: ref_index_def max_ops.extend_def)
    show "if \<exists>i < m. g i = k then \<exists>i < m. g i = k \<and> elem_at ref_index (f_scatter_rows ref_index t u c) (k # kx) = elem_at ref_index u (i # kx)
           else elem_at ref_index (f_scatter_rows ref_index t u c) (k # kx) = elem_at ref_index t (k # kx)"
      unfolding index_sel by (rule put)
  qed (use a in \<open>simp_all add: ref_index_def max_ops.extend_def\<close>)
qed

lemma index_put_writes_witness:
  "\<exists>r. aten_index_put ref_index ([3, 2], \<lambda>ix. 5) [Some ([2, 2], \<lambda>ix. int (ix ! 0))] ([2], \<lambda>ix. int (ix ! 0 + 1)) True = Inr r
     \<and> shape_of ref_index r = [3, 2] \<and> elem_at ref_index r [1, 1] = 9 \<and> elem_at ref_index r [2, 0] = 5"
proof -
  let ?t = "([3, 2], \<lambda>ix. 5) :: nat list \<times> (nat list \<Rightarrow> int)"
  let ?i = "([2, 2], \<lambda>ix. int (ix ! 0)) :: nat list \<times> (nat list \<Rightarrow> int)" and ?v = "([2], \<lambda>ix. int (ix ! 0 + 1)) :: nat list \<times> (nat list \<Rightarrow> int)"
  have s: "shape_of ref_index ?t = 3 # [2]" "shape_of ref_index ?i = [2, 2]" "spreads (shape_of ref_index ?v) ([2, 2] @ [2])"
    "[Some ?i] = Some ?i # replicate 0 None" "\<not> is_mask ref_index ?i"
    by (simp_all add: spreads_def ref_index_def max_ops.extend_def)
  have g: "\<forall>jx. inb [2, 2] jx \<longrightarrow> to_num ref_index (elem_at ref_index ?i jx) = int (jx ! 0) \<and> jx ! 0 < 3" by auto
  have rows: "{jx. inb [2, 2] jx \<and> jx ! 0 = 1} = {[1, 0], [1, 1 :: nat]}" "{jx. inb [2, 2] jx \<and> jx ! 0 = 2} = {}"
    by (auto simp: less_Suc_eq numeral_2_eq_2)
  from index_put_writes[OF ref_index_ok(2,5,4) ref_index_scatter s g, of True] obtain r where
    r: "aten_index_put ref_index ?t [Some ?i] ?v True = Inr r" "shape_of ref_index r = 3 # [2]"
    and el: "\<forall>k kx. k < 3 \<and> inb [2] kx \<longrightarrow> elem_at ref_index r (k # kx) = elem_at ref_index ?t (k # kx)
        + (\<Sum>jx | inb [2, 2] jx \<and> jx ! 0 = k. elem_at ref_index ?v (shrink_index (shape_of ref_index ?v) (jx @ kx)))"
    unfolding if_True by (elim exE conjE)
  have "elem_at ref_index r [1, 1] = 9" using el[rule_format, of 1 "[1]"] unfolding rows by (simp add: shrink_index_def)
  moreover have "elem_at ref_index r [2, 0] = 5" using el[rule_format, of 2 "[0]"] unfolding rows by simp
  ultimately show ?thesis using r by auto
qed

end
