(* ===== verification/AT_Band.thy ===== *)
theory AT_Band
  imports AT_Tensor
begin

text \<open>
  \<open>tril\<close> and \<open>triu\<close> (\<^verbatim>\<open>aten_functions.py\<close>) over MAX's \<open>band_part\<close>. \<open>static a\<close> says whether the extent of axis \<open>a\<close> is known
  when the graph is built; the limits are clamped only then. The clamp of the negative diagonals of a tall matrix (the
  positive ones of a wide one) is too tight, and the theorems state what the code keeps instead.
\<close>

record ('t, 'v) band_ops = "('t, 'v) max_ops" +
  f_band_part :: "'t \<Rightarrow> int option \<Rightarrow> int option \<Rightarrow> bool \<Rightarrow> 't"

text \<open>\<open>band_part\<close> keeps the entries at most \<open>num_lower\<close> below and \<open>num_upper\<close> above the main diagonal of every matrix,
  \<open>None\<close> standing for no limit, and zeroes the others; with \<open>exclude\<close> the two are exchanged.\<close>

definition in_band :: "int option \<Rightarrow> int option \<Rightarrow> int \<Rightarrow> int \<Rightarrow> bool" where
  "in_band lower upper i j \<longleftrightarrow> (case lower of None \<Rightarrow> True | Some l \<Rightarrow> i - j \<le> l) \<and> (case upper of None \<Rightarrow> True | Some u \<Rightarrow> j - i \<le> u)"

definition band_ok :: "('t, 'v, 'z) band_ops_scheme \<Rightarrow> bool" where
  "band_ok M \<longleftrightarrow> (\<forall>t s m n lower upper ex. shape_of M t = s @ [m, n] \<and> (\<forall>l. lower = Some l \<longrightarrow> 0 \<le> l) \<and> (\<forall>u. upper = Some u \<longrightarrow> 0 \<le> u) \<longrightarrow>
     shape_of M (f_band_part M t lower upper ex) = s @ [m, n] \<and>
     (\<forall>ix i j. inb s ix \<and> i < m \<and> j < n \<longrightarrow> elem_at M (f_band_part M t lower upper ex) (ix @ [i, j]) =
        (if in_band lower upper (int i) (int j) \<noteq> ex then elem_at M t (ix @ [i, j]) else of_num M 0)))"

subsection \<open>The lowerings\<close>

definition ends_static :: "nat list \<Rightarrow> (nat \<Rightarrow> bool) \<Rightarrow> nat \<Rightarrow> int option" where
  "ends_static s static k =
     (if 2 \<le> length s \<and> static (length s - k) then Some (int (s ! (length s - k))) else None)"

definition aten_tril :: "('t, 'v, 'z) band_ops_scheme \<Rightarrow> (nat \<Rightarrow> bool) \<Rightarrow> 't \<Rightarrow> int \<Rightarrow> 't" where
  "aten_tril M static input diagonal =
     (let s = shape_of M input in
      if 0 \<le> diagonal then
        f_band_part M input None
          (Some (case ends_static s static 1 of Some n \<Rightarrow> min diagonal (n - 1) | None \<Rightarrow> diagonal)) False
      else
        f_band_part M input
          (Some (case (ends_static s static 2, ends_static s static 1) of
             (Some m, Some n) \<Rightarrow> if min m n \<le> - diagonal then min m n - 1 else - diagonal - 1
           | _ \<Rightarrow> - diagonal - 1)) None True)"

definition aten_triu :: "('t, 'v, 'z) band_ops_scheme \<Rightarrow> (nat \<Rightarrow> bool) \<Rightarrow> 't \<Rightarrow> int \<Rightarrow> 't" where
  "aten_triu M static input diagonal =
     (let s = shape_of M input in
      if diagonal \<le> 0 then
        f_band_part M input
          (Some (case ends_static s static 2 of Some m \<Rightarrow> min (- diagonal) (m - 1) | None \<Rightarrow> - diagonal)) None False
      else
        f_band_part M input None
          (Some (case (ends_static s static 2, ends_static s static 1) of
             (Some m, Some n) \<Rightarrow> if min m n \<le> diagonal then min m n - 1 else diagonal - 1
           | _ \<Rightarrow> diagonal - 1)) True)"

subsection \<open>What they keep\<close>

lemma band_elem:
  "band_ok M \<Longrightarrow> shape_of M t = s @ [m, n] \<Longrightarrow> (\<And>l. lower = Some l \<Longrightarrow> 0 \<le> l) \<Longrightarrow> (\<And>u. upper = Some u \<Longrightarrow> 0 \<le> u) \<Longrightarrow>
     inb s ix \<Longrightarrow> i < m \<Longrightarrow> j < n \<Longrightarrow> elem_at M (f_band_part M t lower upper ex) (ix @ [i, j]) =
       (if in_band lower upper (int i) (int j) \<noteq> ex then elem_at M t (ix @ [i, j]) else of_num M 0)"
  by (simp add: band_ok_def)

lemma ends_static_matrix:
  "ends_static (s @ [m, n]) static 1 = (if static (Suc (length s)) then Some (int n) else None)"
  "ends_static (s @ [m, n]) static 2 = (if static (length s) then Some (int m) else None)"
  by (simp_all add: ends_static_def nth_append)

text \<open>The diagonals the code cuts at: torch's, but no lower than \<open>- n\<close> where both extents are known.\<close>

definition tril_cut :: "(nat \<Rightarrow> bool) \<Rightarrow> nat \<Rightarrow> nat \<Rightarrow> nat \<Rightarrow> int \<Rightarrow> int" where
  "tril_cut static r m n d = (if static r \<and> static (Suc r) then max d (- int n) else d)"

definition triu_cut :: "(nat \<Rightarrow> bool) \<Rightarrow> nat \<Rightarrow> nat \<Rightarrow> nat \<Rightarrow> int \<Rightarrow> int" where
  "triu_cut static r m n d = (if static r \<and> static (Suc r) then min d (int m) else d)"

text \<open>\<open>tril\<close> keeps the entries at or below the given diagonal and zeroes the others, except that on a matrix of known
  extents a diagonal below \<open>- n\<close> counts as \<open>- n\<close>: a matrix with more rows than columns then keeps entries that
  torch zeroes.
\<close>

theorem tril_keeps:
  assumes "band_ok M" "shape_of M input = s @ [m, n]" "inb s ix" "i < m" "j < n"
  shows "elem_at M (aten_tril M static input diagonal) (ix @ [i, j]) =
    (if int j - int i \<le> tril_cut static (length s) m n diagonal then elem_at M input (ix @ [i, j]) else of_num M 0)"
proof (cases "0 \<le> diagonal")
  case True
  let ?u = "if static (Suc (length s)) then min diagonal (int n - 1) else diagonal"
  have r: "aten_tril M static input diagonal = f_band_part M input None (Some ?u) False"
    using True by (simp add: aten_tril_def assms(2) ends_static_matrix[simplified])
  show ?thesis
    unfolding r using True assms(4,5)
    by (subst band_elem[OF assms(1,2) _ _ assms(3-5)]) (auto simp: in_band_def tril_cut_def)
next
  case False
  let ?l = "if static (length s) \<and> static (Suc (length s)) \<and> min (int m) (int n) \<le> - diagonal then min (int m) (int n) - 1 else - diagonal - 1"
  have r: "aten_tril M static input diagonal = f_band_part M input (Some ?l) None True"
    using False by (simp add: aten_tril_def assms(2) ends_static_matrix[simplified])
  show ?thesis
    unfolding r using False assms(4,5)
    by (subst band_elem[OF assms(1,2) _ _ assms(3-5)]) (auto simp: in_band_def tril_cut_def)
qed

theorem triu_keeps:
  assumes "band_ok M" "shape_of M input = s @ [m, n]" "inb s ix" "i < m" "j < n"
  shows "elem_at M (aten_triu M static input diagonal) (ix @ [i, j]) =
    (if triu_cut static (length s) m n diagonal \<le> int j - int i then elem_at M input (ix @ [i, j]) else of_num M 0)"
proof (cases "diagonal \<le> 0")
  case True
  let ?l = "if static (length s) then min (- diagonal) (int m - 1) else - diagonal"
  have r: "aten_triu M static input diagonal = f_band_part M input (Some ?l) None False"
    using True by (simp add: aten_triu_def assms(2) ends_static_matrix[simplified])
  show ?thesis
    unfolding r using True assms(4,5)
    by (subst band_elem[OF assms(1,2) _ _ assms(3-5)]) (auto simp: in_band_def triu_cut_def)
next
  case False
  let ?u = "if static (length s) \<and> static (Suc (length s)) \<and> min (int m) (int n) \<le> diagonal then min (int m) (int n) - 1 else diagonal - 1"
  have r: "aten_triu M static input diagonal = f_band_part M input None (Some ?u) True"
    using False by (simp add: aten_triu_def assms(2) ends_static_matrix[simplified])
  show ?thesis
    unfolding r using False assms(4,5)
    by (subst band_elem[OF assms(1,2) _ _ assms(3-5)]) (auto simp: in_band_def triu_cut_def)
qed

definition ref_band :: "(nat list \<times> (nat list \<Rightarrow> int), int) band_ops" where
  "ref_band = max_ops.extend ref_ops \<lparr> f_band_part = (\<lambda>t lower upper ex. (fst t, \<lambda>ix.
     if in_band lower upper (int (ix ! (length ix - 2))) (int (ix ! (length ix - 1))) \<noteq> ex then snd t ix else 0)) \<rparr>"

lemma ref_band_ok: "band_ok ref_band"
  by (auto simp: band_ok_def ref_band_def max_ops.defs ref_ops_def nth_append dest: inb_length)

lemma ref_band_sel [simp]: "shape_of ref_band = fst" "elem_at ref_band = snd" "of_num ref_band = id"
  by (simp_all add: ref_band_def max_ops.defs)

lemma tril_keeps_witness:
  "elem_at ref_band (aten_tril ref_band (\<lambda>_. True) ([3, 1], \<lambda>ix. 1) (-2)) [1, 0] = 1
     \<and> elem_at ref_band (aten_tril ref_band (\<lambda>_. True) ([3, 3], \<lambda>ix. 1) (-2)) [1, 0] = 0"
proof -
  have "elem_at ref_band (aten_tril ref_band (\<lambda>_. True) ([3, 1], \<lambda>ix. 1) (-2)) ([] @ [1, 0]) = 1"
    using tril_keeps[OF ref_band_ok, of "([3, 1], \<lambda>ix. 1)" "[]" 3 1 "[]" 1 0 "\<lambda>_. True" "-2"] by (simp add: tril_cut_def)
  moreover have "elem_at ref_band (aten_tril ref_band (\<lambda>_. True) ([3, 3], \<lambda>ix. 1) (-2)) ([] @ [1, 0]) = 0"
    using tril_keeps[OF ref_band_ok, of "([3, 3], \<lambda>ix. 1)" "[]" 3 3 "[]" 1 0 "\<lambda>_. True" "-2"] by (simp add: tril_cut_def)
  ultimately show ?thesis by simp
qed

end
