(* ===== verification/AT_Search.thy ===== *)
theory AT_Search
  imports Prelude
begin

text \<open>
  \<open>searchsorted\<close> and \<open>bucketize\<close>: the graph lowering counts the boundaries below a value
  (\<^verbatim>\<open>aten_functions.py\<close>, \<open>_searchsorted_impl\<close>), the eager kernel finds the position by binary search
  (\<^verbatim>\<open>mojo/tmb/kernels/searchsorted/entry.mojo\<close>, \<open>_binary_search_position\<close>). An element is \<open>None\<close> for NaN; a
  comparison with NaN is false. The two agree on boundaries without NaN; with a tail of NaNs they need not.
\<close>

subsection \<open>Comparisons\<close>

type_synonym 'a fl = "'a option"

fun fl_gt :: "'a::linorder fl \<Rightarrow> 'a fl \<Rightarrow> bool" where
  "fl_gt (Some x) (Some y) = (y < x)"
| "fl_gt _ _ = False"

fun fl_ge :: "'a::linorder fl \<Rightarrow> 'a fl \<Rightarrow> bool" where
  "fl_ge (Some x) (Some y) = (y \<le> x)"
| "fl_ge _ _ = False"

definition should_advance :: "bool \<Rightarrow> 'a::linorder fl \<Rightarrow> 'a fl \<Rightarrow> bool" where
  "should_advance right boundary v = (\<not> (if right then fl_gt boundary v else fl_ge boundary v))"

subsection \<open>The graph lowering: a count\<close>

definition count_true :: "bool list \<Rightarrow> nat" where
  "count_true bs = length (filter id bs)"

definition search_lane :: "bool \<Rightarrow> bool \<Rightarrow> 'a::linorder fl list \<Rightarrow> 'a fl \<Rightarrow> nat" where
  "search_lane is_float right bs v =
     (let comparison = map (\<lambda>b. if right then fl_gt b v else fl_ge b v) bs;
        count_mask = map Not comparison in
      if \<not> is_float then count_true count_mask
      else let boundary_is_nan = map (\<lambda>b. b = None) bs;
        boundary_is_numeric = map Not boundary_is_nan;
        count_mask = map2 (\<and>) count_mask boundary_is_numeric;
        numeric_boundary_count = count_true boundary_is_numeric;
        total_boundary_count = numeric_boundary_count + count_true boundary_is_nan;
        counts = count_true count_mask in
      if counts = numeric_boundary_count then total_boundary_count else counts)"

datatype ('d, 'a) search_values = TensorValues "nat list" 'd nat "nat list \<Rightarrow> 'a fl" | NumberValue "'a fl" | DimValue

record ('d, 'a) boundaries =
  b_shape :: "nat list"
  b_dtype :: 'd
  b_device :: nat
  b_at :: "nat list \<Rightarrow> 'a fl"

record 'd sorter =
  so_shape :: "nat list"
  so_device :: nat
  so_is_long :: bool

record ('d, 'a) search_env =
  supported :: "'d \<Rightarrow> bool"
  floating :: "'d \<Rightarrow> bool"
  promote :: "'d \<Rightarrow> 'd \<Rightarrow> 'd"
  scalar_promote :: "'d \<Rightarrow> 'a fl \<Rightarrow> 'd"
  cast_to :: "'d \<Rightarrow> 'd \<Rightarrow> 'a fl \<Rightarrow> 'a fl"

definition search_side :: "bool \<Rightarrow> string option \<Rightarrow> bool result" where
  "search_side right side =
     (case side of
        None \<Rightarrow> Inr right
      | Some s \<Rightarrow>
          if s \<noteq> ''left'' \<and> s \<noteq> ''right'' then Inl (RuntimeError ''side can only be left or right'')
          else if right \<and> s \<noteq> ''right'' then Inl (RuntimeError ''side and right can't be set to opposites'')
          else Inr (s = ''right''))"

text \<open>The values as a tensor of the dtype both are compared in: its shape and elements.\<close>

definition search_values_in ::
  "('d, 'a) search_env \<Rightarrow> ('d, 'a) boundaries \<Rightarrow> ('d, 'a) search_values \<Rightarrow> ('d \<times> nat list \<times> (nat list \<Rightarrow> 'a fl)) result" where
  "search_values_in E seq vals =
     (case vals of
        DimValue \<Rightarrow>
          if length (b_shape seq) \<noteq> 1 then Inl (RuntimeError ''input value can be a scalar only when boundaries tensor dimension is 1'')
          else Inl (NotImplementedError ''symbolic scalar values are not supported by searchsorted'')
      | NumberValue x \<Rightarrow>
          if length (b_shape seq) \<noteq> 1 then Inl (RuntimeError ''input value can be a scalar only when boundaries tensor dimension is 1'')
          else Inr (scalar_promote E (b_dtype seq) x, [], \<lambda>_. x)
      | TensorValues s d dev f \<Rightarrow>
          if dev \<noteq> b_device seq then Inl (RuntimeError ''boundaries and input value tensors should have same device type'')
          else if s = [] \<and> length (b_shape seq) \<noteq> 1
          then Inl (RuntimeError ''input value can be a scalar only when boundaries tensor dimension is 1'')
          else if length (b_shape seq) \<noteq> 1 \<and> (length s \<noteq> length (b_shape seq) \<or> butlast s \<noteq> butlast (b_shape seq))
          then Inl (RuntimeError ''the first N-1 dimensions of boundaries tensor and input value tensor must match'')
          else let c = promote E (b_dtype seq) d in Inr (c, s, \<lambda>ix. if d \<noteq> c then cast_to E d c (f ix) else f ix))"

definition refuse_sorter :: "('d, 'a) boundaries \<Rightarrow> 'd sorter option \<Rightarrow> unit result" where
  "refuse_sorter seq sorter =
     (case sorter of
        None \<Rightarrow> Inr ()
      | Some s \<Rightarrow>
          if so_device s \<noteq> b_device seq then Inl (RuntimeError ''sorter and boundary tensors should have same device type'')
          else if so_shape s \<noteq> b_shape seq then Inl (RuntimeError ''boundary and sorter must have the same size'')
          else if \<not> so_is_long s then Inl (RuntimeError ''sorter must be a tensor of long dtype'')
          else Inl (NotImplementedError ''searchsorted sorter is not supported by the MAX graph backend''))"

text \<open>The row of boundaries that the value at an index is searched in.\<close>

definition boundary_row :: "('d, 'a) boundaries \<Rightarrow> nat list \<Rightarrow> 'a fl list" where
  "boundary_row seq ix =
     map (\<lambda>k. b_at seq (if length (b_shape seq) = 1 then [k] else butlast ix @ [k])) [0..<last (b_shape seq)]"

definition searchsorted_impl ::
  "('d, 'a::linorder) search_env \<Rightarrow> ('d, 'a) boundaries \<Rightarrow> ('d, 'a) search_values \<Rightarrow> bool \<Rightarrow> string option \<Rightarrow> 'd sorter option \<Rightarrow>
     (nat list \<times> (nat list \<Rightarrow> nat)) result" where
  "searchsorted_impl E seq vals right side sorter =
     bind_res (search_side right side) (\<lambda>right.
     if b_shape seq = [] then Inl (RuntimeError ''boundaries tensor should have positive dimension, but got 0 dimension'')
     else bind_res (search_values_in E seq vals) (\<lambda>(common, s, f).
     if \<not> supported E common then Inl (NotImplementedError ''searchsorted comparison dtype is not supported'')
     else bind_res (refuse_sorter seq sorter) (\<lambda>_.
     let cast = (\<lambda>b. if b_dtype seq \<noteq> common then cast_to E (b_dtype seq) common b else b) in
     if last (b_shape seq) = 0 then Inr (s, \<lambda>ix. 0)
     else Inr (s, \<lambda>ix. search_lane (floating E common) right (map cast (boundary_row seq ix)) (f ix)))))"

definition aten_bucketize ::
  "('d, 'a::linorder) search_env \<Rightarrow> ('d, 'a) search_values \<Rightarrow> ('d, 'a) boundaries \<Rightarrow> bool \<Rightarrow> (nat list \<times> (nat list \<Rightarrow> nat)) result" where
  "aten_bucketize E input seq right =
     (if length (b_shape seq) \<noteq> 1 then Inl (RuntimeError ''boundaries tensor must be 1 dimension'')
      else searchsorted_impl E seq input right None None)"

subsection \<open>The eager kernel: a binary search\<close>

function binary_search :: "bool \<Rightarrow> 'a::linorder fl list \<Rightarrow> 'a fl \<Rightarrow> nat \<Rightarrow> nat \<Rightarrow> nat" where
  "binary_search right bs v low high =
     (if low < high then
        let mid = low + (high - low) div 2 in
        if should_advance right (bs ! mid) v then binary_search right bs v (mid + 1) high
        else binary_search right bs v low mid
      else low)"
  by pat_completeness auto

termination
  by (relation "measure (\<lambda>(right, bs, v, low, high). high - low)") auto

declare binary_search.simps [simp del]

definition binary_search_position :: "bool \<Rightarrow> 'a::linorder fl list \<Rightarrow> 'a fl \<Rightarrow> nat" where
  "binary_search_position right bs v = binary_search right bs v 0 (length bs)"

subsection \<open>Both find the insertion point\<close>

text \<open>Where the advancing boundaries are a prefix, the search ends at its length.\<close>

lemma binary_search_prefix:
  assumes "low \<le> k" "k \<le> high" "\<forall>i < high. low \<le> i \<longrightarrow> (should_advance right (bs ! i) v \<longleftrightarrow> i < k)"
  shows "binary_search right bs v low high = k"
  using assms
proof (induction right bs v low high rule: binary_search.induct)
  case (1 right bs v low high)
  show ?case
  proof (cases "low < high")
    case True
    let ?mid = "low + (high - low) div 2"
    have mid: "low \<le> ?mid" "?mid < high" using True by auto
    show ?thesis
    proof (cases "should_advance right (bs ! ?mid) v")
      case adv: True
      then have "?mid < k" using 1(5) mid by blast
      then have "binary_search right bs v (?mid + 1) high = k" using 1(1)[OF True refl adv] 1(4,5) mid by simp
      then show ?thesis using True adv by (subst binary_search.simps) (simp add: Let_def)
    next
      case stop: False
      then have "k \<le> ?mid" using 1(5) mid by (meson not_le)
      then have "binary_search right bs v low ?mid = k" using 1(2)[OF True refl stop] 1(3,5) mid by simp
      then show ?thesis using True stop by (subst binary_search.simps) (simp add: Let_def)
    qed
  qed (use 1(3,4) in \<open>subst binary_search.simps, simp\<close>)
qed

lemma None_ne: "None \<noteq> x \<longleftrightarrow> (\<exists>y. x = Some y)"
  by (cases x) auto

lemma some_of: "None \<notin> set bs \<Longrightarrow> c \<in> set bs \<Longrightarrow> \<exists>y. c = Some y"
  by (cases c) auto

lemma advance_prefix:
  assumes "sorted (map the bs)" "None \<notin> set bs" "i < length bs"
  shows "should_advance right (bs ! i) v \<longleftrightarrow> i < length (filter (\<lambda>b. should_advance right b v) bs)"
  using assms
proof (induction bs arbitrary: i)
  case (Cons b bs)
  then obtain x where b: "b = Some x" by (cases b) auto
  have mono: "\<not> should_advance right c v" if m: "\<not> should_advance right b v" "c \<in> set bs" for c
  proof -
    obtain y where "c = Some y" using some_of[of "b # bs" c] m(2) Cons.prems(2) by auto
    moreover have "x \<le> y" using Cons.prems(1) m(2) b \<open>c = Some y\<close> by force
    ultimately show ?thesis using m(1) b by (cases v) (auto simp: should_advance_def split: if_splits)
  qed
  show ?case
  proof (cases "should_advance right b v")
    case True
    then show ?thesis using Cons by (cases i) auto
  next
    case False
    then have "filter (\<lambda>b. should_advance right b v) (b # bs) = []" using mono by (simp add: filter_empty_conv)
    then show ?thesis using False mono Cons.prems(3) by (cases i) auto
  qed
qed simp

lemma count_true_map: "count_true (map P xs) = length (filter P xs)"
  by (simp add: count_true_def filter_map comp_def)

lemma numeric_filters: "None \<notin> set bs \<Longrightarrow> filter (\<lambda>b. b \<noteq> None) bs = bs \<and> filter (\<lambda>b. b = None) bs = []"
  by (induction bs) (auto simp: None_ne)

lemma count_true_mask: "count_true (map2 (\<and>) (map P bs) (map Q bs)) = length (filter (\<lambda>b. P b \<and> Q b) bs)"
  by (induction bs) (auto simp: count_true_def)

lemma search_lane_eq:
  "search_lane is_float right bs v =
    (if is_float
     then let k = length (filter (\<lambda>b. should_advance right b v \<and> b \<noteq> None) bs); n = length (filter (\<lambda>b. b \<noteq> None) bs) in
       if k = n then n + length (filter (\<lambda>b. b = None) bs) else k
     else length (filter (\<lambda>b. should_advance right b v) bs))"
  unfolding search_lane_def Let_def map_map comp_def should_advance_def[symmetric] count_true_mask
  by (simp add: count_true_map del: not_None_eq)

lemma search_lane_counts:
  assumes "None \<notin> set bs"
  shows "search_lane is_float right bs v = length (filter (\<lambda>b. should_advance right b v) bs)"
proof -
  have "filter (\<lambda>b. should_advance right b v \<and> b \<noteq> None) bs = filter (\<lambda>b. should_advance right b v) bs"
    using assms by (intro filter_cong) (auto dest: some_of)
  then show ?thesis using numeric_filters[OF assms] by (simp add: search_lane_eq Let_def del: not_None_eq)
qed

lemma lane_is_search:
  assumes "sorted (map the bs)" "None \<notin> set bs"
  shows "binary_search_position right bs v = search_lane is_float right bs v"
  unfolding binary_search_position_def search_lane_counts[OF assms(2)]
  using assms by (intro binary_search_prefix) (auto simp: advance_prefix)

text \<open>C26: \<open>searchsorted\<close> of a value tensor in the boundaries' dtype keeps the values' shape, and wherever the row of
  boundaries is sorted in ascending order without NaN its element is the position at which the eager kernel's
  binary search terminates, for every value (NaN included) and either side.
\<close>

theorem search_routes_agree:
  assumes "searchsorted_impl E seq (TensorValues s d dev f) right side None = Inr (s', g)"
    and "d = b_dtype seq" "promote E d d = d"
    and "sorted (map the (boundary_row seq ix))" "None \<notin> set (boundary_row seq ix)"
  shows "s' = s \<and> g ix = binary_search_position (if side = None then right else side = Some ''right'') (boundary_row seq ix) (f ix)"
proof -
  have side: "search_side right side = Inr r \<Longrightarrow> r = (if side = None then right else side = Some ''right'')" for r
    by (auto simp: search_side_def split: option.splits if_splits)
  have row: "boundary_row seq ix = []" if "last (b_shape seq) = 0" using that by (simp add: boundary_row_def)
  have nil: "binary_search_position r [] v = 0" for r and v :: "'b fl"
    by (simp add: binary_search_position_def binary_search.simps)
  show ?thesis
    using assms(1-3) row lane_is_search[OF assms(4,5)] nil side
    by (auto simp: searchsorted_impl_def search_values_in_def bind_res_eq_Inr refuse_sorter_def Let_def
      split: if_splits)
qed

lemma search_routes_agree_witness:
  "binary_search_position False [Some 1, Some 3, Some (3::nat), Some 5] (Some 3) = 1"
proof -
  define E :: "(bool, nat) search_env" where "E = \<lparr> supported = (\<lambda>_. True), floating = id, promote = (\<lambda>a b. a), scalar_promote = (\<lambda>d x. d), cast_to = (\<lambda>d c x. x) \<rparr>"
  define seq where "seq = \<lparr> b_shape = [4], b_dtype = True, b_device = 0, b_at = (\<lambda>ix. [Some 1, Some 3, Some 3, Some (5::nat)] ! hd ix) \<rparr>"
  have row: "boundary_row seq [0] = [Some 1, Some 3, Some 3, Some 5]" by (simp add: boundary_row_def seq_def upt_rec)
  have res: "searchsorted_impl E seq (TensorValues [1] True 0 (\<lambda>_. Some 3)) False None None =
      Inr ([1], \<lambda>ix. search_lane True False (boundary_row seq ix) (Some 3))"
    by (simp add: searchsorted_impl_def search_side_def search_values_in_def refuse_sorter_def E_def seq_def)
  have "search_lane True False [Some 1, Some 3, Some (3::nat), Some 5] (Some 3) = 1" by code_simp
  with search_routes_agree[OF res, of "[0]"] row show ?thesis by (simp add: E_def seq_def)
qed

text \<open>With a tail of NaNs the graph route returns the insertion point among the numbers, or the whole length when no
  number is left; the binary search may jump into the tail.\<close>

lemma search_lane_nan_tail:
  assumes "None \<notin> set ns"
  shows "search_lane True right (ns @ replicate j None) v =
    (let k = length (filter (\<lambda>b. should_advance right b v) ns) in if k = length ns then length ns + j else k)"
proof -
  have "filter (\<lambda>b. should_advance right b v \<and> b \<noteq> None) ns = filter (\<lambda>b. should_advance right b v) ns"
    using assms by (intro filter_cong) (auto dest: some_of)
  then show ?thesis using numeric_filters[OF assms] by (simp add: search_lane_eq Let_def del: not_None_eq)
qed

lemma routes_differ_on_nan_tail:
  "search_lane True False [Some 1, None, None] (Some (0::int)) = 0 \<and> binary_search_position False [Some 1, None, None] (Some (0::int)) = 3"
  by code_simp

subsection \<open>The number of probes\<close>

text \<open>The kernel's loop run for at most \<open>fuel\<close> probes; \<open>None\<close> when they do not suffice.\<close>

fun binary_search_probes :: "nat \<Rightarrow> bool \<Rightarrow> 'a::linorder fl list \<Rightarrow> 'a fl \<Rightarrow> nat \<Rightarrow> nat \<Rightarrow> nat option" where
  "binary_search_probes fuel right bs v low high =
     (if low < high then
        case fuel of
          0 \<Rightarrow> None
        | Suc fuel \<Rightarrow> let mid = low + (high - low) div 2 in
            if should_advance right (bs ! mid) v then binary_search_probes fuel right bs v (mid + 1) high
            else binary_search_probes fuel right bs v low mid
      else Some low)"

declare binary_search_probes.simps [simp del]

lemma probes_suffice:
  "high - low < 2 ^ fuel \<Longrightarrow> binary_search_probes fuel right bs v low high = Some (binary_search right bs v low high)"
proof (induction fuel arbitrary: low high)
  case 0
  then show ?case by (simp add: binary_search_probes.simps binary_search.simps)
next
  case (Suc fuel)
  show ?case
  proof (cases "low < high")
    case True
    let ?mid = "low + (high - low) div 2"
    have "high - (?mid + 1) < 2 ^ fuel" "?mid - low < 2 ^ fuel" using Suc.prems True by auto
    then show ?thesis
      using Suc.IH[of high "?mid + 1"] Suc.IH[of ?mid low] True
      by (subst binary_search_probes.simps, subst binary_search.simps) (simp add: Let_def)
  qed (simp add: binary_search_probes.simps binary_search.simps)
qed

text \<open>C27: the eager kernel's binary search of fewer than \<open>2 ^ n\<close> boundaries, in whatever order and with NaNs
  among them, ends after at most \<open>n\<close> probes at a position no larger than their number.
\<close>

theorem search_ends_in_log_probes:
  assumes "length bs < 2 ^ n"
  shows "binary_search_probes n right bs v 0 (length bs) = Some (binary_search_position right bs v)
    \<and> binary_search_position right bs v \<le> length bs"
proof
  show "binary_search_probes n right bs v 0 (length bs) = Some (binary_search_position right bs v)"
    using probes_suffice[of "length bs" 0 n right bs v] assms by (simp add: binary_search_position_def)
  have "low \<le> high \<Longrightarrow> binary_search right bs v low high \<le> high" for low high
  proof (induction right bs v low high rule: binary_search.induct)
    case (1 right bs v low high)
    show ?case
    proof (cases "low < high")
      case True
      then have "binary_search right bs v (low + (high - low) div 2 + 1) high \<le> high" if "should_advance right (bs ! (low + (high - low) div 2)) v"
        using 1(1)[OF True refl that] by simp
      moreover have "binary_search right bs v low (low + (high - low) div 2) \<le> high" if "\<not> should_advance right (bs ! (low + (high - low) div 2)) v"
        using 1(2)[OF True refl that] True by simp
      ultimately show ?thesis using True by (subst binary_search.simps) (simp add: Let_def)
    qed (use 1(3) in \<open>subst binary_search.simps, simp\<close>)
  qed
  then show "binary_search_position right bs v \<le> length bs" by (simp add: binary_search_position_def)
qed

lemma search_ends_in_log_probes_witness:
  "let bs = [Some 1, None, Some 4, None, Some (2::int)] in
     binary_search_probes 3 False bs (Some 3) 0 (length bs) = Some (binary_search_position False bs (Some 3))"
  unfolding Let_def by (rule search_ends_in_log_probes[THEN conjunct1]) simp

end
