(* ===== verification/AT_Median.thy ===== *)
theory AT_Median
  imports AT_Search "HOL-Library.Extended_Nat"
begin

text \<open>
  Order statistics (\<^verbatim>\<open>aten_functions.py\<close>: \<open>_select_sorted_k\<close>, \<open>_kth_smallest\<close>, \<open>_nan_last_order\<close>, \<open>_median_along\<close>,
  \<open>_median_all\<close>, \<open>_sort_impl\<close>, \<open>aten_topk\<close>), lane by lane: every operation acts alike on each line of the tensor along the reduced axis, so a line is a
  list. MAX's k-selections are parameters returning the chosen positions; what they promise is a stable order.
  An element is \<open>None\<close> for NaN and \<open>top\<close> is the value of infinity.
\<close>

subsection \<open>Selections\<close>

record 'k selection =
  top_k :: "'k list \<Rightarrow> nat \<Rightarrow> nat list"
  bottom_k :: "'k list \<Rightarrow> nat \<Rightarrow> nat list"

text \<open>\<open>bottom_k\<close> lists the positions of the \<open>k\<close> least keys in ascending order, ties in order of position.\<close>

definition bottom_stable :: "('k \<Rightarrow> 'o::linorder) \<Rightarrow> ('k \<Rightarrow> bool) \<Rightarrow> 'k selection \<Rightarrow> bool" where
  "bottom_stable val good S \<longleftrightarrow> (\<forall>xs k. (\<forall>x \<in> set xs. good x) \<and> 0 < k \<and> k \<le> length xs \<longrightarrow>
     bottom_k S xs k = take k (sort_key (\<lambda>i. val (xs ! i)) [0..<length xs]))"

definition select_sorted_k :: "'k selection \<Rightarrow> 'k list \<Rightarrow> nat \<Rightarrow> bool \<Rightarrow> 'k list \<times> nat list" where
  "select_sorted_k S xs k largest =
     (if k = 0 then ([], [])
      else let indices = (if largest then top_k S xs k else bottom_k S xs k) in (map (\<lambda>i. xs ! i) indices, indices))"

text \<open>Shapes with a symbolic extent as \<open>None\<close>.\<close>

definition reduction_dim_and_size :: "nat option list \<Rightarrow> int \<Rightarrow> (nat \<times> nat) result" where
  "reduction_dim_and_size shape d =
     (let rank = length shape; ndim = (if rank = 0 then 1 else rank) in
      if \<not> (- int ndim \<le> d \<and> d < int ndim) then Inl (IndexError ''Dimension out of range'')
      else let axis = nat (d mod int ndim) in
        case (if rank = 0 then Some 1 else shape ! axis) of
          None \<Rightarrow> Inl (NotImplementedError ''needs a statically known size along the reduced axis'')
        | Some n \<Rightarrow> if n = 0 then Inl (IndexError ''Expected reduction dim to have non-zero size.'') else Inr (axis, n))"

definition kth_smallest :: "'k selection \<Rightarrow> 'k list \<Rightarrow> nat \<Rightarrow> 'k \<times> nat" where
  "kth_smallest S xs k =
     (case select_sorted_k S xs k False of (values_k, indices_k) \<Rightarrow> (values_k ! (k - 1), indices_k ! (k - 1)))"

definition nan_last_order :: "'a fl selection \<Rightarrow> nat selection \<Rightarrow> 'a::order_top fl list \<Rightarrow> 'a fl list \<times> nat list" where
  "nan_last_order S Sn xs =
     (let n = length xs;
        is_nan = map (\<lambda>x. if x = None then 1 else 0) xs;
        key = map2 (\<lambda>m x. if 0 < m then Some top else x) is_nan xs;
        by_value = snd (select_sorted_k S key n False);
        nan_in_order = map (\<lambda>i. is_nan ! i) by_value;
        by_nan = snd (select_sorted_k Sn nan_in_order n False);
        indices = map (\<lambda>j. by_value ! j) by_nan in
      (map (\<lambda>i. xs ! i) indices, indices))"

definition median_lane :: "'a fl selection \<Rightarrow> nat selection \<Rightarrow> bool \<Rightarrow> bool \<Rightarrow> 'a::order_top fl list \<Rightarrow> 'a fl \<times> nat" where
  "median_lane S Sn is_float ignore_nan xs =
     (let n = length xs in
      if \<not> is_float then kth_smallest S xs ((n + 1) div 2)
      else case nan_last_order S Sn xs of (values, indices) \<Rightarrow>
        let num_nan = length (filter (\<lambda>x. x = None) xs);
          position = (if ignore_nan then nat (max (int n - 1 - int num_nan) 0) div 2
            else if 0 < num_nan then n - num_nan else (n - 1) div 2) in
        (values ! position, indices ! position))"

definition median_along ::
  "'a fl selection \<Rightarrow> nat selection \<Rightarrow> bool \<Rightarrow> nat option list \<Rightarrow> int \<Rightarrow> bool \<Rightarrow> bool \<Rightarrow>
     (nat option list \<times> nat \<times> ('a::order_top fl list \<Rightarrow> 'a fl \<times> nat)) result" where
  "median_along S Sn is_float shape d keepdim ignore_nan =
     bind_res (reduction_dim_and_size shape d) (\<lambda>(axis, n).
       let zero_d = shape = []; shape = (if zero_d then [Some 1] else shape) in
       Inr (if zero_d \<or> \<not> keepdim then take axis shape @ drop (axis + 1) shape else shape[axis := Some 1],
         axis, median_lane S Sn is_float ignore_nan))"

definition median_all :: "'a fl selection \<Rightarrow> nat selection \<Rightarrow> bool \<Rightarrow> nat option list \<Rightarrow> 'a::order_top fl list \<Rightarrow> bool \<Rightarrow> 'a fl result" where
  "median_all S Sn is_float shape flat ignore_nan =
     (if None \<in> set shape then Inl (NotImplementedError ''median() needs a statically known shape'')
      else if prod_list (map the shape) = 0 then Inr None
      else Inr (fst (median_lane S Sn is_float ignore_nan flat)))"

definition sort_impl :: "'k selection \<Rightarrow> nat option list \<Rightarrow> int \<Rightarrow> bool \<Rightarrow> (nat \<times> ('k list \<Rightarrow> 'k list \<times> nat list)) result" where
  "sort_impl S shape d descending =
     (let rank = length shape in
      if rank = 0 then Inl (NotImplementedError ''sorting a 0-d tensor is not supported by the MAX graph backend'')
      else let axis = (if d < 0 then d + int rank else d) in
        if axis < - int rank \<or> int rank \<le> axis then Inl (IndexError ''list index out of range'')
        else let a = nat (axis mod int rank) in
        case shape ! a of
          None \<Rightarrow> Inl (NotImplementedError ''sort needs a statically known size along the sorted axis'')
        | Some n \<Rightarrow> Inr (a, \<lambda>lane. select_sorted_k S lane n descending))"

definition aten_topk :: "'k selection \<Rightarrow> nat option list \<Rightarrow> int option \<Rightarrow> int \<Rightarrow> bool \<Rightarrow> (nat \<times> ('k list \<Rightarrow> 'k list \<times> nat list)) result" where
  "aten_topk S shape k d largest =
     (let rank = length shape in
      if rank = 0 then Inl (NotImplementedError ''topk of a 0-d tensor is not supported by the MAX graph backend'')
      else case k of
        None \<Rightarrow> Inl (NotImplementedError ''topk needs a statically known k'')
      | Some k \<Rightarrow>
          let axis = (if d < 0 then d + int rank else d) in
          if axis < - int rank \<or> int rank \<le> axis then Inl (IndexError ''list index out of range'')
          else let a = nat (axis mod int rank) in
          if (case shape ! a of None \<Rightarrow> False | Some n \<Rightarrow> \<not> (0 \<le> k \<and> k \<le> int n))
          then Inl (RuntimeError ''selected index k out of range'')
          else Inr (a, \<lambda>lane. select_sorted_k S lane (nat k) largest))"

subsection \<open>Stable sorting\<close>

lemma map_insort_key: "map g (insort_key (\<lambda>x. f (g x)) x xs) = insort_key f (g x) (map g xs)"
  by (induction xs) auto

lemma map_sort_key_comp: "map g (sort_key (\<lambda>x. f (g x)) xs) = sort_key f (map g xs)"
  by (induction xs) (auto simp: map_insort_key)

lemma map_sort_key: "map f (sort_key f xs) = sort (map f xs)"
  by (rule map_sort_key_comp[of f "\<lambda>x. x"])

lemma insort_two: "\<forall>a \<in> set as. f a = (0::nat) \<Longrightarrow> \<forall>b \<in> set bs. f b = 1 \<Longrightarrow> f x = 1 \<Longrightarrow> insort_key f x (as @ bs) = as @ x # bs"
proof (induction as)
  case Nil
  then show ?case by (cases bs) auto
qed auto

lemma sort_two:
  assumes "\<forall>x \<in> set xs. f x = 0 \<or> f x = (1::nat)"
  shows "sort_key f xs = filter (\<lambda>x. f x = 0) xs @ filter (\<lambda>x. f x = 1) xs"
  using assms
proof (induction xs)
  case (Cons x xs)
  let ?as = "filter (\<lambda>x. f x = 0) xs" and ?bs = "filter (\<lambda>x. f x = 1) xs"
  have IH: "sort_key f xs = ?as @ ?bs" using Cons by simp
  show ?case
  proof (cases "f x = 0")
    case True
    then have "insort_key f x (?as @ ?bs) = x # ?as @ ?bs" by (cases "?as @ ?bs") auto
    then show ?thesis unfolding sort_key_simps IH using True by simp
  next
    case False
    then have fx: "f x = 1" using Cons.prems by simp
    have "insort_key f x (?as @ ?bs) = ?as @ x # ?bs" by (rule insort_two) (simp_all add: fx)
    then show ?thesis unfolding sort_key_simps IH using fx by simp
  qed
qed simp

lemma insort_key_cong: "f x = g x \<Longrightarrow> \<forall>y \<in> set ys. f y = g y \<Longrightarrow> insort_key f x ys = insort_key g x ys"
  by (induction ys) auto

lemma sort_key_cong: "(\<And>x. x \<in> set xs \<Longrightarrow> f x = g x) \<Longrightarrow> sort_key f xs = sort_key g xs"
proof (induction xs)
  case (Cons x xs)
  then have "sort_key f xs = sort_key g xs" by simp
  then show ?case using insort_key_cong[of f x g "sort_key g xs"] Cons.prems by simp
qed simp

lemma filter_constant_key:
  assumes "\<forall>x \<in> set xs. P x \<longrightarrow> f x = c"
  shows "filter P (sort_key f xs) = filter P xs"
proof -
  have "filter P (sort_key f xs) = filter P (filter (\<lambda>x. f x = c) (sort_key f xs))"
    unfolding filter_filter using assms by (intro filter_cong) auto
  also have "\<dots> = filter P (filter (\<lambda>x. f x = c) xs)" by (simp add: sort_key_stable)
  also have "\<dots> = filter P xs" unfolding filter_filter using assms by (intro filter_cong) auto
  finally show ?thesis .
qed

subsection \<open>The order with every NaN last\<close>

abbreviation numeric :: "'a fl list \<Rightarrow> nat \<Rightarrow> bool" where
  "numeric xs i \<equiv> xs ! i \<noteq> None"

lemma nan_last_order_is_stable:
  assumes S: "bottom_stable the (\<lambda>x. x \<noteq> None) S" "bottom_stable id (\<lambda>_. True) Sn" and ne: "xs \<noteq> []"
  shows "snd (nan_last_order S Sn xs) = sort_key (\<lambda>i. the (xs ! i)) (filter (numeric xs) [0..<length xs])
      @ filter (\<lambda>i. \<not> numeric xs i) [0..<length xs]"
    "fst (nan_last_order S Sn xs) = map (\<lambda>i. xs ! i) (snd (nan_last_order S Sn xs))"
proof -
  let ?n = "length xs" and ?is = "[0..<length xs]"
  define is_nan where "is_nan = map (\<lambda>x. if x = None then 1 else 0 :: nat) xs"
  define key where "key = map2 (\<lambda>m x. if 0 < m then Some top else x) is_nan xs"
  have key_nth: "key ! i = (if numeric xs i then xs ! i else Some top)" "is_nan ! i = (if numeric xs i then 0 else 1)" if "i < ?n" for i
    using that by (auto simp: key_def is_nan_def)
  have len: "length key = ?n" "length is_nan = ?n" by (simp_all add: key_def is_nan_def)
  define by_value where "by_value = sort_key (\<lambda>i. the (key ! i)) ?is"
  have good: "\<forall>x \<in> set key. x \<noteq> None" using key_nth len by (auto simp: in_set_conv_nth)
  have bv: "snd (select_sorted_k S key ?n False) = by_value"
    using S(1) good ne len unfolding bottom_stable_def select_sorted_k_def by_value_def by (simp add: Let_def)
  have bvl: "length by_value = ?n" "set by_value = set ?is" by (simp_all add: by_value_def)
  define by_nan where "by_nan = sort_key (\<lambda>j. is_nan ! (by_value ! j)) [0..<length by_value]"
  have "bottom_k Sn (map (\<lambda>i. is_nan ! i) by_value) ?n = take ?n (sort_key (\<lambda>j. map (\<lambda>i. is_nan ! i) by_value ! j) [0..<?n])"
    using S(2) ne bvl unfolding bottom_stable_def by simp
  moreover have "sort_key (\<lambda>j. map (\<lambda>i. is_nan ! i) by_value ! j) [0..<?n] = by_nan"
    unfolding by_nan_def bvl(1) by (rule sort_key_cong) (simp_all add: bvl(1))
  ultimately have bn: "snd (select_sorted_k Sn (map (\<lambda>i. is_nan ! i) by_value) ?n False) = by_nan"
    using ne bvl by (simp add: select_sorted_k_def by_nan_def Let_def)
  have "snd (nan_last_order S Sn xs) = map (\<lambda>j. by_value ! j) by_nan"
    unfolding nan_last_order_def Let_def snd_conv is_nan_def[symmetric] key_def[symmetric] bv bn by (rule refl)
  also have "\<dots> = sort_key (\<lambda>i. is_nan ! i) by_value"
    unfolding by_nan_def map_sort_key_comp by (simp add: map_nth)
  also have "\<dots> = filter (\<lambda>i. is_nan ! i = 0) by_value @ filter (\<lambda>i. is_nan ! i = 1) by_value"
    by (rule sort_two) (use bvl key_nth in auto)
  also have "filter (\<lambda>i. is_nan ! i = 0) by_value = filter (numeric xs) by_value"
    using bvl key_nth by (intro filter_cong) auto
  also have "filter (numeric xs) by_value = sort_key (\<lambda>i. the (xs ! i)) (filter (numeric xs) ?is)"
    unfolding by_value_def filter_sort by (rule sort_key_cong) (auto simp: key_nth)
  also have "filter (\<lambda>i. is_nan ! i = 1) by_value = filter (\<lambda>i. \<not> numeric xs i) by_value"
    using bvl key_nth by (intro filter_cong) auto
  also have "filter (\<lambda>i. \<not> numeric xs i) by_value = filter (\<lambda>i. \<not> numeric xs i) ?is"
    unfolding by_value_def by (rule filter_constant_key[where c = top]) (auto simp: key_nth)
  finally show "snd (nan_last_order S Sn xs) = sort_key (\<lambda>i. the (xs ! i)) (filter (numeric xs) ?is) @ filter (\<lambda>i. \<not> numeric xs i) ?is" .
  show "fst (nan_last_order S Sn xs) = map (\<lambda>i. xs ! i) (snd (nan_last_order S Sn xs))"
    by (simp add: nan_last_order_def Let_def)
qed

lemma filter_nth_map: "map (\<lambda>i. f (xs ! i)) (filter (\<lambda>i. P (xs ! i)) [0..<length xs]) = map f (filter P xs)"
proof -
  have "map f (filter P (map (\<lambda>i. xs ! i) [0..<length xs])) = map (\<lambda>i. f (xs ! i)) (filter (\<lambda>i. P (xs ! i)) [0..<length xs])"
    by (simp add: filter_map comp_def del: map_nth)
  then show ?thesis by (simp add: map_nth)
qed

text \<open>The numbers of a line.\<close>

definition numbers :: "'a fl list \<Rightarrow> 'a list" where
  "numbers xs = map the (filter (\<lambda>x. x \<noteq> None) xs)"

lemma nan_last_values:
  assumes S: "bottom_stable the (\<lambda>x. x \<noteq> None) S" "bottom_stable id (\<lambda>_. True) Sn" and ne: "xs \<noteq> []"
  shows "fst (nan_last_order S Sn xs) = map Some (sort (numbers xs)) @ replicate (length (filter (\<lambda>x. x = None) xs)) None"
proof -
  let ?is = "[0..<length xs]" and ?f = "\<lambda>i. the (xs ! i)"
  have "map (\<lambda>i. xs ! i) (sort_key ?f (filter (numeric xs) ?is)) = map (\<lambda>i. Some (?f i)) (sort_key ?f (filter (numeric xs) ?is))"
    by (intro map_cong) auto
  also have "\<dots> = map Some (sort (map ?f (filter (numeric xs) ?is)))" by (simp add: map_sort_key[symmetric])
  also have "map ?f (filter (numeric xs) ?is) = numbers xs"
    using filter_nth_map[of the xs "\<lambda>x. x \<noteq> None"] by (simp add: numbers_def)
  finally have a: "map (\<lambda>i. xs ! i) (sort_key ?f (filter (numeric xs) ?is)) = map Some (sort (numbers xs))" .
  have "map (\<lambda>i. xs ! i) (filter (\<lambda>i. \<not> numeric xs i) ?is) = filter (\<lambda>x. x = None) xs"
    using filter_nth_map[of id xs "\<lambda>x. x = None"] by simp
  also have "\<dots> = replicate (length (filter (\<lambda>x. x = None) xs)) None"
    by (intro replicate_eqI) auto
  finally show ?thesis using a unfolding nan_last_order_is_stable(2)[OF S ne] nan_last_order_is_stable(1)[OF S ne] by simp
qed

subsection \<open>The median\<close>

lemma counts_add: "length (numbers xs) + length (filter (\<lambda>x. x = None) xs) = length xs"
  using sum_length_filter_compl[of "\<lambda>x. x = None" xs] by (simp add: numbers_def del: not_None_eq)

lemma first_in_filter:
  assumes "\<exists>i < n. P i"
  shows "filter P [0..<n] \<noteq> [] \<and> P (filter P [0..<n] ! 0) \<and> (\<forall>j < filter P [0..<n] ! 0. \<not> P j)"
proof -
  let ?ys = "filter P [0..<n]"
  have ne: "?ys \<noteq> []" using assms by (auto simp: filter_empty_conv)
  then have mem: "?ys ! 0 \<in> set ?ys" by (intro nth_mem) simp
  have "sorted ?ys" by (intro sorted_wrt_filter) simp
  have "\<not> P j" if "j < ?ys ! 0" for j
  proof
    assume "P j"
    then have "j \<in> set ?ys" using that mem by auto
    then obtain k where "k < length ?ys" "?ys ! k = j" by (metis in_set_conv_nth)
    then show False using sorted_nth_mono[OF \<open>sorted ?ys\<close>, of 0 k] that by simp
  qed
  moreover have "P (?ys ! 0)" using mem unfolding set_filter by blast
  ultimately show ?thesis using ne by blast
qed

lemma kth_smallest_lane:
  assumes S: "bottom_stable the (\<lambda>x. x \<noteq> None) S" and xs: "None \<notin> set xs" "0 < k" "k \<le> length xs"
  shows "fst (kth_smallest S xs k) = Some (sort (numbers xs) ! (k - 1)) \<and> snd (kth_smallest S xs k) < length xs
    \<and> xs ! snd (kth_smallest S xs k) = fst (kth_smallest S xs k)"
proof -
  let ?o = "sort_key (\<lambda>i. the (xs ! i)) [0..<length xs]"
  have b: "bottom_k S xs k = take k ?o" using S xs some_of[OF xs(1)] unfolding bottom_stable_def by (metis option.distinct(1))
  have kth: "kth_smallest S xs k = (xs ! (?o ! (k - 1)), ?o ! (k - 1))"
    using xs(2,3) b by (simp add: kth_smallest_def select_sorted_k_def Let_def)
  have mem: "?o ! (k - 1) \<in> set ?o" using xs(2,3) by (intro nth_mem) simp
  then have lt: "?o ! (k - 1) < length xs" by simp
  have "map (\<lambda>i. the (xs ! i)) ?o = sort (map (\<lambda>i. the (xs ! i)) [0..<length xs])" by (rule map_sort_key)
  also have "map (\<lambda>i. the (xs ! i)) [0..<length xs] = numbers xs"
    using filter_nth_map[of the xs "\<lambda>_. True"] numeric_filters[OF xs(1)] by (simp add: numbers_def del: not_None_eq)
  finally have "the (xs ! (?o ! (k - 1))) = sort (numbers xs) ! (k - 1)"
    using xs(2,3) nth_map[of "k - 1" ?o "\<lambda>i. the (xs ! i)"] by simp
  moreover obtain y where "xs ! (?o ! (k - 1)) = Some y" using some_of[OF xs(1) nth_mem[OF lt]] by blast
  ultimately show ?thesis using kth lt by simp
qed

text \<open>An element of a NaN-last order: the numbers in order, then the NaNs, the first of them first.\<close>

lemma nan_last_pick:
  assumes S: "bottom_stable the (\<lambda>x. x \<noteq> None) S" "bottom_stable id (\<lambda>_. True) Sn" and xs: "xs \<noteq> []"
    and o: "nan_last_order S Sn xs = (vs, ids)" and p: "p < length xs"
  shows "ids ! p < length xs" "xs ! (ids ! p) = vs ! p"
    "vs ! p = (if p < length (numbers xs) then Some (sort (numbers xs) ! p) else None)"
    "p = length (numbers xs) \<Longrightarrow> \<forall>j < ids ! p. xs ! j \<noteq> None"
proof -
  let ?m = "length (numbers xs)" and ?c = "length (filter (\<lambda>x. x = None) xs)" and ?n = "length xs"
  have vs: "vs = map Some (sort (numbers xs)) @ replicate ?c None" using nan_last_values[OF S xs] o by simp
  have ids: "ids = sort_key (\<lambda>i. the (xs ! i)) (filter (numeric xs) [0..<?n]) @ filter (\<lambda>i. \<not> numeric xs i) [0..<?n]"
    "vs = map (\<lambda>i. xs ! i) ids"
    using nan_last_order_is_stable[OF S xs] o by simp_all
  have sum: "?m + ?c = ?n" by (rule counts_add)
  then have lv: "length vs = ?n" using vs by simp
  then have li: "length ids = ?n" using ids(2) by (metis length_map)
  have "set ids \<subseteq> {..<?n}" using ids(1) by auto
  moreover have "ids ! p \<in> set ids" using p li by (intro nth_mem) simp
  ultimately show "ids ! p < ?n" by blast
  show "xs ! (ids ! p) = vs ! p" using p li ids(2) by simp
  show v: "vs ! p = (if p < ?m then Some (sort (numbers xs) ! p) else None)" using p sum by (simp add: vs nth_append)
  assume top: "p = ?m"
  have "length (filter (numeric xs) [0..<?n]) = ?m"
    using filter_nth_map[of id xs "\<lambda>x. x \<noteq> None"] unfolding numbers_def by (metis length_map)
  then have "ids ! p = filter (\<lambda>i. \<not> numeric xs i) [0..<?n] ! 0" using top ids(1) by (simp add: nth_append)
  moreover have "xs ! (ids ! p) = None" using v top \<open>xs ! (ids ! p) = vs ! p\<close> by simp
  then have "\<exists>i < ?n. \<not> numeric xs i" using \<open>ids ! p < ?n\<close> by auto
  ultimately show "\<forall>j < ids ! p. xs ! j \<noteq> None" using first_in_filter[of ?n "\<lambda>i. \<not> numeric xs i"] by simp
qed

text \<open>C28: along a line the median is the lower of the two middle numbers, at an index that holds it;
  \<open>median\<close> of a line with a NaN is NaN at the first one, \<open>nanmedian\<close> passes over NaNs and returns NaN, at
  the first index, only when there is no number.
\<close>

theorem median_is_lower_middle:
  assumes S: "bottom_stable the (\<lambda>x. x \<noteq> None) S" "bottom_stable id (\<lambda>_. True) Sn"
    and xs: "xs \<noteq> []" "is_float \<or> None \<notin> set xs" and res: "median_lane S Sn is_float ignore_nan xs = (v, i)"
  shows "v = (if None \<in> set xs \<and> \<not> ignore_nan \<or> numbers xs = [] then None
      else Some (sort (numbers xs) ! ((length (numbers xs) - 1) div 2)))
    \<and> i < length xs \<and> xs ! i = v \<and> (v = None \<longrightarrow> (\<forall>j < i. xs ! j \<noteq> None))"
proof (cases is_float)
  case False
  then have num: "None \<notin> set xs" using xs(2) by simp
  then have len: "length (numbers xs) = length xs" using numeric_filters[OF num] by (simp add: numbers_def del: not_None_eq)
  have k: "0 < (length xs + 1) div 2" "(length xs + 1) div 2 \<le> length xs" using xs(1) by (cases xs; simp)+
  have idx: "(length xs + 1) div 2 - 1 = (length xs - 1) div 2" using xs(1) by (cases xs) simp_all
  have "numbers xs \<noteq> []" using len xs(1) by auto
  then show ?thesis
    using kth_smallest_lane[OF S(1) num k] res False num len unfolding idx by (simp add: median_lane_def Let_def)
next
  case True
  let ?m = "length (numbers xs)" and ?c = "length (filter (\<lambda>x. x = None) xs)" and ?n = "length xs"
  obtain vs ids where o: "nan_last_order S Sn xs = (vs, ids)" by fastforce
  define p where "p = (if ignore_nan then nat (max (int ?n - 1 - int ?c) 0) div 2 else if 0 < ?c then ?n - ?c else (?n - 1) div 2)"
  have r: "v = vs ! p" "i = ids ! p" using res True o by (simp_all add: median_lane_def Let_def p_def)
  have sum: "?m + ?c = ?n" by (rule counts_add)
  have none: "None \<in> set xs \<longleftrightarrow> 0 < ?c" by (auto simp: filter_empty_conv length_greater_0_conv simp del: not_None_eq)
  have m: "numbers xs = [] \<longleftrightarrow> ?m = 0" by simp
  have n0: "0 < ?n" using xs(1) by simp
  have p: "p = (if None \<in> set xs \<and> \<not> ignore_nan \<or> numbers xs = [] then ?m else (?m - 1) div 2)"
    unfolding p_def none m using sum n0 by (auto simp: nat_diff_distrib)
  have below: "m + c = n \<Longrightarrow> 0 < n \<Longrightarrow> (if 0 < c \<and> b \<or> m = 0 then m else (m - 1) div 2) < n" for m c n :: nat and b by auto
  have lp: "p < ?n" unfolding p none m by (rule below[OF sum n0])
  note pick = nan_last_pick[OF S xs(1) o lp, folded r]
  have i: "i < ?n \<and> xs ! i = v" using pick(1,2) by blast
  show ?thesis
  proof (cases "None \<in> set xs \<and> \<not> ignore_nan \<or> numbers xs = []")
    case top: True
    then have "p = ?m" using p by simp
    then show ?thesis using top i pick(3,4) by simp
  next
    case mid: False
    then have pm: "p = (?m - 1) div 2" using p by auto
    have "0 < ?m" using mid by simp
    then have "p < ?m" unfolding pm by linarith
    then show ?thesis using mid i pick(3) pm by simp
  qed
qed

definition ref_selection :: "('k \<Rightarrow> 'o::linorder) \<Rightarrow> 'k selection" where
  "ref_selection val = \<lparr> top_k = (\<lambda>xs k. take k (rev (sort_key (\<lambda>i. val (xs ! i)) (rev [0..<length xs])))),
     bottom_k = (\<lambda>xs k. take k (sort_key (\<lambda>i. val (xs ! i)) [0..<length xs])) \<rparr>"

lemma ref_selection_stable: "bottom_stable val good (ref_selection val)"
  by (simp add: bottom_stable_def ref_selection_def)

lemma median_is_lower_middle_witness:
  "fst (median_lane (ref_selection the) (ref_selection id) True False [Some (7::enat), Some 2, Some 9, Some 4]) = Some 4
     \<and> median_lane (ref_selection the) (ref_selection id) True False [Some (7::enat), None, None] = (None, 1)"
proof -
  let ?S = "ref_selection the :: enat fl selection" and ?Sn = "ref_selection id"
  let ?a = "[Some (7::enat), Some 2, Some 9, Some 4]" and ?b = "[Some (7::enat), None, None]"
  obtain v i where a: "median_lane ?S ?Sn True False ?a = (v, i)" by fastforce
  obtain w j where b: "median_lane ?S ?Sn True False ?b = (w, j)" by fastforce
  have "v = Some 4"
    using median_is_lower_middle[OF ref_selection_stable ref_selection_stable _ _ a] by (simp add: numbers_def)
  moreover have "w = None \<and> j < 3 \<and> ?b ! j = w \<and> (\<forall>k < j. ?b ! k \<noteq> None)"
    using median_is_lower_middle[OF ref_selection_stable ref_selection_stable _ _ b] by (simp add: numbers_def)
  then have "w = None \<and> j = 1" by (auto simp: less_Suc_eq numeral_3_eq_3)
  ultimately show ?thesis using a b by simp
qed

end
