(* ===== verification/AT_Reduce.thy ===== *)
theory AT_Reduce
  imports AT_Views "HOL-Library.Multiset"
begin

text \<open>
  Reductions (\<^verbatim>\<open>aten_functions.py\<close>: \<open>aten_sum\<close>, \<open>aten_all\<close>, \<open>aten_any\<close>, \<open>aten_amax\<close>, \<open>aten_amin\<close>, \<open>aten_argmax\<close>,
  \<open>aten_argmin\<close>): MAX reduces one axis at a time and keeps it with extent 1, so several axes are a loop, and
  dropping them is a loop of \<open>squeeze\<close>. \<open>squeeze\<close> is refused where the extent is not 1.
\<close>

subsection \<open>What MAX provides\<close>

record ('t, 'v) reduce_ops = "('t, 'v) max_ops" +
  f_sum :: "'t \<Rightarrow> nat \<Rightarrow> 't"
  f_max :: "'t \<Rightarrow> nat \<Rightarrow> 't"
  f_min :: "'t \<Rightarrow> nat \<Rightarrow> 't"
  f_argmax :: "'t \<Rightarrow> 't"
  f_argmin :: "'t \<Rightarrow> 't"
  f_int32 :: "'t \<Rightarrow> 't"
  f_int64 :: "'t \<Rightarrow> 't"
  f_to_bool :: "'t \<Rightarrow> 't"
  f_nonzero :: "'t \<Rightarrow> 't"
  is_bool :: "'t \<Rightarrow> bool"
  is_small_int :: "'t \<Rightarrow> bool"

definition fiber :: "nat list \<Rightarrow> nat set \<Rightarrow> nat list \<Rightarrow> nat list set" where
  "fiber s D ix = {jx. inb s jx \<and> (\<forall>a < length s. a \<notin> D \<longrightarrow> jx ! a = ix ! a)}"

definition reduce_ok :: "('t, 'v, 'z) max_ops_scheme \<Rightarrow> ('v multiset \<Rightarrow> 'v) \<Rightarrow> ('t \<Rightarrow> nat \<Rightarrow> 't) \<Rightarrow> bool" where
  "reduce_ok M agg red \<longleftrightarrow> (\<forall>t s a. shape_of M t = s \<and> a < length s \<and> 0 < s ! a \<longrightarrow> shape_of M (red t a) = s[a := 1] \<and>
     (\<forall>ix. inb (s[a := 1]) ix \<longrightarrow>
        elem_at M (red t a) ix = agg (image_mset (\<lambda>k. elem_at M t (ix[a := k])) (mset_set {..<s ! a}))))"

text \<open>Aggregates that may be taken group by group.\<close>

locale aggregate =
  fixes agg :: "'v multiset \<Rightarrow> 'v"
  assumes agg_groups: "finite A \<Longrightarrow> A \<noteq> {} \<Longrightarrow> (\<And>x. x \<in> A \<Longrightarrow> G x \<noteq> {#}) \<Longrightarrow>
    agg (image_mset (\<lambda>x. agg (G x)) (mset_set A)) = agg (\<Sum>x \<in> (A :: nat list set). G x)"

definition arg_ok :: "('t, 'v, 'z) max_ops_scheme \<Rightarrow> ('v list \<Rightarrow> nat) \<Rightarrow> ('t \<Rightarrow> 't) \<Rightarrow> bool" where
  "arg_ok M pick arg \<longleftrightarrow> (\<forall>t s n. shape_of M t = s @ [n] \<longrightarrow> shape_of M (arg t) = s @ [1] \<and>
     (\<forall>ix. inb s ix \<longrightarrow> elem_at M (arg t) (ix @ [0]) = of_num M (int (pick (map (\<lambda>k. elem_at M t (ix @ [k])) [0..<n])))))"

subsection \<open>The lowerings\<close>

definition squeeze_axis :: "('t, 'v, 'z) max_ops_scheme \<Rightarrow> 't \<Rightarrow> int \<Rightarrow> 't result" where
  "squeeze_axis M t axis =
     (let s = shape_of M t; a = nat (norm_dim (length s) axis) in
      if norm_dim (length s) axis < 0 \<or> length s \<le> a then Inl (IndexError ''axis out of range'')
      else if s ! a \<noteq> 1 then Inl (ValueError ''squeezed dimension must be 1'')
      else Inr (f_squeeze M t a))"

fun squeeze_axes :: "('t, 'v, 'z) max_ops_scheme \<Rightarrow> 't \<Rightarrow> int list \<Rightarrow> 't result" where
  "squeeze_axes M t [] = Inr t"
| "squeeze_axes M t (a # as) = bind_res (squeeze_axis M t a) (\<lambda>t. squeeze_axes M t as)"

fun reduce_axes :: "('t, 'v, 'z) max_ops_scheme \<Rightarrow> ('t \<Rightarrow> nat \<Rightarrow> 't) \<Rightarrow> 't \<Rightarrow> int list \<Rightarrow> 't result" where
  "reduce_axes M red t [] = Inr t"
| "reduce_axes M red t (a # as) =
     (let r = norm_dim (length (shape_of M t)) a in
      if r < 0 \<or> int (length (shape_of M t)) \<le> r then Inl (IndexError ''axis out of range'')
      else reduce_axes M red (red t (nat r)) as)"

datatype dims_arg = NoDims | OneDim int | Dims "int list"

definition all_dims :: "nat \<Rightarrow> int list" where
  "all_dims rank = map int [0..<rank]"

definition normalized :: "nat \<Rightarrow> int list \<Rightarrow> int list" where
  "normalized rank ds = map (norm_dim rank) ds"

definition keep_or_drop :: "('t, 'v, 'z) max_ops_scheme \<Rightarrow> bool \<Rightarrow> int list \<Rightarrow> 't \<Rightarrow> 't result" where
  "keep_or_drop M keepdim ds t = (if keepdim then Inr t else squeeze_axes M t (rev (sort ds)))"

definition aten_sum :: "('t, 'v) reduce_ops \<Rightarrow> 't \<Rightarrow> dims_arg \<Rightarrow> bool \<Rightarrow> ('t \<Rightarrow> 't) option \<Rightarrow> 't result" where
  "aten_sum M input d keepdim dtype =
     (let input = (case dtype of Some cast \<Rightarrow> cast input
        | None \<Rightarrow> if is_bool M input \<or> is_small_int M input then f_int64 M input else input);
        rank = length (shape_of M input);
        ds = normalized rank (case d of NoDims \<Rightarrow> all_dims rank
          | OneDim i \<Rightarrow> if i = 0 then all_dims rank else [i]
          | Dims ds \<Rightarrow> if ds = [] then all_dims rank else ds) in
      bind_res (reduce_axes M (f_sum M) input (rev (sort ds))) (keep_or_drop M keepdim ds))"

definition truth_dims :: "nat \<Rightarrow> dims_arg \<Rightarrow> int list" where
  "truth_dims rank d = normalized rank (case d of NoDims \<Rightarrow> all_dims rank | OneDim i \<Rightarrow> [i] | Dims ds \<Rightarrow> ds)"

definition aten_all :: "('t, 'v) reduce_ops \<Rightarrow> 't \<Rightarrow> dims_arg \<Rightarrow> bool \<Rightarrow> 't result" where
  "aten_all M input d keepdim =
     (let input_bool = (if is_bool M input then input else f_nonzero M input);
        ds = truth_dims (length (shape_of M input)) d in
      bind_res (reduce_axes M (f_min M) (f_int32 M input_bool) (rev (sort ds))) (\<lambda>r.
      bind_res (keep_or_drop M keepdim ds r) (\<lambda>r. Inr (f_to_bool M r))))"

definition aten_any :: "('t, 'v) reduce_ops \<Rightarrow> 't \<Rightarrow> dims_arg \<Rightarrow> bool \<Rightarrow> 't result" where
  "aten_any M input d keepdim =
     (let input_bool = (if is_bool M input then input else f_nonzero M input);
        ds = truth_dims (length (shape_of M input)) d in
      bind_res (reduce_axes M (f_max M) (f_int32 M input_bool) (rev (sort ds))) (\<lambda>r.
      bind_res (keep_or_drop M keepdim ds r) (\<lambda>r. Inr (f_to_bool M r))))"

definition aten_amax :: "('t, 'v) reduce_ops \<Rightarrow> 't \<Rightarrow> int list \<Rightarrow> bool \<Rightarrow> 't result" where
  "aten_amax M input ds keepdim =
     (let ds = (if ds = [] then all_dims (length (shape_of M input)) else ds) in
      bind_res (reduce_axes M (f_max M) input ds) (keep_or_drop M keepdim ds))"

definition aten_amin :: "('t, 'v) reduce_ops \<Rightarrow> 't \<Rightarrow> int list \<Rightarrow> bool \<Rightarrow> 't result" where
  "aten_amin M input ds keepdim =
     (let ds = (if ds = [] then all_dims (length (shape_of M input)) else ds) in
      bind_res (reduce_axes M (f_min M) input ds) (keep_or_drop M keepdim ds))"

text \<open>The first axis of size 1 is squeezed.\<close>

definition squeeze_first_one :: "('t, 'v, 'z) max_ops_scheme \<Rightarrow> 't \<Rightarrow> 't" where
  "squeeze_first_one M t =
     (case List.find (\<lambda>i. shape_of M t ! i = 1) [0..<length (shape_of M t)] of None \<Rightarrow> t | Some i \<Rightarrow> f_squeeze M t i)"

definition arg_along :: "('t, 'v, 'z) max_ops_scheme \<Rightarrow> ('t \<Rightarrow> 't) \<Rightarrow> 't \<Rightarrow> int option \<Rightarrow> bool \<Rightarrow> 't" where
  "arg_along M arg input d keepdim =
     (let s = shape_of M input in
      case d of
        None \<Rightarrow>
          let result = arg (f_reshape M input [prod_list s]) in
          if keepdim then f_reshape M result (replicate (length s) 1) else f_squeeze M result 0
      | Some d \<Rightarrow>
          let ndim = length s; a = nat (norm_dim ndim d);
            result = (if a \<noteq> ndim - 1 then
                let result = arg (f_transpose M input a (ndim - 1)) in
                if \<not> keepdim then (if a < ndim - 1 then f_transpose M result a (ndim - 2) else result)
                else f_transpose M result a (ndim - 1)
              else arg input) in
          if keepdim then result else squeeze_first_one M result)"

definition aten_argmax :: "('t, 'v) reduce_ops \<Rightarrow> 't \<Rightarrow> int option \<Rightarrow> bool \<Rightarrow> 't" where
  "aten_argmax M input d keepdim = arg_along M (f_argmax M) input d keepdim"

definition aten_argmin :: "('t, 'v) reduce_ops \<Rightarrow> 't \<Rightarrow> int option \<Rightarrow> bool \<Rightarrow> 't" where
  "aten_argmin M input d keepdim = arg_along M (f_argmin M) input d keepdim"

fun squeeze_sorted :: "('t, 'v, 'z) max_ops_scheme \<Rightarrow> 't \<Rightarrow> int list \<Rightarrow> 't result" where
  "squeeze_sorted M t [] = Inr t"
| "squeeze_sorted M t (d # ds) =
     (let s = shape_of M t; a = norm_dim (length s) d in
      if a < int (length s) then
        if a < - int (length s) then Inl (IndexError ''list index out of range'')
        else let i = nat (if a < 0 then a + int (length s) else a) in
        squeeze_sorted M (if s ! i = 1 then f_squeeze M t i else t) ds
      else squeeze_sorted M t ds)"

definition aten_squeeze :: "('t, 'v, 'z) max_ops_scheme \<Rightarrow> 't \<Rightarrow> int list \<Rightarrow> 't result" where
  "aten_squeeze M input ds = squeeze_sorted M input (rev (sort ds))"

subsection \<open>Several axes, one at a time\<close>

definition reduced :: "nat list \<Rightarrow> nat set \<Rightarrow> nat list" where
  "reduced s D = map (\<lambda>a. if a \<in> D then 1 else s ! a) [0..<length s]"

lemma reduced_simps [simp]:
  "length (reduced s D) = length s" "a < length s \<Longrightarrow> reduced s D ! a = (if a \<in> D then 1 else s ! a)"
  by (simp_all add: reduced_def)

lemma reduced_insert: "a < length s \<Longrightarrow> reduced (s[a := 1]) D = reduced s (insert a D)"
  by (auto simp: reduced_def nth_list_update)

lemma finite_inb: "finite {jx. inb s jx}"
proof (induction s)
  case (Cons n s)
  have "{jx. inb (n # s) jx} = (\<lambda>(i, jx). i # jx) ` ({..<n} \<times> {jx. inb s jx})" by auto
  then show ?case using Cons by simp
qed simp

lemma finite_fiber [simp]: "finite (fiber s D ix)"
  by (rule finite_subset[OF _ finite_inb[of s]]) (auto simp: fiber_def)

lemma fiber_in: "jx \<in> fiber s D ix \<Longrightarrow> inb s jx"
  by (simp add: fiber_def)

lemma fiber_nonempty:
  assumes "inb (reduced s D) ix" "\<And>a. a \<in> D \<Longrightarrow> a < length s \<Longrightarrow> 0 < s ! a"
  shows "ix \<in> fiber s D ix"
proof -
  have "ix ! a < s ! a" if "a < length s" for a
    using inb_nth[OF assms(1), of a] assms(2)[of a] that by (auto split: if_splits)
  then show ?thesis using inb_length[OF assms(1)] by (auto simp: fiber_def intro!: inbI)
qed

lemma fiber_empty_axes: "inb s ix \<Longrightarrow> fiber s {} ix = {ix}"
  by (auto simp: fiber_def inb_length intro: nth_equalityI)

lemma fiber_insert:
  assumes a: "a < length s" "a \<notin> D" and ix: "inb (reduced s (insert a D)) ix"
  shows "bij_betw (\<lambda>(jx, k). jx[a := k]) (fiber (s[a := 1]) D ix \<times> {..<s ! a}) (fiber s (insert a D) ix)"
proof (rule bij_betw_byWitness[where f' = "\<lambda>jx. (jx[a := 0], jx ! a)"])
  let ?F = "fiber (s[a := 1]) D ix" and ?F' = "fiber s (insert a D) ix"
  have zero: "ix ! a = 0" using inb_nth[OF ix, of a] a by simp
  have len: "jx ! a = 0 \<and> length jx = length s" if "jx \<in> ?F" for jx
    using that inb_nth[of "s[a := 1]" jx a] inb_length[of "s[a := 1]" jx] a by (simp add: fiber_def)
  then show "\<forall>p \<in> ?F \<times> {..<s ! a}. (\<lambda>jx. (jx[a := 0], jx ! a)) ((\<lambda>(jx, k). jx[a := k]) p) = p"
    using a by (auto simp: list_update_same_conv)
  show "\<forall>jx \<in> ?F'. (\<lambda>(jx, k). jx[a := k]) (jx[a := 0], jx ! a) = jx" by simp
  have "jx[a := k] \<in> ?F'" if h: "jx \<in> ?F" "k < s ! a" for jx k
  proof -
    have "inb (s[a := 1, a := s ! a]) (jx[a := k])" using h by (intro inb_update) (auto simp: fiber_def)
    then show ?thesis using h a by (auto simp: fiber_def)
  qed
  then show "(\<lambda>(jx, k). jx[a := k]) ` (?F \<times> {..<s ! a}) \<subseteq> ?F'" by auto
  have "(jx[a := 0], jx ! a) \<in> ?F \<times> {..<s ! a}" if jx: "jx \<in> ?F'" for jx
  proof -
    have "inb (s[a := 1]) (jx[a := 0])" using jx by (intro inb_update) (auto simp: fiber_def)
    moreover have "jx ! a < s ! a" "length jx = length s" using jx a by (auto simp: fiber_def inb_nth inb_length)
    moreover have "jx[a := 0] ! b = ix ! b" if "b < length s" "b \<notin> D" for b
      using jx that zero \<open>length jx = length s\<close> by (cases "b = a") (auto simp: fiber_def)
    ultimately show ?thesis by (auto simp: fiber_def)
  qed
  then show "(\<lambda>jx. (jx[a := 0], jx ! a)) ` ?F' \<subseteq> ?F \<times> {..<s ! a}" by auto
qed

lemma sum_pairs:
  "finite A \<Longrightarrow> finite B \<Longrightarrow> (\<Sum>x \<in> A. image_mset (\<lambda>k. g (x, k)) (mset_set B)) = image_mset g (mset_set (A \<times> B))"
proof (induction A rule: finite_induct)
  case (insert x A)
  have "insert x A \<times> B = Pair x ` B \<union> A \<times> B" by auto
  moreover have "mset_set (Pair x ` B \<union> A \<times> B) = mset_set (Pair x ` B) + mset_set (A \<times> B)"
    using insert by (intro mset_set_Union) auto
  moreover have "mset_set (Pair x ` B) = image_mset (Pair x) (mset_set B)" by (simp add: image_mset_mset_set inj_on_def)
  ultimately show ?case using insert by (simp add: image_mset.compositionality comp_def)
qed simp

context aggregate begin

lemma reduce_axes_elem:
  assumes "reduce_ok M agg red"
  shows "shape_of M t = s \<Longrightarrow> distinct as \<Longrightarrow> set as \<subseteq> {..<length s} \<Longrightarrow> (\<And>a. a \<in> set as \<Longrightarrow> 0 < s ! a) \<Longrightarrow> as \<noteq> [] \<Longrightarrow>
    \<exists>r. reduce_axes M red t (map int as) = Inr r \<and> shape_of M r = reduced s (set as) \<and>
      (\<forall>ix. inb (reduced s (set as)) ix \<longrightarrow> elem_at M r ix = agg (image_mset (elem_at M t) (mset_set (fiber s (set as) ix))))"
proof (induction as arbitrary: t s)
  case (Cons a as)
  let ?t = "red t a" and ?s = "s[a := 1]"
  have a: "a < length s" "a \<notin> set as" "0 < s ! a" using Cons.prems by auto
  have t: "shape_of M ?t = ?s"
    "\<And>ix. inb ?s ix \<Longrightarrow> elem_at M ?t ix = agg (image_mset (\<lambda>k. elem_at M t (ix[a := k])) (mset_set {..<s ! a}))"
    using assms Cons.prems(1) a unfolding reduce_ok_def by blast+
  have step: "reduce_axes M red t (map int (a # as)) = reduce_axes M red ?t (map int as)"
    using a Cons.prems(1) by (simp add: norm_dim_def Let_def)
  show ?case
  proof (cases "as = []")
    case True
    have "reduced s {a} = ?s" using a by (auto simp: reduced_def nth_list_update intro!: nth_equalityI)
    moreover have "mset_set (fiber s {a} ix) = image_mset (\<lambda>k. ix[a := k]) (mset_set {..<s ! a})" if "inb ?s ix" for ix
    proof -
      have "inb (reduced s (insert a {})) ix" using that \<open>reduced s {a} = ?s\<close> by simp
      from fiber_insert[OF a(1) _ this] have "bij_betw (\<lambda>(jx, k). jx[a := k]) ({ix} \<times> {..<s ! a}) (fiber s {a} ix)"
        using fiber_empty_axes[OF that] by simp
      then have "inj_on (\<lambda>k. ix[a := k]) {..<s ! a}" "fiber s {a} ix = (\<lambda>k. ix[a := k]) ` {..<s ! a}"
        by (auto simp: bij_betw_def inj_on_def)
      then show ?thesis by (simp add: image_mset_mset_set)
    qed
    ultimately show ?thesis using step t True by (simp add: image_mset.compositionality comp_def)
  next
    case False
    have pos: "0 < ?s ! b" if "b \<in> set as" for b
      using Cons.prems(3) Cons.prems(4)[of b] that a by (cases "b = a") auto
    obtain r where r: "reduce_axes M red ?t (map int as) = Inr r" "shape_of M r = reduced ?s (set as)"
      "\<And>ix. inb (reduced ?s (set as)) ix \<Longrightarrow> elem_at M r ix = agg (image_mset (elem_at M ?t) (mset_set (fiber ?s (set as) ix)))"
      using Cons.IH[OF t(1)] Cons.prems pos False by auto
    have red: "reduced ?s (set as) = reduced s (set (a # as))" using reduced_insert[OF a(1), of "set as"] by simp
    have "elem_at M r ix = agg (image_mset (elem_at M t) (mset_set (fiber s (set (a # as)) ix)))"
      if ix: "inb (reduced s (set (a # as))) ix" for ix
    proof -
      let ?F = "fiber ?s (set as) ix" and ?K = "{..<s ! a}"
      have "image_mset (elem_at M ?t) (mset_set ?F) =
          image_mset (\<lambda>jx. agg (image_mset (\<lambda>k. elem_at M t (jx[a := k])) (mset_set ?K))) (mset_set ?F)"
        by (intro image_mset_cong t(2)) (simp add: fiber_in)
      moreover have "agg \<dots> = agg (\<Sum>jx \<in> ?F. image_mset (\<lambda>k. elem_at M t (jx[a := k])) (mset_set ?K))"
        using a(3) fiber_nonempty[of ?s "set as" ix] ix red pos by (intro agg_groups) (auto simp: mset_set_empty_iff)
      moreover have "(\<Sum>jx \<in> ?F. image_mset (\<lambda>k. elem_at M t (jx[a := k])) (mset_set ?K)) =
          image_mset (elem_at M t) (mset_set (fiber s (set (a # as)) ix))"
      proof -
        have bij: "bij_betw (\<lambda>(jx, k). jx[a := k]) (?F \<times> ?K) (fiber s (set (a # as)) ix)"
          using fiber_insert[OF a(1,2)] ix by simp
        have "(\<Sum>jx \<in> ?F. image_mset (\<lambda>k. elem_at M t (jx[a := k])) (mset_set ?K)) =
            image_mset (\<lambda>(jx, k). elem_at M t (jx[a := k])) (mset_set (?F \<times> ?K))"
          using sum_pairs[of ?F ?K "\<lambda>(jx, k). elem_at M t (jx[a := k])"] by simp
        also have "\<dots> = image_mset (elem_at M t) (image_mset (\<lambda>(jx, k). jx[a := k]) (mset_set (?F \<times> ?K)))"
          by (simp add: image_mset.compositionality comp_def case_prod_unfold)
        finally show ?thesis using bij by (simp add: bij_betw_def image_mset_mset_set)
      qed
      ultimately show ?thesis using r(3) ix red by simp
    qed
    then show ?thesis using step r red by auto
  qed
qed simp

end

subsection \<open>Dropping the reduced axes\<close>

definition drop_axes :: "nat set \<Rightarrow> 'a list \<Rightarrow> 'a list" where
  "drop_axes D xs = map ((!) xs) (filter (\<lambda>a. a \<notin> D) [0..<length xs])"

definition remove_at :: "nat \<Rightarrow> 'a list \<Rightarrow> 'a list" where
  "remove_at a xs = take a xs @ drop (Suc a) xs"

lemma drop_no_axes [simp]: "drop_axes {} xs = xs"
  by (simp add: drop_axes_def map_nth)

lemma drop_axes_remove:
  assumes "a < length xs" "\<And>b. b \<in> D \<Longrightarrow> b < a"
  shows "drop_axes D (remove_at a xs) = drop_axes (insert a D) xs"
proof -
  let ?ys = "remove_at a xs"
  have len: "length ?ys = length xs - 1" using assms(1) by (simp add: remove_at_def)
  have low: "map ((!) ?ys) (filter (\<lambda>b. b \<notin> D) [0..<a]) = map ((!) xs) (filter (\<lambda>b. b \<notin> insert a D) [0..<a])"
  proof -
    have "filter (\<lambda>b. b \<notin> D) [0..<a] = filter (\<lambda>b. b \<notin> insert a D) [0..<a]" by (intro filter_cong) auto
    then show ?thesis using assms(1) by (auto simp: remove_at_def nth_append)
  qed
  have no: "b \<notin> D" if "a \<le> b" for b using assms(2)[of b] that by auto
  have id: "filter (\<lambda>b. b \<notin> D) [a..<n] = [a..<n]" "filter (\<lambda>b. b \<notin> insert a D) [Suc a..<n] = [Suc a..<n]" for n
    using no by (auto simp: filter_id_conv)
  have split: "[0..<n] = [0..<a] @ [a..<n]" if "a \<le> n" for n using upt_add_eq_append[of 0 a "n - a"] that by simp
  have "[0..<length ?ys] = [0..<a] @ [a..<length ?ys]" "[0..<length xs] = [0..<a] @ a # [Suc a..<length xs]"
    using split[of "length ?ys"] split[of "length xs"] upt_conv_Cons[OF assms(1)] assms(1) len by simp_all
  then have "drop_axes D ?ys = map ((!) ?ys) (filter (\<lambda>b. b \<notin> D) [0..<a]) @ map ((!) ?ys) [a..<length ?ys]"
    "drop_axes (insert a D) xs = map ((!) xs) (filter (\<lambda>b. b \<notin> insert a D) [0..<a]) @ map ((!) xs) [Suc a..<length xs]"
    unfolding drop_axes_def by (simp_all add: id(1) id(2)[simplified])
  moreover have "map ((!) ?ys) [a..<length ?ys] = map ((!) xs) [Suc a..<length xs]"
    unfolding map_nth_slices using assms(1) by (simp add: remove_at_def)
  ultimately show ?thesis using low by simp
qed

lemma squeeze_axis_elem:
  assumes M: "squeeze_ok M" and t: "shape_of M t = s" "a < length s" "s ! a = 1"
  shows "squeeze_axis M t (int a) = Inr (f_squeeze M t a)" "shape_of M (f_squeeze M t a) = remove_at a s"
    "inb s ix \<Longrightarrow> elem_at M (f_squeeze M t a) (remove_at a ix) = elem_at M t ix"
proof -
  have s: "shape_of M t = take a s @ 1 # drop (Suc a) s" "a = length (take a s)"
    using t id_take_nth_drop[of a s] by simp_all
  show "squeeze_axis M t (int a) = Inr (f_squeeze M t a)" using t by (simp add: squeeze_axis_def norm_dim_def Let_def)
  show "shape_of M (f_squeeze M t a) = remove_at a s" using squeeze_shape[OF M s] by (simp add: remove_at_def)
  assume "inb s ix"
  then have sp: "length ix = length s" "inb (take a s) (take a ix)" "ix ! a = 0" "inb (drop (Suc a) s) (drop (Suc a) ix)"
    using inb_split[OF t(2), of ix] t(3) by simp_all
  then have "ix = take a ix @ 0 # drop (Suc a) ix" using t(2) id_take_nth_drop[of a ix] by simp
  then show "elem_at M (f_squeeze M t a) (remove_at a ix) = elem_at M t ix"
    using squeeze_elem[OF M s sp(2,4)] by (simp add: remove_at_def)
qed

lemma inb_remove: "inb s ix \<Longrightarrow> a < length s \<Longrightarrow> inb (remove_at a s) (remove_at a ix)"
  using inb_split[of a s ix] by (simp add: remove_at_def inb_append2)

lemma squeeze_axes_elem:
  assumes M: "squeeze_ok M"
  shows "shape_of M t = s \<Longrightarrow> sorted_wrt (>) as \<Longrightarrow> (\<And>a. a \<in> set as \<Longrightarrow> a < length s \<and> s ! a = 1) \<Longrightarrow>
    \<exists>r. squeeze_axes M t (map int as) = Inr r \<and> shape_of M r = drop_axes (set as) s \<and>
      (\<forall>ix. inb s ix \<longrightarrow> elem_at M r (drop_axes (set as) ix) = elem_at M t ix)"
proof (induction as arbitrary: t s)
  case (Cons a as)
  have a: "a < length s" "s ! a = 1" "\<And>b. b \<in> set as \<Longrightarrow> b < a" using Cons.prems by auto
  note sq = squeeze_axis_elem[OF M Cons.prems(1) a(1,2)]
  have low: "b < length (remove_at a s) \<and> remove_at a s ! b = 1" if "b \<in> set as" for b
    using Cons.prems(3)[of b] a(1) a(3)[OF that] that by (simp add: remove_at_def nth_append)
  from Cons.IH[OF sq(2) _ low] Cons.prems(2) obtain r where
    r: "squeeze_axes M (f_squeeze M t a) (map int as) = Inr r" "shape_of M r = drop_axes (set as) (remove_at a s)"
      "\<And>ix. inb (remove_at a s) ix \<Longrightarrow> elem_at M r (drop_axes (set as) ix) = elem_at M (f_squeeze M t a) ix" by auto
  have "elem_at M r (drop_axes (set (a # as)) ix) = elem_at M t ix" if "inb s ix" for ix
    using r(3)[OF inb_remove[OF that a(1)]] sq(3)[OF that] drop_axes_remove[of a ix "set as"] a(1,3) inb_length[OF that] by simp
  then show ?case using r sq(1) drop_axes_remove[of a s "set as"] a(1,3) by simp
qed simp

lemma descending_nats:
  assumes "\<And>d. d \<in> set ds \<Longrightarrow> 0 \<le> (d :: int)" "distinct ds"
  shows "map int (map nat (rev (sort ds))) = rev (sort ds)" "sorted_wrt (>) (map nat (rev (sort ds)))"
proof -
  show "map int (map nat (rev (sort ds))) = rev (sort ds)"
    unfolding map_map comp_def by (rule map_idI) (use assms(1) in simp)
  have "sorted_wrt (<) (sort ds)" using assms(2) by (simp add: strict_sorted_iff)
  then have "sorted_wrt (\<lambda>x y. nat y > nat x) (sort ds)"
    by (rule sorted_wrt_mono_rel[rotated]) (use assms(1) in \<open>fastforce simp: zless_nat_conj\<close>)
  then show "sorted_wrt (>) (map nat (rev (sort ds)))" by (simp add: rev_map sorted_wrt_rev sorted_wrt_map)
qed

subsection \<open>The result of a reduction\<close>

context aggregate begin

lemma reduce_then_drop:
  assumes M: "reduce_ok M agg red" "squeeze_ok M" and t: "shape_of M t = s"
    and ds: "ds \<noteq> []" "distinct ds" "\<And>d. d \<in> set ds \<Longrightarrow> 0 \<le> d \<and> nat d < length s \<and> 0 < s ! nat d"
    and os: "distinct os" "set os = set ds" and D: "D = nat ` set ds"
  shows "\<exists>r. bind_res (reduce_axes M red t os) (keep_or_drop M keepdim ds) = Inr r
    \<and> shape_of M r = (if keepdim then reduced s D else drop_axes D (reduced s D))
    \<and> (\<forall>ix. inb (reduced s D) ix \<longrightarrow> elem_at M r (if keepdim then ix else drop_axes D ix) =
         agg (image_mset (elem_at M t) (mset_set (fiber s D ix))))"
proof -
  let ?as = "map nat (rev (sort ds))" and ?os = "map nat os"
  note desc = descending_nats[of ds, OF _ ds(2)]
  have nn: "0 \<le> d" if "d \<in> set ds" for d using ds(3)[OF that] by simp
  have as: "map int ?as = rev (sort ds)" "sorted_wrt (>) ?as" "set ?as = D" using desc nn D by auto
  have o: "map int ?os = os" "set ?os = D"
    using nn os(2) D unfolding map_map comp_def by (auto intro!: map_idI)
  have "distinct ?os" using os nn by (auto simp: distinct_map inj_on_def eq_nat_nat_iff)
  moreover have "set ?os \<subseteq> {..<length s}" "\<And>a. a \<in> set ?os \<Longrightarrow> 0 < s ! a" using ds(3) os(2) by auto
  moreover have "?os \<noteq> []" using o(2) D ds(1) by force
  ultimately obtain r where r: "reduce_axes M red t os = Inr r" "shape_of M r = reduced s D"
    "\<And>ix. inb (reduced s D) ix \<Longrightarrow> elem_at M r ix = agg (image_mset (elem_at M t) (mset_set (fiber s D ix)))"
    using reduce_axes_elem[OF M(1) t, of ?os] unfolding o by blast
  show ?thesis
  proof (cases keepdim)
    case True
    then show ?thesis using r by (simp add: keep_or_drop_def)
  next
    case False
    have "a < length (reduced s D) \<and> reduced s D ! a = 1" if "a \<in> set ?as" for a
      using that as(3) ds(3) D by auto
    from squeeze_axes_elem[OF M(2) r(2) as(2) this] obtain q where
      q: "squeeze_axes M r (rev (sort ds)) = Inr q" "shape_of M q = drop_axes D (reduced s D)"
      "\<forall>ix. inb (reduced s D) ix \<longrightarrow> elem_at M q (drop_axes D ix) = elem_at M r ix"
      unfolding as(1,3) by blast
    then show ?thesis using False r by (auto simp: keep_or_drop_def)
  qed
qed

end

interpretation sums: aggregate "sum_mset :: 'v::comm_monoid_add multiset \<Rightarrow> 'v"
proof
  fix A :: "nat list set" and G :: "nat list \<Rightarrow> 'v multiset"
  assume "finite A"
  then show "sum_mset (image_mset (\<lambda>x. sum_mset (G x)) (mset_set A)) = sum_mset (\<Sum>x \<in> A. G x)"
    by (induction A rule: finite_induct) auto
qed

definition max_of :: "'v::linorder multiset \<Rightarrow> 'v" where
  "max_of X = Max (set_mset X)"

definition min_of :: "'v::linorder multiset \<Rightarrow> 'v" where
  "min_of X = Min (set_mset X)"

lemma set_mset_sum: "finite A \<Longrightarrow> set_mset (\<Sum>x \<in> A. G x) = (\<Union>x \<in> A. set_mset (G x))"
  by (induction A rule: finite_induct) auto

lemma Max_groups:
  assumes "finite A" "A \<noteq> {}" "\<And>x. x \<in> A \<Longrightarrow> finite (B x) \<and> B x \<noteq> {}"
  shows "Max (\<Union>x \<in> A. B x) = Max ((\<lambda>x. Max (B x)) ` A)" "Min (\<Union>x \<in> A. B x) = Min ((\<lambda>x. Min (B x)) ` A)"
proof -
  have "Max ((\<lambda>x. Max (B x)) ` A) \<in> (\<lambda>x. Max (B x)) ` A" "Min ((\<lambda>x. Min (B x)) ` A) \<in> (\<lambda>x. Min (B x)) ` A"
    using assms by (intro Max_in Min_in; simp)+
  then obtain x y where xy: "x \<in> A" "Max ((\<lambda>x. Max (B x)) ` A) = Max (B x)" "y \<in> A" "Min ((\<lambda>x. Min (B x)) ` A) = Min (B y)" by auto
  have le: "z \<le> Max ((\<lambda>x. Max (B x)) ` A)" "Min ((\<lambda>x. Min (B x)) ` A) \<le> z" if "a \<in> A" "z \<in> B a" for a z
  proof -
    have "z \<le> Max (B a)" "Min (B a) \<le> z" using assms(3)[OF that(1)] that(2) by auto
    moreover have "Max (B a) \<le> Max ((\<lambda>x. Max (B x)) ` A)" "Min ((\<lambda>x. Min (B x)) ` A) \<le> Min (B a)"
      using assms(1) that(1) by auto
    ultimately show "z \<le> Max ((\<lambda>x. Max (B x)) ` A)" "Min ((\<lambda>x. Min (B x)) ` A) \<le> z" by simp_all
  qed
  have "Max (B x) \<in> B x" "Min (B y) \<in> B y" using assms(3) xy(1,3) by auto
  then have mem: "Max ((\<lambda>x. Max (B x)) ` A) \<in> (\<Union>x \<in> A. B x)" "Min ((\<lambda>x. Min (B x)) ` A) \<in> (\<Union>x \<in> A. B x)"
    unfolding xy(2,4) using xy(1,3) by blast+
  have fin: "finite (\<Union>x \<in> A. B x)" using assms(1,3) by simp
  show "Max (\<Union>x \<in> A. B x) = Max ((\<lambda>x. Max (B x)) ` A)" by (rule Max_eqI[OF fin _ mem(1)]) (use le(1) in blast)
  show "Min (\<Union>x \<in> A. B x) = Min ((\<lambda>x. Min (B x)) ` A)" by (rule Min_eqI[OF fin _ mem(2)]) (use le(2) in blast)
qed

interpretation maxima: aggregate "max_of :: 'v::linorder multiset \<Rightarrow> 'v"
proof
  fix A :: "nat list set" and G :: "nat list \<Rightarrow> 'v multiset"
  assume A: "finite A" "A \<noteq> {}" and "\<And>x. x \<in> A \<Longrightarrow> G x \<noteq> {#}"
  then show "max_of (image_mset (\<lambda>x. max_of (G x)) (mset_set A)) = max_of (\<Sum>x \<in> A. G x)"
    using Max_groups(1)[OF A, of "\<lambda>x. set_mset (G x)"] by (simp add: max_of_def set_mset_sum)
qed

interpretation minima: aggregate "min_of :: 'v::linorder multiset \<Rightarrow> 'v"
proof
  fix A :: "nat list set" and G :: "nat list \<Rightarrow> 'v multiset"
  assume A: "finite A" "A \<noteq> {}" and "\<And>x. x \<in> A \<Longrightarrow> G x \<noteq> {#}"
  then show "min_of (image_mset (\<lambda>x. min_of (G x)) (mset_set A)) = min_of (\<Sum>x \<in> A. G x)"
    using Max_groups(2)[OF A, of "\<lambda>x. set_mset (G x)"] by (simp add: min_of_def set_mset_sum)
qed

definition widen_ok :: "('t, 'v) reduce_ops \<Rightarrow> bool" where
  "widen_ok M \<longleftrightarrow> (\<forall>t. shape_of M (f_int64 M t) = shape_of M t \<and>
     (\<forall>ix. inb (shape_of M t) ix \<longrightarrow> elem_at M (f_int64 M t) ix = elem_at M t ix))"

text \<open>\<open>sum\<close> over a list of different axes (negative ones counted from the end) holds, at every index of the
  other axes, the sum of the input over all positions of the listed ones, which have extent 1 or are dropped.
\<close>

theorem sum_over_axes:
  assumes M: "reduce_ok M sum_mset (f_sum M)" "squeeze_ok M" "widen_ok M" and s: "shape_of M input = s"
    and ds: "ds \<noteq> []" "distinct (normalized (length s) ds)"
      "\<forall>d \<in> set (normalized (length s) ds). 0 \<le> d \<and> nat d < length s \<and> 0 < s ! nat d"
    and D: "D = nat ` set (normalized (length s) ds)"
  shows "\<exists>r. aten_sum M input (Dims ds) keepdim None = Inr r
    \<and> shape_of M r = (if keepdim then reduced s D else drop_axes D (reduced s D))
    \<and> (\<forall>ix. inb (reduced s D) ix \<longrightarrow>
         elem_at M r (if keepdim then ix else drop_axes D ix) = (\<Sum>jx \<in> fiber s D ix. elem_at M input jx))"
proof -
  let ?N = "normalized (length s) ds"
  define t where "t = (if is_bool M input \<or> is_small_int M input then f_int64 M input else input)"
  have t: "shape_of M t = s" "\<And>ix. inb s ix \<Longrightarrow> elem_at M t ix = elem_at M input ix"
    using M(3) s by (auto simp: t_def widen_ok_def)
  have N: "?N \<noteq> []" using ds(1) by (simp add: normalized_def)
  have pos: "0 \<le> d \<and> nat d < length s \<and> 0 < s ! nat d" if "d \<in> set ?N" for d using ds(3) that by blast
  have sum: "aten_sum M input (Dims ds) keepdim None = bind_res (reduce_axes M (f_sum M) t (rev (sort ?N))) (keep_or_drop M keepdim ?N)"
    using ds(1) by (simp add: aten_sum_def Let_def t_def[symmetric] t(1))
  have os: "distinct (rev (sort ?N))" "set (rev (sort ?N)) = set ?N" using ds(2) by simp_all
  have "sum_mset (image_mset (elem_at M t) (mset_set (fiber s D ix))) = (\<Sum>jx \<in> fiber s D ix. elem_at M input jx)" for ix
    unfolding sum_unfold_sum_mset[symmetric] by (rule sum.cong) (auto simp: t(2) fiber_in)
  then show ?thesis
    using sums.reduce_then_drop[OF M(1,2) t(1) N ds(2) pos os D, of keepdim] unfolding sum by simp
qed

lemma amax_over_axes:
  fixes M :: "('t, 'v::linorder) reduce_ops"
  assumes M: "reduce_ok M max_of (f_max M)" "squeeze_ok M" and s: "shape_of M input = s"
    and ds: "ds \<noteq> []" "distinct ds" "\<And>d. d \<in> set ds \<Longrightarrow> 0 \<le> d \<and> nat d < length s \<and> 0 < s ! nat d"
  shows "\<exists>r. aten_amax M input ds keepdim = Inr r
    \<and> shape_of M r = (if keepdim then reduced s (nat ` set ds) else drop_axes (nat ` set ds) (reduced s (nat ` set ds)))
    \<and> (\<forall>ix. inb (reduced s (nat ` set ds)) ix \<longrightarrow>
         elem_at M r (if keepdim then ix else drop_axes (nat ` set ds) ix) = Max (elem_at M input ` fiber s (nat ` set ds) ix))"
  using maxima.reduce_then_drop[OF M s ds ds(2) refl refl, of keepdim] ds(1)
  by (simp add: aten_amax_def Let_def max_of_def)

lemma amin_over_axes:
  fixes M :: "('t, 'v::linorder) reduce_ops"
  assumes M: "reduce_ok M min_of (f_min M)" "squeeze_ok M" and s: "shape_of M input = s"
    and ds: "ds \<noteq> []" "distinct ds" "\<And>d. d \<in> set ds \<Longrightarrow> 0 \<le> d \<and> nat d < length s \<and> 0 < s ! nat d"
  shows "\<exists>r. aten_amin M input ds keepdim = Inr r
    \<and> shape_of M r = (if keepdim then reduced s (nat ` set ds) else drop_axes (nat ` set ds) (reduced s (nat ` set ds)))
    \<and> (\<forall>ix. inb (reduced s (nat ` set ds)) ix \<longrightarrow>
         elem_at M r (if keepdim then ix else drop_axes (nat ` set ds) ix) = Min (elem_at M input ` fiber s (nat ` set ds) ix))"
  using minima.reduce_then_drop[OF M s ds ds(2) refl refl, of keepdim] ds(1)
  by (simp add: aten_amin_def Let_def min_of_def)

definition ref_reduce :: "(nat list \<times> (nat list \<Rightarrow> int), int) reduce_ops" where
  "ref_reduce = max_ops.extend ref_ops \<lparr>
     f_sum = (\<lambda>t a. ((fst t)[a := 1], \<lambda>ix. sum_list (map (\<lambda>k. snd t (ix[a := k])) [0..<fst t ! a]))),
     f_max = (\<lambda>t a. ((fst t)[a := 1], \<lambda>ix. Max (set (map (\<lambda>k. snd t (ix[a := k])) [0..<fst t ! a])))),
     f_min = (\<lambda>t a. ((fst t)[a := 1], \<lambda>ix. Min (set (map (\<lambda>k. snd t (ix[a := k])) [0..<fst t ! a])))),
     f_argmax = (\<lambda>t. (butlast (fst t) @ [1], \<lambda>ix. int (length (takeWhile (\<lambda>v. v < Max (set (map (\<lambda>k. snd t (butlast ix @ [k])) [0..<last (fst t)])))
        (map (\<lambda>k. snd t (butlast ix @ [k])) [0..<last (fst t)]))))),
     f_argmin = (\<lambda>t. (butlast (fst t) @ [1], \<lambda>ix. int (length (takeWhile (\<lambda>v. Min (set (map (\<lambda>k. snd t (butlast ix @ [k])) [0..<last (fst t)])) < v)
        (map (\<lambda>k. snd t (butlast ix @ [k])) [0..<last (fst t)]))))),
     f_int32 = id, f_int64 = id, f_to_bool = id, f_nonzero = (\<lambda>t. (fst t, \<lambda>ix. of_bool (snd t ix \<noteq> 0))),
     is_bool = (\<lambda>_. False), is_small_int = (\<lambda>_. False) \<rparr>"

lemma ref_reduce_sel [simp]: "shape_of ref_reduce = fst" "elem_at ref_reduce = snd" "of_num ref_reduce = id"
  by (simp_all add: ref_reduce_def max_ops.defs)

lemma ref_reduce_sum: "reduce_ok ref_reduce sum_mset (f_sum ref_reduce)"
proof -
  have "sum_list (map f [0..<n]) = sum_mset (image_mset f (mset_set {..<n}))" for f :: "nat \<Rightarrow> int" and n
    unfolding mset_set_upto_eq_mset_upto mset_map[symmetric] sum_mset_sum_list by (rule refl)
  then show ?thesis unfolding reduce_ok_def by (simp add: ref_reduce_def max_ops.defs)
qed

lemma ref_reduce_squeeze: "squeeze_ok ref_reduce"
  using ref_squeeze unfolding squeeze_ok_def by (simp add: ref_reduce_def max_ops.defs ref_ops_def)

lemma ref_reduce_widen: "widen_ok ref_reduce"
  by (simp add: widen_ok_def ref_reduce_def max_ops.defs)

lemma sum_over_axes_witness:
  "\<exists>r. aten_sum ref_reduce ([2, 1, 2], \<lambda>ix. int (10 * ix ! 0 + ix ! 2)) (Dims [-1, 0]) False None = Inr r
     \<and> shape_of ref_reduce r = [1] \<and> elem_at ref_reduce r [0] = 22"
proof -
  let ?t = "([2, 1, 2], \<lambda>ix. int (10 * ix ! 0 + ix ! 2)) :: nat list \<times> (nat list \<Rightarrow> int)"
  let ?s = "[2, 1, 2] :: nat list"
  have s: "shape_of ref_reduce ?t = ?s" "[-1, 0::int] \<noteq> []" by simp_all
  have N: "normalized (length ?s) [-1, 0] = [2, 0]" by (simp add: normalized_def norm_dim_def)
  have ds: "distinct (normalized (length ?s) [-1, 0])"
    "\<forall>d \<in> set (normalized (length ?s) [-1, 0]). 0 \<le> d \<and> nat d < length ?s \<and> 0 < ?s ! nat d" unfolding N by simp_all
  have D: "{2, 0} = nat ` set (normalized (length ?s) [-1, 0])" unfolding N by auto
  from sum_over_axes[OF ref_reduce_sum ref_reduce_squeeze ref_reduce_widen s ds D, of False]
  obtain r where r: "aten_sum ref_reduce ?t (Dims [-1, 0]) False None = Inr r"
    "shape_of ref_reduce r = drop_axes {2, 0} (reduced ?s {2, 0})"
    "\<forall>ix. inb (reduced ?s {2, 0}) ix \<longrightarrow> elem_at ref_reduce r (drop_axes {2, 0} ix) = (\<Sum>jx \<in> fiber ?s {2, 0} ix. elem_at ref_reduce ?t jx)"
    by (elim exE conjE) simp
  have red: "reduced ?s {2, 0} = [1, 1, 1]" "drop_axes {2, 0} [x, y, z] = [y]" for x y z :: nat
    by (simp_all add: reduced_def drop_axes_def upt_rec)
  have "fiber ?s {2, 0} [0, 0, 0] = {[0, 0, 0], [0, 0, 1], [1, 0, 0], [1, 0, 1]}"
    by (auto simp: fiber_def less_Suc_eq numeral_2_eq_2 numeral_3_eq_3)
  then have "elem_at ref_reduce r [0] = 22" using r(3)[THEN spec, of "[0, 0, 0]"] unfolding red by simp
  then show ?thesis using r(1,2) unfolding red by blast
qed

text \<open>\<open>amax\<close> does not normalise its axes, and drops them from the highest number down: with two negative ones the second
  counts from the end of a tensor that has already lost an axis.\<close>

lemma amax_negative_pair_refused:
  "aten_amax ref_reduce ([2, 3, 4], \<lambda>ix. 0) [-2, -1] False = Inl (ValueError ''squeezed dimension must be 1'')"
  by (simp add: aten_amax_def keep_or_drop_def squeeze_axis_def norm_dim_def ref_reduce_def max_ops.defs ref_ops_def Let_def)

subsection \<open>argmax and argmin\<close>

lemma swap_last:
  assumes "length xs = Suc l" "a < l"
  obtains p where "swap_at a l xs = p @ [xs ! a]" "length p = l"
proof
  have "swap_at a l xs \<noteq> []" "last (swap_at a l xs) = xs ! a"
    using assms by (auto simp: last_conv_nth nth_swap simp flip: length_0_conv)
  then show "swap_at a l xs = butlast (swap_at a l xs) @ [xs ! a]" by (metis append_butlast_last_id)
  show "length (butlast (swap_at a l xs)) = l" using assms(1) by simp
qed

lemma inb_swap: "inb s ix \<Longrightarrow> a < length s \<Longrightarrow> b < length s \<Longrightarrow> inb (swap_at a b s) (swap_at a b ix)"
  using inb_length[of s ix] inb_nth[of s ix] by (intro inbI) (auto simp: nth_swap)

lemma swap_update: "a < length xs \<Longrightarrow> b < length xs \<Longrightarrow> swap_at a b (xs[a := k]) = (swap_at a b xs)[b := k]"
  by (auto simp: nth_swap nth_list_update intro!: nth_equalityI)

text \<open>With \<open>keepdim\<close>, \<open>argmax\<close> and \<open>argmin\<close> along any axis hold the position MAX picks on the line through each
  index along that axis, which keeps extent 1, although MAX only searches the last axis.
\<close>

theorem arg_along_keepdim:
  assumes M: "transpose_ok M" "arg_ok M pick arg" and s: "shape_of M input = s"
    and d: "norm_dim (length s) d = int a" "a < length s"
  shows "shape_of M (arg_along M arg input (Some d) True) = s[a := 1]"
    and "inb (s[a := 1]) ix \<Longrightarrow> elem_at M (arg_along M arg input (Some d) True) ix =
      of_num M (int (pick (map (\<lambda>k. elem_at M input (ix[a := k])) [0..<s ! a])))"
proof -
  define l where "l = length s - 1"
  have len: "length s = Suc l" using d(2) by (simp add: l_def)
  have arg: "shape_of M t = s' @ [n] \<Longrightarrow> shape_of M (arg t) = s' @ [1]"
    "shape_of M t = s' @ [n] \<Longrightarrow> inb s' jx \<Longrightarrow> elem_at M (arg t) (jx @ [0]) =
      of_num M (int (pick (map (\<lambda>k. elem_at M t (jx @ [k])) [0..<n])))" for t s' n jx
    using M(2) unfolding arg_ok_def by blast+
  have both: "shape_of M (arg_along M arg input (Some d) True) = s[a := 1] \<and>
    (inb (s[a := 1]) ix \<longrightarrow> elem_at M (arg_along M arg input (Some d) True) ix =
      of_num M (int (pick (map (\<lambda>k. elem_at M input (ix[a := k])) [0..<s ! a]))))"
  proof (cases "a = l")
    case True
    have r: "arg_along M arg input (Some d) True = arg input"
      unfolding arg_along_def s Let_def option.case d(1) nat_int l_def[symmetric] True by simp
    obtain s' n where sn: "s = s' @ [n]" "length s' = l" using len by (cases s rule: rev_cases) auto
    then have u: "s[l := 1] = s' @ [1]" "s ! l = n" by auto
    have "elem_at M (arg input) ix = of_num M (int (pick (map (\<lambda>k. elem_at M input (ix[l := k])) [0..<n])))"
      if ix: "inb (s' @ [1]) ix"
    proof -
      obtain jx i where jx: "ix = jx @ [i]" using inb_length[OF ix] by (cases ix rule: rev_cases) auto
      have lj: "length jx = length s'" using inb_length[OF ix] jx by simp
      have in1: "inb s' jx" "i = 0" using ix unfolding jx inb_append2[OF lj] by auto
      have "ix[l := k] = jx @ [k]" for k using jx lj sn(2) by (simp add: list_update_append)
      then show ?thesis using arg(2)[of input s' n jx] jx in1 s sn by simp
    qed
    then show ?thesis using arg(1)[of input s' n] sn s unfolding r True u by simp
  next
    case False
    then have al: "a < l" "a < length s" "l < length s" using d(2) len by auto
    let ?t = "f_transpose M input a l"
    obtain p where p: "swap_at a l s = p @ [s ! a]" "length p = l" by (rule swap_last[OF len al(1)])
    have r: "arg_along M arg input (Some d) True = f_transpose M (arg ?t) a l"
      unfolding arg_along_def s Let_def option.case d(1) nat_int l_def[symmetric] using False by simp
    have ts: "shape_of M ?t = p @ [s ! a]"
      using transpose_shape[OF M(1), of a input l] al s p(1) by simp
    have as: "shape_of M (arg ?t) = p @ [1]" by (rule arg(1)[OF ts])
    have p1: "p @ [1] = swap_at a l (s[a := 1])"
      unfolding swap_update[OF al(2,3)] p(1) using p(2) by (simp add: list_update_append)
    have sh: "shape_of M (f_transpose M (arg ?t) a l) = s[a := 1]"
      using transpose_shape[OF M(1), of a "arg ?t" l] al as p1 p(2) swap_swap[of a "s[a := 1]" l] by simp
    have "elem_at M (f_transpose M (arg ?t) a l) ix = of_num M (int (pick (map (\<lambda>k. elem_at M input (ix[a := k])) [0..<s ! a])))"
      if ix: "inb (s[a := 1]) ix"
    proof -
      have li: "length ix = Suc l" using inb_length[OF ix] len by simp
      have z: "ix ! a = 0" using inb_nth[OF ix, of a] al by simp
      obtain jx where sj: "swap_at a l ix = jx @ [0]" "length jx = l" using swap_last[OF li al(1)] unfolding z .
      have "inb (p @ [1]) (swap_at a l ix)" unfolding p1 using inb_swap[OF ix] al by simp
      then have in1: "inb (shape_of M (arg ?t)) (jx @ [0])" "inb p jx"
        unfolding as sj(1) using sj(2) p(2) by (simp_all add: inb_append2)
      have "elem_at M (f_transpose M (arg ?t) a l) (swap_at a l (jx @ [0])) = elem_at M (arg ?t) (jx @ [0])"
        using al as len p(2) by (intro transpose_elem[OF M(1) _ _ in1(1)]) simp_all
      then have "elem_at M (f_transpose M (arg ?t) a l) ix = elem_at M (arg ?t) (jx @ [0])"
        using swap_swap[of a ix l] al li sj(1) len by simp
      also have "\<dots> = of_num M (int (pick (map (\<lambda>k. elem_at M ?t (jx @ [k])) [0..<s ! a])))"
        by (rule arg(2)[OF ts in1(2)])
      also have "map (\<lambda>k. elem_at M ?t (jx @ [k])) [0..<s ! a] = map (\<lambda>k. elem_at M input (ix[a := k])) [0..<s ! a]"
      proof (rule map_cong[OF refl])
        fix k assume "k \<in> set [0..<s ! a]"
        then have "inb (s[a := 1, a := s ! a]) (ix[a := k])" using ix by (intro inb_update) auto
        then have k: "inb s (ix[a := k])" by simp
        have "jx @ [k] = swap_at a l (ix[a := k])"
          using swap_update[of a ix l k] al li len sj by (metis list_update_length)
        then show "elem_at M ?t (jx @ [k]) = elem_at M input (ix[a := k])"
          using transpose_elem[OF M(1), of a input l "ix[a := k]"] al k s by simp
      qed
      finally show ?thesis .
    qed
    then show ?thesis using sh unfolding r by blast
  qed
  show "shape_of M (arg_along M arg input (Some d) True) = s[a := 1]" using both by blast
  show "inb (s[a := 1]) ix \<Longrightarrow> elem_at M (arg_along M arg input (Some d) True) ix =
      of_num M (int (pick (map (\<lambda>k. elem_at M input (ix[a := k])) [0..<s ! a])))" using both by blast
qed

text \<open>Without \<open>keepdim\<close> the axis to drop is found by its extent, and the axes are swapped where they should move: a
  leading axis of extent 1 is dropped in place of the searched one, and in rank 4 the first axis comes back
  with two axes exchanged.\<close>

lemma argmax_drops_wrong_axis:
  "shape_of ref_reduce (aten_argmax ref_reduce ([1, 4, 5], \<lambda>ix. 0) (Some (-1)) False) = [4, 1]"
  by code_simp

lemma argmax_exchanges_axes:
  "shape_of ref_reduce (aten_argmax ref_reduce ([2, 3, 4, 5], \<lambda>ix. 0) (Some 0) False) = [4, 3, 5]"
  by code_simp

lemma squeeze_leaves_one:
  "\<exists>r. aten_squeeze ref_ops ([5, 1, 1], \<lambda>ix. 0) [-1, -2] = Inr r \<and> shape_of ref_ops r = [5, 1]"
  by (simp add: aten_squeeze_def norm_dim_def ref_ops_def Let_def)

lemma ref_reduce_argmax: "arg_ok ref_reduce (\<lambda>vs. length (takeWhile (\<lambda>v. v < Max (set vs)) vs)) (f_argmax ref_reduce)"
  by (simp add: arg_ok_def ref_reduce_def max_ops.defs)

lemma ref_reduce_transpose: "transpose_ok ref_reduce"
  using ref_transpose unfolding transpose_ok_def by (simp add: ref_reduce_def max_ops.defs ref_ops_def)

lemma arg_along_keepdim_witness:
  "elem_at ref_reduce (aten_argmax ref_reduce ([3, 2], \<lambda>ix. if ix = [2, 1] then 9 else 0) (Some 0) True) [0, 1] = 2"
proof -
  let ?t = "([3, 2], \<lambda>ix. if ix = [2, 1] then 9 else 0) :: nat list \<times> (nat list \<Rightarrow> int)"
  have s: "shape_of ref_reduce ?t = [3, 2]" "norm_dim (length [3, 2::nat]) 0 = int 0" "(0::nat) < length [3, 2::nat]"
    by (simp_all add: norm_dim_def)
  have "elem_at ref_reduce (aten_argmax ref_reduce ?t (Some 0) True) [0, 1] =
      int (length (takeWhile (\<lambda>v. v < Max (set (map (\<lambda>k. elem_at ref_reduce ?t ([0, 1][0 := k])) [0..<3])))
        (map (\<lambda>k. elem_at ref_reduce ?t ([0, 1][0 := k])) [0..<3])))"
    using arg_along_keepdim(2)[OF ref_reduce_transpose ref_reduce_argmax s, of "[0, 1]"] by (simp add: aten_argmax_def)
  also have "\<dots> = 2" by (simp add: upt_rec)
  finally show ?thesis .
qed

end
