(* ===== verification/AT_Pads.thy ===== *)
theory AT_Pads
  imports AT_Tensor
begin

text \<open>
  Padding (\<^verbatim>\<open>aten_functions.py\<close>: \<open>_static_pad_ints\<close>, \<open>_torch_pad_to_max_paddings\<close>, \<open>aten_constant_pad_nd\<close>). torch lists the paddings from the
  last axis backwards and crops where one is negative; MAX wants every axis in order and no negative one.
\<close>

subsection \<open>The paddings\<close>

datatype pad_amount = PadInt int | PadStatic int | PadSymbolic

definition static_pad_ints :: "pad_amount list \<Rightarrow> int list result" where
  "static_pad_ints pad = map_res (\<lambda>p. case p of PadInt n \<Rightarrow> Inr n | PadStatic n \<Rightarrow> Inr n
     | PadSymbolic \<Rightarrow> Inl (AssertionError ''expected a static pad amount'')) pad"

text \<open>Python's list assignment, negative indices counting from the end.\<close>

definition store_at :: "int \<Rightarrow> 'a \<Rightarrow> 'a list \<Rightarrow> 'a list result" where
  "store_at i v xs =
     (if - int (length xs) \<le> i \<and> i < int (length xs) then Inr (xs[nat (i mod int (length xs)) := v])
      else Inl (IndexError ''list assignment index out of range''))"

fun each_res :: "('i \<Rightarrow> 's \<Rightarrow> 's result) \<Rightarrow> 'i list \<Rightarrow> 's \<Rightarrow> 's result" where
  "each_res f [] s = Inr s"
| "each_res f (i # is) s = bind_res (f i s) (each_res f is)"

definition pad_step :: "nat \<Rightarrow> int list \<Rightarrow> nat \<Rightarrow> int list \<Rightarrow> int list result" where
  "pad_step rank pad i paddings =
     (let d = int rank - 1 - int i in
      bind_res (store_at (2 * d) (pad ! (2 * i)) paddings) (store_at (2 * d + 1) (pad ! (2 * i + 1))))"

definition torch_pad_to_max_paddings :: "nat \<Rightarrow> int list \<Rightarrow> int list result" where
  "torch_pad_to_max_paddings rank pad = each_res (pad_step rank pad) [0..<length pad div 2] (replicate (2 * rank) 0)"

subsection \<open>constant_pad_nd\<close>

type_synonym axis_slice = "int option \<times> int option"

text \<open>MAX's slicing and its padding with a constant.\<close>

record ('t, 'v) pad_ops = "('t, 'v) max_ops" +
  f_slices :: "'t \<Rightarrow> axis_slice list \<Rightarrow> 't"
  f_pad :: "'t \<Rightarrow> int list \<Rightarrow> 'v \<Rightarrow> 't"

definition crop_step :: "nat \<Rightarrow> nat \<Rightarrow> axis_slice list \<times> int list \<Rightarrow> (axis_slice list \<times> int list) result" where
  "crop_step rank i = (\<lambda>(slices, pad).
     let d = int rank - 1 - int i; before = pad ! (2 * i); after = pad ! (2 * i + 1) in
     if (before < 0 \<or> after < 0) \<and> d < - int rank then Inl (IndexError ''list index out of range'')
     else let a = nat (d mod int rank);
       slices = (if before < 0 then slices[a := (Some (- before), snd (slices ! a))] else slices);
       pad = (if before < 0 then pad[2 * i := 0] else pad);
       slices = (if after < 0 then slices[a := (fst (slices ! a), Some after)] else slices);
       pad = (if after < 0 then pad[2 * i + 1 := 0] else pad) in
     Inr (slices, pad))"

definition aten_constant_pad_nd :: "('t, 'v) pad_ops \<Rightarrow> 't \<Rightarrow> pad_amount list \<Rightarrow> 'v \<Rightarrow> 't result" where
  "aten_constant_pad_nd M input pad v =
     bind_res (static_pad_ints pad) (\<lambda>pad_ints.
     let rank = length (shape_of M input) in
     bind_res (if \<exists>p \<in> set pad_ints. p < 0
       then bind_res (each_res (crop_step rank) [0..<length pad_ints div 2] (replicate rank (None, None), pad_ints)) (\<lambda>(slices, pad).
         Inr (f_slices M input slices, pad))
       else Inr (input, pad_ints)) (\<lambda>(input, pad_ints).
     bind_res (torch_pad_to_max_paddings rank pad_ints) (\<lambda>paddings. Inr (f_pad M input paddings v))))"

text \<open>What MAX documents: slicing with Python's slices, and padding with nonnegative amounts.\<close>

definition slice_bounds :: "nat \<Rightarrow> axis_slice \<Rightarrow> int \<times> int" where
  "slice_bounds n sl = (case fst sl of None \<Rightarrow> 0 | Some i \<Rightarrow> i,
     case snd sl of None \<Rightarrow> int n | Some j \<Rightarrow> if j < 0 then int n + j else j)"

definition slices_ok :: "('t, 'v) pad_ops \<Rightarrow> bool" where
  "slices_ok M \<longleftrightarrow> (\<forall>t s sl lo hi. shape_of M t = s \<and> length sl = length s
     \<and> (\<forall>a < length s. slice_bounds (s ! a) (sl ! a) = (int (lo a), int (hi a)) \<and> lo a \<le> hi a \<and> hi a \<le> s ! a) \<longrightarrow>
     shape_of M (f_slices M t sl) = map (\<lambda>a. hi a - lo a) [0..<length s]
     \<and> (\<forall>ix. inb (map (\<lambda>a. hi a - lo a) [0..<length s]) ix \<longrightarrow>
          elem_at M (f_slices M t sl) ix = elem_at M t (map (\<lambda>a. ix ! a + lo a) [0..<length s])))"

definition pad_ok :: "('t, 'v) pad_ops \<Rightarrow> bool" where
  "pad_ok M \<longleftrightarrow> (\<forall>t s b e v. shape_of M t = s \<longrightarrow> (\<forall>ps. length ps = 2 * length s
     \<and> (\<forall>a < length s. ps ! (2 * a) = int (b a) \<and> ps ! (2 * a + 1) = int (e a)) \<longrightarrow>
     shape_of M (f_pad M t ps v) = map (\<lambda>a. b a + s ! a + e a) [0..<length s]
     \<and> (\<forall>ix. inb (map (\<lambda>a. b a + s ! a + e a) [0..<length s]) ix \<longrightarrow> elem_at M (f_pad M t ps v) ix =
          (if \<forall>a < length s. b a \<le> ix ! a \<and> ix ! a < b a + s ! a then elem_at M t (map (\<lambda>a. ix ! a - b a) [0..<length s]) else v))))"

subsection \<open>The loops\<close>

text \<open>The amounts before and after an axis in torch's list.\<close>

definition pad_of :: "nat \<Rightarrow> int list \<Rightarrow> nat \<Rightarrow> nat \<Rightarrow> int" where
  "pad_of rank pad k a = (if 2 * (rank - 1 - a) + k < length pad then pad ! (2 * (rank - 1 - a) + k) else 0)"

lemma each_res_snoc: "each_res f (is @ [i]) s = bind_res (each_res f is s) (f i)"
  by (induction "is" arbitrary: s) (auto simp: bind_res_def split: sum.splits)

lemma each_res_upto:
  assumes "Q 0 s" "\<And>j s. j < n \<Longrightarrow> Q j s \<Longrightarrow> \<exists>s'. f j s = Inr s' \<and> Q (Suc j) s'"
  shows "\<exists>s'. each_res f [0..<n] s = Inr s' \<and> Q n s'"
  using assms(2)
proof (induction n)
  case 0
  then show ?case using assms(1) by simp
next
  case (Suc n)
  then obtain s' where "each_res f [0..<n] s = Inr s'" "Q n s'" by auto
  moreover obtain s'' where "f n s' = Inr s''" "Q (Suc n) s''" using Suc.prems[of n s'] \<open>Q n s'\<close> by auto
  ultimately show ?case by (auto simp: each_res_snoc)
qed

lemma store_at_nat: "i < length xs \<Longrightarrow> store_at (int i) v xs = Inr (xs[i := v])"
  by (simp add: store_at_def)

lemma paddings_spec:
  assumes "length pad = 2 * k" "k \<le> rank"
  shows "\<exists>ps. torch_pad_to_max_paddings rank pad = Inr ps \<and> length ps = 2 * rank
    \<and> (\<forall>a < rank. ps ! (2 * a) = pad_of rank pad 0 a \<and> ps ! (2 * a + 1) = pad_of rank pad 1 a)"
proof -
  define Q :: "nat \<Rightarrow> int list \<Rightarrow> bool" where "Q = (\<lambda>j ps. length ps = 2 * rank \<and> (\<forall>a < rank.
    ps ! (2 * a) = (if rank - 1 - a < j then pad ! (2 * (rank - 1 - a)) else 0) \<and>
    ps ! (2 * a + 1) = (if rank - 1 - a < j then pad ! (2 * (rank - 1 - a) + 1) else 0)))"
  have "\<exists>ps. each_res (pad_step rank pad) [0..<k] (replicate (2 * rank) 0) = Inr ps \<and> Q k ps"
  proof (rule each_res_upto[of Q])
    show "Q 0 (replicate (2 * rank) 0)" by (simp add: Q_def)
    fix j ps assume j: "j < k" and Q: "Q j ps"
    let ?d = "rank - 1 - j"
    note Qd = Q[unfolded Q_def]
    have d: "int rank - 1 - int j = int ?d" "2 * ?d < length ps" "2 * ?d + 1 < length ps" using j Qd assms(2) by auto
    have "pad_step rank pad j ps = Inr (ps[2 * ?d := pad ! (2 * j), 2 * ?d + 1 := pad ! (2 * j + 1)])"
      using d store_at_nat[of "2 * ?d" ps] store_at_nat[of "2 * ?d + 1" "ps[2 * ?d := pad ! (2 * j)]"]
      by (simp add: pad_step_def Let_def)
    moreover have "Q (Suc j) (ps[2 * ?d := pad ! (2 * j), 2 * ?d + 1 := pad ! (2 * j + 1)])"
      unfolding Q_def
    proof (intro conjI allI impI)
      fix a assume a: "a < rank"
      have "a = ?d \<longleftrightarrow> rank - 1 - a = j" "rank - 1 - a < Suc j \<longleftrightarrow> rank - 1 - a < j \<or> rank - 1 - a = j" using a j assms(2) by auto
      moreover have "2 * a + 1 \<noteq> 2 * ?d" "2 * a \<noteq> 2 * ?d + 1" by presburger+
      ultimately show "ps[2 * ?d := pad ! (2 * j), 2 * ?d + 1 := pad ! (2 * j + 1)] ! (2 * a) =
          (if rank - 1 - a < Suc j then pad ! (2 * (rank - 1 - a)) else 0)"
        "ps[2 * ?d := pad ! (2 * j), 2 * ?d + 1 := pad ! (2 * j + 1)] ! (2 * a + 1) =
          (if rank - 1 - a < Suc j then pad ! (2 * (rank - 1 - a) + 1) else 0)"
        using Qd a d by (auto simp: nth_list_update)
    qed (use Qd in simp)
    ultimately show "\<exists>ps'. pad_step rank pad j ps = Inr ps' \<and> Q (Suc j) ps'" by blast
  qed
  then show ?thesis using assms by (auto simp: torch_pad_to_max_paddings_def pad_of_def Q_def)
qed

definition cropped :: "nat \<Rightarrow> int list \<Rightarrow> nat \<Rightarrow> axis_slice" where
  "cropped rank pad a =
     (if pad_of rank pad 0 a < 0 then Some (- pad_of rank pad 0 a) else None,
      if pad_of rank pad 1 a < 0 then Some (pad_of rank pad 1 a) else None)"

lemma crops_spec:
  assumes "length pad = 2 * k" "k \<le> rank"
  shows "\<exists>p. each_res (crop_step rank) [0..<k] (replicate rank (None, None), pad) = Inr (map (cropped rank pad) [0..<rank], p)
    \<and> length p = 2 * k \<and> (\<forall>a. pad_of rank p 0 a = max 0 (pad_of rank pad 0 a) \<and> pad_of rank p 1 a = max 0 (pad_of rank pad 1 a))"
proof -
  define Q :: "nat \<Rightarrow> axis_slice list \<times> int list \<Rightarrow> bool" where
    "Q = (\<lambda>j (sl, p). length sl = rank \<and> length p = 2 * k
      \<and> (\<forall>a < rank. sl ! a = (if rank - 1 - a < j then cropped rank pad a else (None, None)))
      \<and> (\<forall>i < k. p ! (2 * i) = (if i < j then max 0 (pad ! (2 * i)) else pad ! (2 * i))
           \<and> p ! (2 * i + 1) = (if i < j then max 0 (pad ! (2 * i + 1)) else pad ! (2 * i + 1))))"
  have "\<exists>st. each_res (crop_step rank) [0..<k] (replicate rank (None, None), pad) = Inr st \<and> Q k st"
  proof (rule each_res_upto[of Q])
    show "Q 0 (replicate rank (None, None), pad)" using assms by (simp add: Q_def)
    fix j and st :: "axis_slice list \<times> int list" assume j: "j < k" and "Q j st"
    then obtain sl p where st: "st = (sl, p)" and Q: "length sl = rank" "length p = 2 * k"
      "\<And>a. a < rank \<Longrightarrow> sl ! a = (if rank - 1 - a < j then cropped rank pad a else (None, None))"
      "\<And>i. i < k \<Longrightarrow> p ! (2 * i) = (if i < j then max 0 (pad ! (2 * i)) else pad ! (2 * i))"
      "\<And>i. i < k \<Longrightarrow> p ! (2 * i + 1) = (if i < j then max 0 (pad ! (2 * i + 1)) else pad ! (2 * i + 1))"
      by (cases st) (auto simp: Q_def)
    define d where "d = rank - 1 - j"
    have d: "int rank - 1 - int j = int d" "d < rank" "rank - 1 - d = j" using j assms(2) by (auto simp: d_def)
    define b e where be: "b = pad ! (2 * j)" "e = pad ! (2 * j + 1)"
    have pb: "p ! (2 * j) = b" "p ! (2 * j + 1) = e" using Q(4,5)[OF j] by (simp_all add: be)
    have of_d: "pad_of rank pad 0 d = b" "pad_of rank pad 1 d = e" using d(3) j assms(1) by (simp_all add: pad_of_def be)
    have cd: "cropped rank pad d = (if b < 0 then Some (- b) else None, if e < 0 then Some e else None)"
      by (simp only: cropped_def of_d)
    define sl' where "sl' = sl[d := cropped rank pad d]"
    define p' where "p' = p[2 * j := max 0 b, 2 * j + 1 := max 0 e]"
    have sd: "sl ! d = (None, None)" using Q(3)[OF d(2)] d(3) by simp
    have lj: "2 * j < length p" "2 * j + 1 < length p" using j Q(2) by auto
    have keep: "p[2 * j := b] = p" "p[2 * j + 1 := e] = p" "sl[d := (None, None)] = sl"
      using pb sd by (metis list_update_id)+
    have step: "crop_step rank j st = Inr (sl', p')"
    proof -
      have bound: "\<not> int d < - int rank" "nat (int d mod int rank) = d" using d(2) by simp_all
      have n2: "p[2 * j := 0, 2 * j + 1 := e] = p[2 * j := 0]" using pb(2) by (metis list_update_id list_update_swap n_not_Suc_n Suc_eq_plus1)
      show ?thesis
        unfolding crop_step_def st case_prod_conv Let_def d(1) pb bound(2)
        using bound(1) sd lj d(2) Q(1) keep n2 pb
        by (auto simp: sl'_def p'_def cd max_def not_less)
    qed
    have "Q (Suc j) (sl', p')"
    proof -
      have "sl' ! a = (if rank - 1 - a < Suc j then cropped rank pad a else (None, None))" if a: "a < rank" for a
      proof -
        have "a = d \<longleftrightarrow> rank - 1 - a = j" using a d by auto
        then show ?thesis using Q(1) Q(3)[OF a] d(2) by (auto simp: sl'_def less_Suc_eq)
      qed
      moreover have "p' ! (2 * i) = (if i < Suc j then max 0 (pad ! (2 * i)) else pad ! (2 * i))"
        "p' ! (2 * i + 1) = (if i < Suc j then max 0 (pad ! (2 * i + 1)) else pad ! (2 * i + 1))" if i: "i < k" for i
      proof -
        have ne: "2 * i \<noteq> 2 * j + 1" "2 * i + 1 \<noteq> 2 * j" by presburger+
        show "p' ! (2 * i) = (if i < Suc j then max 0 (pad ! (2 * i)) else pad ! (2 * i))"
          using Q(4)[OF i] ne lj by (cases "i = j") (auto simp: p'_def be)
        show "p' ! (2 * i + 1) = (if i < Suc j then max 0 (pad ! (2 * i + 1)) else pad ! (2 * i + 1))"
          using Q(5)[OF i] ne lj by (cases "i = j") (auto simp: p'_def be)
      qed
      ultimately show ?thesis using Q(1,2) by (simp add: Q_def sl'_def p'_def)
    qed
    then show "\<exists>st'. crop_step rank j st = Inr st' \<and> Q (Suc j) st'" using step by blast
  qed
  then obtain sl p where r: "each_res (crop_step rank) [0..<k] (replicate rank (None, None), pad) = Inr (sl, p)"
    and Q: "length sl = rank" "length p = 2 * k" "\<And>a. a < rank \<Longrightarrow> sl ! a = (if rank - 1 - a < k then cropped rank pad a else (None, None))"
      "\<And>i. i < k \<Longrightarrow> p ! (2 * i) = max 0 (pad ! (2 * i)) \<and> p ! (2 * i + 1) = max 0 (pad ! (2 * i + 1))"
    by (auto simp: Q_def)
  have "sl = map (cropped rank pad) [0..<rank]"
    using Q(1,3) assms(1) by (intro nth_equalityI) (auto simp: cropped_def pad_of_def)
  moreover have "pad_of rank p 0 a = max 0 (pad_of rank pad 0 a) \<and> pad_of rank p 1 a = max 0 (pad_of rank pad 1 a)" for a
    using Q(2) Q(4)[of "rank - 1 - a"] assms(1) by (auto simp: pad_of_def)
  ultimately show ?thesis using r Q(2) by blast
qed

subsection \<open>Padding is torch's\<close>

lemma extent_arith:
  assumes "max 0 (- b) + max 0 (- e) \<le> int n"
  shows "nat (max 0 (- b)) \<le> nat (int n + min 0 e)" "nat (int n + min 0 e) \<le> n"
    "nat (max 0 b) + (nat (int n + min 0 e) - nat (max 0 (- b))) + nat (max 0 e) = nat (b + int n + e)"
proof -
  define p m q w where pm: "p = max 0 b" "m = max 0 (- b)" "q = max 0 e" "w = max 0 (- e)"
  have eq: "b = p - m" "e = q - w" "min 0 e = - w" "0 \<le> p" "0 \<le> m" "0 \<le> q" "0 \<le> w" by (simp_all add: pm max_def min_def)
  have fit: "m + w \<le> int n" using assms by (simp add: pm)
  have le: "nat m \<le> nat (int n - w)" using fit by (intro nat_mono) simp
  then show "nat (max 0 (- b)) \<le> nat (int n + min 0 e)" unfolding eq(3) pm(2)[symmetric] by simp
  show "nat (int n + min 0 e) \<le> n" unfolding eq(3) using eq(7) by simp
  have "nat p + (nat (int n - w) - nat m) + nat q = nat (p - m + int n + (q - w))" using fit eq le by (simp add: nat_diff_distrib nat_add_distrib algebra_simps flip: nat_diff_distrib)
  then show "nat (max 0 b) + (nat (int n + min 0 e) - nat (max 0 (- b))) + nat (max 0 e) = nat (b + int n + e)"
    unfolding eq(3) pm(1-3)[symmetric] using eq(1,2) by simp
qed

lemma inside_arith:
  assumes "0 \<le> x" "x < b + n + (e :: int)"
  shows "max 0 b \<le> x \<and> x < max 0 b + (n + min 0 e - max 0 (- b)) \<longleftrightarrow> 0 \<le> x - b \<and> x - b < n"
  using assms by (cases "0 \<le> b"; cases "0 \<le> e") (simp_all add: max_def min_def, linarith+)

lemma pad_step_result:
  assumes pad: "pad_ok M" and s: "shape_of M t = s'" "length s' = r" and ps: "length ps = 2 * k" "k \<le> r"
    and b: "\<And>a. a < r \<Longrightarrow> pad_of r ps 0 a = int (b a)" and e: "\<And>a. a < r \<Longrightarrow> pad_of r ps 1 a = int (e a)"
  shows "\<exists>q. torch_pad_to_max_paddings r ps = Inr q \<and> shape_of M (f_pad M t q v) = map (\<lambda>a. b a + s' ! a + e a) [0..<r]
    \<and> (\<forall>ix. inb (map (\<lambda>a. b a + s' ! a + e a) [0..<r]) ix \<longrightarrow> elem_at M (f_pad M t q v) ix =
         (if \<forall>a < r. b a \<le> ix ! a \<and> ix ! a < b a + s' ! a then elem_at M t (map (\<lambda>a. ix ! a - b a) [0..<r]) else v))"
proof -
  obtain q where q: "torch_pad_to_max_paddings r ps = Inr q" "length q = 2 * r"
    "\<And>a. a < r \<Longrightarrow> q ! (2 * a) = int (b a) \<and> q ! (2 * a + 1) = int (e a)"
    using paddings_spec[OF ps] b e by metis
  then show ?thesis using pad s unfolding pad_ok_def by blast
qed

text \<open>The first stage: what the crops leave, and the amounts that remain.\<close>

lemma cropped_input:
  assumes M: "slices_ok M" and s: "shape_of M input = s" and ps: "length ps = 2 * k" "k \<le> length s"
    and fits: "\<forall>a < length s. max 0 (- pad_of (length s) ps 0 a) + max 0 (- pad_of (length s) ps 1 a) \<le> int (s ! a)"
    and lo: "\<And>a. lo a = nat (max 0 (- pad_of (length s) ps 0 a))"
    and hi: "\<And>a. hi a = nat (int (s ! a) + min 0 (pad_of (length s) ps 1 a))"
    and s': "s' = map (\<lambda>a. hi a - lo a) [0..<length s]"
  shows "\<exists>t qs. (if \<exists>p \<in> set ps. p < 0
       then bind_res (each_res (crop_step (length s)) [0..<length ps div 2] (replicate (length s) (None, None), ps)) (\<lambda>(slices, pad).
         Inr (f_slices M input slices, pad))
       else Inr (input, ps)) = Inr (t, qs) \<and> length qs = 2 * k \<and> shape_of M t = s'
    \<and> (\<forall>a < length s. pad_of (length s) qs 0 a = int (nat (max 0 (pad_of (length s) ps 0 a)))
         \<and> pad_of (length s) qs 1 a = int (nat (max 0 (pad_of (length s) ps 1 a))))
    \<and> (\<forall>ix. inb s' ix \<longrightarrow> elem_at M t ix = elem_at M input (map (\<lambda>a. ix ! a + lo a) [0..<length s]))"
proof (cases "\<exists>p \<in> set ps. p < 0")
  case True
  let ?r = "length s"
  obtain p where p: "each_res (crop_step ?r) [0..<k] (replicate ?r (None, None), ps) = Inr (map (cropped ?r ps) [0..<?r], p)"
    "length p = 2 * k" "\<forall>a. pad_of ?r p 0 a = max 0 (pad_of ?r ps 0 a) \<and> pad_of ?r p 1 a = max 0 (pad_of ?r ps 1 a)"
    using crops_spec[OF ps] by metis
  let ?sl = "map (cropped ?r ps) [0..<?r]"
  have lh: "lo a \<le> hi a \<and> hi a \<le> s ! a" if "a < ?r" for a
    using extent_arith(1,2)[OF fits[rule_format, OF that]] unfolding lo hi by blast
  have sb: "slice_bounds (s ! a) (?sl ! a) = (int (lo a), int (hi a))" if "a < ?r" for a
    using that fits by (auto simp: slice_bounds_def cropped_def lo hi simp del: One_nat_def)
  have "shape_of M (f_slices M input ?sl) = s' \<and> (\<forall>ix. inb s' ix \<longrightarrow>
      elem_at M (f_slices M input ?sl) ix = elem_at M input (map (\<lambda>a. ix ! a + lo a) [0..<?r]))"
    unfolding s' by (rule M[unfolded slices_ok_def, rule_format, of input s ?sl lo hi]) (use s sb lh in simp)
  then show ?thesis using True p ps(1) by (intro exI[of _ "f_slices M input ?sl"] exI[of _ p]) auto
next
  case False
  let ?r = "length s"
  have nn: "0 \<le> pad_of ?r ps 0 a \<and> 0 \<le> pad_of ?r ps 1 a" for a using False by (auto simp: pad_of_def not_less)
  then have z: "lo a = 0" "hi a = s ! a" for a by (simp_all add: lo hi)
  then have "s' = s" by (simp add: s' map_nth)
  moreover have "map (\<lambda>a. ix ! a + lo a) [0..<?r] = ix" if "inb s ix" for ix
    using inb_length[OF that] z by (simp add: map_nth flip: inb_length[OF that])
  ultimately show ?thesis using False ps(1) s nn by (intro exI[of _ input] exI[of _ ps]) auto
qed

text \<open>The second stage: an index of the padded tensor, read back through the padding and the crop.\<close>

lemma padded_region:
  assumes ix: "inb (map (\<lambda>a. nat (B a + int (s ! a) + E a)) [0..<length s]) ix"
    and fits: "\<forall>a < length s. max 0 (- B a) + max 0 (- E a) \<le> int (s ! a)"
    and lo: "\<And>a. lo a = nat (max 0 (- B a))" and hi: "\<And>a. hi a = nat (int (s ! a) + min 0 (E a))"
    and a: "a < length s"
  shows "(nat (max 0 (B a)) \<le> ix ! a \<and> ix ! a < nat (max 0 (B a)) + (hi a - lo a))
      \<longleftrightarrow> 0 \<le> int (ix ! a) - B a \<and> int (ix ! a) - B a < int (s ! a)"
    "nat (max 0 (B a)) \<le> ix ! a \<Longrightarrow> ix ! a - nat (max 0 (B a)) + lo a = nat (int (ix ! a) - B a)"
proof -
  have "ix ! a < nat (B a + int (s ! a) + E a)" using inb_nth[OF ix, of a] a by simp
  then have x: "0 \<le> int (ix ! a)" "int (ix ! a) < B a + int (s ! a) + E a" by linarith+
  have "0 \<le> int (s ! a) + min 0 (E a)" using fits[rule_format, OF a] by (simp add: max_def min_def split: if_splits)
  then have ext: "int (hi a - lo a) = int (s ! a) + min 0 (E a) - max 0 (- B a)"
    using extent_arith(1)[OF fits[rule_format, OF a]] unfolding lo hi by (simp add: of_nat_diff)
  have "nat (max 0 (B a)) \<le> ix ! a \<longleftrightarrow> max 0 (B a) \<le> int (ix ! a)" by (simp add: nat_le_iff)
  moreover have "ix ! a < nat (max 0 (B a)) + (hi a - lo a) \<longleftrightarrow> int (ix ! a) < max 0 (B a) + int (hi a - lo a)" by linarith
  ultimately show "(nat (max 0 (B a)) \<le> ix ! a \<and> ix ! a < nat (max 0 (B a)) + (hi a - lo a))
      \<longleftrightarrow> 0 \<le> int (ix ! a) - B a \<and> int (ix ! a) - B a < int (s ! a)"
    using inside_arith[OF x] ext by simp
  assume "nat (max 0 (B a)) \<le> ix ! a"
  then have "int (ix ! a - nat (max 0 (B a)) + lo a) = int (ix ! a) - B a" unfolding lo by linarith
  then show "ix ! a - nat (max 0 (B a)) + lo a = nat (int (ix ! a) - B a)" by simp
qed

text \<open>C31: \<open>constant_pad_nd\<close> shifts the input by the (possibly negative) amount before each axis, gives the axis the
  extent with both amounts added, and fills every index that falls outside the input with the value, whenever
  no axis is cropped by more than its extent.\<close>

theorem constant_pad_shifts:
  assumes M: "slices_ok M" "pad_ok M" and s: "shape_of M input = s"
    and ps: "static_pad_ints pad = Inr ps" "length ps = 2 * k" "k \<le> length s"
    and B: "B = pad_of (length s) ps 0" and E: "E = pad_of (length s) ps 1"
    and fits: "\<forall>a < length s. max 0 (- B a) + max 0 (- E a) \<le> int (s ! a)"
  shows "\<exists>r. aten_constant_pad_nd M input pad v = Inr r
    \<and> shape_of M r = map (\<lambda>a. nat (B a + int (s ! a) + E a)) [0..<length s]
    \<and> (\<forall>ix. inb (map (\<lambda>a. nat (B a + int (s ! a) + E a)) [0..<length s]) ix \<longrightarrow> elem_at M r ix =
        (if \<forall>a < length s. 0 \<le> int (ix ! a) - B a \<and> int (ix ! a) - B a < int (s ! a)
         then elem_at M input (map (\<lambda>a. nat (int (ix ! a) - B a)) [0..<length s]) else v))"
proof -
  let ?r = "length s"
  let ?b = "\<lambda>a. nat (max 0 (B a))" and ?e = "\<lambda>a. nat (max 0 (E a))"
  define lo hi where "lo a = nat (max 0 (- B a))" and "hi a = nat (int (s ! a) + min 0 (E a))" for a
  define s' where "s' = map (\<lambda>a. hi a - lo a) [0..<?r]"
  note region = padded_region[OF _ fits lo_def hi_def]
  obtain t qs where t: "(if \<exists>p \<in> set ps. p < 0
       then bind_res (each_res (crop_step ?r) [0..<length ps div 2] (replicate ?r (None, None), ps)) (\<lambda>(slices, pad).
         Inr (f_slices M input slices, pad))
       else Inr (input, ps)) = Inr (t, qs)" "length qs = 2 * k" "shape_of M t = s'"
    and bs: "\<forall>a < ?r. pad_of ?r qs 0 a = int (?b a) \<and> pad_of ?r qs 1 a = int (?e a)"
    and el: "\<forall>ix. inb s' ix \<longrightarrow> elem_at M t ix = elem_at M input (map (\<lambda>a. ix ! a + lo a) [0..<?r])"
    using cropped_input[OF M(1) s ps(2,3) fits[unfolded B E] lo_def[unfolded B] hi_def[unfolded E] s'_def] unfolding B E by blast
  have ls: "length s' = ?r" "\<And>a. a < ?r \<Longrightarrow> s' ! a = hi a - lo a" by (simp_all add: s'_def)
  have sh: "map (\<lambda>a. ?b a + s' ! a + ?e a) [0..<?r] = map (\<lambda>a. nat (B a + int (s ! a) + E a)) [0..<?r]"
    using extent_arith(3)[OF fits[rule_format]] by (intro map_cong refl) (simp only: ls(2) lo_def hi_def set_upt atLeastLessThan_iff)
  have "\<exists>q. torch_pad_to_max_paddings ?r qs = Inr q \<and> shape_of M (f_pad M t q v) = map (\<lambda>a. ?b a + s' ! a + ?e a) [0..<?r]
    \<and> (\<forall>ix. inb (map (\<lambda>a. ?b a + s' ! a + ?e a) [0..<?r]) ix \<longrightarrow> elem_at M (f_pad M t q v) ix =
         (if \<forall>a < ?r. ?b a \<le> ix ! a \<and> ix ! a < ?b a + s' ! a then elem_at M t (map (\<lambda>a. ix ! a - ?b a) [0..<?r]) else v))"
    by (rule pad_step_result[OF M(2) t(3) ls(1) t(2) ps(3), of ?b ?e v]) (use bs in blast)+
  then obtain q where q: "torch_pad_to_max_paddings ?r qs = Inr q" "shape_of M (f_pad M t q v) = map (\<lambda>a. ?b a + s' ! a + ?e a) [0..<?r]"
      "\<forall>ix. inb (map (\<lambda>a. ?b a + s' ! a + ?e a) [0..<?r]) ix \<longrightarrow> elem_at M (f_pad M t q v) ix =
         (if \<forall>a < ?r. ?b a \<le> ix ! a \<and> ix ! a < ?b a + s' ! a then elem_at M t (map (\<lambda>a. ix ! a - ?b a) [0..<?r]) else v)"
    by (elim exE conjE)
  have res: "aten_constant_pad_nd M input pad v = Inr (f_pad M t q v)"
    unfolding aten_constant_pad_nd_def ps(1) bind_res_Inr Let_def s t(1) case_prod_conv q(1) by (rule refl)
  have "elem_at M (f_pad M t q v) ix = (if \<forall>a < ?r. 0 \<le> int (ix ! a) - B a \<and> int (ix ! a) - B a < int (s ! a)
         then elem_at M input (map (\<lambda>a. nat (int (ix ! a) - B a)) [0..<?r]) else v)"
    if ix: "inb (map (\<lambda>a. nat (B a + int (s ! a) + E a)) [0..<?r]) ix" for ix
  proof -
    let ?in = "\<forall>a < ?r. ?b a \<le> ix ! a \<and> ix ! a < ?b a + s' ! a"
    have e2: "?in = (\<forall>a < ?r. 0 \<le> int (ix ! a) - B a \<and> int (ix ! a) - B a < int (s ! a))" using region(1)[OF ix] ls(2) by metis
    have read: "elem_at M t (map (\<lambda>a. ix ! a - ?b a) [0..<?r]) = elem_at M input (map (\<lambda>a. nat (int (ix ! a) - B a)) [0..<?r])" if ?in
    proof -
      have "inb s' (map (\<lambda>a. ix ! a - ?b a) [0..<?r])" using that ls(1) by (intro inbI) (simp_all add: less_diff_conv2 add.commute)
      moreover have "map (\<lambda>a. map (\<lambda>a. ix ! a - ?b a) [0..<?r] ! a + lo a) [0..<?r] = map (\<lambda>a. nat (int (ix ! a) - B a)) [0..<?r]"
        using that region(2)[OF ix] by (intro map_cong refl) simp
      ultimately show ?thesis using el by metis
    qed
    show ?thesis unfolding q(3)[rule_format, OF ix[folded sh]] e2[symmetric] by (rule if_cong[OF refl read refl])
  qed
  then show ?thesis using res q(2) unfolding sh by blast
qed

subsection \<open>An instance\<close>

lemma all_less_two: "(\<forall>a < Suc (Suc 0). P a) \<longleftrightarrow> P 0 \<and> P 1"
  by (auto simp: less_Suc_eq)

definition ref_pads :: "(nat list \<times> (nat list \<Rightarrow> int), int) pad_ops" where
  "ref_pads = max_ops.extend ref_ops
     \<lparr> f_slices = (\<lambda>t sl. (map (\<lambda>a. nat (snd (slice_bounds (fst t ! a) (sl ! a)) - fst (slice_bounds (fst t ! a) (sl ! a)))) [0..<length (fst t)],
          \<lambda>ix. snd t (map (\<lambda>a. ix ! a + nat (fst (slice_bounds (fst t ! a) (sl ! a)))) [0..<length (fst t)]))),
       f_pad = (\<lambda>t ps v. (map (\<lambda>a. nat (ps ! (2 * a)) + fst t ! a + nat (ps ! (2 * a + 1))) [0..<length (fst t)],
          \<lambda>ix. if \<forall>a < length (fst t). nat (ps ! (2 * a)) \<le> ix ! a \<and> ix ! a < nat (ps ! (2 * a)) + fst t ! a
               then snd t (map (\<lambda>a. ix ! a - nat (ps ! (2 * a))) [0..<length (fst t)]) else v)) \<rparr>"

lemma pads_sel [simp]: "shape_of ref_pads = fst" "elem_at ref_pads = snd"
  by (simp_all add: ref_pads_def max_ops.extend_def pad_ops.defs ref_ops_def)

lemma slices_sel: "f_slices ref_pads = (\<lambda>t sl. (map (\<lambda>a. nat (snd (slice_bounds (fst t ! a) (sl ! a)) - fst (slice_bounds (fst t ! a) (sl ! a)))) [0..<length (fst t)],
          \<lambda>ix. snd t (map (\<lambda>a. ix ! a + nat (fst (slice_bounds (fst t ! a) (sl ! a)))) [0..<length (fst t)])))"
  by (simp add: ref_pads_def max_ops.extend_def)

lemma pad_sel: "f_pad ref_pads = (\<lambda>t ps v. (map (\<lambda>a. nat (ps ! (2 * a)) + fst t ! a + nat (ps ! (2 * a + 1))) [0..<length (fst t)],
          \<lambda>ix. if \<forall>a < length (fst t). nat (ps ! (2 * a)) \<le> ix ! a \<and> ix ! a < nat (ps ! (2 * a)) + fst t ! a
               then snd t (map (\<lambda>a. ix ! a - nat (ps ! (2 * a))) [0..<length (fst t)]) else v))"
  by (simp add: ref_pads_def max_ops.extend_def)

lemma ref_slices: "slices_ok ref_pads"
  unfolding slices_ok_def
proof (intro allI impI, elim conjE)
  fix t :: "nat list \<times> (nat list \<Rightarrow> int)" and s sl lo hi
  assume s: "shape_of ref_pads t = s"
    and b: "\<forall>a < length s. slice_bounds (s ! a) (sl ! a) = (int (lo a), int (hi a)) \<and> lo a \<le> hi a \<and> hi a \<le> s ! a"
  have f: "fst t = s" using s by simp
  have m1: "map (\<lambda>a. nat (snd (slice_bounds (s ! a) (sl ! a)) - fst (slice_bounds (s ! a) (sl ! a)))) [0..<length s] = map (\<lambda>a. hi a - lo a) [0..<length s]"
    using b by (intro map_cong) (auto simp flip: of_nat_diff)
  have m2: "map (\<lambda>a. ix ! a + nat (fst (slice_bounds (s ! a) (sl ! a)))) [0..<length s] = map (\<lambda>a. ix ! a + lo a) [0..<length s]" for ix :: "nat list"
    using b by (intro map_cong) auto
  show "shape_of ref_pads (f_slices ref_pads t sl) = map (\<lambda>a. hi a - lo a) [0..<length s]
     \<and> (\<forall>ix. inb (map (\<lambda>a. hi a - lo a) [0..<length s]) ix \<longrightarrow>
          elem_at ref_pads (f_slices ref_pads t sl) ix = elem_at ref_pads t (map (\<lambda>a. ix ! a + lo a) [0..<length s]))"
    unfolding slices_sel pads_sel f fst_conv snd_conv m1 m2 by blast
qed

lemma ref_pad: "pad_ok ref_pads"
  unfolding pad_ok_def
proof (intro allI impI, elim conjE)
  fix t :: "nat list \<times> (nat list \<Rightarrow> int)" and s b e v and ps :: "int list"
  assume s: "shape_of ref_pads t = s"
    and p: "\<forall>a < length s. ps ! (2 * a) = int (b a) \<and> ps ! (2 * a + 1) = int (e a)"
  have f: "fst t = s" using s by simp
  have n: "nat (ps ! (2 * a)) = b a" "nat (ps ! (2 * a + 1)) = e a" if "a < length s" for a using p that by simp_all
  have m1: "map (\<lambda>a. nat (ps ! (2 * a)) + s ! a + nat (ps ! (2 * a + 1))) [0..<length s] = map (\<lambda>a. b a + s ! a + e a) [0..<length s]"
    by (intro map_cong) (simp_all add: n del: One_nat_def add_Suc_right)
  have m2: "map (\<lambda>a. ix ! a - nat (ps ! (2 * a))) [0..<length s] = map (\<lambda>a. ix ! a - b a) [0..<length s]" for ix :: "nat list"
    by (intro map_cong) (simp_all add: n)
  have m3: "(\<forall>a < length s. nat (ps ! (2 * a)) \<le> ix ! a \<and> ix ! a < nat (ps ! (2 * a)) + s ! a) = (\<forall>a < length s. b a \<le> ix ! a \<and> ix ! a < b a + s ! a)" for ix :: "nat list"
    by (simp add: n cong: imp_cong)
  show "shape_of ref_pads (f_pad ref_pads t ps v) = map (\<lambda>a. b a + s ! a + e a) [0..<length s]
     \<and> (\<forall>ix. inb (map (\<lambda>a. b a + s ! a + e a) [0..<length s]) ix \<longrightarrow> elem_at ref_pads (f_pad ref_pads t ps v) ix =
          (if \<forall>a < length s. b a \<le> ix ! a \<and> ix ! a < b a + s ! a then elem_at ref_pads t (map (\<lambda>a. ix ! a - b a) [0..<length s]) else v))"
    unfolding pad_sel pads_sel f fst_conv snd_conv m1 m2 m3 by blast
qed

lemma constant_pad_shifts_witness:
  "\<exists>r. aten_constant_pad_nd ref_pads ([2, 3], \<lambda>ix. int (10 * ix ! 0 + ix ! 1)) [PadInt (-1), PadStatic 2, PadInt 1, PadInt 0] 7 = Inr r
     \<and> shape_of ref_pads r = [3, 4] \<and> elem_at ref_pads r [1, 0] = 1 \<and> elem_at ref_pads r [0, 0] = 7 \<and> elem_at ref_pads r [2, 3] = 7"
proof -
  let ?t = "([2, 3], \<lambda>ix. int (10 * ix ! 0 + ix ! 1)) :: nat list \<times> (nat list \<Rightarrow> int)"
  let ?ps = "[-1, 2, 1, 0] :: int list"
  have p: "static_pad_ints [PadInt (-1), PadStatic 2, PadInt 1, PadInt 0] = Inr ?ps" by code_simp
  have s: "shape_of ref_pads ?t = [2, 3]" "length ?ps = 2 * 2" "2 \<le> length [2, 3::nat]" by simp_all
  have f: "\<forall>a < length [2, 3::nat]. max 0 (- pad_of (length [2, 3::nat]) ?ps 0 a) + max 0 (- pad_of (length [2, 3::nat]) ?ps 1 a) \<le> int ([2, 3] ! a)"
    by (simp add: pad_of_def all_less_two)
  from constant_pad_shifts[OF ref_slices ref_pad s(1) p s(2,3) refl refl f, of 7]
  show ?thesis by (elim exE conjE) (intro exI conjI, assumption, simp_all add: pad_of_def upt_rec all_less_two)
qed

end
