(* ===== verification/NB_Closure.thy ===== *)
theory NB_Closure
  imports Py_Text "HOL-Library.List_Lexorder"
begin

text \<open>
  What a native build is keyed by (\<^verbatim>\<open>native/__init__.py\<close>): the Mojo sources reached from an entry through its import
  lines (\<open>_IMPORT_RE\<close>, \<open>_module_file\<close>, \<open>mojo_import_closure\<close>) and the digest of their names and contents
  (\<open>_hash_files\<close>). A path is the list of its parts, an absolute one; the source tree is a dictionary of the
  existing files, and resolving symbolic links is a function of it.
\<close>

subsection \<open>Import lines\<close>

text \<open>\<open>str.splitlines\<close>.\<close>

definition line_break :: "char \<Rightarrow> bool" where
  "line_break c \<longleftrightarrow> (let n = code_point c in 10 \<le> n \<and> n \<le> 13 \<or> 28 \<le> n \<and> n \<le> 30 \<or> n = 133)"

fun splitlines_acc :: "string \<Rightarrow> string \<Rightarrow> string list" where
  "splitlines_acc l [] = (if l = [] then [] else [rev l])"
| "splitlines_acc l (c # cs) =
     (if line_break c
      then rev l # (case cs of [] \<Rightarrow> [] | d # ds \<Rightarrow> if code_point c = 13 \<and> code_point d = 10 then splitlines_acc [] ds else splitlines_acc [] (d # ds))
      else splitlines_acc (c # l) cs)"

definition splitlines :: "string \<Rightarrow> string list" where
  "splitlines s = splitlines_acc [] s"

text \<open>A character \<open>\w\<close> matches, below 256.\<close>

definition word_char :: "char \<Rightarrow> bool" where
  "word_char c \<longleftrightarrow> (let n = code_point c in
     48 \<le> n \<and> n \<le> 57 \<or> 65 \<le> n \<and> n \<le> 90 \<or> 97 \<le> n \<and> n \<le> 122 \<or> n = 95
     \<or> n \<in> {170, 178, 179, 181, 185, 186, 188, 189, 190} \<or> 192 \<le> n \<and> n \<noteq> 215 \<and> n \<noteq> 247)"

definition after_prefix :: "string \<Rightarrow> string \<Rightarrow> string option" where
  "after_prefix p s = (if startswith s p then Some (drop (length p) s) else None)"

text \<open>White space, then the run of other characters, then the rest.\<close>

definition next_word :: "string \<Rightarrow> (string \<times> string) option" where
  "next_word s =
     (let r = lstrip s in
      if s = [] \<or> \<not> is_space (hd s) \<or> r = [] then None
      else Some (takeWhile (\<lambda>c. \<not> is_space c) r, dropWhile (\<lambda>c. \<not> is_space c) r))"

definition import_match :: "string \<Rightarrow> string option" where
  "import_match line =
     (case after_prefix ''from'' line of
        Some r \<Rightarrow>
          (case next_word r of
             None \<Rightarrow> None
           | Some (m, r) \<Rightarrow>
               if r = [] then None
               else (case after_prefix ''import'' (lstrip r) of
                  None \<Rightarrow> None
                | Some rest \<Rightarrow> if rest \<noteq> [] \<and> word_char (hd rest) then None else Some m))
      | None \<Rightarrow>
          (case after_prefix ''import'' line of
             None \<Rightarrow> None
           | Some r \<Rightarrow> map_option fst (next_word r)))"

subsection \<open>Modules\<close>

type_synonym path = "string list"

record source_tree =
  ts_root :: path
  ts_files :: "(path, string) dict"
  ts_resolve :: "path \<Rightarrow> path"

definition path_parts :: "string \<Rightarrow> path" where
  "path_parts s = filter (\<lambda>p. p \<noteq> []) (split_on CHR ''/'' s)"

definition dots_to_slashes :: "string \<Rightarrow> string" where
  "dots_to_slashes s = map (\<lambda>c. if c = CHR ''.'' then CHR ''/'' else c) s"

text \<open>\<open>base / text\<close>: an absolute text replaces the base.\<close>

definition join_path :: "path \<Rightarrow> string \<Rightarrow> path" where
  "join_path base s = (if startswith s ''/'' then path_parts s else base @ path_parts s)"

text \<open>\<open>Path.with_suffix\<close>: the name up to its last dot, unless that is its first or last character.\<close>

definition stem_of :: "string \<Rightarrow> string" where
  "stem_of name =
     (let ext = takeWhile (\<lambda>c. c \<noteq> CHR ''.'') (rev name); stem = rev (drop (Suc (length ext)) (rev name)) in
      if length ext < length name \<and> ext \<noteq> [] \<and> stem \<noteq> [] then stem else name)"

definition with_mojo_suffix :: "path \<Rightarrow> path result" where
  "with_mojo_suffix p =
     (if p = [] then Inl (ValueError ''PosixPath('/') has an empty name'') else Inr (butlast p @ [stem_of (last p) @ ''.mojo'']))"

definition module_file :: "source_tree \<Rightarrow> string \<Rightarrow> path \<Rightarrow> path option result" where
  "module_file T dotted importer_dir =
     (let pick = (\<lambda>base. bind_res (with_mojo_suffix base) (\<lambda>file.
        Inr (if has_key (ts_files T) file then Some file
             else if has_key (ts_files T) (base @ [''__init__.mojo'']) then Some (base @ [''__init__.mojo''])
             else None))) in
      if startswith dotted ''.'' then pick (join_path importer_dir (dots_to_slashes (tl dotted)))
      else if dotted = ''tmb'' \<or> startswith dotted ''tmb.'' then pick (join_path (ts_root T) (dots_to_slashes dotted))
      else Inr None)"

subsection \<open>The closure\<close>

text \<open>The loop over the lines of one file: the candidates it appends to \<open>todo\<close>, in order.\<close>

fun line_imports :: "source_tree \<Rightarrow> path \<Rightarrow> string list \<Rightarrow> path list result" where
  "line_imports T dir [] = Inr []"
| "line_imports T dir (line # ls) =
     (case import_match line of
        None \<Rightarrow> line_imports T dir ls
      | Some m \<Rightarrow>
          bind_res (module_file T m dir) (\<lambda>cand.
          bind_res (line_imports T dir ls) (\<lambda>rest.
          Inr (case cand of None \<Rightarrow> rest | Some f \<Rightarrow> ts_resolve T f # rest))))"

definition file_imports :: "source_tree \<Rightarrow> path \<Rightarrow> path list result" where
  "file_imports T f =
     (case dget (ts_files T) f of
        None \<Rightarrow> Inr []
      | Some content \<Rightarrow> line_imports T (butlast f) (splitlines content))"

text \<open>\<open>todo\<close> is popped from its end, so it is kept here with its end first.\<close>

function (sequential) closure_loop :: "source_tree \<Rightarrow> path list \<Rightarrow> path list \<Rightarrow> path list result" where
  "closure_loop T [] seen = Inr seen"
| "closure_loop T (f # todo) seen =
     (if f \<in> set seen \<or> \<not> has_key (ts_files T) f then closure_loop T todo seen
      else case file_imports T f of
          Inl e \<Rightarrow> Inl e
        | Inr cands \<Rightarrow> closure_loop T (rev cands @ todo) (seen @ [f]))"
  by pat_completeness auto
termination
proof (relation "inv_image (finite_psubset <*lex*> less_than) (\<lambda>(T, todo, seen). (set (dkeys (ts_files T)) - set seen, length todo))")
  fix T :: source_tree and f todo seen cands
  assume "\<not> (f \<in> set seen \<or> \<not> has_key (ts_files T) f)" "file_imports T f = Inr cands"
  then have "f \<in> set (dkeys (ts_files T))" "f \<notin> set seen" by (auto simp: has_key_def)
  then show "((T, rev cands @ todo, seen @ [f]), T, f # todo, seen) \<in> inv_image (finite_psubset <*lex*> less_than)
      (\<lambda>(T, todo, seen). (set (dkeys (ts_files T)) - set seen, length todo))"
    by (auto simp: finite_psubset_def)
qed (auto intro: wf_finite_psubset)

definition mojo_import_closure :: "source_tree \<Rightarrow> path \<Rightarrow> path list result" where
  "mojo_import_closure T entry = bind_res (closure_loop T [ts_resolve T entry] []) (\<lambda>seen. Inr (sort seen))"

subsection \<open>The digest\<close>

text \<open>What \<open>_hash_files\<close> feeds to SHA-256; the digest itself is a parameter.\<close>

definition hash_input :: "source_tree \<Rightarrow> path list \<Rightarrow> string \<Rightarrow> string" where
  "hash_input T paths extra = extra @ concat (map (\<lambda>p. last p @ or_else (dget (ts_files T) p) []) (sort paths))"

definition hash_files :: "(string \<Rightarrow> string) \<Rightarrow> source_tree \<Rightarrow> path list \<Rightarrow> string \<Rightarrow> string" where
  "hash_files sha T paths extra = take 16 (sha (hash_input T paths extra))"

definition graph_closure :: "source_tree \<Rightarrow> path list \<Rightarrow> path list result" where
  "graph_closure T modules = bind_res (map_res (mojo_import_closure T) (sort modules)) (\<lambda>css. Inr (sort (remdups (concat css))))"

subsection \<open>The closure is what the imports reach\<close>

inductive imported_by :: "source_tree \<Rightarrow> path \<Rightarrow> path \<Rightarrow> bool" for T e where
  start: "has_key (ts_files T) e \<Longrightarrow> imported_by T e e"
| step: "imported_by T e f \<Longrightarrow> file_imports T f = Inr cs \<Longrightarrow> g \<in> set cs \<Longrightarrow> has_key (ts_files T) g \<Longrightarrow> imported_by T e g"

lemma imported_exists: "imported_by T e f \<Longrightarrow> has_key (ts_files T) e \<and> has_key (ts_files T) f"
  by (induction rule: imported_by.induct) auto

lemma imported_first:
  assumes "imported_by T g h" "has_key (ts_files T) f" "file_imports T f = Inr cs" "g \<in> set cs"
  shows "imported_by T f h"
  using assms(1)
proof induction
  case start
  then show ?case using assms imported_by.start imported_by.step by blast
next
  case step
  then show ?case using imported_by.step by blast
qed

lemma closure_loop_sound:
  "closure_loop T todo seen = Inr r \<Longrightarrow> set r \<subseteq> set seen \<union> {g. \<exists>t \<in> set todo. imported_by T t g}"
proof (induction T todo seen rule: closure_loop.induct)
  case (2 T f todo seen)
  show ?case
  proof (cases "f \<in> set seen \<or> \<not> has_key (ts_files T) f")
    case True
    then show ?thesis using 2 by auto
  next
    case False
    then obtain cs where cs: "file_imports T f = Inr cs" "closure_loop T (rev cs @ todo) (seen @ [f]) = Inr r"
      using "2.prems" by (auto split: sum.splits)
    have "set r \<subseteq> set (seen @ [f]) \<union> {g. \<exists>t \<in> set (rev cs @ todo). imported_by T t g}" using "2.IH"(2)[OF False cs] .
    moreover have "imported_by T f f" using False imported_by.start by blast
    moreover have "imported_by T f g" if "t \<in> set cs" "imported_by T t g" for t g
      using imported_first[OF that(2) _ cs(1) that(1)] False by blast
    ultimately show ?thesis by (simp add: subset_iff) blast
  qed
qed auto

definition closed_under :: "source_tree \<Rightarrow> path set \<Rightarrow> path set \<Rightarrow> bool" where
  "closed_under T A B \<longleftrightarrow> (\<forall>f \<in> A. \<exists>cs. file_imports T f = Inr cs \<and> (\<forall>g \<in> set cs. has_key (ts_files T) g \<longrightarrow> g \<in> B))"

lemma closure_loop_complete:
  "closure_loop T todo seen = Inr r \<Longrightarrow> closed_under T (set seen) (set seen \<union> set todo) \<Longrightarrow> distinct seen \<Longrightarrow>
   set seen \<subseteq> set r \<and> distinct r \<and> (\<forall>t \<in> set todo. has_key (ts_files T) t \<longrightarrow> t \<in> set r) \<and> closed_under T (set r) (set r)"
proof (induction T todo seen rule: closure_loop.induct)
  case (2 T f todo seen)
  show ?case
  proof (cases "f \<in> set seen \<or> \<not> has_key (ts_files T) f")
    case True
    have "closed_under T (set seen) (set seen \<union> set todo)" using "2.prems"(2) True unfolding closed_under_def by simp metis
    then show ?thesis using True "2.IH"(1)[OF True] "2.prems" by auto
  next
    case False
    then obtain cs where cs: "file_imports T f = Inr cs" "closure_loop T (rev cs @ todo) (seen @ [f]) = Inr r"
      using "2.prems" by (auto split: sum.splits)
    have "closed_under T (set (seen @ [f])) (set (seen @ [f]) \<union> set (rev cs @ todo))"
      using "2.prems"(2) cs(1) unfolding closed_under_def by (simp add: ball_Un) blast
    then show ?thesis using "2.IH"(2)[OF False cs] "2.prems"(3) False by auto
  qed
qed auto

lemma closure_loop_error:
  "closure_loop T todo seen = Inl err \<Longrightarrow> \<exists>f. (\<exists>t \<in> set todo. imported_by T t f) \<and> file_imports T f = Inl err"
proof (induction T todo seen rule: closure_loop.induct)
  case (2 T f todo seen)
  show ?case
  proof (cases "f \<in> set seen \<or> \<not> has_key (ts_files T) f")
    case True
    then show ?thesis using 2 by auto
  next
    case False
    then have f: "has_key (ts_files T) f" by blast
    show ?thesis
    proof (cases "file_imports T f")
      case (Inl a)
      then show ?thesis using "2.prems" False imported_by.start[OF f] by auto
    next
      case (Inr cs)
      then have "closure_loop T (rev cs @ todo) (seen @ [f]) = Inl err" using "2.prems" False by simp
      then obtain h t where h: "t \<in> set (rev cs @ todo)" "imported_by T t h" "file_imports T h = Inl err"
        using "2.IH"(2)[OF False Inr] by blast
      then show ?thesis using imported_first[OF h(2) f Inr] by auto
    qed
  qed
qed auto

lemma closed_imported:
  assumes "closed_under T A A" "e \<in> A" "imported_by T e f"
  shows "f \<in> A"
  using assms(3,1,2) by (induction rule: imported_by.induct) (auto simp: closed_under_def dest!: bspec)

lemma closure_loop_start:
  assumes "closure_loop T [e] [] = Inr r"
  shows "set r = {f. imported_by T e f} \<and> distinct r \<and> (\<forall>f. imported_by T e f \<longrightarrow> (\<exists>cs. file_imports T f = Inr cs))"
proof -
  have c: "has_key (ts_files T) e \<longrightarrow> e \<in> set r" "closed_under T (set r) (set r)" "distinct r"
    using closure_loop_complete[OF assms] by (simp_all add: closed_under_def)
  have "f \<in> set r" if "imported_by T e f" for f
    using closed_imported[OF c(2) _ that] c(1) imported_exists[OF that] by blast
  then have "set r = {f. imported_by T e f}" using closure_loop_sound[OF assms] by auto
  then show ?thesis using c(2,3) unfolding closed_under_def by blast
qed

text \<open>C32: The closure of an entry is the sorted list of exactly the existing sources its import lines reach, directly
  or through other sources; the walk always ends, and fails only if a source it reaches holds an import that
  names no file at all.\<close>

theorem closure_is_reachable:
  "mojo_import_closure T entry = Inr fs \<longleftrightarrow>
     (\<forall>f. imported_by T (ts_resolve T entry) f \<longrightarrow> (\<exists>cs. file_imports T f = Inr cs))
     \<and> fs = sorted_list_of_set {f. imported_by T (ts_resolve T entry) f}"
proof (cases "closure_loop T [ts_resolve T entry] []")
  case (Inl err)
  then show ?thesis using closure_loop_error[OF Inl] by (auto simp: mojo_import_closure_def)
next
  case (Inr r)
  note r = closure_loop_start[OF Inr]
  have "sort r = sorted_list_of_set {f. imported_by T (ts_resolve T entry) f}"
    using r sorted_list_of_set_sort_remdups[of r] by (simp add: distinct_remdups_id)
  then show ?thesis using r Inr by (auto simp: mojo_import_closure_def)
qed

text \<open>A tree of three modules, one of them unreached.\<close>

definition sample_tree :: source_tree where
  "sample_tree = \<lparr> ts_root = [''m''],
     ts_files = [([''m'', ''tmb'', ''a.mojo''], ''from tmb.b import f''), ([''m'', ''tmb'', ''b.mojo''], ''import std''),
       ([''m'', ''tmb'', ''c.mojo''], ''from .a import g'')],
     ts_resolve = id \<rparr>"

lemma closure_is_reachable_witness:
  "sorted_list_of_set {f. imported_by sample_tree [''m'', ''tmb'', ''a.mojo''] f} = [[''m'', ''tmb'', ''a.mojo''], [''m'', ''tmb'', ''b.mojo'']]"
proof -
  have "mojo_import_closure sample_tree [''m'', ''tmb'', ''a.mojo''] = Inr [[''m'', ''tmb'', ''a.mojo''], [''m'', ''tmb'', ''b.mojo'']]"
    by code_simp
  moreover have "ts_resolve sample_tree [''m'', ''tmb'', ''a.mojo''] = [''m'', ''tmb'', ''a.mojo'']" by (simp add: sample_tree_def)
  ultimately show ?thesis using closure_is_reachable[of sample_tree "[''m'', ''tmb'', ''a.mojo'']"
      "[[''m'', ''tmb'', ''a.mojo''], [''m'', ''tmb'', ''b.mojo'']]"] by simp
qed

subsection \<open>A touched source changes the key\<close>

lemma module_file_cong:
  assumes "ts_root T' = ts_root T" "has_key (ts_files T') = has_key (ts_files T)"
  shows "module_file T' m d = module_file T m d"
  unfolding module_file_def assms by (rule refl)

lemma line_imports_cong:
  assumes "ts_root T' = ts_root T" "has_key (ts_files T') = has_key (ts_files T)" "ts_resolve T' = ts_resolve T"
  shows "line_imports T' d ls = line_imports T d ls"
  using assms by (induction ls) (simp_all add: module_file_cong[OF assms(1,2)] split: option.split cong: option.case_cong)

lemma closure_loop_cong:
  assumes "has_key (ts_files T') = has_key (ts_files T)" "\<And>f. file_imports T' f = file_imports T f"
  shows "closure_loop T' todo seen = closure_loop T todo seen"
  using assms
proof (induction T todo seen rule: closure_loop.induct)
  case (2 T f todo seen)
  then show ?case by (cases "f \<in> set seen \<or> \<not> has_key (ts_files T) f") (auto split: sum.split)
qed simp

text \<open>C33: Touching any source of the closure changes what is digested: when the content of one of them changes and its
  imports do not, the closure is the same list and the text handed to the digest differs.\<close>

theorem touched_source_changes_key:
  assumes cl: "mojo_import_closure T entry = Inr fs" and f: "f \<in> set fs" "dget (ts_files T) f = Some c" "c' \<noteq> c"
    and T': "T' = T\<lparr>ts_files := dput f c' (ts_files T)\<rparr>" "file_imports T' f = file_imports T f"
  shows "mojo_import_closure T' entry = Inr fs \<and> hash_input T' fs extra \<noteq> hash_input T fs extra"
proof -
  have keys: "has_key (ts_files T') = has_key (ts_files T)" using f(2) by (intro ext) (auto simp: T'(1) has_key_dget)
  have imps: "file_imports T' g = file_imports T g" for g
  proof (cases "g = f")
    case False
    then show ?thesis using line_imports_cong[of T' T] keys by (auto simp: file_imports_def T'(1) split: option.split)
  qed (use T'(2) in simp)
  have "mojo_import_closure T' entry = Inr fs"
    using cl closure_loop_cong[OF keys imps] T'(1) by (simp add: mojo_import_closure_def del: closure_loop.simps)
  moreover obtain r where r: "closure_loop T [ts_resolve T entry] [] = Inr r" "fs = sort r"
    using cl by (auto simp: mojo_import_closure_def bind_res_def split: sum.splits)
  have d: "distinct (sort fs)" using closure_loop_start[OF r(1)] r(2) by simp
  obtain xs ys where xy: "sort fs = xs @ f # ys" using f(1) split_list[of f "sort fs"] by auto
  have "concat (map (\<lambda>p. last p @ or_else (dget (ts_files T') p) []) zs) = concat (map (\<lambda>p. last p @ or_else (dget (ts_files T) p) []) zs)"
    if "f \<notin> set zs" for zs
    using that by (intro arg_cong[where f = concat] map_cong) (auto simp: T'(1))
  then have "hash_input T' fs extra \<noteq> hash_input T fs extra" using d f(2,3) by (simp add: hash_input_def xy T'(1))
  ultimately show ?thesis by blast
qed

lemma touched_source_changes_key_witness:
  "hash_input (sample_tree\<lparr>ts_files := dput [''m'', ''tmb'', ''b.mojo''] ''import max'' (ts_files sample_tree)\<rparr>)
      [[''m'', ''tmb'', ''a.mojo''], [''m'', ''tmb'', ''b.mojo'']] ''v1''
    \<noteq> hash_input sample_tree [[''m'', ''tmb'', ''a.mojo''], [''m'', ''tmb'', ''b.mojo'']] ''v1''"
proof -
  have "mojo_import_closure sample_tree [''m'', ''tmb'', ''a.mojo''] = Inr [[''m'', ''tmb'', ''a.mojo''], [''m'', ''tmb'', ''b.mojo'']]"
    "dget (ts_files sample_tree) [''m'', ''tmb'', ''b.mojo''] = Some ''import std''"
    "file_imports (sample_tree\<lparr>ts_files := dput [''m'', ''tmb'', ''b.mojo''] ''import max'' (ts_files sample_tree)\<rparr>) [''m'', ''tmb'', ''b.mojo'']
     = file_imports sample_tree [''m'', ''tmb'', ''b.mojo'']"
    by code_simp+
  then show ?thesis using touched_source_changes_key[OF _ _ _ _ refl, of sample_tree "[''m'', ''tmb'', ''a.mojo'']"
      "[[''m'', ''tmb'', ''a.mojo''], [''m'', ''tmb'', ''b.mojo'']]" "[''m'', ''tmb'', ''b.mojo'']" "''import std''" "''import max''" "''v1''"] by simp
qed

text \<open>Names and contents are joined without a mark between them, so two different trees can have one text: here the
  second module's source moves into the first.\<close>

lemma hash_input_ambiguous:
  "hash_input (sample_tree\<lparr>ts_files := [([''m'', ''a.mojo''], []), ([''m'', ''b.mojo''], ''b.mojox'')]\<rparr>) [[''m'', ''a.mojo''], [''m'', ''b.mojo'']] extra
   = hash_input (sample_tree\<lparr>ts_files := [([''m'', ''a.mojo''], ''b.mojo''), ([''m'', ''b.mojo''], ''x'')]\<rparr>) [[''m'', ''a.mojo''], [''m'', ''b.mojo'']] extra"
proof -
  have "sort [[''m'', ''a.mojo''], [''m'', ''b.mojo'']] = [[''m'', ''a.mojo''], [''m'', ''b.mojo'']]" by code_simp
  then show ?thesis by (simp add: hash_input_def)
qed

end
