(* ===== verification/NB_Cache.thy ===== *)
theory NB_Cache
  imports Prelude
begin

text \<open>
  The cache of native libraries (\<^verbatim>\<open>native/__init__.py\<close>: \<open>build_shim\<close>, \<open>build_backend\<close>, \<open>_install_prebuilt\<close>, \<open>_atomic_install\<close>,
  \<open>_load_or_compile\<close>), as any number of processes that build and load one library at once. The state is the
  cached file, the mark of a file that was shipped rather than compiled, the lock file, and each process's
  temporary and staged files; a process is at a statement of one of the functions, and a run interleaves their
  statements in any order. A process that dies, or leaves by an exception not handled here, releases its lock.
  Its files are named by its number. Both functions of one key take the lock of the same name, and the key,
  hence the path, does not change while the processes run.
\<close>

subsection \<open>The state\<close>

datatype origin = Shipped | Compiled
datatype library = Whole origin | Partial

text \<open>Where a process is; the flag is the argument \<open>prebuilt\<close> of the build it is in, so \<open>False\<close> is the build a failed load asks for.\<close>

datatype build_at = Check bool | Take bool | Recheck bool | Fetch | Touch | Compile bool | Leave bool | LeaveRaise
datatype install_at = Fresh bool | Stage bool | Copy bool | Publish bool
datatype load_at = Load bool | Retake | Inspect | Unlink | Unmark | Release bool | Reload
datatype process_at = Building build_at | Installing install_at | Loading load_at | Loaded origin | Raised

record cache =
  nb_out :: "library option"
  nb_mark :: bool
  nb_lock :: "nat option"
  nb_tmp :: "nat \<Rightarrow> library option"
  nb_staged :: "nat \<Rightarrow> library option"
  nb_at :: "nat \<Rightarrow> process_at"

text \<open>The machine: whether the file system locks, whether the wheel ships a library that matches, whether the scratch
  directory is on the cache's file system, and which libraries load.\<close>

record machine =
  mc_locks :: bool
  mc_ships :: bool
  mc_same_fs :: bool
  mc_loads :: "origin \<Rightarrow> bool"

definition go :: "nat \<Rightarrow> process_at \<Rightarrow> cache \<Rightarrow> cache" where
  "go i q s = s\<lparr>nb_at := (nb_at s)(i := q)\<rparr>"

subsection \<open>The functions, a statement at a time\<close>

definition take_lock :: "machine \<Rightarrow> nat \<Rightarrow> process_at \<Rightarrow> cache \<Rightarrow> cache" where
  "take_lock E i q s =
     (if \<not> mc_locks E then go i q s
      else if nb_lock s = None then go i q (s\<lparr>nb_lock := Some i\<rparr>) else s)"

definition drop_lock :: "nat \<Rightarrow> cache \<Rightarrow> cache" where
  "drop_lock i s = (if nb_lock s = Some i then s\<lparr>nb_lock := None\<rparr> else s)"

text \<open>The flag of a turn is whether the copy or the compilation it makes succeeds.\<close>

fun install_turn :: "machine \<Rightarrow> nat \<Rightarrow> install_at \<Rightarrow> cache \<Rightarrow> cache" where
  "install_turn E i (Fresh p) s =
     (if nb_out s \<noteq> None then go i (Building (Leave p)) (s\<lparr>nb_tmp := (nb_tmp s)(i := None)\<rparr>) else go i (Installing (Stage p)) s)"
| "install_turn E i (Stage p) s =
     (if mc_same_fs E
      then go i (Installing (Publish p)) (s\<lparr>nb_staged := (nb_staged s)(i := nb_tmp s i), nb_tmp := (nb_tmp s)(i := None)\<rparr>)
      else go i (Installing (Copy p)) (s\<lparr>nb_staged := (nb_staged s)(i := Some Partial)\<rparr>))"
| "install_turn E i (Copy p) s =
     go i (Installing (Publish p)) (s\<lparr>nb_staged := (nb_staged s)(i := nb_tmp s i), nb_tmp := (nb_tmp s)(i := None)\<rparr>)"
| "install_turn E i (Publish p) s =
     go i (Building (Leave p)) (s\<lparr>nb_out := nb_staged s i, nb_staged := (nb_staged s)(i := None)\<rparr>)"

fun prebuilt_turn :: "nat \<Rightarrow> bool \<Rightarrow> build_at \<Rightarrow> cache \<Rightarrow> cache" where
  "prebuilt_turn i ok Fetch s =
     (if ok then go i (Building Touch) (s\<lparr>nb_tmp := (nb_tmp s)(i := Some (Whole Shipped))\<rparr>) else go i (Building (Compile True)) s)"
| "prebuilt_turn i ok Touch s = go i (Installing (Fresh True)) (s\<lparr>nb_mark := True\<rparr>)"
| "prebuilt_turn i ok _ s = s"

fun build_turn :: "machine \<Rightarrow> nat \<Rightarrow> bool \<Rightarrow> build_at \<Rightarrow> cache \<Rightarrow> cache" where
  "build_turn E i ok (Check p) s = (if nb_out s \<noteq> None then go i (Loading (Load p)) s else go i (Building (Take p)) s)"
| "build_turn E i ok (Take p) s = take_lock E i (Building (Recheck p)) s"
| "build_turn E i ok (Recheck p) s =
     (if nb_out s \<noteq> None then go i (Building (Leave p)) s
      else if p \<and> mc_ships E then go i (Building Fetch) s
      else go i (Building (Compile p)) s)"
| "build_turn E i ok (Compile p) s =
     (if ok then go i (Installing (Fresh p)) (s\<lparr>nb_tmp := (nb_tmp s)(i := Some (Whole Compiled))\<rparr>) else go i (Building LeaveRaise) s)"
| "build_turn E i ok (Leave p) s = go i (Loading (Load p)) (drop_lock i s)"
| "build_turn E i ok LeaveRaise s = go i Raised (drop_lock i s)"
| "build_turn E i ok b s = prebuilt_turn i ok b s"

fun load_turn :: "machine \<Rightarrow> nat \<Rightarrow> load_at \<Rightarrow> cache \<Rightarrow> cache" where
  "load_turn E i (Load first) s =
     (case nb_out s of
        Some (Whole orig) \<Rightarrow> if mc_loads E orig then go i (Loaded orig) s else if first then go i (Loading Retake) s else go i Raised s
      | _ \<Rightarrow> if first then go i (Loading Retake) s else go i Raised s)"
| "load_turn E i Retake s = take_lock E i (Loading Inspect) s"
| "load_turn E i Inspect s = (if nb_mark s then go i (Loading Unlink) s else go i (Loading (Release False)) s)"
| "load_turn E i Unlink s = go i (Loading Unmark) (s\<lparr>nb_out := None\<rparr>)"
| "load_turn E i Unmark s = go i (Loading (Release True)) (s\<lparr>nb_mark := False\<rparr>)"
| "load_turn E i (Release replaced) s = go i (if replaced then Building (Check False) else Loading Reload) (drop_lock i s)"
| "load_turn E i Reload s = (if nb_out s = None then go i Raised s else go i (Loading (Load False)) s)"

subsection \<open>Runs\<close>

datatype event = Go nat bool | Die nat

fun cache_step :: "machine \<Rightarrow> event \<Rightarrow> cache \<Rightarrow> cache" where
  "cache_step E (Go i ok) s =
     (case nb_at s i of
        Building b \<Rightarrow> build_turn E i ok b s
      | Installing q \<Rightarrow> install_turn E i q s
      | Loading l \<Rightarrow> load_turn E i l s
      | _ \<Rightarrow> s)"
| "cache_step E (Die i) s = go i Raised (drop_lock i s)"

definition cache_run :: "machine \<Rightarrow> event list \<Rightarrow> cache \<Rightarrow> cache" where
  "cache_run E es s = fold (cache_step E) es s"

text \<open>An empty cache, every process about to build.\<close>

definition cache_start :: cache where
  "cache_start = \<lparr> nb_out = None, nb_mark = False, nb_lock = None, nb_tmp = (\<lambda>_. None), nb_staged = (\<lambda>_. None),
     nb_at = (\<lambda>_. Building (Check True)) \<rparr>"

subsection \<open>No file is seen half written\<close>

definition is_whole :: "library option \<Rightarrow> bool" where
  "is_whole f \<longleftrightarrow> (\<exists>orig. f = Some (Whole orig))"

text \<open>What a process at a statement relies on, of its temporary and its staged file.\<close>

fun whole_at :: "process_at \<Rightarrow> library option \<Rightarrow> library option \<Rightarrow> bool" where
  "whole_at (Building b) tmp staged = (b = Touch \<longrightarrow> is_whole tmp)"
| "whole_at (Installing q) tmp staged = (case q of Publish p \<Rightarrow> is_whole staged | _ \<Rightarrow> is_whole tmp)"
| "whole_at _ tmp staged = True"

definition files_whole :: "cache \<Rightarrow> bool" where
  "files_whole s \<longleftrightarrow> nb_out s \<noteq> Some Partial \<and> (\<forall>i. whole_at (nb_at s i) (nb_tmp s i) (nb_staged s i))"

lemmas turn_defs = go_def take_lock_def drop_lock_def

lemma turn_whole:
  assumes "files_whole s"
  shows "files_whole (cache_step E e s)"
proof (cases e)
  case (Die i)
  then show ?thesis using assms by (auto simp: turn_defs files_whole_def)
next
  case (Go i ok)
  have w: "nb_out s \<noteq> Some Partial" "whole_at (nb_at s j) (nb_tmp s j) (nb_staged s j)" for j
    using assms by (simp_all add: files_whole_def)
  show ?thesis
  proof (cases "nb_at s i")
    case (Building b)
    then show ?thesis using Go w w(2)[of i] by (cases b) (auto simp: turn_defs files_whole_def is_whole_def)
  next
    case (Installing q)
    then show ?thesis using Go w w(2)[of i] by (cases q) (auto simp: turn_defs files_whole_def is_whole_def)
  next
    case (Loading l)
    then show ?thesis using Go w by (cases l) (auto simp: turn_defs files_whole_def split: option.split library.split)
  qed (use Go assms in auto)
qed

subsection \<open>The lock\<close>

fun holds :: "process_at \<Rightarrow> bool" where
  "holds (Building b) = (case b of Check p \<Rightarrow> False | Take p \<Rightarrow> False | _ \<Rightarrow> True)"
| "holds (Installing q) = True"
| "holds (Loading l) = (case l of Inspect \<Rightarrow> True | Unlink \<Rightarrow> True | Unmark \<Rightarrow> True | Release r \<Rightarrow> True | _ \<Rightarrow> False)"
| "holds _ = False"

definition lock_held :: "cache \<Rightarrow> bool" where
  "lock_held s \<longleftrightarrow> (\<forall>i. holds (nb_at s i) \<longleftrightarrow> nb_lock s = Some i)"

lemma turn_lock:
  assumes "mc_locks E" "lock_held s"
  shows "lock_held (cache_step E e s)"
proof (cases e)
  case (Die i)
  then show ?thesis using assms by (auto simp: turn_defs lock_held_def)
next
  case (Go i ok)
  have h: "holds (nb_at s j) \<longleftrightarrow> nb_lock s = Some j" for j using assms(2) by (simp add: lock_held_def)
  show ?thesis
  proof (cases "nb_at s i")
    case (Building b)
    then show ?thesis using Go assms(1) h h[of i] by (cases b) (auto simp: turn_defs lock_held_def)
  next
    case (Installing q)
    then show ?thesis using Go assms(1) h h[of i] by (cases q) (auto simp: turn_defs lock_held_def)
  next
    case (Loading l)
    then show ?thesis using Go assms(1) h h[of i] by (cases l) (auto simp: turn_defs lock_held_def split: option.split library.split)
  qed (use Go assms in auto)
qed

subsection \<open>A shipped library is marked, a compiled one is not\<close>

text \<open>With locks and whatever processes die: a shipped library is never without its mark.\<close>

fun marked_at :: "process_at \<Rightarrow> library option \<Rightarrow> library option \<Rightarrow> library option \<Rightarrow> bool \<Rightarrow> bool" where
  "marked_at (Installing q) tmp staged out mark =
     ((case q of Publish p \<Rightarrow> staged | _ \<Rightarrow> tmp) = Some (Whole Shipped) \<longrightarrow> mark)"
| "marked_at (Loading l) tmp staged out mark = (l = Unmark \<longrightarrow> out = None)"
| "marked_at _ tmp staged out mark = True"

definition shipped_marked :: "cache \<Rightarrow> bool" where
  "shipped_marked s \<longleftrightarrow> (nb_out s = Some (Whole Shipped) \<longrightarrow> nb_mark s)
     \<and> (\<forall>i. marked_at (nb_at s i) (nb_tmp s i) (nb_staged s i) (nb_out s) (nb_mark s))"

text \<open>With locks and no process dying: outside the lock the mark says exactly that the library was shipped, and inside it the
  holder knows what it is about to do to both.\<close>

fun exact_at :: "process_at \<Rightarrow> library option \<Rightarrow> library option \<Rightarrow> library option \<Rightarrow> bool \<Rightarrow> bool" where
  "exact_at (Building b) tmp staged out mark =
     (case b of Check p \<Rightarrow> True | Take p \<Rightarrow> True
      | Fetch \<Rightarrow> out = None \<and> \<not> mark | Compile p \<Rightarrow> out = None \<and> \<not> mark
      | Touch \<Rightarrow> out = None \<and> \<not> mark \<and> tmp = Some (Whole Shipped)
      | _ \<Rightarrow> mark = (out = Some (Whole Shipped)))"
| "exact_at (Installing q) tmp staged out mark =
     (out = None \<and> is_whole (case q of Publish p \<Rightarrow> staged | _ \<Rightarrow> tmp)
      \<and> mark = ((case q of Publish p \<Rightarrow> staged | _ \<Rightarrow> tmp) = Some (Whole Shipped)))"
| "exact_at (Loading l) tmp staged out mark =
     (case l of Inspect \<Rightarrow> mark = (out = Some (Whole Shipped)) | Release r \<Rightarrow> mark = (out = Some (Whole Shipped))
      | Unlink \<Rightarrow> mark \<and> out = Some (Whole Shipped) | Unmark \<Rightarrow> out = None | _ \<Rightarrow> True)"
| "exact_at _ tmp staged out mark = True"

definition marks_exact :: "cache \<Rightarrow> bool" where
  "marks_exact s \<longleftrightarrow> (nb_lock s = None \<longrightarrow> nb_mark s = (nb_out s = Some (Whole Shipped)))
     \<and> (\<forall>i. exact_at (nb_at s i) (nb_tmp s i) (nb_staged s i) (nb_out s) (nb_mark s))"

lemma unheld_marked: "\<not> holds q \<Longrightarrow> marked_at q tmp staged out mark"
  by (cases q) (auto split: load_at.splits)

lemma unheld_exact: "\<not> holds q \<Longrightarrow> exact_at q tmp staged out mark"
  by (cases q) (auto split: build_at.splits load_at.splits)

text \<open>A turn moves one process, and only the holder of the lock touches the library and its mark.\<close>

lemma turn_others:
  "j \<noteq> i \<Longrightarrow> nb_at (cache_step E (Go i ok) s) j = nb_at s j \<and> nb_tmp (cache_step E (Go i ok) s) j = nb_tmp s j
     \<and> nb_staged (cache_step E (Go i ok) s) j = nb_staged s j"
proof (cases "nb_at s i")
  case (Building b)
  then show "j \<noteq> i \<Longrightarrow> ?thesis" by (cases b) (auto simp: turn_defs)
next
  case (Installing q)
  then show "j \<noteq> i \<Longrightarrow> ?thesis" by (cases q) (auto simp: turn_defs)
next
  case (Loading l)
  then show "j \<noteq> i \<Longrightarrow> ?thesis" by (cases l) (auto simp: turn_defs split: option.split library.split)
qed auto

lemma turn_unheld:
  assumes "\<not> holds (nb_at s i)"
  shows "nb_out (cache_step E (Go i ok) s) = nb_out s \<and> nb_mark (cache_step E (Go i ok) s) = nb_mark s"
proof (cases "nb_at s i")
  case (Building b)
  then show ?thesis using assms by (cases b) (auto simp: turn_defs)
next
  case (Loading l)
  then show ?thesis using assms by (cases l) (auto simp: turn_defs split: option.split library.split)
qed (use assms in auto)

lemma turn_keeps_others:
  assumes un: "\<And>q tmp staged out mark. \<not> holds q \<Longrightarrow> P q tmp staged out mark"
    and held: "lock_held s" and P: "P (nb_at s j) (nb_tmp s j) (nb_staged s j) (nb_out s) (nb_mark s)" and ne: "j \<noteq> i"
    and s': "s' = cache_step E (Go i ok) s"
  shows "P (nb_at s' j) (nb_tmp s' j) (nb_staged s' j) (nb_out s') (nb_mark s')"
proof (cases "holds (nb_at s j)")
  case True
  then have "\<not> holds (nb_at s i)" using held ne by (auto simp: lock_held_def)
  then show ?thesis using turn_others[OF ne, of E ok s] turn_unheld[of s i E ok] P unfolding s' by simp
next
  case False
  then show ?thesis using un turn_others[OF ne, of E ok s] unfolding s' by simp
qed

lemma turn_marked:
  assumes "mc_locks E" "lock_held s" "shipped_marked s"
  shows "shipped_marked (cache_step E e s)"
proof (cases e)
  case (Die i)
  then show ?thesis using assms(3) by (auto simp: turn_defs shipped_marked_def)
next
  case (Go i ok)
  let ?s = "cache_step E (Go i ok) s"
  have m: "nb_out s = Some (Whole Shipped) \<longrightarrow> nb_mark s" "marked_at (nb_at s j) (nb_tmp s j) (nb_staged s j) (nb_out s) (nb_mark s)" for j
    using assms(3) by (simp_all add: shipped_marked_def)
  have others: "marked_at (nb_at ?s j) (nb_tmp ?s j) (nb_staged ?s j) (nb_out ?s) (nb_mark ?s)" if "j \<noteq> i" for j
    by (rule turn_keeps_others[where P = marked_at, OF unheld_marked assms(2) m(2) that refl])
  have own: "(nb_out ?s = Some (Whole Shipped) \<longrightarrow> nb_mark ?s) \<and> marked_at (nb_at ?s i) (nb_tmp ?s i) (nb_staged ?s i) (nb_out ?s) (nb_mark ?s)"
  proof (cases "nb_at s i")
    case (Building b)
    then show ?thesis using m(1) m(2)[of i] by (cases b) (auto simp: turn_defs)
  next
    case (Installing q)
    then show ?thesis using m(1) m(2)[of i] by (cases q) (auto simp: turn_defs)
  next
    case (Loading l)
    then show ?thesis using m(1) m(2)[of i] by (cases l) (auto simp: turn_defs split: option.split library.split)
  qed (use m in auto)
  show ?thesis unfolding shipped_marked_def Go
  proof (intro conjI allI)
    fix j
    show "marked_at (nb_at ?s j) (nb_tmp ?s j) (nb_staged ?s j) (nb_out ?s) (nb_mark ?s)" using own others by (cases "j = i") auto
  qed (use own in blast)
qed

lemma turn_exact:
  assumes "mc_locks E" "lock_held s" "marks_exact s"
  shows "marks_exact (cache_step E (Go i ok) s)"
proof -
  let ?s = "cache_step E (Go i ok) s"
  have m: "nb_lock s = None \<longrightarrow> nb_mark s = (nb_out s = Some (Whole Shipped))"
    "exact_at (nb_at s j) (nb_tmp s j) (nb_staged s j) (nb_out s) (nb_mark s)" for j
    using assms(3) by (simp_all add: marks_exact_def)
  have others: "exact_at (nb_at ?s j) (nb_tmp ?s j) (nb_staged ?s j) (nb_out ?s) (nb_mark ?s)" if "j \<noteq> i" for j
    by (rule turn_keeps_others[where P = exact_at, OF unheld_exact assms(2) m(2) that refl])
  have h: "holds (nb_at s i) \<longleftrightarrow> nb_lock s = Some i" using assms(2) by (simp add: lock_held_def)
  have own: "(nb_lock ?s = None \<longrightarrow> nb_mark ?s = (nb_out ?s = Some (Whole Shipped)))
      \<and> exact_at (nb_at ?s i) (nb_tmp ?s i) (nb_staged ?s i) (nb_out ?s) (nb_mark ?s)"
  proof (cases "nb_at s i")
    case (Building b)
    then show ?thesis using m(1) m(2)[of i] h assms(1) by (cases b) (auto simp: turn_defs is_whole_def)
  next
    case (Installing q)
    then show ?thesis using m(1) m(2)[of i] h by (cases q) (auto simp: turn_defs is_whole_def)
  next
    case (Loading l)
    then show ?thesis using m(1) m(2)[of i] h assms(1) by (cases l) (auto simp: turn_defs split: option.split library.split)
  qed (use m in auto)
  show ?thesis unfolding marks_exact_def
  proof (intro conjI allI)
    fix j
    show "exact_at (nb_at ?s j) (nb_tmp ?s j) (nb_staged ?s j) (nb_out ?s) (nb_mark ?s)" using own others by (cases "j = i") auto
  qed (use own in blast)
qed

subsection \<open>Over every run\<close>

lemma run_append [simp]: "cache_run E (es @ fs) s = cache_run E fs (cache_run E es s)" "cache_run E [] s = s"
  "cache_run E (e # es) s = cache_run E es (cache_step E e s)"
  by (simp_all add: cache_run_def)

lemma run_whole: "files_whole (cache_run E es cache_start)"
proof (induction es rule: rev_induct)
  case Nil
  then show ?case by (simp add: files_whole_def cache_start_def)
qed (simp add: turn_whole)

lemma run_lock: "mc_locks E \<Longrightarrow> lock_held (cache_run E es cache_start)"
proof (induction es rule: rev_induct)
  case Nil
  then show ?case by (simp add: lock_held_def cache_start_def)
qed (simp add: turn_lock)

lemma run_marked: "mc_locks E \<Longrightarrow> shipped_marked (cache_run E es cache_start)"
proof (induction es rule: rev_induct)
  case Nil
  then show ?case by (simp add: shipped_marked_def cache_start_def)
qed (simp add: turn_marked run_lock)

definition nobody_dies :: "event list \<Rightarrow> bool" where
  "nobody_dies es \<longleftrightarrow> (\<forall>i. Die i \<notin> set es)"

lemma run_exact: "mc_locks E \<Longrightarrow> nobody_dies es \<Longrightarrow> marks_exact (cache_run E es cache_start)"
proof (induction es rule: rev_induct)
  case Nil
  then show ?case by (simp add: marks_exact_def cache_start_def)
next
  case (snoc e es)
  then obtain i ok where "e = Go i ok" by (cases e) (auto simp: nobody_dies_def)
  then show ?case using snoc turn_exact[OF _ run_lock] by (simp add: nobody_dies_def)
qed

text \<open>C34: Whatever the processes do, in any order, dying at any statement, with or without locks on the file system, the
  library's path never holds a part of a file; and where the file system locks, a library that was shipped is
  never there without the mark that lets a failing load replace it.\<close>

theorem cached_library_whole:
  "nb_out (cache_run E es cache_start) \<noteq> Some Partial
   \<and> (mc_locks E \<and> nb_out (cache_run E es cache_start) = Some (Whole Shipped) \<longrightarrow> nb_mark (cache_run E es cache_start))"
  using run_whole[of E es] run_marked[of E es] by (simp add: files_whole_def shipped_marked_def)

definition sample_machine :: machine where
  "sample_machine = \<lparr> mc_locks = True, mc_ships = True, mc_same_fs = False, mc_loads = (\<lambda>orig. orig = Compiled) \<rparr>"

lemma cached_library_whole_witness: "nb_mark (cache_run sample_machine (replicate 10 (Go 3 True)) cache_start)"
proof -
  have "mc_locks sample_machine" "nb_out (cache_run sample_machine (replicate 10 (Go 3 True)) cache_start) = Some (Whole Shipped)" by code_simp+
  then show ?thesis using cached_library_whole[of sample_machine "replicate 10 (Go 3 True)"] by blast
qed

lemma turn_keeps_compiled:
  assumes "marks_exact s" "nb_out s = Some (Whole Compiled)"
  shows "nb_out (cache_step E (Go i ok) s) = Some (Whole Compiled)"
proof -
  have m: "exact_at (nb_at s i) (nb_tmp s i) (nb_staged s i) (nb_out s) (nb_mark s)" using assms(1) by (simp add: marks_exact_def)
  show ?thesis
  proof (cases "nb_at s i")
    case (Building b)
    then show ?thesis using m assms(2) by (cases b) (auto simp: turn_defs)
  next
    case (Installing q)
    then show ?thesis using m assms(2) by (cases q) (auto simp: turn_defs)
  next
    case (Loading l)
    then show ?thesis using m assms(2) by (cases l) (auto simp: turn_defs split: option.split library.split)
  qed (use assms in auto)
qed

text \<open>C35: Where the file system locks and no process dies, a compiled library is never deleted or replaced once it is there,
  whatever loads of it or of the file before it failed.\<close>

theorem compiled_library_stays:
  assumes "mc_locks E" "nobody_dies (es @ fs)" "nb_out (cache_run E es cache_start) = Some (Whole Compiled)"
  shows "nb_out (cache_run E (es @ fs) cache_start) = Some (Whole Compiled)"
  using assms(2)
proof (induction fs rule: rev_induct)
  case Nil
  then show ?case using assms(3) by simp
next
  case (snoc e fs)
  then obtain i ok where e: "e = Go i ok" by (cases e) (auto simp: nobody_dies_def)
  have "nobody_dies (es @ fs)" using snoc.prems by (simp add: nobody_dies_def)
  then show ?case using turn_keeps_compiled[OF run_exact[OF assms(1)] snoc.IH, of E i ok] e by simp
qed

lemma compiled_library_stays_witness:
  "nb_out (cache_run sample_machine (replicate 30 (Go 3 True) @ replicate 9 (Go 4 True)) cache_start) = Some (Whole Compiled)"
proof -
  have "mc_locks sample_machine" "nb_out (cache_run sample_machine (replicate 30 (Go 3 True)) cache_start) = Some (Whole Compiled)" by code_simp+
  moreover have "nobody_dies (replicate 30 (Go 3 True) @ replicate 9 (Go 4 True))" by (simp add: nobody_dies_def)
  ultimately show ?thesis using compiled_library_stays by blast
qed

subsection \<open>A process alone recovers\<close>

definition turns :: "machine \<Rightarrow> nat \<Rightarrow> nat \<Rightarrow> cache \<Rightarrow> cache" where
  "turns E i n s = cache_run E (replicate n (Go i True)) s"

lemma turns_simps [simp]: "turns E i 0 s = s" "turns E i (Suc n) s = turns E i n (cache_step E (Go i True) s)"
  by (simp_all add: turns_def)

lemma turns_add: "turns E i (m + n) s = turns E i n (turns E i m s)"
  by (simp add: turns_def replicate_add)

definition loaded_by :: "machine \<Rightarrow> nat \<Rightarrow> nat \<Rightarrow> cache \<Rightarrow> bool" where
  "loaded_by E i n s \<longleftrightarrow> (\<exists>orig. mc_loads E orig \<and> nb_at (turns E i n s) i = Loaded orig)"

lemma loaded_by_later: "loaded_by E i m s \<Longrightarrow> m \<le> n \<Longrightarrow> loaded_by E i n s"
proof -
  have stays: "turns E i k t = t" if "nb_at t i = Loaded orig" for k t orig using that by (induction k) simp_all
  assume "loaded_by E i m s" "m \<le> n"
  then show ?thesis using turns_add[of E i m "n - m" s] stays by (auto simp: loaded_by_def)
qed

lemma loaded_by_after: "loaded_by E i n (turns E i m s) \<Longrightarrow> loaded_by E i (m + n) s"
  by (simp add: loaded_by_def turns_add)

lemma compiles_and_loads:
  assumes "nb_at s i = Building (Check p)" "p \<longrightarrow> \<not> mc_ships E" "nb_out s = None" "nb_lock s = None" "mc_loads E Compiled"
  shows "loaded_by E i 10 s"
  using assms by (cases p; cases "mc_same_fs E"; cases "mc_locks E") (simp_all add: loaded_by_def turn_defs numeral_eq_Suc)

lemma falls_back:
  assumes "nb_at s i = Loading (Load True)" "nb_out s = Some (Whole orig)" "nb_lock s = None"
    "orig = Shipped \<longrightarrow> nb_mark s" "mc_loads E Compiled"
  shows "loaded_by E i 16 s"
proof (cases "mc_loads E orig")
  case True
  then have "loaded_by E i 1 s" using assms by (simp add: loaded_by_def turn_defs)
  then show ?thesis by (rule loaded_by_later) simp
next
  case False
  then have m: "nb_mark s" using assms(4,5) by (cases orig) auto
  let ?t = "turns E i 6 s"
  have "nb_at ?t i = Building (Check False) \<and> nb_out ?t = None \<and> nb_lock ?t = None"
    using False m assms by (cases "mc_locks E") (simp_all add: turn_defs numeral_eq_Suc)
  then have "loaded_by E i 10 ?t" using compiles_and_loads[of ?t i False E] assms(5) by simp
  then show ?thesis using loaded_by_after[of E i 10 6 s] by simp
qed

lemma fetches_shipped:
  assumes "nb_at s i = Building (Check True)" "mc_ships E" "nb_out s = None" "nb_lock s = None" "mc_loads E Compiled"
  shows "loaded_by E i 26 s"
proof -
  define k where "k = (if mc_same_fs E then 9 else 10 :: nat)"
  have "nb_at (turns E i k s) i = Loading (Load True) \<and> nb_out (turns E i k s) = Some (Whole Shipped)
      \<and> nb_lock (turns E i k s) = None \<and> nb_mark (turns E i k s)"
    using assms by (cases "mc_same_fs E"; cases "mc_locks E") (simp_all add: k_def turn_defs numeral_eq_Suc)
  then have "loaded_by E i 16 (turns E i k s)" using falls_back[of "turns E i k s" i Shipped E] assms(5) by simp
  then have "loaded_by E i (k + 16) s" by (rule loaded_by_after)
  then show ?thesis by (rule loaded_by_later) (simp add: k_def)
qed

text \<open>C36: Whatever happened before, processes dying included, a process that starts to build while nobody holds the lock, and is
  then left alone, has a library that loads after at most 26 statements, if only what it compiles loads: a shipped
  library that does not load is replaced by a compiled one.\<close>

theorem lone_process_loads:
  assumes "mc_locks E" "mc_loads E Compiled" "s = cache_run E es cache_start"
    and "nb_lock s = None" "nb_at s i = Building (Check True)"
  shows "\<exists>orig. mc_loads E orig \<and> nb_at (cache_run E (replicate 26 (Go i True)) s) i = Loaded orig"
proof -
  have w: "nb_out s \<noteq> Some Partial" "nb_out s = Some (Whole Shipped) \<longrightarrow> nb_mark s"
    using run_whole[of E es] run_marked[of E es] assms(1,3) by (simp_all add: files_whole_def shipped_marked_def)
  have "loaded_by E i 26 s"
  proof (cases "nb_out s")
    case None
    show ?thesis
    proof (cases "mc_ships E")
      case True
      then show ?thesis using fetches_shipped[OF assms(5) _ None assms(4,2)] by simp
    next
      case False
      then have "loaded_by E i 10 s" using compiles_and_loads[OF assms(5) _ None assms(4,2)] by simp
      then show ?thesis by (rule loaded_by_later) simp
    qed
  next
    case (Some f)
    then obtain orig where f: "nb_out s = Some (Whole orig)" using w(1) by (cases f) auto
    have t: "turns E i 1 s = go i (Loading (Load True)) s" using assms(5) f by simp
    have "loaded_by E i 16 (turns E i 1 s)"
      unfolding t by (rule falls_back[where orig = orig]) (use f w(2) assms(2,4) in \<open>auto simp: go_def\<close>)
    then have "loaded_by E i (1 + 16) s" by (rule loaded_by_after)
    then show ?thesis by (rule loaded_by_later) simp
  qed
  then show ?thesis by (simp add: loaded_by_def turns_def)
qed

lemma lone_process_loads_witness:
  "\<exists>orig. mc_loads sample_machine orig
     \<and> nb_at (cache_run sample_machine (replicate 26 (Go 4 True)) (cache_run sample_machine (replicate 7 (Go 3 True) @ [Die 3]) cache_start)) 4
       = Loaded orig"
proof -
  let ?s = "cache_run sample_machine (replicate 7 (Go 3 True) @ [Die 3]) cache_start"
  have "mc_locks sample_machine" "mc_loads sample_machine Compiled" "nb_lock ?s = None" "nb_at ?s 4 = Building (Check True)"
    by code_simp+
  then show ?thesis using lone_process_loads[OF _ _ refl] by blast
qed

subsection \<open>Two processes that fail to load the same shipped library\<close>

text \<open>Two processes that start together, on a file system that locks, with a shipped library that does not load and a
  compiler that works: one removes the library and releases the lock to build its own, the other then finds
  neither the mark nor a library and raises, although nothing but the shipped library was wrong. Started once
  more in between, a process installs the shipped library again, and the first one, which asked for a compiled
  one, takes it and raises too.\<close>

theorem fallbacks_collide:
  "\<exists>es fs. nobody_dies es \<and> nobody_dies fs \<and> mc_locks sample_machine \<and> mc_loads sample_machine Compiled
     \<and> (\<forall>i ok. Go i ok \<in> set (es @ fs) \<longrightarrow> ok)
     \<and> nb_at (cache_run sample_machine es cache_start) 2 = Raised
     \<and> nb_at (cache_run sample_machine (es @ fs) cache_start) 1 = Raised"
proof -
  let ?es = "replicate 11 (Go 1 True) @ replicate 2 (Go 2 True) @ replicate 5 (Go 1 True) @ replicate 4 (Go 2 True)"
  let ?fs = "replicate 10 (Go 3 True) @ replicate 2 (Go 1 True)"
  have "nb_at (cache_run sample_machine ?es cache_start) 2 = Raised" by code_simp
  moreover have "nb_at (cache_run sample_machine (?es @ ?fs) cache_start) 1 = Raised" by code_simp
  ultimately show ?thesis
    by (intro exI[of _ ?es] exI[of _ ?fs]) (auto simp: nobody_dies_def sample_machine_def)
qed

end
