(* ===== verification/CI_Interop.thy ===== *)
theory CI_Interop
  imports Prelude
begin

text \<open>
  Running CUDA code on mojo tensors (\<^verbatim>\<open>cuda_interop.py\<close>: \<open>as_cuda\<close>, \<open>as_mojo\<close>, the traversals \<open>_mojo_index\<close>, \<open>_to_cuda\<close>,
  \<open>_to_mojo\<close>, \<open>_convert_args\<close>, \<open>on_mojo_stream\<close>, \<open>call_cuda\<close>, \<open>_cuda_fallback\<close>). Python objects are numbers into a heap of
  tensors, so that identity is equality of numbers and an alias is a new object with the same memory. The thread's
  state is \<open>_ordering.index\<close> and torch.cuda's current stream; the called function is a parameter. Aliases stay alive
  as long as the call's arguments, so no object's \<open>id\<close> is reused while \<open>originals\<close> is in use.
\<close>

subsection \<open>Objects and the thread\<close>

datatype device_kind = MojoDev | CudaDev | OtherDev
datatype torch_device = Dev device_kind "nat option"

record tensor_object =
  tx_device :: torch_device
  tx_memory :: nat

text \<open>Only the exact built-in containers are descended into; everything else is one \<open>POther\<close>. A dictionary keeps its keys
  beside its values.\<close>

datatype pyval =
    PTensor nat
  | PList "pyval list"
  | PTuple "pyval list"
  | PDict "string list" "pyval list"
  | PDevice torch_device
  | POther nat

record interop =
  ix_heap :: "tensor_object list"
  ix_ordering :: "nat option"
  ix_cuda_stream :: "nat \<times> nat"
  ix_external :: "(nat \<times> nat, nat) dict"
  ix_counts :: "(string, nat) dict"

text \<open>What torch.cuda, MAX and the shim answer: device counts, the current mojo stream of a device, a stream's vendor handle.\<close>

record interop_env =
  ie_cuda_count :: nat
  ie_mojo_count :: nat
  ie_stream :: "nat \<Rightarrow> nat"
  ie_handle :: "nat \<Rightarrow> nat \<Rightarrow> nat"

type_synonym 'a act = "interop \<Rightarrow> interop \<times> 'a result"

definition ret_act :: "'a \<Rightarrow> 'a act" where
  "ret_act x = (\<lambda>st. (st, Inr x))"

definition fail_act :: "py_error \<Rightarrow> 'a act" where
  "fail_act e = (\<lambda>st. (st, Inl e))"

definition bind_act :: "'a act \<Rightarrow> ('a \<Rightarrow> 'b act) \<Rightarrow> 'b act" where
  "bind_act m f = (\<lambda>st. case m st of (st', Inl e) \<Rightarrow> (st', Inl e) | (st', Inr x) \<Rightarrow> f x st')"

fun is_kind :: "device_kind \<Rightarrow> torch_device \<Rightarrow> bool" where
  "is_kind k (Dev k' i) = (k = k')"

fun gpu_index :: "torch_device \<Rightarrow> nat" where
  "gpu_index (Dev k i) = or_else i 0"

subsection \<open>Aliases\<close>

definition require_ordering :: "nat \<Rightarrow> bool \<Rightarrow> unit act" where
  "require_ordering index unordered = (\<lambda>st.
     if unordered then (st, Inr ())
     else case ix_ordering st of
         None \<Rightarrow> (st, Inl (RuntimeError ''outside on_mojo_stream()''))
       | Some active \<Rightarrow>
           if active \<noteq> index then (st, Inl (RuntimeError ''inside on_mojo_stream() of another device''))
           else (st, Inr ()))"

definition new_tensor_object :: "torch_device \<Rightarrow> nat \<Rightarrow> nat act" where
  "new_tensor_object d mem = (\<lambda>st.
     (st\<lparr>ix_heap := ix_heap st @ [\<lparr>tx_device = d, tx_memory = mem\<rparr>]\<rparr>, Inr (length (ix_heap st))))"

definition as_cuda :: "interop_env \<Rightarrow> nat \<Rightarrow> bool \<Rightarrow> nat act" where
  "as_cuda E t unordered = (\<lambda>st.
     let x = ix_heap st ! t; index = gpu_index (tx_device x) in
     if \<not> is_kind MojoDev (tx_device x) then (st, Inl (ValueError ''expected a mojo tensor''))
     else if ie_cuda_count E \<le> index then (st, Inl (ValueError ''no CUDA counterpart''))
     else bind_act (require_ordering index unordered) (\<lambda>_. new_tensor_object (Dev CudaDev (Some index)) (tx_memory x)) st)"

definition as_mojo :: "interop_env \<Rightarrow> nat \<Rightarrow> bool \<Rightarrow> nat act" where
  "as_mojo E t unordered = (\<lambda>st.
     let x = ix_heap st ! t; index = gpu_index (tx_device x) in
     if \<not> is_kind CudaDev (tx_device x) then (st, Inl (ValueError ''expected a cuda tensor''))
     else if ie_mojo_count E \<le> index then (st, Inl (ValueError ''no mojo counterpart''))
     else bind_act (require_ordering index unordered) (\<lambda>_. new_tensor_object (Dev MojoDev (Some index)) (tx_memory x)) st)"

subsection \<open>Traversals\<close>

fun mojo_index :: "tensor_object list \<Rightarrow> pyval \<Rightarrow> nat option" and first_mojo_index :: "tensor_object list \<Rightarrow> pyval list \<Rightarrow> nat option" where
  "mojo_index h (PTensor t) = (if is_kind MojoDev (tx_device (h ! t)) then Some (gpu_index (tx_device (h ! t))) else None)"
| "mojo_index h (PList vs) = first_mojo_index h vs"
| "mojo_index h (PTuple vs) = first_mojo_index h vs"
| "mojo_index h (PDict ks vs) = first_mojo_index h vs"
| "mojo_index h _ = None"
| "first_mojo_index h [] = None"
| "first_mojo_index h (v # vs) = (case mojo_index h v of Some i \<Rightarrow> Some i | None \<Rightarrow> first_mojo_index h vs)"

text \<open>\<open>originals\<close> is passed along: which mojo tensor each alias was made of, by the alias's \<open>id\<close>.\<close>

fun to_cuda :: "interop_env \<Rightarrow> pyval \<Rightarrow> (nat, nat) dict \<Rightarrow> (pyval \<times> (nat, nat) dict) act"
  and to_cuda_all :: "interop_env \<Rightarrow> pyval list \<Rightarrow> (nat, nat) dict \<Rightarrow> (pyval list \<times> (nat, nat) dict) act" where
  "to_cuda E (PTensor t) orig = (\<lambda>st.
     if \<not> is_kind MojoDev (tx_device (ix_heap st ! t)) then (st, Inr (PTensor t, orig))
     else bind_act (as_cuda E t False) (\<lambda>a. ret_act (PTensor a, dput a t orig)) st)"
| "to_cuda E (PList vs) orig = bind_act (to_cuda_all E vs orig) (\<lambda>(vs, orig). ret_act (PList vs, orig))"
| "to_cuda E (PTuple vs) orig = bind_act (to_cuda_all E vs orig) (\<lambda>(vs, orig). ret_act (PTuple vs, orig))"
| "to_cuda E (PDict ks vs) orig = bind_act (to_cuda_all E vs orig) (\<lambda>(vs, orig). ret_act (PDict ks vs, orig))"
| "to_cuda E (PDevice d) orig = ret_act (PDevice (if is_kind MojoDev d then Dev CudaDev (Some (gpu_index d)) else d), orig)"
| "to_cuda E (POther n) orig = ret_act (POther n, orig)"
| "to_cuda_all E [] orig = ret_act ([], orig)"
| "to_cuda_all E (v # vs) orig =
     bind_act (to_cuda E v orig) (\<lambda>(v, orig). bind_act (to_cuda_all E vs orig) (\<lambda>(vs, orig). ret_act (v # vs, orig)))"

fun to_mojo :: "interop_env \<Rightarrow> (nat, nat) dict \<Rightarrow> pyval \<Rightarrow> pyval act"
  and to_mojo_all :: "interop_env \<Rightarrow> (nat, nat) dict \<Rightarrow> pyval list \<Rightarrow> pyval list act" where
  "to_mojo E orig (PTensor t) = (\<lambda>st.
     if \<not> is_kind CudaDev (tx_device (ix_heap st ! t)) then (st, Inr (PTensor t))
     else case dget orig t of
         Some x \<Rightarrow> (st, Inr (PTensor x))
       | None \<Rightarrow> bind_act (as_mojo E t False) (\<lambda>a. ret_act (PTensor a)) st)"
| "to_mojo E orig (PList vs) = bind_act (to_mojo_all E orig vs) (\<lambda>vs. ret_act (PList vs))"
| "to_mojo E orig (PTuple vs) = bind_act (to_mojo_all E orig vs) (\<lambda>vs. ret_act (PTuple vs))"
| "to_mojo E orig (PDict ks vs) = bind_act (to_mojo_all E orig vs) (\<lambda>vs. ret_act (PDict ks vs))"
| "to_mojo E orig (PDevice d) = ret_act (PDevice d)"
| "to_mojo E orig (POther n) = ret_act (POther n)"
| "to_mojo_all E orig [] = ret_act []"
| "to_mojo_all E orig (v # vs) = bind_act (to_mojo E orig v) (\<lambda>v. bind_act (to_mojo_all E orig vs) (\<lambda>vs. ret_act (v # vs)))"

text \<open>Positional arguments first, then the values of the keyword arguments.\<close>

definition convert_args :: "interop_env \<Rightarrow> pyval list \<Rightarrow> pyval list \<Rightarrow> (pyval list \<times> pyval list \<times> (nat, nat) dict) act" where
  "convert_args E args kwargs =
     bind_act (to_cuda_all E args []) (\<lambda>(cuda_args, orig).
     bind_act (to_cuda_all E kwargs orig) (\<lambda>(cuda_kwargs, orig). ret_act (cuda_args, cuda_kwargs, orig)))"

subsection \<open>The stream\<close>

definition external_stream :: "interop_env \<Rightarrow> nat \<Rightarrow> nat act" where
  "external_stream E index = (\<lambda>st.
     let stream = ie_stream E index in
     case dget (ix_external st) (index, stream) of
       Some handle \<Rightarrow> (st, Inr handle)
     | None \<Rightarrow>
         (let handle = ie_handle E index stream in
          if handle = 0 then (st, Inl (RuntimeError ''no vendor stream handle''))
          else (st\<lparr>ix_external := dput (index, stream) handle (ix_external st)\<rparr>, Inr handle)))"

text \<open>\<open>with torch.cuda.stream(external)\<close> sets the current stream (and device) and restores both.\<close>

definition on_mojo_stream :: "interop_env \<Rightarrow> nat \<Rightarrow> 'a act \<Rightarrow> 'a act" where
  "on_mojo_stream E index body =
     bind_act (external_stream E index) (\<lambda>external st.
       case body (st\<lparr>ix_ordering := Some index, ix_cuda_stream := (index, external)\<rparr>) of
         (st', r) \<Rightarrow> (st'\<lparr>ix_ordering := ix_ordering st, ix_cuda_stream := ix_cuda_stream st\<rparr>, r))"

type_synonym cuda_function = "pyval list \<Rightarrow> pyval list \<Rightarrow> pyval act"

definition run_converted :: "interop_env \<Rightarrow> cuda_function \<Rightarrow> pyval list \<Rightarrow> pyval list \<Rightarrow> pyval act" where
  "run_converted E fn args kwargs =
     bind_act (convert_args E args kwargs) (\<lambda>(cuda_args, cuda_kwargs, orig).
     bind_act (fn cuda_args cuda_kwargs) (\<lambda>out. to_mojo E orig out))"

definition argument_index :: "tensor_object list \<Rightarrow> pyval list \<Rightarrow> pyval list \<Rightarrow> nat option" where
  "argument_index h args kwargs = (case first_mojo_index h args of Some i \<Rightarrow> Some i | None \<Rightarrow> first_mojo_index h kwargs)"

definition call_cuda :: "interop_env \<Rightarrow> cuda_function \<Rightarrow> pyval list \<Rightarrow> pyval list \<Rightarrow> pyval act" where
  "call_cuda E fn args kwargs = (\<lambda>st.
     case argument_index (ix_heap st) args kwargs of
       None \<Rightarrow> (st, Inl (ValueError ''call_cuda needs at least one mojo tensor among its arguments''))
     | Some index \<Rightarrow> on_mojo_stream E index (run_converted E fn args kwargs) st)"

definition cuda_fallback :: "interop_env \<Rightarrow> string \<Rightarrow> cuda_function \<Rightarrow> pyval list \<Rightarrow> pyval list \<Rightarrow> pyval act" where
  "cuda_fallback E name op args kwargs = (\<lambda>st.
     let st = st\<lparr>ix_counts := dput name (or_else (dget (ix_counts st) name) 0 + 1) (ix_counts st)\<rparr> in
     case argument_index (ix_heap st) args kwargs of
       None \<Rightarrow> (st, Inl (NotImplementedError ''the mojo CUDA fallback with no mojo tensor to convert''))
     | Some index \<Rightarrow> on_mojo_stream E index (run_converted E op args kwargs) st)"

subsection \<open>What the traversals keep\<close>

text \<open>Converting only adds objects to the heap and entries for the new objects to \<open>originals\<close>.\<close>

definition extends :: "interop \<Rightarrow> interop \<Rightarrow> bool" where
  "extends st st' \<longleftrightarrow> (\<exists>new. st' = st\<lparr>ix_heap := ix_heap st @ new\<rparr>)"

definition keys_below :: "(nat, nat) dict \<Rightarrow> interop \<Rightarrow> bool" where
  "keys_below orig st \<longleftrightarrow> (\<forall>a x. dget orig a = Some x \<longrightarrow> a < length (ix_heap st))"

definition keeps_entries :: "(nat, nat) dict \<Rightarrow> (nat, nat) dict \<Rightarrow> bool" where
  "keeps_entries orig orig' \<longleftrightarrow> (\<forall>a x. dget orig a = Some x \<longrightarrow> dget orig' a = Some x)"

lemma extends_refl [intro, simp]: "extends st st"
  unfolding extends_def by (rule exI[of _ "[]"]) simp

lemma extends_trans: "extends st st' \<Longrightarrow> extends st' st'' \<Longrightarrow> extends st st''"
  unfolding extends_def by (elim exE) (rule exI, simp)

lemma extendsD:
  "extends st st' \<Longrightarrow> t < length (ix_heap st) \<Longrightarrow> t < length (ix_heap st') \<and> ix_heap st' ! t = ix_heap st ! t"
  "extends st st' \<Longrightarrow> ix_ordering st' = ix_ordering st \<and> ix_cuda_stream st' = ix_cuda_stream st \<and> length (ix_heap st) \<le> length (ix_heap st')"
  by (auto simp: extends_def nth_append)

lemma keeps_refl [intro, simp]: "keeps_entries orig orig"
  by (simp add: keeps_entries_def)

lemma keeps_trans: "keeps_entries a b \<Longrightarrow> keeps_entries b c \<Longrightarrow> keeps_entries a c"
  by (simp add: keeps_entries_def)

lemma bind_actE:
  assumes "bind_act m f st = (st', Inr y)"
  obtains st1 x where "m st = (st1, Inr x)" "f x st1 = (st', Inr y)"
  using assms by (auto simp: bind_act_def split: prod.splits sum.splits)

lemma ret_act_eq [simp]: "ret_act x st = (st', r) \<longleftrightarrow> st' = st \<and> r = Inr x"
  by (auto simp: ret_act_def)

lemma as_cuda_Inr:
  assumes "as_cuda E t False st = (st', Inr a)"
  shows "a = length (ix_heap st) \<and> ix_ordering st = Some (gpu_index (tx_device (ix_heap st ! t)))
    \<and> gpu_index (tx_device (ix_heap st ! t)) < ie_cuda_count E
    \<and> st' = st\<lparr>ix_heap := ix_heap st @ [\<lparr>tx_device = Dev CudaDev (Some (gpu_index (tx_device (ix_heap st ! t)))), tx_memory = tx_memory (ix_heap st ! t)\<rparr>]\<rparr>"
  using assms by (auto simp: as_cuda_def Let_def require_ordering_def bind_act_def new_tensor_object_def split: if_splits option.splits)

fun leaves :: "pyval \<Rightarrow> nat list" and leaves_all :: "pyval list \<Rightarrow> nat list" where
  "leaves (PTensor t) = [t]"
| "leaves (PList vs) = leaves_all vs"
| "leaves (PTuple vs) = leaves_all vs"
| "leaves (PDict ks vs) = leaves_all vs"
| "leaves _ = []"
| "leaves_all [] = []"
| "leaves_all (v # vs) = leaves v @ leaves_all vs"

text \<open>\<open>w\<close> is \<open>v\<close> with an alias in the place of every mojo tensor and a CUDA device in the place of every mojo device.\<close>

definition alias_of :: "tensor_object list \<Rightarrow> tensor_object list \<Rightarrow> nat \<Rightarrow> nat \<Rightarrow> bool" where
  "alias_of h h' t a \<longleftrightarrow>
     (if is_kind MojoDev (tx_device (h ! t))
      then length h \<le> a \<and> a < length h' \<and> h' ! a = \<lparr>tx_device = Dev CudaDev (Some (gpu_index (tx_device (h ! t)))), tx_memory = tx_memory (h ! t)\<rparr>
      else a = t)"

fun aliased :: "(nat \<Rightarrow> nat \<Rightarrow> bool) \<Rightarrow> pyval \<Rightarrow> pyval \<Rightarrow> bool" and aliased_all :: "(nat \<Rightarrow> nat \<Rightarrow> bool) \<Rightarrow> pyval list \<Rightarrow> pyval list \<Rightarrow> bool" where
  "aliased R (PTensor t) w = (\<exists>a. w = PTensor a \<and> R t a)"
| "aliased R (PList vs) w = (\<exists>ws. w = PList ws \<and> aliased_all R vs ws)"
| "aliased R (PTuple vs) w = (\<exists>ws. w = PTuple ws \<and> aliased_all R vs ws)"
| "aliased R (PDict ks vs) w = (\<exists>ws. w = PDict ks ws \<and> aliased_all R vs ws)"
| "aliased R (PDevice d) w = (w = PDevice (if is_kind MojoDev d then Dev CudaDev (Some (gpu_index d)) else d))"
| "aliased R (POther n) w = (w = POther n)"
| "aliased_all R [] ws = (ws = [])"
| "aliased_all R (v # vs) ws = (\<exists>w us. ws = w # us \<and> aliased R v w \<and> aliased_all R vs us)"

lemma aliased_mono:
  "(\<And>t a. t \<in> set (leaves v) \<Longrightarrow> R t a \<Longrightarrow> R' t a) \<Longrightarrow> aliased R v w \<Longrightarrow> aliased R' v w"
  "(\<And>t a. t \<in> set (leaves_all vs) \<Longrightarrow> R t a \<Longrightarrow> R' t a) \<Longrightarrow> aliased_all R vs ws \<Longrightarrow> aliased_all R' vs ws"
  by (induction v and vs arbitrary: w and ws rule: leaves_leaves_all.induct) (fastforce simp: Un_iff)+

text \<open>The alias, and its entry in \<open>originals\<close>.\<close>

definition recorded_alias :: "interop \<Rightarrow> interop \<Rightarrow> (nat, nat) dict \<Rightarrow> nat \<Rightarrow> nat \<Rightarrow> bool" where
  "recorded_alias st st' orig t a \<longleftrightarrow> alias_of (ix_heap st) (ix_heap st') t a
     \<and> (is_kind MojoDev (tx_device (ix_heap st ! t)) \<longrightarrow> dget orig a = Some t)"

lemma recorded_later:
  assumes "extends st' st''" "keeps_entries orig orig'" "recorded_alias st st' orig t a"
  shows "recorded_alias st st'' orig' t a"
  using assms extendsD(1)[OF assms(1), of a] by (auto simp: recorded_alias_def alias_of_def keeps_entries_def split: if_splits)

lemma recorded_earlier:
  assumes "extends st st'" "t < length (ix_heap st)" "recorded_alias st' st'' orig t a"
  shows "recorded_alias st st'' orig t a"
  using assms(3) extendsD(1)[OF assms(1,2)] extendsD(2)[OF assms(1)] by (auto simp: recorded_alias_def alias_of_def split: if_splits)

definition on_device :: "interop_env \<Rightarrow> interop \<Rightarrow> nat \<Rightarrow> bool" where
  "on_device E st t \<longleftrightarrow> (is_kind MojoDev (tx_device (ix_heap st ! t)) \<longrightarrow>
     ix_ordering st = Some (gpu_index (tx_device (ix_heap st ! t))) \<and> gpu_index (tx_device (ix_heap st ! t)) < ie_cuda_count E)"

definition converted :: "interop_env \<Rightarrow> interop \<Rightarrow> interop \<Rightarrow> (nat, nat) dict \<Rightarrow> (nat, nat) dict \<Rightarrow> nat list \<Rightarrow> bool" where
  "converted E st st' orig orig' ts \<longleftrightarrow> extends st st' \<and> keys_below orig' st' \<and> keeps_entries orig orig' \<and> (\<forall>t \<in> set ts. on_device E st t)"

lemma to_cuda_converts:
  "to_cuda E v orig st = (st', Inr (w, orig')) \<Longrightarrow> \<forall>t \<in> set (leaves v). t < length (ix_heap st) \<Longrightarrow> keys_below orig st \<Longrightarrow>
     converted E st st' orig orig' (leaves v) \<and> aliased (recorded_alias st st' orig') v w"
  "to_cuda_all E vs orig st = (st', Inr (ws, orig')) \<Longrightarrow> \<forall>t \<in> set (leaves_all vs). t < length (ix_heap st) \<Longrightarrow> keys_below orig st \<Longrightarrow>
     converted E st st' orig orig' (leaves_all vs) \<and> aliased_all (recorded_alias st st' orig') vs ws"
proof (induction E v orig and E vs orig arbitrary: st st' w orig' and st st' ws orig' rule: to_cuda_to_cuda_all.induct)
  case (1 E t orig)
  show ?case
  proof (cases "is_kind MojoDev (tx_device (ix_heap st ! t))")
    case False
    then show ?thesis using 1 by (auto simp: converted_def on_device_def recorded_alias_def alias_of_def)
  next
    case True
    then obtain a where a: "as_cuda E t False st = (st', Inr a)" "w = PTensor a" "orig' = dput a t orig"
      using "1.prems"(1) by (auto elim!: bind_actE)
    note as_cuda_Inr[OF a(1)]
    then show ?thesis using True a "1.prems"(2,3)
      by (auto simp: converted_def extends_def on_device_def recorded_alias_def alias_of_def keys_below_def keeps_entries_def less_Suc_eq)
  qed
next
  case (8 E v vs orig)
  obtain st1 w1 orig1 ws1 where s: "to_cuda E v orig st = (st1, Inr (w1, orig1))" "to_cuda_all E vs orig1 st1 = (st', Inr (ws1, orig'))" "ws = w1 # ws1"
    using "8.prems"(1) by (auto elim!: bind_actE)
  have l: "\<forall>t \<in> set (leaves v). t < length (ix_heap st)" "\<forall>t \<in> set (leaves_all vs). t < length (ix_heap st)" using "8.prems"(2) by auto
  have c1: "converted E st st1 orig orig1 (leaves v)" "aliased (recorded_alias st st1 orig1) v w1"
    using "8.IH"(1)[OF s(1) l(1) "8.prems"(3)] by blast+
  then have e1: "extends st st1" by (simp add: converted_def)
  have l1: "\<forall>t \<in> set (leaves_all vs). t < length (ix_heap st1)" using l(2) extendsD(1)[OF e1] by blast
  have c2: "converted E st1 st' orig1 orig' (leaves_all vs)" "aliased_all (recorded_alias st1 st' orig') vs ws1"
    using "8.IH"(2)[OF s(2) l1] c1(1) by (auto simp: converted_def)
  have od: "on_device E st t" if "t \<in> set (leaves_all vs)" for t
    using c2(1) that l(2) extendsD[OF e1] by (auto simp: converted_def on_device_def)
  have "converted E st st' orig orig' (leaves_all (v # vs))"
    using c1(1) c2(1) od extends_trans keeps_trans by (auto simp: converted_def)
  moreover have "aliased (recorded_alias st st' orig') v w1"
    by (rule aliased_mono(1)[OF _ c1(2)]) (use c2(1) recorded_later in \<open>auto simp: converted_def\<close>)
  moreover have "aliased_all (recorded_alias st st' orig') vs ws1"
    by (rule aliased_mono(2)[OF _ c2(2)]) (use l(2) recorded_earlier[OF e1] in auto)
  ultimately show ?case using s(3) by simp
qed (fastforce simp: converted_def elim!: bind_actE)+

text \<open>A value that holds no CUDA tensor and names no mojo device comes back as the same object.\<close>

fun comes_home :: "tensor_object list \<Rightarrow> pyval \<Rightarrow> bool" and comes_home_all :: "tensor_object list \<Rightarrow> pyval list \<Rightarrow> bool" where
  "comes_home h (PTensor t) = (\<not> is_kind CudaDev (tx_device (h ! t)))"
| "comes_home h (PList vs) = comes_home_all h vs"
| "comes_home h (PTuple vs) = comes_home_all h vs"
| "comes_home h (PDict ks vs) = comes_home_all h vs"
| "comes_home h (PDevice d) = (\<not> is_kind MojoDev d)"
| "comes_home h (POther n) = True"
| "comes_home_all h [] = True"
| "comes_home_all h (v # vs) = (comes_home h v \<and> comes_home_all h vs)"

lemma to_mojo_back:
  assumes "extends st st'" "extends st' st2"
  shows "aliased (recorded_alias st st' orig) v w \<Longrightarrow> \<forall>t \<in> set (leaves v). t < length (ix_heap st) \<Longrightarrow> comes_home (ix_heap st) v \<Longrightarrow>
      to_mojo E orig w st2 = (st2, Inr v)"
    "aliased_all (recorded_alias st st' orig) vs ws \<Longrightarrow> \<forall>t \<in> set (leaves_all vs). t < length (ix_heap st) \<Longrightarrow> comes_home_all (ix_heap st) vs \<Longrightarrow>
      to_mojo_all E orig ws st2 = (st2, Inr vs)"
proof (induction v and vs arbitrary: w and ws rule: leaves_leaves_all.induct)
  case (1 t)
  then obtain a where a: "w = PTensor a" "recorded_alias st st' orig t a" by auto
  have t: "ix_heap st2 ! t = ix_heap st ! t" using 1(2) extendsD(1)[OF extends_trans[OF assms]] by simp
  show ?case
  proof (cases "is_kind MojoDev (tx_device (ix_heap st ! t))")
    case True
    then have "a < length (ix_heap st')" "is_kind CudaDev (tx_device (ix_heap st' ! a))" "dget orig a = Some t"
      using a(2) by (auto simp: recorded_alias_def alias_of_def)
    then show ?thesis using a(1) extendsD(1)[OF assms(2)] by simp
  next
    case False
    then show ?thesis using a 1(3) t by (simp add: recorded_alias_def alias_of_def)
  qed
qed (auto simp: bind_act_def ret_act_def)

lemma on_device_later: "extends st st' \<Longrightarrow> t < length (ix_heap st) \<Longrightarrow> on_device E st' t = on_device E st t"
  using extendsD[of st st'] by (auto simp: on_device_def)

lemma to_cuda_total:
  "\<forall>t \<in> set (leaves v). t < length (ix_heap st) \<and> on_device E st t \<Longrightarrow> keys_below orig st \<Longrightarrow> \<exists>st' w orig'. to_cuda E v orig st = (st', Inr (w, orig'))"
  "\<forall>t \<in> set (leaves_all vs). t < length (ix_heap st) \<and> on_device E st t \<Longrightarrow> keys_below orig st \<Longrightarrow>
     \<exists>st' ws orig'. to_cuda_all E vs orig st = (st', Inr (ws, orig'))"
proof (induction v and vs arbitrary: orig st and orig st rule: leaves_leaves_all.induct)
  case (1 t)
  then show ?case
    by (auto simp: on_device_def bind_act_def as_cuda_def require_ordering_def new_tensor_object_def ret_act_def Let_def)
next
  case (7 v vs)
  obtain st1 w orig1 where s: "to_cuda E v orig st = (st1, Inr (w, orig1))" using "7.IH"(1)[of st orig] "7.prems" by auto
  have c: "converted E st st1 orig orig1 (leaves v)" using to_cuda_converts(1)[OF s] "7.prems" by auto
  then have "\<forall>t \<in> set (leaves_all vs). t < length (ix_heap st1) \<and> on_device E st1 t"
    using "7.prems"(1) extendsD(1) on_device_later by (auto simp: converted_def)
  then show ?case using "7.IH"(2)[of st1 orig1] c s by (auto simp: converted_def bind_act_def ret_act_def)
qed (fastforce simp: bind_act_def ret_act_def)+

lemma leaves_all_append [simp]: "leaves_all (vs @ ws) = leaves_all vs @ leaves_all ws"
  by (induction vs) simp_all

lemma aliased_all_append:
  "aliased_all R vs us \<Longrightarrow> aliased_all R ws xs \<Longrightarrow> aliased_all R (vs @ ws) (us @ xs)"
  by (induction vs arbitrary: us) auto

lemma aliased_all_nth: "aliased_all R vs ws \<Longrightarrow> length ws = length vs \<and> (\<forall>i < length vs. aliased R (vs ! i) (ws ! i))"
  by (induction vs arbitrary: ws) (auto simp: nth_Cons split: nat.split)

lemma convert_args_converts:
  assumes "convert_args E args kwargs st = (st', Inr (as, ks, orig))" "\<forall>t \<in> set (leaves_all (args @ kwargs)). t < length (ix_heap st)"
  shows "extends st st' \<and> (\<forall>t \<in> set (leaves_all (args @ kwargs)). on_device E st t)
    \<and> aliased_all (recorded_alias st st' orig) (args @ kwargs) (as @ ks) \<and> length as = length args"
proof -
  obtain st1 orig1 where s: "to_cuda_all E args [] st = (st1, Inr (as, orig1))" "to_cuda_all E kwargs orig1 st1 = (st', Inr (ks, orig))"
    using assms(1) by (auto simp: convert_args_def elim!: bind_actE)
  have c1: "converted E st st1 [] orig1 (leaves_all args)" "aliased_all (recorded_alias st st1 orig1) args as"
    using to_cuda_converts(2)[OF s(1)] assms(2) by (auto simp: keys_below_def)
  then have e: "extends st st1" "keys_below orig1 st1" by (auto simp: converted_def)
  have l: "\<forall>t \<in> set (leaves_all kwargs). t < length (ix_heap st1)" using assms(2) extendsD(1)[OF e(1)] by auto
  have c2: "converted E st1 st' orig1 orig (leaves_all kwargs)" "aliased_all (recorded_alias st1 st' orig) kwargs ks"
    using to_cuda_converts(2)[OF s(2) l e(2)] by blast+
  have "aliased_all (recorded_alias st st' orig) args as"
    by (rule aliased_mono(2)[OF _ c1(2)]) (use c2(1) recorded_later in \<open>auto simp: converted_def\<close>)
  moreover have "aliased_all (recorded_alias st st' orig) kwargs ks"
    by (rule aliased_mono(2)[OF _ c2(2)]) (use assms(2) recorded_earlier[OF e(1)] in auto)
  ultimately show ?thesis
    using c1 c2 assms(2) extends_trans[OF e(1)] on_device_later[OF e(1)] aliased_all_append aliased_all_nth
    by (auto simp: converted_def)
qed

subsection \<open>Calls\<close>

lemma external_stream_keeps:
  "external_stream E i st = (st1, r) \<Longrightarrow> ix_heap st1 = ix_heap st \<and> ix_ordering st1 = ix_ordering st \<and> ix_cuda_stream st1 = ix_cuda_stream st"
  by (auto simp: external_stream_def Let_def split: option.splits if_splits)

lemma on_mojo_stream_restores:
  "ix_ordering (fst (on_mojo_stream E i body st)) = ix_ordering st \<and> ix_cuda_stream (fst (on_mojo_stream E i body st)) = ix_cuda_stream st"
proof (cases "external_stream E i st")
  case (Pair st1 r)
  then show ?thesis using external_stream_keeps[OF Pair] by (cases r) (auto simp: on_mojo_stream_def bind_act_def split: prod.split)
qed

text \<open>Whatever a CUDA function does and however it ends, by a value, an exception of its own or one of the conversions, the
  calling thread's ordering device and torch.cuda's current stream are afterwards what they were before.\<close>

theorem call_restores_thread:
  "ix_ordering (fst (call_cuda E fn args kwargs st)) = ix_ordering st \<and> ix_cuda_stream (fst (call_cuda E fn args kwargs st)) = ix_cuda_stream st
   \<and> ix_ordering (fst (cuda_fallback E name fn args kwargs st)) = ix_ordering st
   \<and> ix_cuda_stream (fst (cuda_fallback E name fn args kwargs st)) = ix_cuda_stream st"
  by (auto simp: call_cuda_def cuda_fallback_def Let_def on_mojo_stream_restores split: option.split)

definition inside :: "nat \<Rightarrow> nat \<Rightarrow> interop \<Rightarrow> interop" where
  "inside i external st = st\<lparr>ix_ordering := Some i, ix_cuda_stream := (i, external)\<rparr>"

lemma call_cuda_inside:
  assumes "argument_index (ix_heap st) args kwargs = Some i"
  shows "call_cuda E fn args kwargs st = (case external_stream E i st of
      (st1, Inl e) \<Rightarrow> (st1, Inl e)
    | (st1, Inr external) \<Rightarrow> (case run_converted E fn args kwargs (inside i external st1) of
        (st2, r) \<Rightarrow> (st2\<lparr>ix_ordering := ix_ordering st1, ix_cuda_stream := ix_cuda_stream st1\<rparr>, r)))"
  using assms by (simp add: call_cuda_def on_mojo_stream_def bind_act_def inside_def split: prod.split sum.split)


text \<open>One call is one device: when an argument holds a mojo tensor of another device than the first one, the call raises
  and the function never runs.\<close>

theorem one_device_per_call:
  assumes "argument_index (ix_heap st) args kwargs = Some i"
    and ids: "\<forall>t \<in> set (leaves_all (args @ kwargs)). t < length (ix_heap st)"
    and t: "t \<in> set (leaves_all (args @ kwargs))" "is_kind MojoDev (tx_device (ix_heap st ! t))" "gpu_index (tx_device (ix_heap st ! t)) \<noteq> i"
  shows "\<exists>st' e. \<forall>fn. call_cuda E fn args kwargs st = (st', Inl e)"
proof (cases "external_stream E i st")
  case (Pair st1 r)
  show ?thesis
  proof (cases r)
    case (Inl e)
    then show ?thesis using Pair unfolding call_cuda_inside[OF assms(1)] by auto
  next
    case (Inr ext)
    let ?s = "inside i ext st1"
    have h: "ix_heap ?s = ix_heap st" using external_stream_keeps[OF Pair] by (simp add: inside_def)
    obtain s1 q where c: "convert_args E args kwargs ?s = (s1, q)" by fastforce
    have "\<not> on_device E ?s t" using t(2,3) h by (auto simp: on_device_def inside_def)
    then obtain e where "q = Inl e" using convert_args_converts[of E args kwargs ?s s1] c ids t(1) h by (cases q) auto
    then have "run_converted E fn args kwargs ?s = (s1, Inl e)" for fn using c by (simp add: run_converted_def bind_act_def)
    then show ?thesis using Pair Inr unfolding call_cuda_inside[OF assms(1)] by auto
  qed
qed

text \<open>C40: When every mojo tensor among the arguments is on the first one's device, the function runs once, on CUDA aliases of
  the mojo tensors (same memory, same device number), with the mojo current stream of that device installed as
  torch.cuda's, and what it returns is the call's result once its CUDA tensors are mojo tensors again.\<close>

theorem call_runs_on_aliases:
  assumes "argument_index (ix_heap st) args kwargs = Some i"
    and ids: "\<forall>t \<in> set (leaves_all (args @ kwargs)). t < length (ix_heap st)"
    and dev: "i < ie_cuda_count E" "\<forall>t \<in> set (leaves_all (args @ kwargs)). is_kind MojoDev (tx_device (ix_heap st ! t)) \<longrightarrow> gpu_index (tx_device (ix_heap st ! t)) = i"
    and handle: "ie_handle E i (ie_stream E i) = hd'" "hd' \<noteq> 0" "\<forall>h. dget (ix_external st) (i, ie_stream E i) = Some h \<longrightarrow> h = hd'"
  shows "\<exists>s1 as ks orig. length as = length args \<and> ix_ordering s1 = Some i \<and> ix_cuda_stream s1 = (i, hd')
    \<and> aliased_all (alias_of (ix_heap st) (ix_heap s1)) (args @ kwargs) (as @ ks)
    \<and> (\<forall>fn. snd (call_cuda E fn args kwargs st) = snd (bind_act (fn as ks) (to_mojo E orig) s1))"
proof -
  obtain st1 where e: "external_stream E i st = (st1, Inr hd')"
    using handle by (cases "dget (ix_external st) (i, ie_stream E i)") (auto simp: external_stream_def Let_def)
  let ?s = "inside i hd' st1"
  have h: "ix_heap ?s = ix_heap st" using external_stream_keeps[OF e] by (simp add: inside_def)
  have od: "\<forall>t \<in> set (leaves_all (args @ kwargs)). t < length (ix_heap ?s) \<and> on_device E ?s t"
    using ids dev h by (auto simp: on_device_def inside_def)
  obtain s1 as orig1 where a: "to_cuda_all E args [] ?s = (s1, Inr (as, orig1))"
    using to_cuda_total(2)[of args ?s E "[]"] od by (auto simp: keys_below_def)
  have c: "converted E ?s s1 [] orig1 (leaves_all args)" using to_cuda_converts(2)[OF a] od by (auto simp: keys_below_def)
  then have "\<forall>t \<in> set (leaves_all kwargs). t < length (ix_heap s1) \<and> on_device E s1 t"
    using od extendsD(1) on_device_later by (auto simp: converted_def)
  then obtain s2 ks orig where k: "to_cuda_all E kwargs orig1 s1 = (s2, Inr (ks, orig))"
    using to_cuda_total(2)[of kwargs s1 E orig1] c by (auto simp: converted_def)
  have conv: "convert_args E args kwargs ?s = (s2, Inr (as, ks, orig))" using a k by (simp add: convert_args_def bind_act_def ret_act_def)
  have ids': "\<forall>t \<in> set (leaves_all (args @ kwargs)). t < length (ix_heap ?s)" using od by blast
  have x: "extends ?s s2" "aliased_all (recorded_alias ?s s2 orig) (args @ kwargs) (as @ ks)" "length as = length args"
    using convert_args_converts[OF conv ids'] by blast+
  have "aliased_all (alias_of (ix_heap st) (ix_heap s2)) (args @ kwargs) (as @ ks)"
    by (rule aliased_mono(2)[OF _ x(2)]) (simp add: recorded_alias_def h)
  moreover have "ix_ordering s2 = Some i" "ix_cuda_stream s2 = (i, hd')" using extendsD(2)[OF x(1)] by (simp_all add: inside_def)
  moreover have "snd (call_cuda E fn args kwargs st) = snd (bind_act (fn as ks) (to_mojo E orig) s2)" for fn
    unfolding call_cuda_inside[OF assms(1)] by (simp add: e run_converted_def bind_act_def conv split: prod.split)
  ultimately show ?thesis using x(3) by blast
qed


subsection \<open>The theorems at a concrete call\<close>

definition ex_env :: interop_env where
  "ex_env = \<lparr>ie_cuda_count = 2, ie_mojo_count = 2, ie_stream = (\<lambda>i. 5), ie_handle = (\<lambda>i s. 100 + i)\<rparr>"

definition ex_thread :: interop where
  "ex_thread = \<lparr>ix_heap = [\<lparr>tx_device = Dev MojoDev None, tx_memory = 7\<rparr>, \<lparr>tx_device = Dev MojoDev (Some 0), tx_memory = 8\<rparr>,
     \<lparr>tx_device = Dev OtherDev None, tx_memory = 9\<rparr>, \<lparr>tx_device = Dev MojoDev (Some 1), tx_memory = 7\<rparr>],
     ix_ordering = None, ix_cuda_stream = (0, 0), ix_external = [], ix_counts = []\<rparr>"

definition second_argument :: cuda_function where
  "second_argument as ks = ret_act ((as @ ks) ! 1)"

lemmas ex_eval = ex_env_def ex_thread_def call_cuda_def argument_index_def on_mojo_stream_def external_stream_def bind_act_def ret_act_def
  run_converted_def convert_args_def as_cuda_def require_ordering_def new_tensor_object_def second_argument_def


theorem one_device_per_call_witness:
  "\<exists>st' e. \<forall>fn. call_cuda ex_env fn [PTensor 0, PTensor 3] [] ex_thread = (st', Inl e)"
  by (rule one_device_per_call[where i = 0 and t = 3]) (simp_all add: ex_thread_def argument_index_def)

theorem call_runs_on_aliases_witness:
  "\<exists>s1 as ks orig. length as = length [PTensor 0] \<and> ix_ordering s1 = Some 0 \<and> ix_cuda_stream s1 = (0, 100)
    \<and> aliased_all (alias_of (ix_heap ex_thread) (ix_heap s1)) ([PTensor 0] @ [PTensor 1]) (as @ ks)
    \<and> (\<forall>fn. snd (call_cuda ex_env fn [PTensor 0] [PTensor 1] ex_thread) = snd (bind_act (fn as ks) (to_mojo ex_env orig) s1))"
  by (rule call_runs_on_aliases) (simp_all add: ex_thread_def ex_env_def argument_index_def)

end
