(* ===== verification/Spec2Isabelle.thy ===== *)
theory Spec2Isabelle
  imports FR_Dump_Lemmas FR_Json FR_Poller Store_Worker Ptxas_Choice PG_Reporter PG_Chunks PG_Pinning
    TC_Waits TC_Outputs TC_Buffers TC_Ordering TC_Regions
    AT_Index AT_Band AT_Median AT_Reduce AT_Pads NB_Closure NB_Cache CI_Interop
begin

text \<open>
  A verification development for torch-mojo-backend (sources under \<^verbatim>\<open>src/torch_mojo_backend/\<close>), a backend of
  PyTorch on MAX and Mojo. It models the Python code that carries logic of its own: the distributed
  process group and its flight recorder (\<^verbatim>\<open>distributed/\<close>), the choice of an assembler for Triton
  (\<^verbatim>\<open>_ptxas.py\<close>), the cache of natively built libraries (\<^verbatim>\<open>native/__init__.py\<close>), the compiler backend
  (\<^verbatim>\<open>torch_compile_backend/\<close>) and, of the lowerings of torch's operators to MAX (\<^verbatim>\<open>aten_functions.py\<close>), those that
  compute shapes, indices and orders rather than arithmetic.

  The parts and how they meet. A process group (\<^verbatim>\<open>process_group.py\<close>) issues collectives through a native
  library, records each in the ring of the flight recorder (\<^verbatim>\<open>flight_recorder.py\<close>), and, when its watchdog
  reports an incident, publishes what it knows through the job's store, running store calls on worker
  threads it may abandon (\<^verbatim>\<open>store_worker.py\<close>). A monitor thread polls the store for dump generations that
  other ranks signal and dumps the ring. The native library behind the device is taken from a cache that all
  processes of a machine share. A compiled graph starts its collectives through the same group
  (\<^verbatim>\<open>collectives.py\<close>), takes its inputs from the caller's tensors and symbols, gives back outputs by a
  blueprint (\<^verbatim>\<open>compiler.py\<close>) and orders its work among the program's streams (\<^verbatim>\<open>streams.py\<close>). Each of its nodes is
  lowered by a function of \<^verbatim>\<open>aten_functions.py\<close>, which builds the operator's result from MAX's operations.

  Conventions. Python exceptions are values of \<open>py_error\<close> in a sum type, dictionaries association lists in
  insertion order, unbounded integers \<open>int\<close>, native words \<open>int\<close> with their masks written out, threads and
  devices numbers. Effects are explicit: a record of the state passed and returned, or a log of events.
  Foreign code (torch, MAX, NCCL, the store, sympy, the file system) is a parameter, or an event whose
  documented meaning is a definition (\<open>order\<close> in \<^theory_text>\<open>TC_Ordering\<close>).

  Theories and what they show.

  \<^item> \<^theory_text>\<open>Prelude\<close>, \<^theory_text>\<open>Py_Text\<close>, \<^theory_text>\<open>Py_Float\<close>: results, dictionaries, text of integers and strings, JSON, floats.
  \<^item> \<^theory_text>\<open>FR_Config\<close>, \<^theory_text>\<open>FR_Ring\<close>: settings read from the environment; the ring, the table of eager records by tag, groups
    and their retirement. An eager lookup answers exactly its own call while the ring holds it.
  \<^item> \<^theory_text>\<open>FR_Dump\<close>, \<^theory_text>\<open>FR_Dump_Lemmas\<close>, \<^theory_text>\<open>FR_Json\<close>: the dump's loops, refined by a row-by-row specification; completion of
    untracked and folded entries; the shape of the JSON.
  \<^item> \<^theory_text>\<open>FR_Store\<close>, \<^theory_text>\<open>FR_Generations\<close>, \<^theory_text>\<open>FR_Poller\<close>: signals and acknowledgements through the store; the ledger of claimed
    and finished generations (locale \<open>dump_ledger\<close>, interpreted on the code's functions); the monitor over all
    interleavings: no generation is dumped twice, a restarted server is served anew.
  \<^item> \<^theory_text>\<open>Store_Worker\<close>: deadlines, abandonment and staleness over all interleavings.
  \<^item> \<^theory_text>\<open>Ptxas\<close>, \<^theory_text>\<open>Ptxas_Choice\<close>: versions and targets, discovery, choice, advice and checks of ptxas.
  \<^item> \<^theory_text>\<open>PG_Desync\<close>, \<^theory_text>\<open>PG_Reporter\<close>: incident lines and their comparison across ranks; the reporter thread.
  \<^item> \<^theory_text>\<open>PG_State\<close>, \<^theory_text>\<open>PG_Collectives\<close>, \<^theory_text>\<open>PG_Runs\<close>, \<^theory_text>\<open>PG_Chunks\<close>: the group's state, every collective statement by
    statement, any sequence of calls from any threads (library groups never nest, a block's work is
    submitted before it is settled, a foreign failure unwinds it), the tiles of all-to-all.
  \<^item> \<^theory_text>\<open>PG_Pinning\<close>: \<open>use_local_rank_gpu\<close> leaves each rank exactly its GPU.
  \<^item> \<^theory_text>\<open>TC_Graph\<close>, \<^theory_text>\<open>TC_Collectives\<close>, \<^theory_text>\<open>TC_Waits\<close>: collectives of a graph, each waited for once and not read before;
    inputs an eager collective may still be writing.
  \<^item> \<^theory_text>\<open>TC_Symbols\<close>, \<^theory_text>\<open>TC_Sizes\<close>: symbolic sizes keep their value from the trace to a call, carriers included.
  \<^item> \<^theory_text>\<open>TC_Outputs\<close>: outputs that are inputs or views of them, and their reconstruction.
  \<^item> \<^theory_text>\<open>TC_Buffers\<close>: the cache of imported buffers.
  \<^item> \<^theory_text>\<open>TC_Streams\<close>, \<^theory_text>\<open>TC_Regions\<close>, \<^theory_text>\<open>TC_Ordering\<close>: cutting a graph into stream regions; a region's work is ordered with
    the program's streams, side streams, copies and the epilogue included.
  \<^item> \<^theory_text>\<open>AT_Tensor\<close>: MAX's operations on tensors, a record \<open>max_ops\<close> the lowerings take as an argument. What MAX documents
    of an operation is a predicate on that record (\<open>gather_ok\<close>, \<open>permute_ok\<close> and so on), a named hypothesis of the
    theorems that rely on it; \<open>ref_ops\<close> satisfies all of them, and the witnesses run on it.
  \<^item> \<^theory_text>\<open>AT_Shapes\<close>: broadcasting is the least common shape; the slice bounds fixed while tracing select what Python's
    slice does on each call that takes the same branches; the coordinates of a triangle.
  \<^item> \<^theory_text>\<open>AT_Views\<close>, \<^theory_text>\<open>AT_Gather\<close>, \<^theory_text>\<open>AT_Index\<close>, \<^theory_text>\<open>AT_Band\<close>, \<^theory_text>\<open>AT_Pads\<close>: transpose, diagonal, flip and unfold; gather,
    scatter_add, index_add, index_select, select_scatter, index and index_put; tril and triu; constant padding, crops included: each result element by element.
  \<^item> \<^theory_text>\<open>AT_Search\<close>, \<^theory_text>\<open>AT_Median\<close>: searchsorted and bucketize against the eager kernel's binary search
    (\<^verbatim>\<open>mojo/tmb/kernels/searchsorted/entry.mojo\<close>); medians, NaN-last orders, kthvalue, topk and sort.
  \<^item> \<^theory_text>\<open>AT_Reduce\<close>: reductions of several axes one at a time (locale \<open>aggregate\<close>, interpreted on sums, maxima and minima),
    all, any, argmax, argmin and squeeze.
  \<^item> \<^theory_text>\<open>NB_Closure\<close>: the sources a native build is keyed by are exactly those its imports reach, and a change to one
    of them changes what is digested.
  \<^item> \<^theory_text>\<open>NB_Cache\<close>: any number of processes building, installing and loading one library, statement by statement: the
    path never holds a part of a file, a shipped library keeps its mark, a compiled one stays, a process left alone
    recovers from a shipped library that does not load, and two that recover together may fail.
  \<^item> \<^theory_text>\<open>CI_Interop\<close>: CUDA functions called on mojo tensors (\<^verbatim>\<open>cuda_interop.py\<close>): they run on aliases of the same memory, on
    the mojo stream of one device, what they return of their arguments is those very objects, and the thread's
    streams are restored however the call ends. The autograd wrapper is left out.

  Bounds and fuel. Loops over lists are structural or have measures. The chain a wait follows through a
  graph is bounded by the number of nodes, which is enough because arguments name earlier nodes; the
  retry loops of the reporter and the monitor are bounded by the attempts the environment grants them, an
  argument of the model. The binary search halves an interval, so it terminates by the interval's length, and
  \<open>n\<close> probes are enough for fewer than \<open>2 ^ n\<close> boundaries.

  Not modelled: the lowerings of elementwise arithmetic, convolutions, attention and normalisation
  (\<^verbatim>\<open>aten_functions.py\<close>), as what they compute is MAX's floating-point arithmetic, and symbolic extents in the
  lowerings that are modelled; native code, the other Mojo kernels and their
  bindings (the rest of \<^verbatim>\<open>native/\<close>, \<^verbatim>\<open>mojo/\<close>), the compilers' command lines; wrappers of torch
  (\<^verbatim>\<open>monkeypatching.py\<close>, \<^verbatim>\<open>inductor.py\<close>, \<^verbatim>\<open>triton_driver.py\<close>), scripts, demos and tests; in the modelled
  files, threads' scheduling beyond the interleavings above, pipes, printing, profiling and ctypes.
\<close>

end
